(* ===== verification/Prelude.thy ===== *)
theory Prelude
  imports Main "HOL-Library.Word" "HOL-Library.AList" "HOL-Library.List_Lexorder"
    "HOL-Library.Char_ord"
begin

text \<open>
  What the component theories share: the machine integers and byte strings of the Rust code,
  little-endian byte conversion, the two map types of the standard library the code uses
  (\<open>HashMap\<close> and \<open>BTreeMap\<close>, both as association lists, so that every map is finite and its
  iteration order is a list), the string functions of the standard library, and two locales for
  contracts several components share: \<open>keyed_store\<close> (a lookup after an insert or a removal) and
  \<open>step_system\<close> (an invariant kept by every operation holds after every run).
\<close>

section \<open>Collections of facts\<close>

named_theorems store_simps \<open>lookups after updates of the maps of the model\<close>
named_theorems wf_intros \<open>preservation of the well-formedness of the maps of the model\<close>

section \<open>Machine integers, results, time\<close>

type_synonym u8 = "8 word"
type_synonym u32 = "32 word"
type_synonym u64 = "64 word"

abbreviation u64_max :: u64 where
  "u64_max \<equiv> - 1"

text \<open>
  \<open>Result<T, E>\<close> is the sum \<open>'e + 'a\<close> with \<open>Inl\<close> for \<open>Err\<close>. A \<open>DateTime<Utc>\<close> is the integer
  number of nanoseconds since the Unix epoch; every read of the clock is an argument of the
  operation that reads it. A Rust \<open>usize\<close> is a \<open>nat\<close> where the code only counts elements of a
  vector in memory.
\<close>

type_synonym datetime = int

definition timestamp_millis :: "datetime \<Rightarrow> int" where
  "timestamp_millis t = t div 1000000"

text \<open>
  \<open>Duration::seconds(n as i64)\<close>, in nanoseconds: the cast wraps, and a number of seconds whose
  milliseconds do not fit 64 signed bits panics.
\<close>

definition duration_seconds :: "u64 \<Rightarrow> int option" where
  "duration_seconds n =
     (let s = sint n in
      if - ((2 ^ 63 - 1) div 1000) \<le> s \<and> s \<le> (2 ^ 63 - 1) div 1000 then Some (s * 1000000000) else None)"

text \<open>A fallible step on a state, followed by another: the \<open>?\<close> of the code.\<close>

definition rs_bind ::
  "('s \<Rightarrow> ('e + 'a) \<times> 's) \<Rightarrow> ('a \<Rightarrow> 's \<Rightarrow> ('e + 'b) \<times> 's) \<Rightarrow> 's \<Rightarrow> ('e + 'b) \<times> 's" where
  "rs_bind m k s = (case m s of (Inl err, s') \<Rightarrow> (Inl err, s') | (Inr x, s') \<Rightarrow> k x s')"

lemma rs_bind_eq_Inr:
  "rs_bind m k s = (Inr y, s') \<longleftrightarrow> (\<exists>x s1. m s = (Inr x, s1) \<and> k x s1 = (Inr y, s'))"
  by (auto simp: rs_bind_def split: prod.splits sum.splits)

lemma rs_bind_eq_Inl:
  "rs_bind m k s = (Inl err, s') \<longleftrightarrow> m s = (Inl err, s') \<or> (\<exists>x s1. m s = (Inr x, s1) \<and> k x s1 = (Inl err, s'))"
  by (auto simp: rs_bind_def split: prod.splits sum.splits)

abbreviation is_ok :: "'e + 'a \<Rightarrow> bool" where
  "is_ok r \<equiv> \<not> isl r"

lemma word_less_plus_one: "x < y \<Longrightarrow> x < x + (1 :: 'a::len word)"
  by (metis inc_le linorder_not_le word_order.extremum_strict inc_less_eq_self_iff_eq)

section \<open>Little-endian bytes\<close>

fun nat_to_le :: "nat \<Rightarrow> nat \<Rightarrow> u8 list" where
  "nat_to_le 0 k = []"
| "nat_to_le (Suc n) k = word_of_nat k # nat_to_le n (k div 256)"

fun le_to_nat :: "u8 list \<Rightarrow> nat" where
  "le_to_nat [] = 0"
| "le_to_nat (b # bs) = unat b + 256 * le_to_nat bs"

definition u32_to_le :: "u32 \<Rightarrow> u8 list" where
  "u32_to_le w = nat_to_le 4 (unat w)"

definition u32_from_le :: "u8 list \<Rightarrow> u32" where
  "u32_from_le bs = word_of_nat (le_to_nat bs)"

definition u64_to_le :: "u64 \<Rightarrow> u8 list" where
  "u64_to_le w = nat_to_le 8 (unat w)"

definition u64_from_le :: "u8 list \<Rightarrow> u64" where
  "u64_from_le bs = word_of_nat (le_to_nat bs)"

lemma length_nat_to_le [simp]: "length (nat_to_le n k) = n"
  by (induction n arbitrary: k) auto

lemma length_u32_to_le [simp]: "length (u32_to_le w) = 4"
  by (simp add: u32_to_le_def)

lemma length_u64_to_le [simp]: "length (u64_to_le w) = 8"
  by (simp add: u64_to_le_def)

lemma unat_word_of_nat_u8: "unat (word_of_nat k :: u8) = k mod 256"
  by (simp add: unat_of_nat)

lemma le_to_nat_nat_to_le: "le_to_nat (nat_to_le n k) = k mod 256 ^ n"
proof (induction n arbitrary: k)
  case 0
  then show ?case by simp
next
  case (Suc n)
  have "k mod 256 + 256 * (k div 256 mod 256 ^ n) = k mod (256 * 256 ^ n)"
    by (simp add: mod_mult2_eq)
  with Suc show ?case by (simp add: unat_word_of_nat_u8)
qed

lemma u32_from_le_to_le [simp]: "u32_from_le (u32_to_le w) = w"
proof -
  have "unat w < 256 ^ 4" using unsigned_less [of w] by simp
  then show ?thesis by (simp add: u32_from_le_def u32_to_le_def le_to_nat_nat_to_le)
qed

lemma u64_from_le_to_le [simp]: "u64_from_le (u64_to_le w) = w"
proof -
  have "unat w < 256 ^ 8" using unsigned_less [of w] by simp
  then show ?thesis by (simp add: u64_from_le_def u64_to_le_def le_to_nat_nat_to_le)
qed

lemma le_to_nat_bound: "le_to_nat bs < 256 ^ length bs"
proof (induction bs)
  case Nil
  then show ?case by simp
next
  case (Cons b bs)
  have "unat b < 256" using unsigned_less [of b] by simp
  with Cons show ?case by simp
qed

lemma nat_to_le_le_to_nat: "nat_to_le (length bs) (le_to_nat bs) = bs"
proof (induction bs)
  case Nil
  then show ?case by simp
next
  case (Cons b bs)
  have "unat b < 256" using unsigned_less [of b] by simp
  then have "(unat b + 256 * le_to_nat bs) div 256 = le_to_nat bs"
    by simp
  moreover have "(word_of_nat (unat b + 256 * le_to_nat bs) :: u8) = b"
    by (rule word_unat_eq_iff [THEN iffD2]) (use \<open>unat b < 256\<close> in \<open>simp add: unat_word_of_nat_u8 del: of_nat_add\<close>)
  ultimately show ?case using Cons by simp
qed

lemma u32_to_le_from_le: "length bs = 4 \<Longrightarrow> u32_to_le (u32_from_le bs) = bs"
  using le_to_nat_bound [of bs] nat_to_le_le_to_nat [of bs]
  by (simp add: u32_to_le_def u32_from_le_def unat_of_nat)

lemma u64_to_le_from_le: "length bs = 8 \<Longrightarrow> u64_to_le (u64_from_le bs) = bs"
  using le_to_nat_bound [of bs] nat_to_le_le_to_nat [of bs]
  by (simp add: u64_to_le_def u64_from_le_def unat_of_nat)

lemma take_u32_to_le [simp]: "take 4 (u32_to_le w @ xs) = u32_to_le w"
  by simp

lemma drop_u32_to_le [simp]: "drop 4 (u32_to_le w @ xs) = xs"
  by simp

lemma take_u64_to_le [simp]: "take 8 (u64_to_le w @ xs) = u64_to_le w"
  by simp

lemma drop_u64_to_le [simp]: "drop 8 (u64_to_le w @ xs) = xs"
  by simp

text \<open>The half-open slice \<open>xs[i..j]\<close> of the code, for bounds the code has checked.\<close>

definition slice :: "'a list \<Rightarrow> nat \<Rightarrow> nat \<Rightarrow> 'a list" where
  "slice xs i j = take (j - i) (drop i xs)"

lemma length_slice: "j \<le> length xs \<Longrightarrow> length (slice xs i j) = j - i"
  by (simp add: slice_def)

lemma slice_zero [simp]: "slice xs 0 j = take j xs"
  by (simp add: slice_def)

lemma slice_middle: "length xs = i \<Longrightarrow> i + length ys = j \<Longrightarrow> slice (xs @ ys @ zs) i j = ys"
  by (auto simp: slice_def)

lemma slice_end: "length xs = i \<Longrightarrow> i + length ys = j \<Longrightarrow> slice (xs @ ys) i j = ys"
  using slice_middle [of xs i ys j "[]"] by simp

lemma take_slice: "i \<le> j \<Longrightarrow> take i xs @ slice xs i j = take j xs"
  by (metis le_add_diff_inverse slice_def take_add)

lemma in_set_map_filter: "y \<in> set (List.map_filter f xs) \<longleftrightarrow> (\<exists>x \<in> set xs. f x = Some y)"
  by (induction xs) (auto simp: List.map_filter_simps split: option.splits)

section \<open>Shared contracts\<close>

text \<open>
  A store that answers a lookup with the last value inserted: the contract of \<open>HashMap\<close>, of
  \<open>BTreeMap\<close> and of a storage backend.
\<close>

locale keyed_store =
  fixes lookup :: "'m \<Rightarrow> 'k \<Rightarrow> 'v option"
    and insert :: "'k \<Rightarrow> 'v \<Rightarrow> 'm \<Rightarrow> 'm"
    and remove :: "'k \<Rightarrow> 'm \<Rightarrow> 'm"
    and wf :: "'m \<Rightarrow> bool"
  assumes lookup_insert: "wf m \<Longrightarrow> lookup (insert k v m) j = (if j = k then Some v else lookup m j)"
    and lookup_remove: "wf m \<Longrightarrow> lookup (remove k m) j = (if j = k then None else lookup m j)"
    and wf_insert: "wf m \<Longrightarrow> wf (insert k v m)"
    and wf_remove: "wf m \<Longrightarrow> wf (remove k m)"
begin

lemma lookup_insert_same: "wf m \<Longrightarrow> lookup (insert k v m) k = Some v"
  by (simp add: lookup_insert)

lemma lookup_remove_same: "wf m \<Longrightarrow> lookup (remove k m) k = None"
  by (simp add: lookup_remove)

lemma insert_overwrites: "wf m \<Longrightarrow> lookup (insert k w (insert k v m)) = lookup (insert k w m)"
  by (rule ext) (simp add: lookup_insert wf_insert)

lemma insert_commutes:
  "wf m \<Longrightarrow> j \<noteq> k \<Longrightarrow> lookup (insert k w (insert j v m)) = lookup (insert j v (insert k w m))"
  by (rule ext) (simp add: lookup_insert wf_insert)

lemma remove_insert: "wf m \<Longrightarrow> lookup (remove k (insert k v m)) = lookup (remove k m)"
  by (rule ext) (simp add: lookup_insert lookup_remove wf_insert)

text \<open>Inserting a list of pairs one by one: the last pair of a key wins.\<close>

lemma wf_fold_insert: "wf m \<Longrightarrow> wf (fold (\<lambda>(k, v). insert k v) es m)"
  by (induction es arbitrary: m) (auto intro: wf_insert)

lemma lookup_fold_insert:
  "wf m \<Longrightarrow> lookup (fold (\<lambda>(k, v). insert k v) es m) j
    = (case map_of (rev es) j of None \<Rightarrow> lookup m j | Some v \<Rightarrow> Some v)"
  by (induction es arbitrary: m)
    (auto simp: lookup_insert wf_insert map_add_def split: option.splits)

end

text \<open>
  A component whose operations all keep an invariant keeps it over every sequence of
  operations. \<open>ok\<close> is what an operation requires of its caller in the state it runs in; a
  component that requires nothing has \<open>\<lambda>_ _. True\<close>.
\<close>

fun run :: "('s \<Rightarrow> 'l \<Rightarrow> 's) \<Rightarrow> 's \<Rightarrow> 'l list \<Rightarrow> 's" where
  "run step s [] = s"
| "run step s (l # ls) = run step (step s l) ls"

fun run_ok :: "('s \<Rightarrow> 'l \<Rightarrow> 's) \<Rightarrow> ('s \<Rightarrow> 'l \<Rightarrow> bool) \<Rightarrow> 's \<Rightarrow> 'l list \<Rightarrow> bool" where
  "run_ok step ok s [] = True"
| "run_ok step ok s (l # ls) = (ok s l \<and> run_ok step ok (step s l) ls)"

lemma run_append: "run step s (xs @ ys) = run step (run step s xs) ys"
  by (induction xs arbitrary: s) auto

lemma run_ok_append:
  "run_ok step ok s (xs @ ys) \<longleftrightarrow> run_ok step ok s xs \<and> run_ok step ok (run step s xs) ys"
  by (induction xs arbitrary: s) auto

lemma run_ok_trivial [simp]: "run_ok step (\<lambda>_ _. True) s ls"
  by (induction ls arbitrary: s) auto

locale step_system =
  fixes step :: "'s \<Rightarrow> 'l \<Rightarrow> 's"
    and ok :: "'s \<Rightarrow> 'l \<Rightarrow> bool"
    and inv :: "'s \<Rightarrow> bool"
  assumes step_inv: "inv s \<Longrightarrow> ok s l \<Longrightarrow> inv (step s l)"
begin

lemma run_inv: "inv s \<Longrightarrow> run_ok step ok s ls \<Longrightarrow> inv (run step s ls)"
  by (induction ls arbitrary: s) (auto intro: step_inv)

lemma run_prefix_inv: "inv s \<Longrightarrow> run_ok step ok s (xs @ ys) \<Longrightarrow> inv (run step s xs)"
  by (simp add: run_ok_append run_inv)

end

section \<open>HashMap as an association list\<close>

text \<open>
  \<open>HashMap<K, V>\<close>: the list is the order in which the iterators of the map visit it, which the
  code does not rely on. \<open>insert\<close> is \<open>AList.update\<close>, \<open>remove\<close> is \<open>AList.delete\<close>, \<open>get\<close> is
  \<open>map_of\<close>, and \<open>retain\<close> filters.
\<close>

definition hm_wf :: "('k \<times> 'v) list \<Rightarrow> bool" where
  "hm_wf m \<longleftrightarrow> distinct (map fst m)"

definition hm_retain :: "('k \<Rightarrow> 'v \<Rightarrow> bool) \<Rightarrow> ('k \<times> 'v) list \<Rightarrow> ('k \<times> 'v) list" where
  "hm_retain P m = filter (\<lambda>(k, v). P k v) m"

definition hm_map :: "('v \<Rightarrow> 'w) \<Rightarrow> ('k \<times> 'v) list \<Rightarrow> ('k \<times> 'w) list" where
  "hm_map f m = map (\<lambda>(k, v). (k, f v)) m"

text \<open>\<open>m.entry(k).or_default()\<close> followed by a mutation \<open>f\<close> of the value.\<close>

definition hm_entry :: "'v \<Rightarrow> 'k \<Rightarrow> ('v \<Rightarrow> 'v) \<Rightarrow> ('k \<times> 'v) list \<Rightarrow> ('k \<times> 'v) list" where
  "hm_entry d k f m = AList.update k (f (case map_of m k of None \<Rightarrow> d | Some v \<Rightarrow> v)) m"

lemma hm_wf_Nil [simp, wf_intros]: "hm_wf []"
  by (simp add: hm_wf_def)

lemma hm_wf_update [simp, wf_intros]: "hm_wf m \<Longrightarrow> hm_wf (AList.update k v m)"
  by (simp add: hm_wf_def distinct_update)

lemma hm_wf_delete [simp, wf_intros]: "hm_wf m \<Longrightarrow> hm_wf (AList.delete k m)"
  by (simp add: hm_wf_def distinct_delete)

lemma hm_wf_retain [simp, wf_intros]: "hm_wf m \<Longrightarrow> hm_wf (hm_retain P m)"
  by (simp add: hm_wf_def hm_retain_def distinct_map_filter)

lemma map_fst_hm_map [simp]: "map fst (hm_map f m) = map fst m"
  by (induction m) (auto simp: hm_map_def)

lemma hm_wf_map [simp, wf_intros]: "hm_wf m \<Longrightarrow> hm_wf (hm_map f m)"
  by (simp add: hm_wf_def)

lemma hm_wf_entry [simp, wf_intros]: "hm_wf m \<Longrightarrow> hm_wf (hm_entry d k f m)"
  by (simp add: hm_entry_def)

lemma map_of_update [simp, store_simps]:
  "map_of (AList.update k v m) j = (if j = k then Some v else map_of m j)"
  by (simp add: update_conv')

lemma map_of_delete [simp, store_simps]:
  "map_of (AList.delete k m) j = (if j = k then None else map_of m j)"
  by (simp add: delete_conv')

lemma map_of_hm_map [simp, store_simps]: "map_of (hm_map f m) k = map_option f (map_of m k)"
  by (induction m) (auto simp: hm_map_def)

lemma map_of_hm_entry [simp, store_simps]:
  "map_of (hm_entry d k f m) j
    = (if j = k then Some (f (case map_of m k of None \<Rightarrow> d | Some v \<Rightarrow> v)) else map_of m j)"
  by (simp add: hm_entry_def)

lemma map_of_hm_retain [store_simps]:
  "hm_wf m \<Longrightarrow> map_of (hm_retain P m) k
    = (case map_of m k of None \<Rightarrow> None | Some v \<Rightarrow> if P k v then Some v else None)"
proof (induction m)
  case Nil
  then show ?case by (simp add: hm_retain_def)
next
  case (Cons kv m)
  obtain j v where kv: "kv = (j, v)" by (cases kv)
  with Cons.prems have "map_of m j = None" and wf: "hm_wf m"
    by (auto simp: hm_wf_def map_of_eq_None_iff)
  with Cons.IH [OF wf] kv show ?case by (auto simp: hm_retain_def split: option.splits)
qed

lemma set_hm_retain: "set (hm_retain P m) = {(k, v) \<in> set m. P k v}"
  by (auto simp: hm_retain_def)

interpretation hm: keyed_store map_of AList.update AList.delete hm_wf
  by unfold_locales (auto simp: store_simps)

section \<open>BTreeMap as a sorted association list\<close>

text \<open>
  \<open>BTreeMap<K, V>\<close>: the entries in ascending order of their keys, which is the order its
  iterators visit.
\<close>

definition bt_wf :: "('k::linorder \<times> 'v) list \<Rightarrow> bool" where
  "bt_wf m \<longleftrightarrow> sorted_wrt (<) (map fst m)"

fun bt_insert :: "'k::linorder \<Rightarrow> 'v \<Rightarrow> ('k \<times> 'v) list \<Rightarrow> ('k \<times> 'v) list" where
  "bt_insert k v [] = [(k, v)]"
| "bt_insert k v ((j, w) # m) =
     (if k < j then (k, v) # (j, w) # m
      else if k = j then (k, v) # m
      else (j, w) # bt_insert k v m)"

lemma bt_wf_Nil [simp, wf_intros]: "bt_wf []"
  by (simp add: bt_wf_def)

lemma bt_wf_Cons: "bt_wf (kv # m) \<longleftrightarrow> (\<forall>j \<in> fst ` set m. fst kv < j) \<and> bt_wf m"
  by (auto simp: bt_wf_def)

lemma fst_set_bt_insert: "fst ` set (bt_insert k v m) = Set.insert k (fst ` set m)"
  by (induction m rule: bt_insert.induct [of _ k v]) auto

lemma bt_wf_insert [simp, wf_intros]: "bt_wf m \<Longrightarrow> bt_wf (bt_insert k v m)"
proof (induction k v m rule: bt_insert.induct)
  case (1 k v)
  then show ?case by (simp add: bt_wf_def)
next
  case (2 k v j w m)
  then show ?case by (force simp: bt_wf_Cons fst_set_bt_insert)
qed

lemma map_of_bt_insert [simp, store_simps]:
  "map_of (bt_insert k v m) i = (if i = k then Some v else map_of m i)"
  by (induction k v m rule: bt_insert.induct) auto

lemma bt_wf_delete [simp, wf_intros]: "bt_wf m \<Longrightarrow> bt_wf (AList.delete k m)"
  by (induction m) (auto simp: bt_wf_Cons AList.delete_eq)

lemma bt_wf_imp_hm_wf: "bt_wf m \<Longrightarrow> hm_wf m"
  by (simp add: bt_wf_def hm_wf_def strict_sorted_iff)

interpretation bt: keyed_store map_of bt_insert AList.delete bt_wf
  by unfold_locales (auto simp: store_simps)

section \<open>Strings\<close>

text \<open>
  A Rust \<open>str\<close> is a UTF-8 byte string; the model writes it as a \<open>string\<close> with one \<open>char\<close> per byte.
\<close>

definition starts_with :: "'a list \<Rightarrow> 'a list \<Rightarrow> bool" where
  "starts_with s p \<longleftrightarrow> take (length p) s = p"

definition strip_prefix :: "'a list \<Rightarrow> 'a list \<Rightarrow> 'a list option" where
  "strip_prefix s p = (if starts_with s p then Some (drop (length p) s) else None)"

definition strip_suffix :: "'a list \<Rightarrow> 'a list \<Rightarrow> 'a list option" where
  "strip_suffix s p =
     (if length p \<le> length s \<and> drop (length s - length p) s = p
      then Some (take (length s - length p) s) else None)"

lemma starts_with_append [simp]: "starts_with (p @ s) p"
  by (simp add: starts_with_def)

lemma strip_prefix_append [simp]: "strip_prefix (p @ s) p = Some s"
  by (simp add: strip_prefix_def)

lemma strip_suffix_append [simp]: "strip_suffix (s @ p) p = Some s"
  by (simp add: strip_suffix_def)

lemma starts_with_iff: "starts_with s p \<longleftrightarrow> (\<exists>t. s = p @ t)"
  by (metis append_take_drop_id starts_with_append starts_with_def)

lemma strip_prefix_eq_Some: "strip_prefix s p = Some t \<longleftrightarrow> s = p @ t"
  by (auto simp: strip_prefix_def starts_with_iff)

text \<open>The bytes of a string (\<open>as_bytes\<close>), and the string with given bytes.\<close>

definition str_bytes :: "string \<Rightarrow> u8 list" where
  "str_bytes s = map (\<lambda>c. word_of_nat (of_char c)) s"

definition bytes_str :: "u8 list \<Rightarrow> string" where
  "bytes_str bs = map (\<lambda>b. char_of (unat b)) bs"

lemma bytes_str_bytes [simp]: "bytes_str (str_bytes s) = s"
  by (simp add: bytes_str_def str_bytes_def o_def unat_word_of_nat_u8)

lemma str_bytes_inject [simp]: "str_bytes s = str_bytes t \<longleftrightarrow> s = t"
  by (metis bytes_str_bytes)

lemma str_bytes_append [simp]: "str_bytes (s @ t) = str_bytes s @ str_bytes t"
  by (simp add: str_bytes_def)

lemma length_str_bytes [simp]: "length (str_bytes s) = length s"
  by (simp add: str_bytes_def)

text \<open>\<open>split\<close> at a separator, and \<open>join\<close> with one.\<close>

fun split_on :: "'a \<Rightarrow> 'a list \<Rightarrow> 'a list list" where
  "split_on d [] = [[]]"
| "split_on d (c # cs) =
     (if c = d then [] # split_on d cs
      else case split_on d cs of p # ps \<Rightarrow> (c # p) # ps | [] \<Rightarrow> [[c]])"

fun join :: "'a list \<Rightarrow> 'a list list \<Rightarrow> 'a list" where
  "join sep [] = []"
| "join sep [x] = x"
| "join sep (x # y # xs) = x @ sep @ join sep (y # xs)"

lemma split_on_neq_Nil [simp]: "split_on d xs \<noteq> []"
  by (induction xs) (auto split: list.splits)

lemma split_on_token: "d \<notin> set t \<Longrightarrow> split_on d t = [t]"
  by (induction t) auto

lemma split_on_append: "d \<notin> set t \<Longrightarrow> split_on d (t @ d # xs) = t # split_on d xs"
  by (induction t) auto

lemma split_on_join: "ts \<noteq> [] \<Longrightarrow> \<forall>t \<in> set ts. d \<notin> set t \<Longrightarrow> split_on d (join [d] ts) = ts"
  by (induction "[d]" ts rule: join.induct) (auto simp: split_on_token split_on_append)

text \<open>The decimal digits of a number, as \<open>Display\<close> prints them.\<close>

definition digit_char :: "nat \<Rightarrow> char" where
  "digit_char d = char_of (48 + d)"

fun dec_digits :: "nat \<Rightarrow> string" where
  "dec_digits n = (if n < 10 then [digit_char n] else dec_digits (n div 10) @ [digit_char (n mod 10)])"

declare dec_digits.simps [simp del]

end
