(* ===== verification/Utf8.thy ===== *)
theory Utf8
  imports Prelude
begin

text \<open>
  The two conversions of the Rust standard library from bytes to a string that the components use:
  \<open>String::from_utf8\<close>, which rejects ill-formed bytes, and \<open>String::from_utf8_lossy\<close>, which replaces
  them, and that the second is the identity on what the first accepts.
\<close>

section \<open>Well-formed UTF-8\<close>

text \<open>
  \<open>String::from_utf8\<close> accepts exactly the well-formed byte sequences of the Unicode standard:
  no overlong form, no surrogate, nothing above U+10FFFF.
\<close>

definition utf8_cont :: "u8 \<Rightarrow> bool" where
  "utf8_cont b \<longleftrightarrow> 0x80 \<le> b \<and> b \<le> 0xBF"

fun valid_utf8 :: "u8 list \<Rightarrow> bool" where
  "valid_utf8 [] = True"
| "valid_utf8 (a # bs) =
    (if a < 0x80 then valid_utf8 bs
     else if 0xC2 \<le> a \<and> a \<le> 0xDF then
       (case bs of b # bs' \<Rightarrow> utf8_cont b \<and> valid_utf8 bs' | _ \<Rightarrow> False)
     else if 0xE0 \<le> a \<and> a \<le> 0xEF then
       (case bs of b # c # bs' \<Rightarrow>
          (if a = 0xE0 then 0xA0 \<le> b \<and> b \<le> 0xBF
           else if a = 0xED then 0x80 \<le> b \<and> b \<le> 0x9F
           else utf8_cont b) \<and> utf8_cont c \<and> valid_utf8 bs'
        | _ \<Rightarrow> False)
     else if 0xF0 \<le> a \<and> a \<le> 0xF4 then
       (case bs of b # c # d # bs' \<Rightarrow>
          (if a = 0xF0 then 0x90 \<le> b \<and> b \<le> 0xBF
           else if a = 0xF4 then 0x80 \<le> b \<and> b \<le> 0x8F
           else utf8_cont b) \<and> utf8_cont c \<and> utf8_cont d \<and> valid_utf8 bs'
        | _ \<Rightarrow> False)
     else False)"

section \<open>The lossy conversion\<close>

text \<open>
  \<open>String::from_utf8_lossy\<close>: the bytes are read in chunks; a well-formed character is kept, the
  longest prefix that could begin one is replaced by U+FFFD. \<open>utf8_chunk\<close> gives the length of the
  first chunk and whether it is well-formed.
\<close>

definition utf8_width :: "u8 \<Rightarrow> nat" where
  "utf8_width b =
     (if b < 0x80 then 1
      else if 0xC2 \<le> b \<and> b \<le> 0xDF then 2
      else if 0xE0 \<le> b \<and> b \<le> 0xEF then 3
      else if 0xF0 \<le> b \<and> b \<le> 0xF4 then 4
      else 0)"

definition utf8_second :: "u8 \<Rightarrow> u8 \<Rightarrow> bool" where
  "utf8_second b c \<longleftrightarrow>
     (if b = 0xE0 then 0xA0 \<le> c \<and> c \<le> 0xBF
      else if b = 0xED then 0x80 \<le> c \<and> c \<le> 0x9F
      else if b = 0xF0 then 0x90 \<le> c \<and> c \<le> 0xBF
      else if b = 0xF4 then 0x80 \<le> c \<and> c \<le> 0x8F
      else utf8_cont c)"

fun utf8_chunk :: "u8 list \<Rightarrow> nat \<times> bool" where
  "utf8_chunk [] = (0, True)"
| "utf8_chunk (b # bs) =
     (let w = utf8_width b
      in if w = 0 then (1, False)
         else if w = 1 then (1, True)
         else (case bs of
                 [] \<Rightarrow> (1, False)
               | c # cs \<Rightarrow>
                   if \<not> utf8_second b c then (1, False)
                   else let n = length (takeWhile utf8_cont (take (w - 2) cs))
                        in (n + 2, n = w - 2)))"

definition replacement_char :: string where
  "replacement_char = [char_of (0xEF :: nat), char_of (0xBF :: nat), char_of (0xBD :: nat)]"

lemma utf8_chunk_pos: "0 < fst (utf8_chunk (b # bs))"
  by (simp add: Let_def split: list.split)

function from_utf8_lossy :: "u8 list \<Rightarrow> string" where
  "from_utf8_lossy [] = []"
| "from_utf8_lossy (b # bs) =
     (case utf8_chunk (b # bs) of
        (n, ok) \<Rightarrow> (if ok then bytes_str (take n (b # bs)) else replacement_char)
          @ from_utf8_lossy (drop n (b # bs)))"
  by pat_completeness auto
termination
proof (relation "measure length", goal_cases)
  case (2 b bs n ok)
  then have "0 < n" using utf8_chunk_pos [of b bs] by (metis fst_conv)
  then show ?case by simp
qed simp

lemma bytes_str_append [simp]: "bytes_str (xs @ ys) = bytes_str xs @ bytes_str ys"
  by (simp add: bytes_str_def)

text \<open>The four shapes of a well-formed string.\<close>

lemma valid_utf8_cases:
  assumes "valid_utf8 (a # bs)"
  obtains
    (one) "utf8_width a = 1" "valid_utf8 bs"
  | (two) c bs' where "utf8_width a = 2" "bs = c # bs'" "utf8_second a c" "valid_utf8 bs'"
  | (three) c d bs' where "utf8_width a = 3" "bs = c # d # bs'" "utf8_second a c" "utf8_cont d" "valid_utf8 bs'"
  | (four) c d e bs' where "utf8_width a = 4" "bs = c # d # e # bs'" "utf8_second a c" "utf8_cont d"
      "utf8_cont e" "valid_utf8 bs'"
proof -
  consider "a < 0x80" | "\<not> a < 0x80" "0xC2 \<le> a \<and> a \<le> 0xDF"
    | "\<not> a < 0x80" "\<not> (0xC2 \<le> a \<and> a \<le> 0xDF)" "0xE0 \<le> a \<and> a \<le> 0xEF"
    | "\<not> a < 0x80" "\<not> (0xC2 \<le> a \<and> a \<le> 0xDF)" "\<not> (0xE0 \<le> a \<and> a \<le> 0xEF)" "0xF0 \<le> a \<and> a \<le> 0xF4"
    | "\<not> a < 0x80" "\<not> (0xC2 \<le> a \<and> a \<le> 0xDF)" "\<not> (0xE0 \<le> a \<and> a \<le> 0xEF)" "\<not> (0xF0 \<le> a \<and> a \<le> 0xF4)"
    by blast
  then show ?thesis
  proof cases
    case 1
    with assms one show ?thesis by (simp add: utf8_width_def)
  next
    case 2
    then have "a \<noteq> 0xE0" "a \<noteq> 0xED" "a \<noteq> 0xF0" "a \<noteq> 0xF4" by auto
    with 2 assms show ?thesis
      by (intro two [of "hd bs" "tl bs"]) (auto simp: utf8_width_def utf8_second_def split: list.splits)
  next
    case 3
    then have "a \<noteq> 0xF0" "a \<noteq> 0xF4" by auto
    with 3 assms show ?thesis
      by (intro three [of "hd bs" "hd (tl bs)" "tl (tl bs)"])
        (auto simp: utf8_width_def utf8_second_def split: list.splits)
  next
    case 4
    then have "a \<noteq> 0xE0" "a \<noteq> 0xED" by auto
    with 4 assms show ?thesis
      by (intro four [of "hd bs" "hd (tl bs)" "hd (tl (tl bs))" "tl (tl (tl bs))"])
        (auto simp: utf8_width_def utf8_second_def split: list.splits)
  next
    case 5
    with assms show ?thesis by simp
  qed
qed

lemma valid_utf8_chunk:
  assumes "valid_utf8 (b # bs)"
  obtains n where "utf8_chunk (b # bs) = (n, True)" "valid_utf8 (drop n (b # bs))"
  using assms by (cases rule: valid_utf8_cases) (auto simp: numeral_eq_Suc)

lemma from_utf8_lossy_id: "valid_utf8 bs \<Longrightarrow> from_utf8_lossy bs = bytes_str bs"
proof (induction bs rule: from_utf8_lossy.induct)
  case 1
  show ?case by (simp add: bytes_str_def)
next
  case (2 b bs)
  from 2(2) obtain n where c: "utf8_chunk (b # bs) = (n, True)" "valid_utf8 (drop n (b # bs))"
    by (rule valid_utf8_chunk)
  with 2(1) have "from_utf8_lossy (b # bs) = bytes_str (take n (b # bs)) @ bytes_str (drop n (b # bs))"
    by (simp del: utf8_chunk.simps)
  then show ?case by (simp only: bytes_str_append [symmetric] append_take_drop_id)
qed

end
