(* ===== verification/Wal_Entry.thy ===== *)
theory Wal_Entry
  imports Utf8
begin

text \<open>
  The write-ahead log, entry format (\<open>verisim-wal/src/entry.rs\<close>, \<open>error.rs\<close>): the operation and
  modality bytes, the entry record, its binary form (length prefix, CRC32, fixed fields, two
  length-prefixed byte strings) and the parser of that form with its error branches.
  The CRC32 function (crate \<open>crc32fast\<close>) and the range of \<open>DateTime<Utc>\<close> (crate \<open>chrono\<close>) are
  fields of an environment record the definitions take as an argument.
\<close>

section \<open>Errors\<close>

datatype wal_error =
    CrcMismatch u64 u32 u32 \<comment> \<open>sequence, expected, actual\<close>
  | EntryTooLarge u64 u32 u32
  | InvalidOperation u8
  | InvalidModality u8
  | TruncatedEntry nat string
  | InvalidEntityId "u8 list"
  | DirectoryNotFound string
  | UnexpectedEof nat

type_synonym 'a wal_result = "wal_error + 'a"

section \<open>Operation and modality bytes\<close>

datatype wal_operation = Insert | Update | Delete | Checkpoint

datatype wal_modality =
  Graph | Vector | Tensor | Semantic | Document | Temporal | Provenance | Spatial | AllModalities

definition max_entry_size :: u32 where
  "max_entry_size = 64 * 1024 * 1024"

definition operation_from_byte :: "u8 \<Rightarrow> wal_operation wal_result" where
  "operation_from_byte b =
     (if b = 0 then Inr Insert
      else if b = 1 then Inr Update
      else if b = 2 then Inr Delete
      else if b = 3 then Inr Checkpoint
      else Inl (InvalidOperation b))"

fun operation_to_byte :: "wal_operation \<Rightarrow> u8" where
  "operation_to_byte Insert = 0"
| "operation_to_byte Update = 1"
| "operation_to_byte Delete = 2"
| "operation_to_byte Checkpoint = 3"

definition modality_from_byte :: "u8 \<Rightarrow> wal_modality wal_result" where
  "modality_from_byte b =
     (if b = 0 then Inr Graph
      else if b = 1 then Inr Vector
      else if b = 2 then Inr Tensor
      else if b = 3 then Inr Semantic
      else if b = 4 then Inr Document
      else if b = 5 then Inr Temporal
      else if b = 6 then Inr Provenance
      else if b = 7 then Inr Spatial
      else if b = 255 then Inr AllModalities
      else Inl (InvalidModality b))"

fun modality_to_byte :: "wal_modality \<Rightarrow> u8" where
  "modality_to_byte Graph = 0"
| "modality_to_byte Vector = 1"
| "modality_to_byte Tensor = 2"
| "modality_to_byte Semantic = 3"
| "modality_to_byte Document = 4"
| "modality_to_byte Temporal = 5"
| "modality_to_byte Provenance = 6"
| "modality_to_byte Spatial = 7"
| "modality_to_byte AllModalities = 255"

text \<open>
  The contract of such a pair: the decoder inverts the encoder, and accepts no byte the encoder
  does not produce.
\<close>

locale byte_code =
  fixes to_byte :: "'a \<Rightarrow> u8"
    and from_byte :: "u8 \<Rightarrow> 'e + 'a"
  assumes from_to: "from_byte (to_byte x) = Inr x"
    and to_from: "from_byte b = Inr x \<Longrightarrow> to_byte x = b"
begin

lemma to_byte_inject: "to_byte x = to_byte y \<longleftrightarrow> x = y"
  by (metis from_to sum.inject(2))

lemma from_byte_iff: "from_byte b = Inr x \<longleftrightarrow> b = to_byte x"
  using from_to to_from by auto

lemma from_byte_error: "isl (from_byte b) \<longleftrightarrow> b \<notin> range to_byte"
  by (cases "from_byte b") (auto simp: from_byte_iff from_to image_iff)

end

interpretation op_code: byte_code operation_to_byte operation_from_byte
proof
  show "operation_from_byte (operation_to_byte x) = Inr x" for x
    by (cases x) (simp_all add: operation_from_byte_def)
  show "operation_from_byte b = Inr x \<Longrightarrow> operation_to_byte x = b" for b x
    by (auto simp: operation_from_byte_def split: if_splits)
qed

interpretation mod_code: byte_code modality_to_byte modality_from_byte
proof
  show "modality_from_byte (modality_to_byte x) = Inr x" for x
    by (cases x) (simp_all add: modality_from_byte_def)
  show "modality_from_byte b = Inr x \<Longrightarrow> modality_to_byte x = b" for b x
    by (auto simp: modality_from_byte_def split: if_splits)
qed

section \<open>Entries and their binary form\<close>

text \<open>The entity id is the UTF-8 bytes of the Rust \<open>String\<close>.\<close>

record wal_entry =
  sequence :: u64
  timestamp :: datetime
  operation :: wal_operation
  modality :: wal_modality
  entity_id :: "u8 list"
  payload :: "u8 list"

text \<open>
  \<open>crc32\<close> is \<open>crc32fast\<close>'s checksum; \<open>millis_in_range\<close> says which millisecond counts chrono's
  \<open>timestamp_millis_opt\<close> accepts.
\<close>

record wal_env =
  crc32 :: "u8 list \<Rightarrow> u32"
  millis_in_range :: "int \<Rightarrow> bool"

definition inner_bytes :: "wal_entry \<Rightarrow> u8 list" where
  "inner_bytes e =
     u64_to_le (sequence e)
     @ u64_to_le (word_of_int (timestamp_millis (timestamp e)))
     @ [operation_to_byte (operation e)]
     @ [modality_to_byte (modality e)]
     @ u32_to_le (word_of_nat (length (entity_id e))) @ entity_id e
     @ u32_to_le (word_of_nat (length (payload e))) @ payload e"

definition serialize :: "wal_env \<Rightarrow> wal_entry \<Rightarrow> u8 list" where
  "serialize env e =
     (let inner = inner_bytes e;
          crc = crc32 env inner;
          entry_length = word_of_nat (4 + length inner) :: u32
      in u32_to_le entry_length @ u32_to_le crc @ inner)"

definition timestamp_from_millis :: "wal_env \<Rightarrow> datetime \<Rightarrow> u64 \<Rightarrow> datetime" where
  "timestamp_from_millis env now ms =
     (if millis_in_range env (sint ms) then sint ms * 1000000 else now)"

text \<open>
  \<open>now\<close> is the value \<open>Utc::now\<close> has when a timestamp out of range is replaced. A payload or entity
  id is cut out of the buffer only after its bounds are checked, so the slices of the code never
  panic.
\<close>

definition parse_inner :: "wal_env \<Rightarrow> datetime \<Rightarrow> u8 list \<Rightarrow> wal_entry wal_result" where
  "parse_inner env now inner =
     (if length inner < 8 then Inl (UnexpectedEof 0)
      else let seq = u64_from_le (slice inner 0 8) in
      if length inner < 16 then Inl (UnexpectedEof 8)
      else let ts = timestamp_from_millis env now (u64_from_le (slice inner 8 16)) in
      if length inner < 17 then Inl (UnexpectedEof 16)
      else case operation_from_byte (inner ! 16) of Inl err \<Rightarrow> Inl err | Inr op \<Rightarrow>
      if length inner < 18 then Inl (UnexpectedEof 17)
      else case modality_from_byte (inner ! 17) of Inl err \<Rightarrow> Inl err | Inr md \<Rightarrow>
      if length inner < 22 then Inl (UnexpectedEof 18)
      else let id_len = unat (u32_from_le (slice inner 18 22)) in
      if length inner < 22 + id_len then Inl (UnexpectedEof 22)
      else let id = slice inner 22 (22 + id_len) in
      if \<not> valid_utf8 id then Inl (InvalidEntityId id)
      else if length inner < 22 + id_len + 4 then Inl (UnexpectedEof (22 + id_len))
      else let p_len = unat (u32_from_le (slice inner (22 + id_len) (22 + id_len + 4))) in
      if length inner < 22 + id_len + 4 + p_len then Inl (UnexpectedEof (22 + id_len + 4))
      else Inr \<lparr>sequence = seq, timestamp = ts, operation = op, modality = md,
                entity_id = id,
                payload = slice inner (22 + id_len + 4) (22 + id_len + 4 + p_len)\<rparr>)"

definition deserialize ::
  "wal_env \<Rightarrow> datetime \<Rightarrow> u8 list \<Rightarrow> u32 \<Rightarrow> wal_entry wal_result" where
  "deserialize env now data entry_length =
     (if (word_of_nat (length data) :: u32) < entry_length then Inl (UnexpectedEof (length data))
      else let data = take (unat entry_length) data in
      if length data < 4 then Inl (UnexpectedEof 0)
      else let stored_crc = u32_from_le (take 4 data);
               inner = drop 4 data;
               computed_crc = crc32 env inner in
      if stored_crc \<noteq> computed_crc then
        Inl (CrcMismatch (if 8 \<le> length inner then u64_from_le (slice inner 0 8) else 0)
               stored_crc computed_crc)
      else parse_inner env now inner)"

section \<open>Round trip\<close>

text \<open>
  What the on-disk form can carry: the two lengths and the entry length fit in 32 bits, the
  entity id is a Rust string, and the timestamp is one chrono can hold. \<open>on_disk\<close> is the entry
  with its timestamp cut to milliseconds.
\<close>

definition wf_entry :: "wal_env \<Rightarrow> wal_entry \<Rightarrow> bool" where
  "wf_entry env e \<longleftrightarrow>
     valid_utf8 (entity_id e)
     \<and> 4 + 26 + length (entity_id e) + length (payload e) < 2 ^ 32
     \<and> millis_in_range env (timestamp_millis (timestamp e))
     \<and> - (2 ^ 63) \<le> timestamp_millis (timestamp e) \<and> timestamp_millis (timestamp e) < 2 ^ 63"

definition on_disk :: "wal_entry \<Rightarrow> wal_entry" where
  "on_disk e = e\<lparr>timestamp := timestamp_millis (timestamp e) * 1000000\<rparr>"

lemma on_disk_simps [simp]:
  "sequence (on_disk e) = sequence e" "operation (on_disk e) = operation e"
  "modality (on_disk e) = modality e" "entity_id (on_disk e) = entity_id e"
  "payload (on_disk e) = payload e"
  by (simp_all add: on_disk_def)

lemma length_inner_bytes:
  "length (inner_bytes e) = 26 + length (entity_id e) + length (payload e)"
  by (simp add: inner_bytes_def)

lemma length_serialize: "length (serialize env e) = 8 + length (inner_bytes e)"
  by (simp add: serialize_def Let_def)

lemma sint_word_of_int_i64:
  "- (2 ^ 63) \<le> k \<Longrightarrow> k < 2 ^ 63 \<Longrightarrow> sint (word_of_int k :: u64) = k"
  by (simp add: signed_of_int signed_take_bit_int_eq_self)

lemma unat_word_of_nat_u32: "n < 2 ^ 32 \<Longrightarrow> unat (word_of_nat n :: u32) = n"
  by (simp add: unat_of_nat)

lemma parse_inner_inner_bytes:
  assumes "wf_entry env e"
  shows "parse_inner env now (inner_bytes e) = Inr (on_disk e)"
proof -
  let ?id = "entity_id e" and ?p = "payload e"
  let ?b = "inner_bytes e"
  have len: "length ?b = 26 + length ?id + length ?p"
    by (rule length_inner_bytes)
  have idl: "length ?id < 2 ^ 32" and pl: "length ?p < 2 ^ 32"
    using assms by (auto simp: wf_entry_def)
  have s1: "slice ?b 0 8 = u64_to_le (sequence e)"
    by (simp add: inner_bytes_def)
  have s2: "slice ?b 8 16 = u64_to_le (word_of_int (timestamp_millis (timestamp e)))"
    by (simp add: inner_bytes_def slice_def)
  have n1: "?b ! 16 = operation_to_byte (operation e)"
    by (simp add: inner_bytes_def nth_append)
  have n2: "?b ! 17 = modality_to_byte (modality e)"
    by (simp add: inner_bytes_def nth_append)
  have s3: "slice ?b 18 22 = u32_to_le (word_of_nat (length ?id))"
    by (simp add: inner_bytes_def slice_def)
  have fixed: "?b = (u64_to_le (sequence e)
      @ u64_to_le (word_of_int (timestamp_millis (timestamp e)))
      @ [operation_to_byte (operation e), modality_to_byte (modality e)]
      @ u32_to_le (word_of_nat (length ?id)))
      @ ?id @ u32_to_le (word_of_nat (length ?p)) @ ?p" (is "_ = ?pre @ _")
    by (simp add: inner_bytes_def)
  have s4: "slice ?b 22 (22 + length ?id) = ?id"
    unfolding fixed by (rule slice_middle) simp_all
  have s5: "slice ?b (22 + length ?id) (22 + length ?id + 4) = u32_to_le (word_of_nat (length ?p))"
    unfolding fixed append_assoc [symmetric, of ?pre] by (rule slice_middle) simp_all
  have s6: "slice ?b (22 + length ?id + 4) (22 + length ?id + 4 + length ?p) = ?p"
    unfolding fixed append_assoc [symmetric] by (rule slice_end) simp_all
  have ts: "timestamp_from_millis env now (word_of_int (timestamp_millis (timestamp e)))
      = timestamp_millis (timestamp e) * 1000000"
    using assms by (simp add: wf_entry_def timestamp_from_millis_def sint_word_of_int_i64)
  have utf: "valid_utf8 ?id"
    using assms by (simp add: wf_entry_def)
  show ?thesis
    unfolding parse_inner_def Let_def s1 s2 n1 n2 s3 op_code.from_to mod_code.from_to
      u32_from_le_to_le u64_from_le_to_le unat_word_of_nat_u32 [OF idl] s4 ts sum.case s5
      unat_word_of_nat_u32 [OF pl] s6
    using utf by (simp add: len on_disk_def)
qed

lemma deserialize_serialize:
  assumes "wf_entry env e" and "len = word_of_nat (4 + length (inner_bytes e))"
    and "4 + length (inner_bytes e) + length rest < 2 ^ 32"
  shows "deserialize env now (drop 4 (serialize env e) @ rest) len = Inr (on_disk e)"
proof -
  have bound: "4 + length (inner_bytes e) < 2 ^ 32"
    using assms(3) by simp
  have len: "unat len = 4 + length (inner_bytes e)"
    unfolding assms(2) by (rule unat_word_of_nat_u32 [OF bound])
  have d: "drop 4 (serialize env e) = u32_to_le (crc32 env (inner_bytes e)) @ inner_bytes e"
    by (simp add: serialize_def Let_def)
  let ?data = "drop 4 (serialize env e) @ rest"
  have "unat (word_of_nat (length ?data) :: u32) = length ?data"
    by (rule unat_word_of_nat_u32) (use assms(3) in \<open>simp add: d\<close>)
  then have "\<not> (word_of_nat (length ?data) :: u32) < len"
    by (simp add: word_less_nat_alt len d)
  then show ?thesis
    by (simp add: deserialize_def Let_def len d parse_inner_inner_bytes [OF assms(1)])
qed

end
