(* ===== verification/Wal_Segment.thy ===== *)
theory Wal_Segment
  imports Wal_Entry
begin

text \<open>
  The write-ahead log, segment files (\<open>verisim-wal/src/segment.rs\<close>): the names of the segment
  files and their parser, the directory listing, and the pruning of old segments. A directory is
  the list of its files in the order \<open>read_dir\<close> yields them, or \<open>None\<close> when the path is no
  directory. Next to its bytes a file has the number of them that \<open>fsync\<close> has made durable. An
  I/O error of the file system is not modelled; what a crash may leave is.
\<close>

section \<open>Files and directories\<close>

record wal_file =
  contents :: "u8 list"
  durable :: nat

type_synonym wal_dir = "(string \<times> wal_file) list"

record segment_info =
  path :: string
  start_sequence :: u64
  file_size :: nat

definition default_max_segment_size :: nat where
  "default_max_segment_size = 64 * 1024 * 1024"

definition is_full :: "segment_info \<Rightarrow> nat \<Rightarrow> bool" where
  "is_full seg max_size \<longleftrightarrow> max_size \<le> file_size seg"

section \<open>Segment file names\<close>

definition segment_extension :: string where
  "segment_extension = ''log''"

definition segment_prefix :: string where
  "segment_prefix = ''wal-''"

definition is_digit :: "char \<Rightarrow> bool" where
  "is_digit c \<longleftrightarrow> 48 \<le> (of_char c :: nat) \<and> (of_char c :: nat) \<le> 57"

definition digit_val :: "char \<Rightarrow> nat" where
  "digit_val c = of_char c - 48"

definition dec_value :: "string \<Rightarrow> nat" where
  "dec_value ds = foldl (\<lambda>v c. 10 * v + digit_val c) 0 ds"

text \<open>\<open>format!("{:016}", n)\<close>: the decimal digits, padded with zeros to sixteen characters.\<close>

definition dec_padded :: "nat \<Rightarrow> nat \<Rightarrow> string" where
  "dec_padded w n = (let ds = dec_digits n in replicate (w - length ds) (CHR ''0'') @ ds)"

definition segment_filename :: "u64 \<Rightarrow> string" where
  "segment_filename s = segment_prefix @ dec_padded 16 (unat s) @ ''.'' @ segment_extension"

text \<open>
  \<open>str::parse::<u64>\<close>: an optional plus sign, at least one decimal digit, nothing else, and a value
  of at most 64 bits.
\<close>

definition parse_u64 :: "string \<Rightarrow> u64 option" where
  "parse_u64 s =
     (let ds = (case s of c # cs \<Rightarrow> if c = CHR ''+'' then cs else s | [] \<Rightarrow> []) in
      if ds = [] \<or> \<not> list_all is_digit ds then None
      else if dec_value ds < 2 ^ 64 then Some (word_of_nat (dec_value ds))
      else None)"

definition parse_segment_filename :: "string \<Rightarrow> u64 option" where
  "parse_segment_filename name =
     (case strip_prefix name segment_prefix of
        None \<Rightarrow> None
      | Some stripped \<Rightarrow>
          (case strip_suffix stripped (''.'' @ segment_extension) of
             None \<Rightarrow> None
           | Some num_str \<Rightarrow> parse_u64 num_str))"

lemma of_char_digit_char: "d < 10 \<Longrightarrow> (of_char (digit_char d) :: nat) = 48 + d"
  by (simp add: digit_char_def)

lemma is_digit_digit_char [simp]: "d < 10 \<Longrightarrow> is_digit (digit_char d)"
  by (simp add: is_digit_def of_char_digit_char)

lemma digit_val_digit_char [simp]: "d < 10 \<Longrightarrow> digit_val (digit_char d) = d"
  by (simp add: digit_val_def of_char_digit_char)

lemma dec_digits_digits: "list_all is_digit (dec_digits n)"
  by (induction n rule: dec_digits.induct) (subst dec_digits.simps, simp)

lemma dec_digits_nonempty: "dec_digits n \<noteq> []"
  by (subst dec_digits.simps) simp

lemma dec_value_snoc: "dec_value (ds @ [c]) = 10 * dec_value ds + digit_val c"
  by (simp add: dec_value_def)

lemma dec_value_dec_digits: "dec_value (dec_digits n) = n"
proof (induction n rule: dec_digits.induct)
  case (1 n)
  then show ?case
    by (subst dec_digits.simps) (auto simp: dec_value_snoc, simp add: dec_value_def)
qed

lemma dec_value_zeros: "dec_value (replicate k (CHR ''0'') @ ds) = dec_value ds"
  by (induction k) (simp_all add: dec_value_def digit_val_def)

lemma is_digit_zero [simp]: "is_digit (CHR ''0'')"
  by (simp add: is_digit_def)

lemma dec_padded_digits: "list_all is_digit (dec_padded w n)"
  using dec_digits_digits [of n] by (auto simp: dec_padded_def Let_def list_all_iff)

lemma dec_padded_nonempty: "dec_padded w n \<noteq> []"
  by (simp add: dec_padded_def Let_def dec_digits_nonempty)

lemma dec_value_dec_padded: "dec_value (dec_padded w n) = n"
  by (simp add: dec_padded_def Let_def dec_value_zeros dec_value_dec_digits)

lemma length_dec_padded: "w \<le> length (dec_padded w n)"
  by (simp add: dec_padded_def Let_def)

lemma parse_u64_digits:
  assumes "list_all is_digit ds" "ds \<noteq> []" "dec_value ds < 2 ^ 64"
  shows "parse_u64 ds = Some (word_of_nat (dec_value ds))"
proof -
  obtain c cs where ds: "ds = c # cs" using assms(2) by (cases ds) auto
  with assms(1) have "c \<noteq> CHR ''+''" by (auto simp: is_digit_def)
  with assms ds show ?thesis by (simp add: parse_u64_def Let_def)
qed

lemma parse_segment_filename_roundtrip:
  "parse_segment_filename (segment_filename s) = Some s"
proof -
  have "parse_u64 (dec_padded 16 (unat s)) = Some s"
    using parse_u64_digits [OF dec_padded_digits dec_padded_nonempty, of 16 "unat s"]
      unsigned_less [of s]
    by (simp add: dec_value_dec_padded)
  then show ?thesis
    using strip_suffix_append [of "dec_padded 16 (unat s)" "''.'' @ segment_extension"]
    by (simp add: parse_segment_filename_def segment_filename_def del: strip_suffix_append)
qed

lemma segment_filename_inject [simp]: "segment_filename s = segment_filename t \<longleftrightarrow> s = t"
  by (metis option.inject parse_segment_filename_roundtrip)

section \<open>Listing a directory\<close>

definition segment_of :: "string \<times> wal_file \<Rightarrow> segment_info option" where
  "segment_of de =
     (case parse_segment_filename (fst de) of
        None \<Rightarrow> None
      | Some start \<Rightarrow> Some \<lparr>path = fst de, start_sequence = start,
                            file_size = length (contents (snd de))\<rparr>)"

definition list_segments :: "string \<Rightarrow> wal_dir option \<Rightarrow> segment_info list wal_result" where
  "list_segments dir_name dir =
     (case dir of
        None \<Rightarrow> Inl (DirectoryNotFound dir_name)
      | Some files \<Rightarrow> Inr (sort_key start_sequence (List.map_filter segment_of files)))"

text \<open>
  The loop of \<open>prune_segments_before\<close> over the segments listed at its start, with the directory
  and the count it updates.
\<close>

fun prune_loop ::
  "segment_info list \<Rightarrow> u64 \<Rightarrow> segment_info list \<Rightarrow> nat \<Rightarrow> wal_dir \<Rightarrow> nat \<times> wal_dir" where
  "prune_loop segs c [] removed files = (removed, files)"
| "prune_loop segs c (seg # rest) removed files =
     (if start_sequence seg < c \<and> list_ex (\<lambda>s. c \<le> start_sequence s) segs
      then prune_loop segs c rest (Suc removed) (AList.delete (path seg) files)
      else prune_loop segs c rest removed files)"

definition prune_segments_before ::
  "string \<Rightarrow> wal_dir option \<Rightarrow> u64 \<Rightarrow> (nat \<times> wal_dir) wal_result" where
  "prune_segments_before dir_name dir c =
     (case dir of
        None \<Rightarrow> Inl (DirectoryNotFound dir_name)
      | Some files \<Rightarrow>
          (case list_segments dir_name (Some files) of
             Inl err \<Rightarrow> Inl err
           | Inr segs \<Rightarrow> Inr (prune_loop segs c segs 0 files)))"

lemma segment_of_eq_Some:
  "segment_of (n, f) = Some seg \<longleftrightarrow>
     path seg = n \<and> parse_segment_filename n = Some (start_sequence seg)
     \<and> file_size seg = length (contents f)"
  by (cases seg) (auto simp: segment_of_def split: option.splits)

lemma list_segments_sorted:
  "list_segments d dir = Inr segs \<Longrightarrow> sorted (map start_sequence segs)"
  by (auto simp: list_segments_def split: option.splits)

lemma set_list_segments:
  "list_segments d (Some files) = Inr segs \<Longrightarrow>
     seg \<in> set segs \<longleftrightarrow> (\<exists>n f. (n, f) \<in> set files \<and> segment_of (n, f) = Some seg)"
  by (auto simp: list_segments_def in_set_map_filter) blast

text \<open>
  The files pruning keeps: every file that is no segment, every segment that starts at or after
  the checkpoint, and, when no segment does, all of them.
\<close>

lemma prune_loop_result:
  "prune_loop segs c todo removed files
     = (removed + length (filter (\<lambda>s. start_sequence s < c \<and> list_ex (\<lambda>s. c \<le> start_sequence s) segs) todo),
        fold (\<lambda>s. AList.delete (path s))
          (filter (\<lambda>s. start_sequence s < c \<and> list_ex (\<lambda>s. c \<le> start_sequence s) segs) todo) files)"
  by (induction todo arbitrary: removed files) auto

lemma map_of_fold_delete:
  "map_of (fold (\<lambda>s. AList.delete (f s)) xs m) k = (if k \<in> f ` set xs then None else map_of m k)"
  by (induction xs arbitrary: m) auto

lemma list_segments_path_parses:
  assumes "list_segments d (Some files) = Inr segs" "seg \<in> set segs"
  shows "parse_segment_filename (path seg) = Some (start_sequence seg)"
proof -
  obtain n f where "segment_of (n, f) = Some seg"
    using assms by (auto simp: set_list_segments)
  then show ?thesis by (auto simp: segment_of_eq_Some)
qed

lemma prune_segments_before_lookup:
  assumes "list_segments d (Some files) = Inr segs"
    and "prune_segments_before d (Some files) c = Inr (n, files')"
  shows "map_of files' k =
    (case parse_segment_filename k of
       Some s \<Rightarrow> if s < c \<and> (\<exists>seg \<in> set segs. c \<le> start_sequence seg) then None else map_of files k
     | None \<Rightarrow> map_of files k)"
proof -
  let ?old = "filter (\<lambda>s. start_sequence s < c \<and> list_ex (\<lambda>s. c \<le> start_sequence s) segs) segs"
  have files': "map_of files' k = (if k \<in> path ` set ?old then None else map_of files k)"
    using assms by (auto simp: prune_segments_before_def prune_loop_result map_of_fold_delete)
  have "k \<in> path ` set ?old \<longleftrightarrow> map_of files k \<noteq> None \<and>
      (\<exists>s. parse_segment_filename k = Some s \<and> s < c \<and> (\<exists>seg \<in> set segs. c \<le> start_sequence seg))"
    (is "?l = ?r")
  proof
    assume ?l
    then show ?r
      by (auto simp: list_ex_iff set_list_segments [OF assms(1)] segment_of_eq_Some
          map_of_eq_None_iff image_iff) force+
  next
    assume ?r
    then obtain f s where f: "(k, f) \<in> set files" and s: "parse_segment_filename k = Some s" "s < c"
      and ex: "\<exists>seg \<in> set segs. c \<le> start_sequence seg"
      by (auto dest: map_of_SomeD)
    let ?seg = "\<lparr>path = k, start_sequence = s, file_size = length (contents f)\<rparr>"
    have "?seg \<in> set segs"
      unfolding set_list_segments [OF assms(1)] using f s by (auto simp: segment_of_eq_Some)
    with s ex show ?l
      by (auto simp: list_ex_iff image_iff intro!: exI [of _ ?seg])
  qed
  with files' show ?thesis
    by (auto split: option.splits)
qed

end
