(* ===== verification/Wal_Reader.thy ===== *)
theory Wal_Reader
  imports Wal_Segment
begin

text \<open>
  The write-ahead log, reader (\<open>verisim-wal/src/reader.rs\<close>): the loop that cuts a segment file into
  entries, replay across segments, the search for the last checkpoint, the entry count, and the
  iterator replay returns. The reader reads every file that is listed, as no I/O error is
  modelled; \<open>now\<close> stands for the clock that replaces timestamps out of range.
\<close>

section \<open>Reading one segment\<close>

function read_loop :: "wal_env \<Rightarrow> datetime \<Rightarrow> u8 list \<Rightarrow> nat \<Rightarrow> wal_entry list" where
  "read_loop env now data offset =
     (if length data < offset + 4 then []
      else let entry_length = u32_from_le (slice data offset (offset + 4)) in
      if entry_length = 0 then []
      else if max_entry_size < entry_length then []
      else let entry_end = offset + 4 + unat entry_length in
      if length data < entry_end then []
      else (case deserialize env now (slice data (offset + 4) entry_end) entry_length of
              Inr e \<Rightarrow> [e]
            | Inl _ \<Rightarrow> [])
           @ read_loop env now data entry_end)"
  by pat_completeness auto
termination
  by (relation "measure (\<lambda>(env, now, data, offset). length data - offset)") auto

declare read_loop.simps [simp del]

definition read_segment_entries :: "wal_env \<Rightarrow> datetime \<Rightarrow> u8 list \<Rightarrow> wal_entry list" where
  "read_segment_entries env now data = read_loop env now data 0"

section \<open>Replay\<close>

definition file_entries :: "wal_env \<Rightarrow> datetime \<Rightarrow> wal_dir \<Rightarrow> segment_info \<Rightarrow> wal_entry list" where
  "file_entries env now files seg =
     (case map_of files (path seg) of
        None \<Rightarrow> []
      | Some f \<Rightarrow> read_segment_entries env now (contents f))"

definition reader_open :: "string \<Rightarrow> wal_dir option \<Rightarrow> unit wal_result" where
  "reader_open dir_name dir =
     (case dir of None \<Rightarrow> Inl (DirectoryNotFound dir_name) | Some _ \<Rightarrow> Inr ())"

fun collect_from ::
  "wal_env \<Rightarrow> datetime \<Rightarrow> wal_dir \<Rightarrow> u64 \<Rightarrow> segment_info list \<Rightarrow> wal_entry list \<Rightarrow> wal_entry list" where
  "collect_from env now files from [] acc = acc"
| "collect_from env now files from (seg # segs) acc =
     collect_from env now files from segs
       (acc @ filter (\<lambda>e. from \<le> sequence e) (file_entries env now files seg))"

record wal_entry_iterator =
  entries :: "wal_entry list"
  position :: nat

definition replay_from ::
  "wal_env \<Rightarrow> datetime \<Rightarrow> string \<Rightarrow> wal_dir option \<Rightarrow> u64 \<Rightarrow> wal_entry_iterator wal_result" where
  "replay_from env now dir_name dir from =
     (case list_segments dir_name dir of
        Inl err \<Rightarrow> Inl err
      | Inr segs \<Rightarrow>
          Inr \<lparr>entries = sort_key sequence (collect_from env now (the dir) from segs []),
               position = 0\<rparr>)"

definition replay_all ::
  "wal_env \<Rightarrow> datetime \<Rightarrow> string \<Rightarrow> wal_dir option \<Rightarrow> wal_entry_iterator wal_result" where
  "replay_all env now dir_name dir = replay_from env now dir_name dir 0"

text \<open>
  The two nested loops of \<open>find_last_checkpoint\<close>, over the segments and the entries of each in
  reverse; the first checkpoint met ends both.
\<close>

fun checkpoint_in :: "wal_entry list \<Rightarrow> u64 option \<Rightarrow> u64 option" where
  "checkpoint_in [] lc = None"
| "checkpoint_in (e # es) lc =
     (if operation e = Checkpoint then
        (case lc of
           Some existing \<Rightarrow> if existing < sequence e then Some (sequence e) else lc
         | None \<Rightarrow> Some (sequence e))
      else checkpoint_in es lc)"

fun checkpoint_loop ::
  "wal_env \<Rightarrow> datetime \<Rightarrow> wal_dir \<Rightarrow> segment_info list \<Rightarrow> u64 option \<Rightarrow> u64 option" where
  "checkpoint_loop env now files [] lc = lc"
| "checkpoint_loop env now files (seg # segs) lc =
     (case checkpoint_in (rev (file_entries env now files seg)) lc of
        Some c \<Rightarrow> Some c
      | None \<Rightarrow> checkpoint_loop env now files segs lc)"

definition find_last_checkpoint ::
  "wal_env \<Rightarrow> datetime \<Rightarrow> string \<Rightarrow> wal_dir option \<Rightarrow> u64 option wal_result" where
  "find_last_checkpoint env now dir_name dir =
     (case list_segments dir_name dir of
        Inl err \<Rightarrow> Inl err
      | Inr segs \<Rightarrow> Inr (checkpoint_loop env now (the dir) (rev segs) None))"

definition entry_count :: "wal_env \<Rightarrow> datetime \<Rightarrow> string \<Rightarrow> wal_dir option \<Rightarrow> nat wal_result" where
  "entry_count env now dir_name dir =
     (case list_segments dir_name dir of
        Inl err \<Rightarrow> Inl err
      | Inr segs \<Rightarrow> Inr (foldl (\<lambda>n seg. n + length (file_entries env now (the dir) seg)) 0 segs))"

section \<open>The iterator\<close>

definition iter_next :: "wal_entry_iterator \<Rightarrow> wal_entry option \<times> wal_entry_iterator" where
  "iter_next it =
     (if position it < length (entries it)
      then (Some (entries it ! position it), it\<lparr>position := position it + 1\<rparr>)
      else (None, it))"

definition iter_size_hint :: "wal_entry_iterator \<Rightarrow> nat \<times> nat option" where
  "iter_size_hint it =
     (let remaining = length (entries it) - position it in (remaining, Some remaining))"

text \<open>Draining an iterator, as a \<open>for\<close> loop does: call \<open>next\<close> until it yields \<open>None\<close>.\<close>

function iter_collect :: "wal_entry_iterator \<Rightarrow> wal_entry list" where
  "iter_collect it =
     (if position it < length (entries it)
      then entries it ! position it # iter_collect (it\<lparr>position := position it + 1\<rparr>)
      else [])"
  by pat_completeness auto
termination
  by (relation "measure (\<lambda>it. length (entries it) - position it)") auto

declare iter_collect.simps [simp del]

lemma iter_collect_drop: "iter_collect it = drop (position it) (entries it)"
proof (induction it rule: iter_collect.induct)
  case (1 it)
  then show ?case
    by (subst iter_collect.simps) (auto simp: Cons_nth_drop_Suc)
qed

section \<open>Reading what was serialized\<close>

lemma read_loop_shift: "read_loop env now (pre @ data) (length pre + off) = read_loop env now data off"
proof (induction env now data off rule: read_loop.induct)
  case (1 env now data off)
  let ?l = "u32_from_le (slice data off (off + 4))"
  have sl: "slice (pre @ data) (length pre + i) (length pre + j) = slice data i j" for i j
    by (simp add: slice_def)
  have len: "slice (pre @ data) (length pre + off) (length pre + off + 4) = slice data off (off + 4)"
    using sl [of off "off + 4"] by (simp add: add.assoc)
  have body: "slice (pre @ data) (length pre + off + 4) (length pre + off + 4 + unat ?l)
      = slice data (off + 4) (off + 4 + unat ?l)"
    using sl [of "off + 4" "off + 4 + unat ?l"] by (simp add: add.assoc)
  show ?case
  proof (cases "length data < off + 4 \<or> ?l = 0 \<or> max_entry_size < ?l
      \<or> length data < off + 4 + unat ?l")
    case True
    then show ?thesis
      by (auto simp: read_loop.simps [of env now "pre @ data" "length pre + off"]
          read_loop.simps [of env now data off] len Let_def)
  next
    case False
    then have IH: "read_loop env now (pre @ data) (length pre + off + 4 + unat ?l)
        = read_loop env now data (off + 4 + unat ?l)"
      using 1 [OF _ refl _ _ refl] by (simp add: add.assoc)
    show ?thesis
      using False IH body
      by (simp add: read_loop.simps [of env now "pre @ data" "length pre + off"]
          read_loop.simps [of env now data off] len Let_def)
  qed
qed

text \<open>Reading from an offset is reading the rest of the file.\<close>

lemma read_loop_drop:
  "off \<le> length data \<Longrightarrow> read_loop env now data off = read_segment_entries env now (drop off data)"
  using read_loop_shift [of env now "take off data" "drop off data" 0]
  by (simp add: read_segment_entries_def)

lemma read_segment_short: "length data < 4 \<Longrightarrow> read_segment_entries env now data = []"
  by (simp add: read_segment_entries_def read_loop.simps [of env now data 0])

text \<open>The loop of the code, as a recursion on the bytes that are left.\<close>

lemma read_segment_step:
  assumes "length (u32_to_le l @ body) = 4 + unat l" "l \<noteq> 0" "l \<le> max_entry_size"
  shows "read_segment_entries env now (u32_to_le l @ body @ rest)
    = (case deserialize env now body l of Inr e \<Rightarrow> [e] | Inl _ \<Rightarrow> [])
      @ read_segment_entries env now rest"
proof -
  have s1: "slice (u32_to_le l @ body @ rest) 0 4 = u32_to_le l"
    by simp
  have s2: "slice (u32_to_le l @ body @ rest) 4 (4 + unat l) = body"
    by (rule slice_middle) (use assms in simp_all)
  have "read_loop env now (u32_to_le l @ body @ rest) (4 + unat l)
      = read_segment_entries env now rest"
    using read_loop_drop [of "4 + unat l" "u32_to_le l @ body @ rest" env now] assms by simp
  with assms s2 show ?thesis
    unfolding read_segment_entries_def [of _ _ "u32_to_le l @ _"]
    by (subst read_loop.simps) (simp add: Let_def leD)
qed

lemma read_segment_torn:
  assumes "length body < unat l"
  shows "read_segment_entries env now (u32_to_le l @ body) = []"
  using assms by (simp add: read_segment_entries_def read_loop.simps [of _ _ "_ @ _"] Let_def)

text \<open>An entry the reader accepts: well formed and at most 64 MiB after the length field.\<close>

definition readable :: "wal_env \<Rightarrow> wal_entry \<Rightarrow> bool" where
  "readable env e \<longleftrightarrow> wf_entry env e \<and> 4 + length (inner_bytes e) \<le> unat max_entry_size"

lemma unat_max_entry_size: "unat max_entry_size = 67108864"
  by (simp add: max_entry_size_def)

lemma serialize_split:
  "serialize env e = u32_to_le (word_of_nat (4 + length (inner_bytes e))) @ drop 4 (serialize env e)"
  by (simp add: serialize_def Let_def)

lemma readable_len:
  assumes "readable env e"
  shows "unat (word_of_nat (4 + length (inner_bytes e)) :: u32) = 4 + length (inner_bytes e)"
  using assms by (intro unat_word_of_nat_u32) (simp add: readable_def unat_max_entry_size)

lemma read_segment_serialize:
  assumes "readable env e"
  shows "read_segment_entries env now (serialize env e @ rest)
    = on_disk e # read_segment_entries env now rest"
proof -
  let ?l = "word_of_nat (4 + length (inner_bytes e)) :: u32"
  let ?body = "drop 4 (serialize env e)"
  have l: "unat ?l = 4 + length (inner_bytes e)" by (rule readable_len [OF assms])
  have "deserialize env now ?body ?l = Inr (on_disk e)"
    using deserialize_serialize [of env e ?l "[]" now] assms
    by (simp add: readable_def unat_max_entry_size)
  moreover have "?l \<noteq> 0" using l by (metis add_is_0 unsigned_0 zero_neq_numeral)
  moreover have "?l \<le> max_entry_size"
    using assms l by (simp add: word_le_nat_alt readable_def)
  moreover have "length (u32_to_le ?l @ ?body) = 4 + unat ?l"
    using l by (simp add: length_serialize)
  ultimately have "read_segment_entries env now (u32_to_le ?l @ ?body @ rest)
      = on_disk e # read_segment_entries env now rest"
    by (subst read_segment_step) simp_all
  then show ?thesis
    by (subst serialize_split) (simp only: append_assoc)
qed

lemma read_segment_serialize_all:
  assumes "\<forall>e \<in> set es. readable env e"
  shows "read_segment_entries env now (concat (map (serialize env) es) @ rest)
    = map on_disk es @ read_segment_entries env now rest"
  using assms by (induction es) (simp_all add: read_segment_serialize)

text \<open>A write cut short by a crash leaves no entry.\<close>

lemma read_segment_torn_entry:
  assumes "readable env e" "k < length (serialize env e)"
  shows "read_segment_entries env now (take k (serialize env e)) = []"
proof (cases "k < 4")
  case True
  then show ?thesis by (simp add: read_segment_short)
next
  case False
  let ?l = "word_of_nat (4 + length (inner_bytes e)) :: u32"
  have l: "unat ?l = 4 + length (inner_bytes e)" by (rule readable_len [OF assms(1)])
  have "take k (serialize env e) = u32_to_le ?l @ take (k - 4) (drop 4 (serialize env e))"
    using False by (subst serialize_split) simp
  moreover have "length (take (k - 4) (drop 4 (serialize env e))) < unat ?l"
    using False assms(2) l by (simp add: length_serialize)
  ultimately show ?thesis by (simp add: read_segment_torn)
qed

section \<open>Replay of a directory of segments\<close>

lemma collect_from_concat:
  "collect_from env now files from segs acc
     = acc @ filter (\<lambda>e. from \<le> sequence e) (concat (map (file_entries env now files) segs))"
  by (induction segs arbitrary: acc) auto

definition dir_entries :: "wal_env \<Rightarrow> datetime \<Rightarrow> wal_dir \<Rightarrow> wal_entry list" where
  "dir_entries env now files
     = concat (map (\<lambda>(n, f). read_segment_entries env now (contents f)) files)"

lemma map_filter_segment_of:
  assumes "map fst files = map segment_filename ss"
  shows "map path (List.map_filter segment_of files) = map fst files"
    and "map start_sequence (List.map_filter segment_of files) = ss"
  using assms
  by (induction files arbitrary: ss)
    (auto simp: List.map_filter_simps segment_of_def parse_segment_filename_roundtrip)

lemma distinct_segment_names:
  "map fst files = map segment_filename ss \<Longrightarrow> sorted_wrt (<) ss \<Longrightarrow> distinct (map fst files)"
  by (simp add: distinct_map strict_sorted_iff inj_on_def)

lemma list_segments_files:
  assumes "map fst files = map segment_filename ss" "sorted_wrt (<) ss"
  shows "list_segments d (Some files) = Inr (List.map_filter segment_of files)"
proof -
  have "sorted (map start_sequence (List.map_filter segment_of files))"
    using assms by (simp add: map_filter_segment_of(2) strict_sorted_iff)
  then show ?thesis by (simp add: list_segments_def sort_key_id_if_sorted)
qed

lemma map_file_entries:
  assumes "map fst files = map segment_filename ss" "sorted_wrt (<) ss"
  shows "map (file_entries env now files) (List.map_filter segment_of files)
    = map (\<lambda>(n, f). read_segment_entries env now (contents f)) files"
proof -
  let ?read = "\<lambda>n. case map_of files n of None \<Rightarrow> []
               | Some f \<Rightarrow> read_segment_entries env now (contents f)"
  have "map (file_entries env now files) (List.map_filter segment_of files)
      = map ?read (map path (List.map_filter segment_of files))"
    by (simp add: file_entries_def)
  also have "\<dots> = map ?read (map fst files)"
    by (simp only: map_filter_segment_of(1) [OF assms(1)])
  also have "\<dots> = map (\<lambda>(n, f). read_segment_entries env now (contents f)) files"
    using distinct_segment_names [OF assms] by auto
  finally show ?thesis .
qed

lemma replay_from_files:
  assumes "map fst files = map segment_filename ss" "sorted_wrt (<) ss"
  shows "replay_from env now d (Some files) from
    = Inr \<lparr>entries = sort_key sequence (filter (\<lambda>e. from \<le> sequence e) (dir_entries env now files)),
           position = 0\<rparr>"
  by (simp add: replay_from_def list_segments_files [OF assms] collect_from_concat
      map_file_entries [OF assms] dir_entries_def)

lemma foldl_add_length: "foldl (\<lambda>n x. n + length (f x)) k xs = k + length (concat (map f xs))"
  by (induction xs arbitrary: k) auto

lemma entry_count_files:
  assumes "map fst files = map segment_filename ss" "sorted_wrt (<) ss"
  shows "entry_count env now d (Some files) = Inr (length (dir_entries env now files))"
  by (simp add: entry_count_def list_segments_files [OF assms] foldl_add_length
      map_file_entries [OF assms] dir_entries_def)

text \<open>The checkpoint search finds the last checkpoint in the order of the segments.\<close>

lemma checkpoint_in_None:
  "checkpoint_in es None = map_option sequence (List.find (\<lambda>e. operation e = Checkpoint) es)"
  by (induction es) auto

lemma find_append: "List.find P (xs @ ys) = (case List.find P xs of None \<Rightarrow> List.find P ys | Some x \<Rightarrow> Some x)"
  by (induction xs) auto

lemma checkpoint_loop_None:
  "checkpoint_loop env now files segs None
     = map_option sequence (List.find (\<lambda>e. operation e = Checkpoint)
         (concat (map (\<lambda>s. rev (file_entries env now files s)) segs)))"
  by (induction segs) (auto simp: checkpoint_in_None find_append split: option.splits)

lemma find_last_checkpoint_files:
  assumes "map fst files = map segment_filename ss" "sorted_wrt (<) ss"
  shows "find_last_checkpoint env now d (Some files)
    = Inr (map_option sequence
        (List.find (\<lambda>e. operation e = Checkpoint) (rev (dir_entries env now files))))"
proof -
  have "concat (map (\<lambda>s. rev (file_entries env now files s)) (rev segs))
      = rev (concat (map (file_entries env now files) segs))" for segs
    by (induction segs) auto
  then show ?thesis
    by (simp add: find_last_checkpoint_def list_segments_files [OF assms] checkpoint_loop_None
        map_file_entries [OF assms] dir_entries_def)
qed

end
