(* ===== verification/Wal_Writer.thy ===== *)
theory Wal_Writer
  imports Wal_Reader
begin

text \<open>
  The write-ahead log, writer (\<open>verisim-wal/src/writer.rs\<close>): opening a directory, appending,
  syncing, checkpointing and rotating. The file handle of the code is the file named by the path
  of the current segment; a read of the monotonic clock is an argument (\<open>clk i\<close> is the \<open>i\<close>-th
  \<open>Instant::now\<close> of the call, in nanoseconds).
\<close>

section \<open>State\<close>

datatype sync_mode = Fsync | Periodic nat | Async

record wal_writer =
  dir_name :: string
  files :: wal_dir
  current_segment :: segment_info
  next_sequence :: u64
  max_segment_size :: nat
  sync_mode :: sync_mode
  last_sync :: nat

section \<open>Opening\<close>

function scan_loop :: "u8 list \<Rightarrow> nat \<Rightarrow> u64 \<Rightarrow> u64" where
  "scan_loop data offset last_seq =
     (if length data < offset + 4 then last_seq
      else let entry_length = u32_from_le (slice data offset (offset + 4)) in
      if length data < offset + 4 + unat entry_length then last_seq
      else let inner_start = offset + 4 + 4;
               last_seq' =
                 (if inner_start + 8 \<le> length data then
                    let seq = u64_from_le (slice data inner_start (inner_start + 8)) in
                    if last_seq \<le> seq then seq else last_seq
                  else last_seq)
           in scan_loop data (offset + 4 + unat entry_length) last_seq')"
  by pat_completeness auto
termination
  by (relation "measure (\<lambda>(data, offset, last_seq). length data - offset)") auto

declare scan_loop.simps [simp del]

definition scan_last_sequence :: "wal_dir \<Rightarrow> segment_info \<Rightarrow> u64" where
  "scan_last_sequence fs seg =
     (if file_size seg = 0 then start_sequence seg + 1
      else case map_of fs (path seg) of
             None \<Rightarrow> start_sequence seg + 1
           | Some f \<Rightarrow> scan_loop (contents f) 0 (start_sequence seg) + 1)"

text \<open>
  \<open>open_with_max_size\<close>: a missing directory is created; an empty one gets segment 0 and the first
  sequence number is 1; otherwise the last listed segment is continued, its file opened for
  appending at its end.
\<close>

definition open_with_max_size ::
  "string \<Rightarrow> wal_dir option \<Rightarrow> sync_mode \<Rightarrow> nat \<Rightarrow> nat \<Rightarrow> wal_writer wal_result" where
  "open_with_max_size name dir mode max_size inst =
     (let fs = (case dir of None \<Rightarrow> [] | Some fs \<Rightarrow> fs) in
      case list_segments name (Some fs) of
        Inl err \<Rightarrow> Inl err
      | Inr segs \<Rightarrow>
          (if segs = [] then
             let p = segment_filename 0 in
             Inr \<lparr>dir_name = name,
                  files = AList.update p \<lparr>contents = [], durable = 0\<rparr> fs,
                  current_segment = \<lparr>path = p, start_sequence = 0, file_size = 0\<rparr>,
                  next_sequence = 1, max_segment_size = max_size, sync_mode = mode,
                  last_sync = inst\<rparr>
           else
             Inr \<lparr>dir_name = name, files = fs, current_segment = last segs,
                  next_sequence = scan_last_sequence fs (last segs),
                  max_segment_size = max_size, sync_mode = mode, last_sync = inst\<rparr>))"

definition wal_open ::
  "string \<Rightarrow> wal_dir option \<Rightarrow> sync_mode \<Rightarrow> nat \<Rightarrow> wal_writer wal_result" where
  "wal_open name dir mode inst = open_with_max_size name dir mode default_max_segment_size inst"

section \<open>Writing\<close>

text \<open>An operation on the open file; a file that has been unlinked is no longer in the directory.\<close>

definition on_current :: "(wal_file \<Rightarrow> wal_file) \<Rightarrow> wal_writer \<Rightarrow> wal_writer" where
  "on_current g w =
     (case map_of (files w) (path (current_segment w)) of
        None \<Rightarrow> w
      | Some f \<Rightarrow> w\<lparr>files := AList.update (path (current_segment w)) (g f) (files w)\<rparr>)"

definition write_all :: "u8 list \<Rightarrow> wal_writer \<Rightarrow> wal_writer" where
  "write_all bytes w = on_current (\<lambda>f. f\<lparr>contents := contents f @ bytes\<rparr>) w"

definition sync_all :: "wal_writer \<Rightarrow> wal_writer" where
  "sync_all w = on_current (\<lambda>f. f\<lparr>durable := length (contents f)\<rparr>) w"

definition sync :: "nat \<Rightarrow> wal_writer \<Rightarrow> wal_writer" where
  "sync inst w = (sync_all w)\<lparr>last_sync := inst\<rparr>"

definition maybe_sync :: "nat \<Rightarrow> nat \<Rightarrow> wal_writer \<Rightarrow> wal_writer" where
  "maybe_sync now inst w =
     (case sync_mode w of
        Fsync \<Rightarrow> (sync_all w)\<lparr>last_sync := inst\<rparr>
      | Periodic interval \<Rightarrow>
          (if interval \<le> now - last_sync w then (sync_all w)\<lparr>last_sync := inst\<rparr> else w)
      | Async \<Rightarrow> w)"

text \<open>\<open>File::create\<close> truncates a file that exists.\<close>

definition rotate :: "nat \<Rightarrow> wal_writer \<Rightarrow> wal_writer" where
  "rotate inst w =
     (let w = sync inst w;
          new_start = next_sequence w;
          new_path = segment_filename new_start
      in w\<lparr>files := AList.update new_path \<lparr>contents = [], durable = 0\<rparr> (files w),
           current_segment := \<lparr>path = new_path, start_sequence = new_start, file_size = 0\<rparr>\<rparr>)"

definition append_entry ::
  "wal_env \<Rightarrow> (nat \<Rightarrow> nat) \<Rightarrow> wal_entry \<Rightarrow> wal_writer \<Rightarrow> u64 \<times> wal_writer" where
  "append_entry env clk e w =
     (let seq = next_sequence w;
          e = e\<lparr>sequence := seq\<rparr>;
          w = w\<lparr>next_sequence := next_sequence w + 1\<rparr>;
          bytes = serialize env e;
          w = (if max_segment_size w < file_size (current_segment w) + length bytes
               then rotate (clk 0) w else w);
          w = write_all bytes w;
          w = w\<lparr>current_segment := (current_segment w)
                  \<lparr>file_size := file_size (current_segment w) + length bytes\<rparr>\<rparr>;
          w = maybe_sync (clk 1) (clk 2) w
      in (seq, w))"

definition checkpoint_entry :: "datetime \<Rightarrow> wal_entry" where
  "checkpoint_entry now = \<lparr>sequence = 0, timestamp = now, operation = Checkpoint,
     modality = AllModalities, entity_id = [], payload = []\<rparr>"

definition checkpoint ::
  "wal_env \<Rightarrow> (nat \<Rightarrow> nat) \<Rightarrow> datetime \<Rightarrow> wal_writer \<Rightarrow> u64 \<times> wal_writer" where
  "checkpoint env clk now w =
     (let (seq, w) = append_entry env clk (checkpoint_entry now) w in (seq, sync (clk 3) w))"

section \<open>The log a writer holds\<close>

text \<open>
  The abstraction: the segments are lists of entries, each file holds the serialized entries of
  its segment, names and sequence numbers ascend, every file but the last is durable, and the
  sequence numbers in use are below the next one. \<open>wal_inv\<close> keeps the last segment \<open>(s, es)\<close>
  apart.
\<close>

definition seg_rel :: "wal_env \<Rightarrow> u64 \<times> wal_entry list \<Rightarrow> string \<times> wal_file \<Rightarrow> bool" where
  "seg_rel env se nf \<longleftrightarrow>
     fst nf = segment_filename (fst se)
     \<and> contents (snd nf) = concat (map (serialize env) (snd se))
     \<and> durable (snd nf) = length (contents (snd nf))"

definition log_of :: "(u64 \<times> wal_entry list) list \<Rightarrow> wal_entry list \<Rightarrow> wal_entry list" where
  "log_of old es = concat (map snd old) @ es"

definition wal_inv ::
  "wal_env \<Rightarrow> wal_writer \<Rightarrow> (u64 \<times> wal_entry list) list \<Rightarrow> u64 \<Rightarrow> wal_entry list \<Rightarrow> bool" where
  "wal_inv env w old s es \<longleftrightarrow>
     (\<exists>ofiles f. files w = ofiles @ [(segment_filename s, f)]
        \<and> list_all2 (seg_rel env) old ofiles
        \<and> contents f = concat (map (serialize env) es)
        \<and> durable f \<le> length (contents f)
        \<and> current_segment w = \<lparr>path = segment_filename s, start_sequence = s,
                                file_size = length (contents f)\<rparr>)
     \<and> sorted_wrt (<) (map fst old @ [s])
     \<and> sorted_wrt (<) (map sequence (log_of old es))
     \<and> (\<forall>e \<in> set (log_of old es). readable env e \<and> sequence e < next_sequence w)
     \<and> (\<forall>e \<in> set (log_of old []). sequence e < s)
     \<and> s \<le> next_sequence w"

lemma wal_invI:
  assumes "files w = ofiles @ [(segment_filename s, f)]" "list_all2 (seg_rel env) old ofiles"
    and "contents f = concat (map (serialize env) es)" "durable f \<le> length (contents f)"
    and "current_segment w = \<lparr>path = segment_filename s, start_sequence = s,
                               file_size = length (contents f)\<rparr>"
    and "sorted_wrt (<) (map fst old @ [s])" "sorted_wrt (<) (map sequence (log_of old es))"
    and "\<And>e. e \<in> set (log_of old es) \<Longrightarrow> readable env e \<and> sequence e < next_sequence w"
    and "\<And>e. e \<in> set (log_of old []) \<Longrightarrow> sequence e < s"
    and "s \<le> next_sequence w"
  shows "wal_inv env w old s es"
  unfolding wal_inv_def using assms by metis

lemma wal_invE:
  assumes "wal_inv env w old s es"
  obtains ofiles f where "files w = ofiles @ [(segment_filename s, f)]"
    "list_all2 (seg_rel env) old ofiles"
    "contents f = concat (map (serialize env) es)" "durable f \<le> length (contents f)"
    "current_segment w = \<lparr>path = segment_filename s, start_sequence = s,
                          file_size = length (contents f)\<rparr>"
    "sorted_wrt (<) (map fst old @ [s])" "sorted_wrt (<) (map sequence (log_of old es))"
    "\<And>e. e \<in> set (log_of old es) \<Longrightarrow> readable env e \<and> sequence e < next_sequence w"
    "\<And>e. e \<in> set (log_of old []) \<Longrightarrow> sequence e < s"
    "s \<le> next_sequence w"
  using assms unfolding wal_inv_def by metis

lemma seg_rel_names:
  "list_all2 (seg_rel env) old ofiles \<Longrightarrow> map fst ofiles = map segment_filename (map fst old)"
  by (induction rule: list_all2_induct) (auto simp: seg_rel_def)

lemma update_last: "n \<notin> fst ` set xs \<Longrightarrow> AList.update n v (xs @ [(n, f)]) = xs @ [(n, v)]"
  by (induction xs) auto

lemma update_new: "n \<notin> fst ` set xs \<Longrightarrow> AList.update n v xs = xs @ [(n, v)]"
  by (induction xs) auto

lemma map_of_last: "n \<notin> fst ` set xs \<Longrightarrow> map_of (xs @ [(n, f)]) n = Some f"
  using map_of_eq_None_iff [of xs n] by (simp add: map_add_def)

lemma seg_name_fresh:
  assumes "list_all2 (seg_rel env) old ofiles" "sorted_wrt (<) (map fst old @ [s])"
  shows "segment_filename s \<notin> fst ` set ofiles"
proof -
  have "fst ` set ofiles = segment_filename ` fst ` set old"
    using seg_rel_names [OF assms(1)] by (metis list.set_map)
  then show ?thesis using assms(2) by (auto simp: sorted_wrt_append)
qed

text \<open>An operation on the open file changes the last file of the directory only.\<close>

lemma on_current_inv:
  assumes "files w = ofiles @ [(segment_filename s, f)]" "list_all2 (seg_rel env) old ofiles"
    and "sorted_wrt (<) (map fst old @ [s])" "path (current_segment w) = segment_filename s"
  shows "on_current g w = w\<lparr>files := ofiles @ [(segment_filename s, g f)]\<rparr>"
  using seg_name_fresh [OF assms(2,3)] assms
  by (simp add: on_current_def map_of_last update_last del: map_of_append)

lemma wal_inv_bump:
  assumes "wal_inv env w old s es" "next_sequence w < u64_max"
  shows "wal_inv env (w\<lparr>next_sequence := next_sequence w + 1\<rparr>) old s es"
proof -
  have nx: "next_sequence w < next_sequence w + 1"
    using assms(2) by (rule word_less_plus_one)
  from assms(1) show ?thesis
    by (rule wal_invE, intro wal_invI) (use nx in \<open>auto intro: less_trans order_trans\<close>)
qed

lemma wal_inv_sync_all: "wal_inv env w old s es \<Longrightarrow> wal_inv env (sync_all w) old s es"
proof (erule wal_invE)
  fix ofiles f
  assume w: "files w = ofiles @ [(segment_filename s, f)]" "list_all2 (seg_rel env) old ofiles"
      "contents f = concat (map (serialize env) es)" "durable f \<le> length (contents f)"
      "current_segment w = \<lparr>path = segment_filename s, start_sequence = s,
                            file_size = length (contents f)\<rparr>"
    and ord: "sorted_wrt (<) (map fst old @ [s])"
    and rest: "sorted_wrt (<) (map sequence (log_of old es))"
      "\<And>e. e \<in> set (log_of old es) \<Longrightarrow> readable env e \<and> sequence e < next_sequence w"
      "\<And>e. e \<in> set (log_of old []) \<Longrightarrow> sequence e < s" "s \<le> next_sequence w"
  have "sync_all w
      = w\<lparr>files := ofiles @ [(segment_filename s, f\<lparr>durable := length (contents f)\<rparr>)]\<rparr>"
    unfolding sync_all_def by (rule on_current_inv [OF w(1,2) ord]) (simp add: w(5))
  then show "wal_inv env (sync_all w) old s es"
    by (intro wal_invI [where f = "f\<lparr>durable := length (contents f)\<rparr>", OF _ w(2) _ _ _ ord])
      (use w rest in simp_all)
qed

lemma wal_inv_sync: "wal_inv env w old s es \<Longrightarrow> wal_inv env (sync t w) old s es"
  using wal_inv_sync_all [of env w old s es] by (auto simp: wal_inv_def sync_def)

lemma wal_inv_maybe_sync: "wal_inv env w old s es \<Longrightarrow> wal_inv env (maybe_sync t u w) old s es"
  using wal_inv_sync [of env w old s es u]
  by (auto simp: maybe_sync_def sync_def split: sync_mode.split)

lemma sync_frame [simp]:
  "next_sequence (on_current g w) = next_sequence w"
  "current_segment (on_current g w) = current_segment w"
  "sync_mode (on_current g w) = sync_mode w"
  "max_segment_size (on_current g w) = max_segment_size w"
  by (simp_all add: on_current_def split: option.split)

lemma write_all_frame [simp]:
  "next_sequence (write_all b w) = next_sequence w"
  "current_segment (write_all b w) = current_segment w"
  "sync_mode (write_all b w) = sync_mode w"
  "max_segment_size (write_all b w) = max_segment_size w"
  by (simp_all add: write_all_def)

lemma sync_all_frame [simp]:
  "next_sequence (sync_all w) = next_sequence w"
  "current_segment (sync_all w) = current_segment w"
  "sync_mode (sync_all w) = sync_mode w"
  "max_segment_size (sync_all w) = max_segment_size w"
  by (simp_all add: sync_all_def)

lemma maybe_sync_frame [simp]:
  "next_sequence (maybe_sync t u w) = next_sequence w"
  "current_segment (maybe_sync t u w) = current_segment w"
  "sync_mode (maybe_sync t u w) = sync_mode w"
  by (simp_all add: maybe_sync_def split: sync_mode.split)

lemma sync_next [simp]:
  "next_sequence (sync t w) = next_sequence w" "current_segment (sync t w) = current_segment w"
  by (simp_all add: sync_def)

lemma rotate_frame [simp]:
  "next_sequence (rotate t w) = next_sequence w"
  "start_sequence (current_segment (rotate t w)) = next_sequence w"
  by (simp_all add: rotate_def Let_def)

lemma append_entry_next [simp]:
  "fst (append_entry env clk e w) = next_sequence w"
  "next_sequence (snd (append_entry env clk e w)) = next_sequence w + 1"
  by (simp_all add: append_entry_def Let_def)

lemma wal_inv_rotate:
  assumes inv: "wal_inv env w old s es" and fresh: "s < next_sequence w"
  shows "wal_inv env (rotate t w) (old @ [(s, es)]) (next_sequence w) []"
proof -
  from inv obtain ofiles f where
    w: "files w = ofiles @ [(segment_filename s, f)]" "list_all2 (seg_rel env) old ofiles"
      "contents f = concat (map (serialize env) es)" "durable f \<le> length (contents f)"
      "current_segment w = \<lparr>path = segment_filename s, start_sequence = s,
                            file_size = length (contents f)\<rparr>"
    and ord: "sorted_wrt (<) (map fst old @ [s])"
    and seqs: "sorted_wrt (<) (map sequence (log_of old es))"
    and all: "\<And>e. e \<in> set (log_of old es) \<Longrightarrow> readable env e \<and> sequence e < next_sequence w"
    by (rule wal_invE) blast
  let ?f = "f\<lparr>durable := length (contents f)\<rparr>"
  have synced: "files (sync_all w) = ofiles @ [(segment_filename s, ?f)]"
    by (simp add: sync_all_def on_current_inv [OF w(1,2) ord] w(5))
  have rel: "list_all2 (seg_rel env) (old @ [(s, es)]) (ofiles @ [(segment_filename s, ?f)])"
    using w(2,3) by (simp add: list_all2_appendI seg_rel_def)
  have ord': "sorted_wrt (<) (map fst (old @ [(s, es)]) @ [next_sequence w])"
    using ord fresh by (auto simp: sorted_wrt_append)
  have "segment_filename (next_sequence w) \<notin> fst ` set (ofiles @ [(segment_filename s, ?f)])"
    by (rule seg_name_fresh [OF rel ord'])
  then have files: "files (rotate t w)
      = (ofiles @ [(segment_filename s, ?f)])
        @ [(segment_filename (next_sequence w), \<lparr>contents = [], durable = 0\<rparr>)]"
    by (simp add: rotate_def sync_def Let_def synced update_new)
  have log: "log_of (old @ [(s, es)]) [] = log_of old es"
    by (simp add: log_of_def)
  have rot: "next_sequence (rotate t w) = next_sequence w"
    "current_segment (rotate t w) = \<lparr>path = segment_filename (next_sequence w),
       start_sequence = next_sequence w, file_size = 0\<rparr>"
    by (simp_all add: rotate_def Let_def sync_def)
  show ?thesis
    by (rule wal_invI [OF files rel]) (simp_all add: rot ord' [simplified] log seqs all)
qed

lemma wal_inv_write:
  assumes inv: "wal_inv env w old s es"
    and e: "readable env e" "sequence e < next_sequence w"
    and above: "\<forall>x \<in> set (log_of old es). sequence x < sequence e"
  shows "wal_inv env ((write_all (serialize env e) w)
      \<lparr>current_segment := (current_segment w)
         \<lparr>file_size := file_size (current_segment w) + length (serialize env e)\<rparr>\<rparr>)
      old s (es @ [e])"
    (is "wal_inv env ?w old s _")
proof -
  from inv obtain ofiles f where
    w: "files w = ofiles @ [(segment_filename s, f)]" "list_all2 (seg_rel env) old ofiles"
      "contents f = concat (map (serialize env) es)" "durable f \<le> length (contents f)"
      "current_segment w = \<lparr>path = segment_filename s, start_sequence = s,
                            file_size = length (contents f)\<rparr>"
    and ord: "sorted_wrt (<) (map fst old @ [s])"
    and seqs: "sorted_wrt (<) (map sequence (log_of old es))"
    and all: "\<And>e. e \<in> set (log_of old es) \<Longrightarrow> readable env e \<and> sequence e < next_sequence w"
    and old: "\<And>e. e \<in> set (log_of old []) \<Longrightarrow> sequence e < s" and s: "s \<le> next_sequence w"
    by (rule wal_invE) blast
  have written: "files ?w
      = ofiles @ [(segment_filename s, f\<lparr>contents := contents f @ serialize env e\<rparr>)]"
    by (simp add: write_all_def on_current_inv [OF w(1,2) ord] w(5))
  have log: "log_of old (es @ [e]) = log_of old es @ [e]"
    by (simp add: log_of_def)
  have seqs': "sorted_wrt (<) (map sequence (log_of old (es @ [e])))"
    unfolding log using seqs above by (simp add: sorted_wrt_append)
  show ?thesis
    by (rule wal_invI [OF written w(2) _ _ _ ord seqs'])
      (use w(3,4,5) e all old s in \<open>auto simp: log\<close>)
qed

text \<open>
  Appending an entry adds it to the log under the next sequence number, whether or not the
  segment rotates. When it does, the new segment is named after the sequence number that
  follows the one of its first entry.
\<close>

lemma append_entry_inv:
  assumes inv: "wal_inv env w old s es"
    and e: "readable env (e\<lparr>sequence := next_sequence w\<rparr>)"
    and nx: "next_sequence w < u64_max"
    and app: "append_entry env clk e w = (seq, w')"
  obtains old' s' es' w3 where "wal_inv env w3 old' s' es'" and "w' = maybe_sync (clk 1) (clk 2) w3"
    and "sync_mode w3 = sync_mode w"
    and "log_of old' es' = log_of old es @ [e\<lparr>sequence := next_sequence w\<rparr>]"
    and "seq = next_sequence w" and "next_sequence w' = next_sequence w + 1"
    and "sync_mode w' = sync_mode w" and "max_segment_size w' = max_segment_size w"
proof -
  let ?e = "e\<lparr>sequence := next_sequence w\<rparr>"
  let ?w1 = "w\<lparr>next_sequence := next_sequence w + 1\<rparr>"
  let ?full = "max_segment_size w < file_size (current_segment w) + length (serialize env ?e)"
  define w2 where "w2 = (if ?full then rotate (clk 0) ?w1 else ?w1)"
  define w3 where "w3 = (write_all (serialize env ?e) w2)\<lparr>current_segment := (current_segment w2)
      \<lparr>file_size := file_size (current_segment w2) + length (serialize env ?e)\<rparr>\<rparr>"
  have nx': "next_sequence w < next_sequence w + 1"
    using nx by (rule word_less_plus_one)
  have inv1: "wal_inv env ?w1 old s es"
    using inv nx by (rule wal_inv_bump)
  have above: "\<forall>x \<in> set (log_of old es). sequence x < next_sequence w"
    and s: "s \<le> next_sequence w"
    using inv by (auto elim: wal_invE)
  have frame: "next_sequence w2 = next_sequence w + 1" "sync_mode w2 = sync_mode w"
    "max_segment_size w2 = max_segment_size w"
    by (simp_all add: w2_def rotate_def Let_def sync_def)
  obtain old' s' es' where inv2: "wal_inv env w2 old' s' es'"
    and log2: "log_of old' es' = log_of old es"
  proof (cases ?full)
    case True
    have "wal_inv env (rotate (clk 0) ?w1) (old @ [(s, es)]) (next_sequence ?w1) []"
      by (rule wal_inv_rotate [OF inv1]) (use s nx' in simp)
    then have "wal_inv env w2 (old @ [(s, es)]) (next_sequence ?w1) []"
      using True by (simp only: w2_def if_True)
    then show thesis by (rule that) (simp add: log_of_def)
  next
    case False
    then have "wal_inv env w2 old s es"
      using inv1 by (simp only: w2_def if_False)
    then show thesis by (rule that) (rule refl)
  qed
  have inv3: "wal_inv env w3 old' s' (es' @ [?e])"
    unfolding w3_def by (rule wal_inv_write [OF inv2 e]) (use nx' above log2 frame in auto)
  have "append_entry env clk e w = (next_sequence w, maybe_sync (clk 1) (clk 2) w3)"
    by (simp add: append_entry_def Let_def w3_def w2_def)
  then have res: "seq = next_sequence w" "w' = maybe_sync (clk 1) (clk 2) w3"
    using app by simp_all
  have mode: "next_sequence w3 = next_sequence w + 1" "sync_mode w3 = sync_mode w"
    "max_segment_size w3 = max_segment_size w"
    by (simp_all add: w3_def frame)
  show ?thesis
  proof (rule that)
    show "wal_inv env w3 old' s' (es' @ [?e])"
      by (rule inv3)
    show "log_of old' (es' @ [?e]) = log_of old es @ [?e]"
      using log2 by (simp add: log_of_def)
  qed (simp_all add: res maybe_sync_def mode split: sync_mode.split)
qed

end
