(* ===== verification/Wal_Log.thy ===== *)
theory Wal_Log
  imports Wal_Writer
begin

text \<open>
  The write-ahead log as a whole: the abstract log a run of the writer has acknowledged, what
  replay, the checkpoint search and the entry count read back from its directory, what is left of
  it after a crash, and the cases in which an acknowledged entry is lost.
\<close>

section \<open>Reading back what the writer wrote\<close>

lemma wal_inv_names:
  assumes "wal_inv env w old s es"
  shows "map fst (files w) = map segment_filename (map fst old @ [s])"
    and "sorted_wrt (<) (map fst old @ [s])"
  using assms by (auto elim!: wal_invE simp: seg_rel_names)

lemma dir_entries_append: "dir_entries env now (xs @ ys) = dir_entries env now xs @ dir_entries env now ys"
  by (simp add: dir_entries_def)

lemma dir_entries_Nil [simp]: "dir_entries env now [] = []"
  by (simp add: dir_entries_def)

lemma dir_entries_Cons:
  "dir_entries env now ((n, f) # xs) = read_segment_entries env now (contents f) @ dir_entries env now xs"
  by (simp add: dir_entries_def)

lemma read_segment_Nil [simp]: "read_segment_entries env now [] = []"
  by (simp add: read_segment_short)

lemma read_segment_all:
  "\<forall>e \<in> set es. readable env e \<Longrightarrow>
     read_segment_entries env now (concat (map (serialize env) es)) = map on_disk es"
  using read_segment_serialize_all [of es env now "[]"] by simp

lemma dir_entries_old:
  assumes "list_all2 (seg_rel env) old ofiles" "\<forall>e \<in> set (log_of old []). readable env e"
  shows "dir_entries env now ofiles = map on_disk (log_of old [])"
  using assms
proof (induction rule: list_all2_induct)
  case Nil
  then show ?case by (simp add: log_of_def)
next
  case (Cons se old nf ofiles)
  obtain s es n f where "se = (s, es)" "nf = (n, f)" by (cases se, cases nf)
  with Cons show ?case
    by (auto simp: dir_entries_Cons log_of_def seg_rel_def read_segment_all)
qed

lemma log_of_split: "log_of old es = log_of old [] @ es"
  by (simp add: log_of_def)

lemma wal_inv_readable:
  assumes "wal_inv env w old s es"
  shows "\<forall>e \<in> set (log_of old []). readable env e" "\<forall>e \<in> set es. readable env e"
proof -
  have "\<forall>e \<in> set (log_of old es). readable env e"
    by (rule wal_invE [OF assms]) blast
  then show "\<forall>e \<in> set (log_of old []). readable env e" "\<forall>e \<in> set es. readable env e"
    by (auto simp: log_of_def)
qed

lemma wal_inv_dir_entries:
  assumes "wal_inv env w old s es"
  shows "dir_entries env now (files w) = map on_disk (log_of old es)"
proof -
  from assms obtain ofiles f where
    "files w = ofiles @ [(segment_filename s, f)]" "list_all2 (seg_rel env) old ofiles"
    "contents f = concat (map (serialize env) es)"
    by (rule wal_invE) blast
  then show ?thesis
    using wal_inv_readable [OF assms]
    by (subst log_of_split) (simp add: dir_entries_append dir_entries_Cons dir_entries_old
        read_segment_all)
qed

lemma wal_inv_sorted: "wal_inv env w old s es \<Longrightarrow> sorted (map sequence (log_of old es))"
  by (auto elim!: wal_invE simp: strict_sorted_iff)

lemma map_sequence_on_disk [simp]: "map sequence (map on_disk es) = map sequence es"
  by simp

lemma replay_sorted:
  assumes "sorted (map sequence es)"
  shows "sort_key sequence (map on_disk (filter P es)) = map on_disk (filter P es)"
  by (rule sort_key_id_if_sorted) (use assms in \<open>simp add: sorted_filter comp_def\<close>)

lemma filter_on_disk: "filter (\<lambda>e. from \<le> sequence e) (map on_disk es)
    = map on_disk (filter (\<lambda>e. from \<le> sequence e) es)"
  by (simp add: filter_map comp_def)

section \<open>Crashes\<close>

text \<open>
  What a crash may leave of a directory: every file keeps its name and a prefix of its bytes that
  includes the durable ones. The creation of a file is taken to be durable.
\<close>

definition crash_file :: "string \<times> wal_file \<Rightarrow> string \<times> wal_file \<Rightarrow> bool" where
  "crash_file nf nf' \<longleftrightarrow>
     fst nf' = fst nf
     \<and> durable (snd nf) \<le> length (contents (snd nf'))
     \<and> length (contents (snd nf')) \<le> length (contents (snd nf))
     \<and> contents (snd nf') = take (length (contents (snd nf'))) (contents (snd nf))"

definition crash_image :: "wal_dir \<Rightarrow> wal_dir \<Rightarrow> bool" where
  "crash_image fs fs' \<longleftrightarrow> list_all2 crash_file fs fs'"

definition all_durable :: "wal_dir \<Rightarrow> bool" where
  "all_durable fs \<longleftrightarrow> list_all (\<lambda>(n, f). length (contents f) \<le> durable f) fs"

lemma crash_image_names: "crash_image fs fs' \<Longrightarrow> map fst fs' = map fst fs"
  unfolding crash_image_def by (induction rule: list_all2_induct) (auto simp: crash_file_def)

lemma crash_image_durable:
  "crash_image fs fs' \<Longrightarrow> all_durable fs \<Longrightarrow> dir_entries env now fs' = dir_entries env now fs"
  unfolding crash_image_def
  by (induction rule: list_all2_induct)
    (auto simp: crash_file_def all_durable_def dir_entries_Cons)

text \<open>A prefix of a segment file reads as a prefix of its entries.\<close>

lemma read_segment_take:
  assumes "\<forall>e \<in> set es. readable env e"
  shows "\<exists>n \<le> length es. read_segment_entries env now (take k (concat (map (serialize env) es)))
    = map on_disk (take n es)"
  using assms
proof (induction es arbitrary: k)
  case Nil
  then show ?case by simp
next
  case (Cons e es)
  show ?case
  proof (cases "k < length (serialize env e)")
    case True
    with Cons.prems have "read_segment_entries env now (take k (concat (map (serialize env) (e # es)))) = []"
      by (simp add: read_segment_torn_entry)
    then show ?thesis by (intro exI [of _ 0]) simp
  next
    case False
    obtain n where n: "n \<le> length es" "read_segment_entries env now
        (take (k - length (serialize env e)) (concat (map (serialize env) es))) = map on_disk (take n es)"
      using Cons by auto
    with False Cons.prems show ?thesis
      by (intro exI [of _ "Suc n"]) (simp add: read_segment_serialize)
  qed
qed

lemma wal_inv_crash:
  assumes inv: "wal_inv env w old s es" and crash: "crash_image (files w) fs'"
  obtains n where "n \<le> length es" "dir_entries env now fs' = map on_disk (log_of old [] @ take n es)"
proof -
  from inv obtain ofiles f where
    w: "files w = ofiles @ [(segment_filename s, f)]" "list_all2 (seg_rel env) old ofiles"
      "contents f = concat (map (serialize env) es)"
    by (rule wal_invE) blast
  from crash obtain ofiles' f' where fs': "fs' = ofiles' @ [(segment_filename s, f')]"
    and o: "crash_image ofiles ofiles'" and f': "contents f' = take (length (contents f')) (contents f)"
    by (auto simp: w(1) crash_image_def list_all2_append1 list_all2_Cons1 crash_file_def)
  have "all_durable ofiles"
    using w(2) unfolding all_durable_def
    by (induction rule: list_all2_induct) (auto simp: seg_rel_def)
  with o have "dir_entries env now ofiles' = map on_disk (log_of old [])"
    using dir_entries_old [OF w(2) wal_inv_readable(1) [OF inv]] by (simp add: crash_image_durable)
  moreover obtain n where "n \<le> length es" "read_segment_entries env now (contents f') = map on_disk (take n es)"
    using read_segment_take [OF wal_inv_readable(2) [OF inv], of now "length (contents f')"]
    by (metis f' w(3))
  ultimately show ?thesis
    by (intro that) (auto simp: fs' dir_entries_append dir_entries_Cons)
qed

section \<open>Opening\<close>

lemma scan_loop_shift: "scan_loop (pre @ data) (length pre + off) l = scan_loop data off l"
proof (induction data off l rule: scan_loop.induct)
  case (1 data off l)
  let ?n = "u32_from_le (slice data off (off + 4))"
  have sl: "slice (pre @ data) (length pre + i) (length pre + j) = slice data i j" for i j
    by (simp add: slice_def)
  have len: "slice (pre @ data) (length pre + off) (length pre + off + 4) = slice data off (off + 4)"
    using sl [of off "off + 4"] by (simp add: add.assoc)
  have seq: "slice (pre @ data) (length pre + off + 4 + 4) (length pre + off + 4 + 4 + 8)
      = slice data (off + 4 + 4) (off + 4 + 4 + 8)"
    using sl [of "off + 4 + 4" "off + 4 + 4 + 8"] by (simp add: add.assoc)
  show ?case
  proof (cases "length data < off + 4 \<or> length data < off + 4 + unat ?n")
    case True
    then show ?thesis
      by (auto simp: scan_loop.simps [of "pre @ data" "length pre + off"]
          scan_loop.simps [of data off] len Let_def)
  next
    case False
    then have "scan_loop (pre @ data) (length pre + off + 4 + unat ?n) k
        = scan_loop data (off + 4 + unat ?n) k"
      if "k = (if off + 4 + 4 + 8 \<le> length data then
            let q = u64_from_le (slice data (off + 4 + 4) (off + 4 + 4 + 8)) in
            if l \<le> q then q else l else l)" for k
      using 1 [OF _ refl _ refl that] by (simp add: add.assoc)
    with False show ?thesis
      by (simp only: scan_loop.simps [of "pre @ data" "length pre + off"]
          scan_loop.simps [of data off] len seq Let_def) simp
  qed
qed

lemma scan_loop_serialize:
  assumes "readable env e"
  shows "scan_loop (serialize env e @ rest) 0 l = scan_loop rest 0 (max l (sequence e))"
proof -
  define n where "n = (word_of_nat (4 + length (inner_bytes e)) :: u32)"
  let ?data = "serialize env e @ rest"
  have n: "unat n = 4 + length (inner_bytes e)"
    unfolding n_def by (rule readable_len [OF assms])
  have len: "slice ?data 0 4 = u32_to_le n"
    by (subst serialize_split) (simp add: n_def)
  have "?data = (u32_to_le n @ u32_to_le (crc32 env (inner_bytes e)))
      @ u64_to_le (sequence e) @ drop 8 (inner_bytes e) @ rest"
    by (simp add: serialize_def Let_def inner_bytes_def n_def)
  then have seq: "slice ?data 8 16 = u64_to_le (sequence e)"
    by (simp only:) (rule slice_middle, simp_all)
  have total: "length ?data = 4 + unat n + length rest" "16 \<le> length ?data"
    using n by (simp_all add: length_serialize length_inner_bytes)
  have "scan_loop ?data (4 + unat n) k = scan_loop rest 0 k" for k
    using scan_loop_shift [of "serialize env e" rest 0 k] n by (simp add: length_serialize)
  then show ?thesis
    using total len seq
    by (subst scan_loop.simps) (simp add: Let_def max_def del: slice_zero length_append)
qed

lemma scan_loop_serialize_all:
  "\<forall>e \<in> set es. readable env e \<Longrightarrow>
     scan_loop (concat (map (serialize env) es)) 0 l = foldl max l (map sequence es)"
proof (induction es arbitrary: l)
  case Nil
  then show ?case by (simp add: scan_loop.simps [of "[]"])
next
  case (Cons e es)
  then show ?case by (simp add: scan_loop_serialize)
qed

lemma foldl_max_upper: "foldl max l xs \<le> (b :: 'a::linorder) \<longleftrightarrow> l \<le> b \<and> (\<forall>x \<in> set xs. x \<le> b)"
  by (induction xs arbitrary: l) auto

lemma concat_serialize_Nil: "concat (map (serialize env) es) = [] \<longleftrightarrow> es = []"
proof -
  have "serialize env e \<noteq> []" for e
    using length_serialize [of env e] by auto
  then show ?thesis by (cases es) auto
qed

text \<open>Opening the directory of a writer continues its log.\<close>

lemma wal_inv_reopen:
  assumes inv: "wal_inv env w old s es" and nx: "next_sequence w < u64_max"
  obtains w' where "open_with_max_size name (Some (files w)) mode mx t = Inr w'"
    and "wal_inv env w' old s es" and "files w' = files w" and "sync_mode w' = mode"
    and "\<forall>e \<in> set (log_of old es). sequence e < next_sequence w'"
proof -
  from inv obtain ofiles f where
    w: "files w = ofiles @ [(segment_filename s, f)]" "list_all2 (seg_rel env) old ofiles"
      "contents f = concat (map (serialize env) es)" "durable f \<le> length (contents f)"
    and ord: "sorted_wrt (<) (map fst old @ [s])"
    and seqs: "sorted_wrt (<) (map sequence (log_of old es))"
    and all: "\<And>e. e \<in> set (log_of old es) \<Longrightarrow> readable env e \<and> sequence e < next_sequence w"
    and old: "\<And>e. e \<in> set (log_of old []) \<Longrightarrow> sequence e < s" and s: "s \<le> next_sequence w"
    by (rule wal_invE) blast
  note names = wal_inv_names [OF inv]
  let ?seg = "\<lparr>path = segment_filename s, start_sequence = s, file_size = length (contents f)\<rparr>"
  let ?r = "foldl max s (map sequence es)"
  have segs: "list_segments name (Some (files w)) = Inr (List.map_filter segment_of (files w))"
    by (rule list_segments_files [OF names])
  have last: "List.map_filter segment_of (files w)
      = List.map_filter segment_of ofiles @ [?seg]"
    by (simp add: w(1) List.map_filter_def segment_of_def parse_segment_filename_roundtrip)
  have lookup: "map_of (files w) (segment_filename s) = Some f"
    unfolding w(1) by (rule map_of_last [OF seg_name_fresh [OF w(2) ord]])
  have scan: "scan_last_sequence (files w) ?seg = ?r + 1"
  proof (cases "es = []")
    case True
    then show ?thesis by (simp add: scan_last_sequence_def w(3))
  next
    case False
    then have "contents f \<noteq> []"
      unfolding w(3) concat_serialize_Nil .
    moreover have "scan_loop (contents f) 0 s = ?r"
      unfolding w(3) by (rule scan_loop_serialize_all [OF wal_inv_readable(2) [OF inv]])
    ultimately show ?thesis by (simp add: scan_last_sequence_def lookup)
  qed
  have "?r \<le> next_sequence w"
    using s all by (auto simp: foldl_max_upper log_of_def intro: less_imp_le)
  then have r: "?r < ?r + 1"
    using nx by (intro word_less_plus_one) (rule le_less_trans)
  have above: "s \<le> ?r" "\<forall>e \<in> set es. sequence e \<le> ?r"
    using foldl_max_upper [of s "map sequence es" ?r] by auto
  let ?w' = "\<lparr>dir_name = name, files = files w, current_segment = ?seg, next_sequence = ?r + 1,
    max_segment_size = mx, sync_mode = mode, last_sync = t\<rparr>"
  have less: "sequence e < ?r + 1" if "e \<in> set (log_of old es)" for e
    using that above r old [of e] by (auto simp: log_of_def) force+
  show ?thesis
  proof (rule that)
    show "open_with_max_size name (Some (files w)) mode mx t = Inr ?w'"
      by (simp add: open_with_max_size_def segs last scan)
    show "wal_inv env ?w' old s es"
      by (rule wal_invI [OF _ w(2,3,4) _ ord seqs]) (use all old less above r in \<open>auto simp: w(1)\<close>)
  qed (use less in auto)
qed

lemma wal_inv_fresh:
  shows "open_with_max_size name None mode mx t
     = Inr \<lparr>dir_name = name, files = [(segment_filename 0, \<lparr>contents = [], durable = 0\<rparr>)],
           current_segment = \<lparr>path = segment_filename 0, start_sequence = 0, file_size = 0\<rparr>,
           next_sequence = 1, max_segment_size = mx, sync_mode = mode, last_sync = t\<rparr>"
    (is "_ = Inr ?w")
    and "wal_inv env \<lparr>dir_name = name, files = [(segment_filename 0, \<lparr>contents = [], durable = 0\<rparr>)],
           current_segment = \<lparr>path = segment_filename 0, start_sequence = 0, file_size = 0\<rparr>,
           next_sequence = 1, max_segment_size = mx, sync_mode = mode, last_sync = t\<rparr> [] 0 []"
proof -
  show "open_with_max_size name None mode mx t = Inr ?w"
    by (simp add: open_with_max_size_def list_segments_def List.map_filter_simps Let_def)
  show "wal_inv env ?w [] 0 []"
    by (rule wal_invI [where ofiles = "[]"]) (auto simp: log_of_def)
qed

section \<open>Runs of a writer\<close>

text \<open>
  The operations of a writer, and the log of the entries they have acknowledged. \<open>OpReopen\<close> drops
  the writer and opens its directory again. \<open>wal_ok\<close> is what the code relies on: an appended entry
  is one the reader accepts, the sequence counter does not overflow, and \<open>rotate\<close> is not called
  when the open segment is already named after the next sequence number.
\<close>

datatype wal_op =
    OpAppend wal_entry "nat \<Rightarrow> nat"
  | OpCheckpoint datetime "nat \<Rightarrow> nat"
  | OpSync nat
  | OpRotate nat
  | OpReopen sync_mode nat nat

type_synonym wal_state = "wal_writer \<times> wal_entry list"

fun wal_step :: "wal_env \<Rightarrow> wal_state \<Rightarrow> wal_op \<Rightarrow> wal_state" where
  "wal_step env (w, log) (OpAppend e clk) =
     (let (seq, w') = append_entry env clk e w in (w', log @ [e\<lparr>sequence := seq\<rparr>]))"
| "wal_step env (w, log) (OpCheckpoint now clk) =
     (let (seq, w') = checkpoint env clk now w in (w', log @ [(checkpoint_entry now)\<lparr>sequence := seq\<rparr>]))"
| "wal_step env (w, log) (OpSync t) = (sync t w, log)"
| "wal_step env (w, log) (OpRotate t) = (rotate t w, log)"
| "wal_step env (w, log) (OpReopen mode mx t) =
     (case open_with_max_size (dir_name w) (Some (files w)) mode mx t of
        Inr w' \<Rightarrow> (w', log)
      | Inl _ \<Rightarrow> (w, log))"

fun wal_ok :: "wal_env \<Rightarrow> wal_state \<Rightarrow> wal_op \<Rightarrow> bool" where
  "wal_ok env (w, log) (OpAppend e clk) \<longleftrightarrow>
     readable env (e\<lparr>sequence := next_sequence w\<rparr>) \<and> next_sequence w < u64_max"
| "wal_ok env (w, log) (OpCheckpoint now clk) \<longleftrightarrow>
     readable env ((checkpoint_entry now)\<lparr>sequence := next_sequence w\<rparr>) \<and> next_sequence w < u64_max"
| "wal_ok env (w, log) (OpSync t) \<longleftrightarrow> True"
| "wal_ok env (w, log) (OpRotate t) \<longleftrightarrow> start_sequence (current_segment w) < next_sequence w"
| "wal_ok env (w, log) (OpReopen mode mx t) \<longleftrightarrow> next_sequence w < u64_max"

definition holds_log :: "wal_env \<Rightarrow> wal_state \<Rightarrow> bool" where
  "holds_log env wl \<longleftrightarrow> (\<exists>old s es. wal_inv env (fst wl) old s es \<and> snd wl = log_of old es)"

lemma holds_logI: "wal_inv env w old s es \<Longrightarrow> log = log_of old es \<Longrightarrow> holds_log env (w, log)"
  by (auto simp: holds_log_def)

lemma holds_logE:
  assumes "holds_log env (w, log)"
  obtains old s es where "wal_inv env w old s es" "log = log_of old es"
  using assms by (auto simp: holds_log_def)

lemma wal_inv_start: "wal_inv env w old s es \<Longrightarrow> start_sequence (current_segment w) = s"
  by (erule wal_invE) simp

lemma wal_step_append:
  assumes "holds_log env (w, log)" "wal_ok env (w, log) (OpAppend e clk)"
    and "append_entry env clk e w = (seq, w')"
  shows "holds_log env (w', log @ [e\<lparr>sequence := seq\<rparr>])" and "seq = next_sequence w"
proof -
  from assms(1) obtain old s es where inv: "wal_inv env w old s es" and log: "log = log_of old es"
    by (rule holds_logE)
  have ok: "readable env (e\<lparr>sequence := next_sequence w\<rparr>)" "next_sequence w < u64_max"
    using assms(2) by auto
  obtain old' s' es' w3 where inv3: "wal_inv env w3 old' s' es'"
    and w': "w' = maybe_sync (clk 1) (clk 2) w3"
    and log': "log_of old' es' = log_of old es @ [e\<lparr>sequence := next_sequence w\<rparr>]"
    and seq: "seq = next_sequence w"
    by (rule append_entry_inv [OF inv ok assms(3)])
  have inv': "wal_inv env w' old' s' es'"
    unfolding w' by (rule wal_inv_maybe_sync [OF inv3])
  show "holds_log env (w', log @ [e\<lparr>sequence := seq\<rparr>])"
    by (rule holds_logI [OF inv']) (simp add: log log' seq)
  show "seq = next_sequence w" by (rule seq)
qed

lemma wal_step_holds_log:
  assumes "holds_log env wl" "wal_ok env wl l"
  shows "holds_log env (wal_step env wl l)"
proof -
  obtain w log where wl: "wl = (w, log)" by (cases wl)
  from assms(1) obtain old s es where inv: "wal_inv env w old s es" and log: "log = log_of old es"
    unfolding wl by (rule holds_logE)
  show ?thesis
  proof (cases l)
    case (OpAppend e clk)
    obtain seq w' where app: "append_entry env clk e w = (seq, w')"
      by (cases "append_entry env clk e w")
    have "holds_log env (w', log @ [e\<lparr>sequence := seq\<rparr>])"
      by (rule wal_step_append(1) [OF _ _ app]) (use assms in \<open>simp_all only: wl OpAppend\<close>)
    then show ?thesis by (simp add: wl OpAppend app)
  next
    case (OpCheckpoint now clk)
    obtain seq w' where app: "append_entry env clk (checkpoint_entry now) w = (seq, w')"
      by (cases "append_entry env clk (checkpoint_entry now) w")
    have "holds_log env (w', log @ [(checkpoint_entry now)\<lparr>sequence := seq\<rparr>])"
      by (rule wal_step_append(1) [OF _ _ app])
        (use assms in \<open>simp_all only: wl OpCheckpoint wal_ok.simps\<close>)
    then obtain old' s' es' where "wal_inv env w' old' s' es'"
      "log @ [(checkpoint_entry now)\<lparr>sequence := seq\<rparr>] = log_of old' es'"
      by (rule holds_logE)
    then show ?thesis
      by (simp add: wl OpCheckpoint checkpoint_def app holds_logI [OF wal_inv_sync])
  next
    case (OpSync t)
    show ?thesis
      by (simp add: wl OpSync) (rule holds_logI [OF wal_inv_sync [OF inv] log])
  next
    case (OpRotate t)
    have "s < next_sequence w"
      using assms(2) by (simp add: wl OpRotate wal_inv_start [OF inv])
    then have "holds_log env (rotate t w, log)"
      by (intro holds_logI [OF wal_inv_rotate [OF inv]]) (simp_all add: log log_of_def)
    then show ?thesis by (simp add: wl OpRotate)
  next
    case (OpReopen mode mx t)
    have nx: "next_sequence w < u64_max"
      using assms(2) by (simp add: wl OpReopen)
    obtain w' where "open_with_max_size (dir_name w) (Some (files w)) mode mx t = Inr w'"
      "wal_inv env w' old s es"
      by (rule wal_inv_reopen [OF inv nx])
    then show ?thesis
      by (simp add: wl OpReopen holds_logI [OF _ log])
  qed
qed

interpretation wal: step_system "wal_step env" "wal_ok env" "holds_log env"
  by unfold_locales (rule wal_step_holds_log)

text \<open>The state after opening a directory that does not exist and running operations.\<close>

definition wal_fresh :: "string \<Rightarrow> sync_mode \<Rightarrow> nat \<Rightarrow> nat \<Rightarrow> wal_state" where
  "wal_fresh name mode mx t =
     (case open_with_max_size name None mode mx t of Inr w \<Rightarrow> (w, []) | Inl _ \<Rightarrow> undefined)"

lemma holds_log_fresh: "holds_log env (wal_fresh name mode mx t)"
  unfolding wal_fresh_def wal_inv_fresh(1) sum.case
  by (rule holds_logI [OF wal_inv_fresh(2)]) (simp add: log_of_def)

lemma run_holds_log:
  "run_ok (wal_step env) (wal_ok env) (wal_fresh name mode mx t) ops \<Longrightarrow>
     run (wal_step env) (wal_fresh name mode mx t) ops = (w, log) \<Longrightarrow> holds_log env (w, log)"
  using wal.run_inv [OF holds_log_fresh] by metis

lemma holds_log_reads:
  assumes "holds_log env (w, log)"
  shows "dir_entries env now (files w) = map on_disk log"
    and "sorted (map sequence log)"
    and "\<exists>ss. map fst (files w) = map segment_filename ss \<and> sorted_wrt (<) ss"
proof -
  from assms obtain old s es where inv: "wal_inv env w old s es" and log: "log = log_of old es"
    by (rule holds_logE)
  show "dir_entries env now (files w) = map on_disk log"
    unfolding log by (rule wal_inv_dir_entries [OF inv])
  show "sorted (map sequence log)"
    unfolding log by (rule wal_inv_sorted [OF inv])
  show "\<exists>ss. map fst (files w) = map segment_filename ss \<and> sorted_wrt (<) ss"
    using wal_inv_names [OF inv] by metis
qed

lemma holds_log_replay:
  assumes "holds_log env (w, log)"
  shows "replay_from env now d (Some (files w)) from
    = Inr \<lparr>entries = map on_disk (filter (\<lambda>e. from \<le> sequence e) log), position = 0\<rparr>"
proof -
  obtain ss where "map fst (files w) = map segment_filename ss" "sorted_wrt (<) ss"
    using holds_log_reads(3) [OF assms] by blast
  then show ?thesis
    by (simp add: replay_from_files holds_log_reads(1) [OF assms] filter_on_disk
        replay_sorted [OF holds_log_reads(2) [OF assms]])
qed

lemma holds_log_count:
  assumes "holds_log env (w, log)"
  shows "entry_count env now d (Some (files w)) = Inr (length log)"
proof -
  obtain ss where "map fst (files w) = map segment_filename ss" "sorted_wrt (<) ss"
    using holds_log_reads(3) [OF assms] by blast
  then show ?thesis by (simp add: entry_count_files holds_log_reads(1) [OF assms])
qed

lemma find_map: "List.find P (map f xs) = map_option f (List.find (P \<circ> f) xs)"
  by (induction xs) auto

lemma holds_log_checkpoint:
  assumes "holds_log env (w, log)"
  shows "find_last_checkpoint env now d (Some (files w))
    = Inr (map_option sequence (List.find (\<lambda>e. operation e = Checkpoint) (rev log)))"
proof -
  obtain ss where "map fst (files w) = map segment_filename ss" "sorted_wrt (<) ss"
    using holds_log_reads(3) [OF assms] by blast
  then show ?thesis
    by (simp add: find_last_checkpoint_files holds_log_reads(1) [OF assms] rev_map find_map comp_def
        option.map_comp)
qed

lemma find_rev_None: "List.find P (rev xs) = None \<longleftrightarrow> (\<forall>x \<in> set xs. \<not> P x)"
  by (auto simp: find_None_iff)

lemma find_rev_max:
  "sorted (map f xs) \<Longrightarrow> List.find P (rev xs) = Some x \<Longrightarrow>
     x \<in> set xs \<and> P x \<and> (\<forall>y \<in> set xs. P y \<longrightarrow> f y \<le> f x)"
proof (induction xs rule: rev_induct)
  case Nil
  then show ?case by simp
next
  case (snoc z xs)
  then show ?case
    by (auto simp: sorted_append split: if_splits)
qed

lemma crash_image_refl:
  "list_all (\<lambda>(n, f). durable f \<le> length (contents f)) fs \<Longrightarrow> crash_image fs fs"
  unfolding crash_image_def by (induction fs) (auto simp: crash_file_def)

lemma holds_log_durable_le:
  assumes "holds_log env (w, log)"
  shows "list_all (\<lambda>(n, f). durable f \<le> length (contents f)) (files w)"
proof -
  from assms obtain old s es where "wal_inv env w old s es" by (rule holds_logE)
  then obtain ofiles f where "files w = ofiles @ [(segment_filename s, f)]"
    "list_all2 (seg_rel env) old ofiles" "durable f \<le> length (contents f)"
    by (rule wal_invE) blast
  moreover have "list_all (\<lambda>(n, f). durable f \<le> length (contents f)) ofiles"
    using \<open>list_all2 (seg_rel env) old ofiles\<close>
    by (induction rule: list_all2_induct) (auto simp: seg_rel_def)
  ultimately show ?thesis by simp
qed

section \<open>Durability in Fsync mode\<close>

definition fsynced :: "wal_env \<Rightarrow> wal_state \<Rightarrow> bool" where
  "fsynced env wl \<longleftrightarrow> holds_log env wl \<and> sync_mode (fst wl) = Fsync \<and> all_durable (files (fst wl))"

fun fsync_ok :: "wal_env \<Rightarrow> wal_state \<Rightarrow> wal_op \<Rightarrow> bool" where
  "fsync_ok env wl (OpReopen mode mx t) \<longleftrightarrow> mode = Fsync \<and> wal_ok env wl (OpReopen mode mx t)"
| "fsync_ok env wl l \<longleftrightarrow> wal_ok env wl l"

lemma fsync_ok_imp: "fsync_ok env wl l \<Longrightarrow> wal_ok env wl l"
  by (cases l) auto

lemma run_fsync_ok_imp:
  "run_ok (wal_step env) (fsync_ok env) wl ops \<Longrightarrow> run_ok (wal_step env) (wal_ok env) wl ops"
  by (induction ops arbitrary: wl) (auto dest: fsync_ok_imp)

lemma all_durable_old: "list_all2 (seg_rel env) old ofiles \<Longrightarrow> all_durable ofiles"
  unfolding all_durable_def by (induction rule: list_all2_induct) (auto simp: seg_rel_def)

lemma all_durable_sync_all: "wal_inv env w old s es \<Longrightarrow> all_durable (files (sync_all w))"
  by (erule wal_invE)
    (simp add: sync_all_def on_current_inv all_durable_old [unfolded all_durable_def] all_durable_def)

lemma all_durable_rotate:
  assumes "wal_inv env w old s es" "s < next_sequence w"
  shows "all_durable (files (rotate t w))"
proof -
  have "wal_inv env (rotate t w) (old @ [(s, es)]) (next_sequence w) []"
    using assms by (rule wal_inv_rotate)
  then show ?thesis
    by (rule wal_invE) (auto simp: all_durable_def dest: all_durable_old [unfolded all_durable_def])
qed

lemma fsync_step:
  assumes "fsynced env wl" "fsync_ok env wl l"
  shows "fsynced env (wal_step env wl l)"
proof -
  obtain w log where wl: "wl = (w, log)" by (cases wl)
  from assms(1) have hl: "holds_log env (w, log)" and mode: "sync_mode w = Fsync"
    and dur: "all_durable (files w)" by (auto simp: fsynced_def wl)
  from hl obtain old s es where inv: "wal_inv env w old s es" by (rule holds_logE)
  have ok: "wal_ok env (w, log) l" using assms(2) by (simp add: wl fsync_ok_imp)
  have hl': "holds_log env (wal_step env (w, log) l)" by (rule wal_step_holds_log [OF hl ok])
  have app: "sync_mode w' = Fsync \<and> all_durable (files w')
      \<and> (\<exists>old s es. wal_inv env w' old s es)"
    if a: "append_entry env clk e w = (seq, w')" and g: "wal_ok env (w, log) (OpAppend e clk)"
    for e clk seq w'
  proof -
    have g': "readable env (e\<lparr>sequence := next_sequence w\<rparr>)" "next_sequence w < u64_max"
      using g by auto
    obtain old' s' es' w3 where w3: "wal_inv env w3 old' s' es'" "w' = maybe_sync (clk 1) (clk 2) w3"
      "sync_mode w3 = sync_mode w"
      by (rule append_entry_inv [OF inv g' a])
    have "wal_inv env w' old' s' es'"
      unfolding w3(2) by (rule wal_inv_maybe_sync [OF w3(1)])
    then show ?thesis
      using all_durable_sync_all [OF w3(1)] w3(2,3) mode by (auto simp: maybe_sync_def)
  qed
  have "sync_mode (fst (wal_step env (w, log) l)) = Fsync
      \<and> all_durable (files (fst (wal_step env (w, log) l)))"
  proof (cases l)
    case (OpAppend e clk)
    obtain seq w' where a: "append_entry env clk e w = (seq, w')" by (cases "append_entry env clk e w")
    have "sync_mode w' = Fsync \<and> all_durable (files w')"
      using app [OF a] ok by (simp only: OpAppend)
    then show ?thesis by (simp add: OpAppend a)
  next
    case (OpCheckpoint now clk)
    obtain seq w' where a: "append_entry env clk (checkpoint_entry now) w = (seq, w')"
      by (cases "append_entry env clk (checkpoint_entry now) w")
    have "wal_ok env (w, log) (OpAppend (checkpoint_entry now) clk)"
      using ok by (simp add: OpCheckpoint)
    from app [OF a this] obtain old' s' es' where
      "sync_mode w' = Fsync" "wal_inv env w' old' s' es'" by blast
    then show ?thesis
      by (simp add: OpCheckpoint checkpoint_def a sync_def all_durable_sync_all)
  next
    case (OpSync t)
    show ?thesis by (simp add: OpSync sync_def mode all_durable_sync_all [OF inv])
  next
    case (OpRotate t)
    have "s < next_sequence w" using ok by (simp add: OpRotate wal_inv_start [OF inv])
    then show ?thesis
      using all_durable_rotate [OF inv] by (simp add: OpRotate) (simp add: rotate_def Let_def sync_def mode)
  next
    case (OpReopen md mx t)
    have "md = Fsync" "next_sequence w < u64_max" using assms(2) by (simp_all add: wl OpReopen)
    moreover obtain w' where
      "open_with_max_size (dir_name w) (Some (files w)) md mx t = Inr w'"
      "files w' = files w" "sync_mode w' = md"
      by (rule wal_inv_reopen [OF inv \<open>next_sequence w < u64_max\<close>])
    ultimately show ?thesis by (simp add: OpReopen dur)
  qed
  with hl' show ?thesis by (simp add: fsynced_def wl)
qed

interpretation wal_fsync: step_system "wal_step env" "fsync_ok env" "fsynced env"
  by unfold_locales (rule fsync_step)

lemma fsynced_fresh: "fsynced env (wal_fresh name Fsync mx t)"
  using holds_log_fresh [of env name Fsync mx t]
  by (simp add: fsynced_def wal_fresh_def wal_inv_fresh(1) all_durable_def)

section \<open>Pruning the directory of a writer\<close>

lemma fold_delete_filter:
  "fold (\<lambda>s. AList.delete (p s)) xs m = filter (\<lambda>(n, f). n \<notin> p ` set xs) m"
  by (induction xs arbitrary: m) (auto simp: AList.delete_eq intro!: filter_cong)

lemma dir_entries_filter_old:
  assumes "list_all2 (seg_rel env) old ofiles" "\<forall>e \<in> set (log_of old []). readable env e"
    and "\<And>st n f. parse_segment_filename n = Some st \<Longrightarrow> P (n, f) = Q st"
  shows "dir_entries env now (filter P ofiles) = map on_disk (log_of (filter (\<lambda>se. Q (fst se)) old) [])"
  using assms(1,2)
proof (induction rule: list_all2_induct)
  case Nil
  then show ?case by (simp add: log_of_def)
next
  case (Cons se old nf ofiles)
  obtain s es n f where p: "se = (s, es)" "nf = (n, f)" by (cases se, cases nf)
  with Cons.hyps have n: "n = segment_filename s" "contents f = concat (map (serialize env) es)"
    by (simp_all add: seg_rel_def)
  have "P (n, f) = Q s" by (rule assms(3)) (simp add: n parse_segment_filename_roundtrip)
  moreover have "\<forall>e \<in> set es. readable env e" "\<forall>e \<in> set (log_of old []). readable env e"
    using Cons.prems by (auto simp: p log_of_def)
  ultimately show ?case
    using Cons.IH by (simp add: p n dir_entries_Cons log_of_def read_segment_all)
qed

text \<open>
  Pruning at a sequence number not above the name of the current segment deletes every segment
  named below it, whatever entries it holds.
\<close>

lemma prune_wal_inv:
  assumes inv: "wal_inv env w old s es" and c: "c \<le> s"
  obtains n fs' ss where "prune_segments_before d (Some (files w)) c = Inr (n, fs')"
    and "n = length (filter (\<lambda>se. fst se < c) old)"
    and "map fst fs' = map segment_filename ss" "sorted_wrt (<) ss"
    and "dir_entries env now fs' = map on_disk (log_of (filter (\<lambda>se. c \<le> fst se) old) es)"
proof -
  note names = wal_inv_names [OF inv]
  from inv obtain ofiles f where
    w: "files w = ofiles @ [(segment_filename s, f)]" "list_all2 (seg_rel env) old ofiles"
      "contents f = concat (map (serialize env) es)"
    by (rule wal_invE) blast
  define segs where "segs = List.map_filter segment_of (files w)"
  have list: "list_segments d (Some (files w)) = Inr segs"
    unfolding segs_def by (rule list_segments_files [OF names])
  have starts: "map start_sequence segs = map fst old @ [s]"
    unfolding segs_def by (rule map_filter_segment_of(2) [OF names(1)])
  then have "s \<in> start_sequence ` set segs" by (metis in_set_conv_decomp list.set_map)
  then have later: "list_ex (\<lambda>s. c \<le> start_sequence s) segs"
    using c by (auto simp: list_ex_iff)
  let ?gone = "filter (\<lambda>s. start_sequence s < c) segs"
  let ?keep = "\<lambda>nf. case parse_segment_filename (fst nf) of None \<Rightarrow> True | Some st \<Rightarrow> c \<le> st"
  have gone: "n \<in> path ` set ?gone \<longleftrightarrow> \<not> ?keep (n, g)" if "(n, g) \<in> set (files w)" for n g
  proof -
    have "n \<in> path ` set ?gone \<longleftrightarrow> (\<exists>seg. seg \<in> set segs \<and> path seg = n \<and> start_sequence seg < c)"
      by auto
    also have "\<dots> \<longleftrightarrow> (\<exists>st. parse_segment_filename n = Some st \<and> st < c)"
    proof
      assume "\<exists>seg. seg \<in> set segs \<and> path seg = n \<and> start_sequence seg < c"
      then show "\<exists>st. parse_segment_filename n = Some st \<and> st < c"
        using list_segments_path_parses [OF list] by blast
    next
      assume "\<exists>st. parse_segment_filename n = Some st \<and> st < c"
      then obtain st where "parse_segment_filename n = Some st" "st < c" by blast
      with that show "\<exists>seg. seg \<in> set segs \<and> path seg = n \<and> start_sequence seg < c"
        by (intro exI [of _ "\<lparr>path = n, start_sequence = st, file_size = length (contents g)\<rparr>"])
          (auto simp: set_list_segments [OF list] segment_of_eq_Some)
    qed
    finally show ?thesis by (auto split: option.splits)
  qed
  let ?fs' = "filter ?keep (files w)"
  have fs': "fold (\<lambda>s. AList.delete (path s)) ?gone (files w) = ?fs'"
    unfolding fold_delete_filter
  proof (rule filter_cong [OF refl])
    fix nf assume "nf \<in> set (files w)"
    moreover obtain n g where "nf = (n, g)" by (cases nf)
    ultimately show "(case nf of (n, f) \<Rightarrow> n \<notin> path ` set ?gone) = ?keep nf"
      using gone [of n g] by (simp only: prod.case not_not)
  qed
  have cnt: "length ?gone = length (filter (\<lambda>se. fst se < c) old)"
  proof -
    have "length ?gone = length (filter (\<lambda>st. st < c) (map start_sequence segs))"
      by (simp add: filter_map comp_def)
    then show ?thesis using c by (simp add: starts filter_map comp_def)
  qed
  have keep_s: "?keep (segment_filename s, g)" for g
    using c by (simp add: parse_segment_filename_roundtrip)
  have old: "dir_entries env now (filter ?keep ofiles)
      = map on_disk (log_of (filter (\<lambda>se. c \<le> fst se) old) [])"
    by (rule dir_entries_filter_old [OF w(2) wal_inv_readable(1) [OF inv]]) simp
  show ?thesis
  proof (rule that)
    show "prune_segments_before d (Some (files w)) c = Inr (length ?gone, ?fs')"
      using later by (simp add: prune_segments_before_def list prune_loop_result fs')
    show "length ?gone = length (filter (\<lambda>se. fst se < c) old)" by (rule cnt)
    have "map fst ?fs' = map segment_filename (filter (\<lambda>st. c \<le> st) (map fst old @ [s]))"
    proof -
      have "map fst ?fs' = filter (\<lambda>n. ?keep (n, ())) (map fst (files w))"
        by (simp add: filter_map comp_def)
      also have "\<dots> = map segment_filename (filter (\<lambda>st. c \<le> st) (map fst old @ [s]))"
        by (simp only: names(1) filter_map comp_def fst_conv parse_segment_filename_roundtrip option.case)
      finally show ?thesis .
    qed
    then show "map fst ?fs' = map segment_filename (filter (\<lambda>st. c \<le> st) (map fst old @ [s]))" .
    show "sorted_wrt (<) (filter (\<lambda>st. c \<le> st) (map fst old @ [s]))"
      by (rule sorted_wrt_filter [OF names(2)])
    show "dir_entries env now ?fs' = map on_disk (log_of (filter (\<lambda>se. c \<le> fst se) old) es)"
      using wal_inv_readable(2) [OF inv] keep_s
      by (subst log_of_split)
        (simp add: w(1,3) dir_entries_append old dir_entries_Cons read_segment_all)
  qed
qed

section \<open>Appends to an arbitrary last file\<close>

text \<open>
  What an append does to a directory whose last file is the open one, whatever that file holds:
  without a rotation its bytes go to the end of it, with one they are the whole of a new file.
\<close>

lemma on_current_last:
  assumes "files w = ofiles @ [(n, f)]" "n \<notin> fst ` set ofiles" "path (current_segment w) = n"
  shows "on_current g w = w\<lparr>files := ofiles @ [(n, g f)]\<rparr>"
  using assms by (simp add: on_current_def map_of_last update_last del: map_of_append)

lemma maybe_sync_last:
  assumes "files w = ofiles @ [(n, f)]" "n \<notin> fst ` set ofiles" "path (current_segment w) = n"
  shows "\<exists>d. files (maybe_sync t u w) = ofiles @ [(n, f\<lparr>durable := d\<rparr>)]"
proof -
  have same: "f = f\<lparr>durable := durable f\<rparr>" by simp
  show ?thesis
    using assms
    by (auto simp: maybe_sync_def sync_all_def on_current_last split: sync_mode.split
        intro: exI [of _ "durable f"])
qed

lemma append_entry_last:
  assumes w: "files w = ofiles @ [(n, f)]" "n \<notin> fst ` set ofiles" "path (current_segment w) = n"
    and fit: "file_size (current_segment w) + length (serialize env (e\<lparr>sequence := next_sequence w\<rparr>))
        \<le> max_segment_size w"
  shows "\<exists>d. files (snd (append_entry env clk e w)) = ofiles @
    [(n, \<lparr>contents = contents f @ serialize env (e\<lparr>sequence := next_sequence w\<rparr>), durable = d\<rparr>)]"
proof -
  let ?b = "serialize env (e\<lparr>sequence := next_sequence w\<rparr>)"
  let ?w1 = "write_all ?b (w\<lparr>next_sequence := next_sequence w + 1\<rparr>)"
  let ?w2 = "?w1\<lparr>current_segment := (current_segment ?w1)
      \<lparr>file_size := file_size (current_segment ?w1) + length ?b\<rparr>\<rparr>"
  have "files ?w1 = ofiles @ [(n, f\<lparr>contents := contents f @ ?b\<rparr>)]"
    unfolding write_all_def by (subst on_current_last [where n = n]) (use w in simp_all)
  then have "\<exists>d. files (maybe_sync (clk 1) (clk 2) ?w2)
      = ofiles @ [(n, f\<lparr>contents := contents f @ ?b, durable := d\<rparr>)]"
    using maybe_sync_last [of ?w2 ofiles n "f\<lparr>contents := contents f @ ?b\<rparr>"] w by simp
  moreover have "snd (append_entry env clk e w) = maybe_sync (clk 1) (clk 2) ?w2"
    using fit by (simp add: append_entry_def Let_def)
  ultimately show ?thesis by (cases f) auto
qed

text \<open>An append that rotates starts the new segment with its entry.\<close>

lemma append_entry_rotates:
  assumes inv: "wal_inv env w old s es"
    and e: "readable env (e\<lparr>sequence := next_sequence w\<rparr>)" and nx: "next_sequence w < u64_max"
    and full: "max_segment_size w
      < file_size (current_segment w) + length (serialize env (e\<lparr>sequence := next_sequence w\<rparr>))"
  shows "wal_inv env (snd (append_entry env clk e w)) (old @ [(s, es)]) (next_sequence w + 1)
    [e\<lparr>sequence := next_sequence w\<rparr>]"
proof -
  let ?e = "e\<lparr>sequence := next_sequence w\<rparr>"
  let ?w1 = "w\<lparr>next_sequence := next_sequence w + 1\<rparr>"
  let ?w2 = "rotate (clk 0) ?w1"
  have nx': "next_sequence w < next_sequence w + 1" using nx by (rule word_less_plus_one)
  have below: "\<forall>x \<in> set (log_of old es). sequence x < next_sequence w" "s \<le> next_sequence w"
    using inv by (auto elim: wal_invE)
  have inv2: "wal_inv env ?w2 (old @ [(s, es)]) (next_sequence w + 1) []"
    using wal_inv_rotate [OF wal_inv_bump [OF inv nx], of "clk 0"] below(2) nx'
    by (simp add: le_less_trans)
  have log: "log_of (old @ [(s, es)]) [] = log_of old es" by (simp add: log_of_def)
  let ?w3 = "(write_all (serialize env ?e) ?w2)\<lparr>current_segment := (current_segment ?w2)
      \<lparr>file_size := file_size (current_segment ?w2) + length (serialize env ?e)\<rparr>\<rparr>"
  have "wal_inv env ?w3 (old @ [(s, es)]) (next_sequence w + 1) ([] @ [?e])"
    by (rule wal_inv_write [OF inv2 e]) (use nx' below(1) log in auto)
  moreover have "snd (append_entry env clk e w) = maybe_sync (clk 1) (clk 2) ?w3"
    using full by (simp add: append_entry_def Let_def)
  ultimately show ?thesis using wal_inv_maybe_sync by simp
qed

text \<open>Rotating onto the name of the open segment empties it.\<close>

lemma rotate_onto_current:
  assumes inv: "wal_inv env w old s es" and same: "next_sequence w = s"
  shows "dir_entries env now (files (rotate t w)) = map on_disk (log_of old [])"
    and "map fst (files (rotate t w)) = map segment_filename (map fst old @ [s])"
proof -
  from inv obtain ofiles f where
    w: "files w = ofiles @ [(segment_filename s, f)]" "list_all2 (seg_rel env) old ofiles"
      "path (current_segment w) = segment_filename s"
    and ord: "sorted_wrt (<) (map fst old @ [s])"
    by (rule wal_invE) simp
  have "files (sync_all w) = ofiles @ [(segment_filename s, f\<lparr>durable := length (contents f)\<rparr>)]"
    unfolding sync_all_def by (simp add: on_current_inv [OF w(1,2) ord w(3)])
  then have files: "files (rotate t w)
      = ofiles @ [(segment_filename s, \<lparr>contents = [], durable = 0\<rparr>)]"
    by (simp add: rotate_def sync_def Let_def same update_last [OF seg_name_fresh [OF w(2) ord]])
  then show "dir_entries env now (files (rotate t w)) = map on_disk (log_of old [])"
    by (simp add: dir_entries_append dir_entries_Cons dir_entries_old [OF w(2) wal_inv_readable(1) [OF inv]])
  show "map fst (files (rotate t w)) = map segment_filename (map fst old @ [s])"
    by (simp add: files seg_rel_names [OF w(2)])
qed

text \<open>What replay returns for a directory of segments in the order of their names.\<close>

lemma replay_dir_entries:
  assumes "map fst fs = map segment_filename ss" "sorted_wrt (<) ss"
    and "dir_entries env now fs = map on_disk es" "sorted (map sequence es)"
  shows "replay_from env now d (Some fs) from
    = Inr \<lparr>entries = map on_disk (filter (\<lambda>e. from \<le> sequence e) es), position = 0\<rparr>"
  by (simp add: replay_from_files [OF assms(1,2)] assms(3) filter_on_disk replay_sorted [OF assms(4)])

text \<open>A log in Fsync mode is replayed in full from whatever a crash leaves of it.\<close>

lemma fsynced_replay:
  assumes "fsynced env (w, log)" "crash_image (files w) fs'"
  shows "replay_all env now d (Some fs') = Inr \<lparr>entries = map on_disk log, position = 0\<rparr>"
proof -
  from assms(1) have hl: "holds_log env (w, log)" by (simp add: fsynced_def)
  obtain ss where names: "map fst (files w) = map segment_filename ss" "sorted_wrt (<) ss"
    using holds_log_reads(3) [OF hl] by blast
  have "dir_entries env now fs' = map on_disk log"
    using crash_image_durable [OF assms(2)] assms(1) holds_log_reads(1) [OF hl] by (simp add: fsynced_def)
  with names crash_image_names [OF assms(2)] show ?thesis
    using replay_dir_entries [of fs' ss env now log d 0] holds_log_reads(2) [OF hl]
    by (simp add: replay_all_def filter_True)
qed

text \<open>What any append writes, whether the reader accepts its entry or not.\<close>

lemma append_entry_writes:
  assumes inv: "wal_inv env w old s es" and nx: "next_sequence w < u64_max"
  obtains old' s' es' ofiles d where
    "files (snd (append_entry env clk e w)) = ofiles @ [(segment_filename s',
       \<lparr>contents = concat (map (serialize env) es') @ serialize env (e\<lparr>sequence := next_sequence w\<rparr>),
        durable = d\<rparr>)]"
    and "list_all2 (seg_rel env) old' ofiles" and "sorted_wrt (<) (map fst old' @ [s'])"
    and "log_of old' es' = log_of old es" and "\<forall>x \<in> set (log_of old es). readable env x"
proof -
  let ?b = "serialize env (e\<lparr>sequence := next_sequence w\<rparr>)"
  let ?w1 = "w\<lparr>next_sequence := next_sequence w + 1\<rparr>"
  let ?full = "max_segment_size w < file_size (current_segment w) + length ?b"
  define w2 where "w2 = (if ?full then rotate (clk 0) ?w1 else ?w1)"
  have inv1: "wal_inv env ?w1 old s es" using inv nx by (rule wal_inv_bump)
  have s: "s \<le> next_sequence w" using inv by (auto elim: wal_invE)
  obtain old' s' es' where inv2: "wal_inv env w2 old' s' es'" and log: "log_of old' es' = log_of old es"
  proof (cases ?full)
    case True
    have "wal_inv env (rotate (clk 0) ?w1) (old @ [(s, es)]) (next_sequence ?w1) []"
      by (rule wal_inv_rotate [OF inv1]) (use s word_less_plus_one [OF nx] in simp)
    then have "wal_inv env w2 (old @ [(s, es)]) (next_sequence ?w1) []"
      using True by (simp only: w2_def if_True)
    then show thesis by (rule that) (simp add: log_of_def)
  next
    case False
    then have "wal_inv env w2 old s es" using inv1 by (simp only: w2_def if_False)
    then show thesis by (rule that) (rule refl)
  qed
  from inv2 obtain ofiles f where
    w2: "files w2 = ofiles @ [(segment_filename s', f)]" "list_all2 (seg_rel env) old' ofiles"
      "contents f = concat (map (serialize env) es')" "path (current_segment w2) = segment_filename s'"
    and ord: "sorted_wrt (<) (map fst old' @ [s'])"
    and all: "\<And>x. x \<in> set (log_of old' es') \<Longrightarrow> readable env x"
    by (rule wal_invE) simp
  let ?w3 = "(write_all ?b w2)\<lparr>current_segment := (current_segment w2)
      \<lparr>file_size := file_size (current_segment w2) + length ?b\<rparr>\<rparr>"
  have "files ?w3 = ofiles @ [(segment_filename s', f\<lparr>contents := contents f @ ?b\<rparr>)]"
    by (simp add: write_all_def on_current_inv [OF w2(1,2) ord w2(4)])
  from maybe_sync_last [OF this seg_name_fresh [OF w2(2) ord], of "clk 1" "clk 2"] obtain d where
    "files (maybe_sync (clk 1) (clk 2) ?w3)
      = ofiles @ [(segment_filename s', \<lparr>contents = concat (map (serialize env) es') @ ?b, durable = d\<rparr>)]"
    using w2(3,4) by (cases f) auto
  moreover have "snd (append_entry env clk e w) = maybe_sync (clk 1) (clk 2) ?w3"
    by (simp add: append_entry_def Let_def w2_def)
  ultimately show thesis
    using that w2(2) ord log all by simp
qed

lemma read_segment_oversize:
  assumes "unat max_entry_size < 4 + length (inner_bytes e)" "4 + length (inner_bytes e) < 2 ^ 32"
  shows "read_segment_entries env now (serialize env e @ rest) = []"
proof -
  let ?l = "word_of_nat (4 + length (inner_bytes e)) :: u32"
  have "unat ?l = 4 + length (inner_bytes e)" by (rule unat_word_of_nat_u32 [OF assms(2)])
  then have "max_entry_size < ?l" using assms(1) by (simp add: word_less_nat_alt)
  then show ?thesis
    by (subst serialize_split) (simp add: read_segment_entries_def read_loop.simps [of _ _ _ 0] Let_def)
qed

end
