(* ===== verification/Wal_Props.thy ===== *)
theory Wal_Props
  imports Wal_Log
begin

text \<open>
  The properties of the write-ahead log, stated over runs of the writer from a fresh directory
  (\<open>run (wal_step env) (wal_fresh ..)\<close>, \<open>Wal_Log\<close>), with their concrete instances, and the four
  ways in which the code loses acknowledged entries.
\<close>

section \<open>A concrete environment for the instances\<close>

definition sum_crc :: "u8 list \<Rightarrow> u32" where
  "sum_crc bs = word_of_nat (sum_list (map unat bs))"

definition ex_env :: wal_env where
  "ex_env = \<lparr>crc32 = sum_crc, millis_in_range = (\<lambda>ms. \<bar>ms\<bar> \<le> 8210000000000000)\<rparr>"

definition ex_entry :: wal_entry where
  "ex_entry = \<lparr>sequence = 0, timestamp = 1700000000123456789, operation = Insert,
     modality = Graph, entity_id = [101, 49], payload = [123, 125]\<rparr>"

lemma ex_wf: "wf_entry ex_env (ex_entry\<lparr>sequence := n\<rparr>)"
  by (simp add: wf_entry_def ex_env_def ex_entry_def timestamp_millis_def)

lemma ex_readable [simp]: "readable ex_env (ex_entry\<lparr>sequence := n\<rparr>)"
  using ex_wf [of n] by (simp add: readable_def length_inner_bytes unat_max_entry_size)
    (simp add: ex_entry_def)

lemma ex_checkpoint_readable [simp]: "readable ex_env ((checkpoint_entry 5)\<lparr>sequence := n\<rparr>)"
  by (simp add: readable_def wf_entry_def length_inner_bytes unat_max_entry_size ex_env_def
      checkpoint_entry_def timestamp_millis_def)

section \<open>Entries\<close>

text \<open>
  an entry that fits the format is read back from its serialized bytes, whatever checksum
  function is used, with its timestamp cut to milliseconds; bytes that follow it are ignored.
\<close>

theorem entry_roundtrip:
  assumes "wf_entry env e"
    and "4 + length (inner_bytes e) + length rest < 2 ^ 32"
  shows "deserialize env now (drop 4 (serialize env e) @ rest)
           (u32_from_le (take 4 (serialize env e)))
         = Inr (e\<lparr>timestamp := timestamp e div 1000000 * 1000000\<rparr>)"
proof -
  let ?l = "word_of_nat (4 + length (inner_bytes e)) :: u32"
  have "take 4 (serialize env e) = u32_to_le ?l"
    by (simp add: serialize_def Let_def)
  then have "u32_from_le (take 4 (serialize env e)) = ?l" by (simp only: u32_from_le_to_le)
  then show ?thesis
    using deserialize_serialize [OF assms(1) refl assms(2)]
    by (simp add: on_disk_def timestamp_millis_def)
qed

theorem entry_roundtrip_witness:
  "deserialize ex_env 0 (drop 4 (serialize ex_env ex_entry) @ [1, 2])
     (u32_from_le (take 4 (serialize ex_env ex_entry)))
   = Inr (ex_entry\<lparr>timestamp := 1700000000123000000\<rparr>)"
proof -
  have "wf_entry ex_env ex_entry"
    using ex_wf [of 0] by (simp add: ex_entry_def)
  from entry_roundtrip [OF this, of "[1, 2]" 0] show ?thesis
    by (simp add: length_inner_bytes ex_entry_def)
qed

text \<open>
  the parser accepts nothing but encodings: if the bytes after the checksum parse, they
  start with the fields of the entry that was returned, in the layout \<open>serialize\<close> writes (the
  timestamp apart, when its millisecond count is outside the range of a date).
\<close>

theorem parse_inner_sound:
  assumes "parse_inner env now inner = Inr e"
    and "millis_in_range env (sint (u64_from_le (slice inner 8 16)))"
  shows "\<exists>rest. inner = inner_bytes e @ rest"
proof -
  let ?il = "unat (u32_from_le (slice inner 18 22))"
  let ?pl = "unat (u32_from_le (slice inner (22 + ?il) (22 + ?il + 4)))"
  let ?ms = "u64_from_le (slice inner 8 16)"
  from assms(1) obtain op md where len: "22 + ?il + 4 + ?pl \<le> length inner"
    and op: "operation_from_byte (inner ! 16) = Inr op"
    and md: "modality_from_byte (inner ! 17) = Inr md"
    and e: "e = \<lparr>sequence = u64_from_le (slice inner 0 8),
               timestamp = timestamp_from_millis env now ?ms, operation = op, modality = md,
               entity_id = slice inner 22 (22 + ?il),
               payload = slice inner (22 + ?il + 4) (22 + ?il + 4 + ?pl)\<rparr>"
    by (simp add: parse_inner_def Let_def split: if_splits sum.splits)
  have ts: "(word_of_int (timestamp_millis (timestamp e)) :: u64) = ?ms"
    using assms(2) by (simp add: e timestamp_from_millis_def timestamp_millis_def)
  have ops: "operation_to_byte (operation e) = inner ! 16" "modality_to_byte (modality e) = inner ! 17"
    using op md by (simp_all add: e op_code.to_from mod_code.to_from)
  have lens: "length (entity_id e) = ?il" "length (payload e) = ?pl"
    using len by (simp_all add: e length_slice)
  have i: "u64_to_le (sequence e) = slice inner 0 8" "u64_to_le ?ms = slice inner 8 16"
    "u32_to_le (word_of_nat ?il) = slice inner 18 22"
    "u32_to_le (word_of_nat ?pl) = slice inner (22 + ?il) (22 + ?il + 4)"
    using len by (simp_all add: e u64_to_le_from_le u32_to_le_from_le length_slice del: slice_zero)
  have "inner_bytes e = (((((((take 8 inner @ slice inner 8 16) @ [inner ! 16]) @ [inner ! 17])
      @ slice inner 18 22) @ slice inner 22 (22 + ?il)) @ slice inner (22 + ?il) (22 + ?il + 4))
      @ slice inner (22 + ?il + 4) (22 + ?il + 4 + ?pl))"
    unfolding inner_bytes_def ts ops lens i by (simp add: e)
  also have "\<dots> = take (22 + ?il + 4 + ?pl) inner"
    using len by (simp add: take_slice take_Suc_conv_app_nth [symmetric])
  finally show ?thesis by (metis append_take_drop_id)
qed

theorem parse_inner_sound_witness:
  "\<exists>rest. inner_bytes ex_entry = inner_bytes (on_disk ex_entry) @ rest"
proof -
  have wf: "wf_entry ex_env ex_entry"
    using ex_wf [of 0] by (simp add: ex_entry_def)
  have "slice (inner_bytes ex_entry) 8 16
      = u64_to_le (word_of_int (timestamp_millis (timestamp ex_entry)))"
    by (simp add: inner_bytes_def slice_def)
  then have "millis_in_range ex_env (sint (u64_from_le (slice (inner_bytes ex_entry) 8 16)))"
    by (simp add: ex_env_def ex_entry_def timestamp_millis_def)
  then show ?thesis
    by (rule parse_inner_sound [OF parse_inner_inner_bytes [OF wf]])
qed

section \<open>Replay\<close>

definition ex_clk :: "nat \<Rightarrow> nat" where
  "ex_clk i = i"

definition ex_ops :: "wal_op list" where
  "ex_ops = [OpRotate 1, OpAppend ex_entry ex_clk, OpCheckpoint 5 ex_clk, OpSync 3,
     OpReopen Fsync 70 9]"

lemma small_less_max [simp]: "(1 :: u64) < u64_max" "(2 :: u64) < u64_max" "(3 :: u64) < u64_max"
  by (simp_all flip: word_order.not_eq_extremum)

lemma not_two_le_one [simp]: "\<not> (2 :: u64) \<le> 1"
  by (simp add: word_le_nat_alt)

lemma ex_run_fsync_ok:
  "run_ok (wal_step ex_env) (fsync_ok ex_env) (wal_fresh ''w'' Fsync 1000 0) ex_ops"
  by (simp add: ex_ops_def wal_fresh_def wal_inv_fresh(1) checkpoint_def case_prod_beta)

lemma ex_run_ok: "run_ok (wal_step ex_env) (wal_ok ex_env) (wal_fresh ''w'' Fsync 1000 0) ex_ops"
  using ex_run_fsync_ok by (rule run_fsync_ok_imp)

text \<open>The entries the run acknowledges.\<close>

lemma ex_run_log:
  "snd (run (wal_step ex_env) (wal_fresh ''w'' Fsync 1000 0) ex_ops)
     = [ex_entry\<lparr>sequence := 1\<rparr>, (checkpoint_entry 5)\<lparr>sequence := 2\<rparr>]"
  by (simp add: ex_ops_def wal_fresh_def wal_inv_fresh(1) checkpoint_def case_prod_beta
      split: sum.split)



text \<open>
  the search for the last checkpoint finds the acknowledged checkpoint with the largest
  sequence number, and nothing exactly when no checkpoint was written.
\<close>

theorem last_checkpoint_is_max:
  assumes "run_ok (wal_step env) (wal_ok env) (wal_fresh name mode mx t) ops"
    and "run (wal_step env) (wal_fresh name mode mx t) ops = (w, log)"
  shows "\<exists>r. find_last_checkpoint env now d (Some (files w)) = Inr r
    \<and> (r = None \<longleftrightarrow> (\<forall>e \<in> set log. operation e \<noteq> Checkpoint))
    \<and> (\<forall>c. r = Some c \<longrightarrow> (\<exists>e \<in> set log. operation e = Checkpoint \<and> sequence e = c)
          \<and> (\<forall>e \<in> set log. operation e = Checkpoint \<longrightarrow> sequence e \<le> c))"
proof -
  have hl: "holds_log env (w, log)" using assms by (rule run_holds_log)
  let ?r = "map_option sequence (List.find (\<lambda>e. operation e = Checkpoint) (rev log))"
  have "find_last_checkpoint env now d (Some (files w)) = Inr ?r"
    using hl by (rule holds_log_checkpoint)
  moreover have "sorted (map sequence log)" by (rule holds_log_reads(2) [OF hl])
  ultimately show ?thesis
    by (intro exI [of _ ?r]) (auto simp: find_rev_None dest!: find_rev_max)
qed

theorem last_checkpoint_is_max_witness:
  "\<exists>(w :: wal_writer) r. find_last_checkpoint ex_env 0 ''w'' (Some (files w)) = Inr (Some r) \<and> r = 2"
proof -
  let ?log = "[ex_entry\<lparr>sequence := 1\<rparr>, (checkpoint_entry 5)\<lparr>sequence := 2\<rparr>]"
  obtain w where w: "run (wal_step ex_env) (wal_fresh ''w'' Fsync 1000 0) ex_ops = (w, ?log)"
    using ex_run_log by (metis prod.collapse)
  obtain r where r: "find_last_checkpoint ex_env 0 ''w'' (Some (files w)) = Inr r"
      "r = None \<longleftrightarrow> (\<forall>e \<in> set ?log. operation e \<noteq> Checkpoint)"
      "\<forall>c. r = Some c \<longrightarrow> (\<exists>e \<in> set ?log. operation e = Checkpoint \<and> sequence e = c)
          \<and> (\<forall>e \<in> set ?log. operation e = Checkpoint \<longrightarrow> sequence e \<le> c)"
    using last_checkpoint_is_max [OF ex_run_ok w, of 0 "''w''"] by blast
  then obtain c where "r = Some c"
    by (auto simp: checkpoint_entry_def)
  with r show ?thesis
    by (auto simp: checkpoint_entry_def ex_entry_def)
qed


text \<open>
  A log in \<open>Async\<close> mode with one synced entry and one that is not: the crash cuts the second entry after 20
  bytes, and replay returns the first one.
\<close>

abbreviation first_entry :: wal_entry where
  "first_entry \<equiv> ex_entry\<lparr>sequence := 1\<rparr>"

abbreviation second_entry :: wal_entry where
  "second_entry \<equiv> ex_entry\<lparr>sequence := 2\<rparr>"

definition async_ops :: "wal_op list" where
  "async_ops = [OpAppend ex_entry ex_clk, OpSync 3, OpAppend ex_entry ex_clk]"

definition torn_files :: wal_dir where
  "torn_files = [(segment_filename 0, \<lparr>contents = serialize ex_env first_entry @ take 20 (serialize ex_env second_entry),
     durable = 38\<rparr>)]"

lemma ex_entry_length [simp]: "length (serialize ex_env (ex_entry\<lparr>sequence := n\<rparr>)) = 38"
  by (simp add: length_serialize length_inner_bytes) (simp add: ex_entry_def)

lemma append_async:
  assumes "sync_mode w = Async" "files w = [(path (current_segment w), f)]"
    and "file_size (current_segment w) + length (serialize env (e\<lparr>sequence := next_sequence w\<rparr>)) \<le> max_segment_size w"
  shows "append_entry env clk e w = (next_sequence w,
    w\<lparr>files := [(path (current_segment w), f\<lparr>contents := contents f @ serialize env (e\<lparr>sequence := next_sequence w\<rparr>)\<rparr>)],
      current_segment := (current_segment w)\<lparr>file_size := file_size (current_segment w)
         + length (serialize env (e\<lparr>sequence := next_sequence w\<rparr>))\<rparr>,
      next_sequence := next_sequence w + 1\<rparr>)"
  using assms by (simp add: append_entry_def Let_def write_all_def on_current_def maybe_sync_def)

lemma async_run:
  "run_ok (wal_step ex_env) (wal_ok ex_env) (wal_fresh ''w'' Async 1000 0) async_ops"
  "run (wal_step ex_env) (wal_fresh ''w'' Async 1000 0) async_ops =
    (\<lparr>dir_name = ''w'', files = [(segment_filename 0,
        \<lparr>contents = serialize ex_env first_entry @ serialize ex_env second_entry, durable = 38\<rparr>)],
      current_segment = \<lparr>path = segment_filename 0, start_sequence = 0, file_size = 76\<rparr>,
      next_sequence = 3, max_segment_size = 1000, sync_mode = Async, last_sync = 3\<rparr>, [first_entry, second_entry])"
  by (simp_all add: async_ops_def wal_fresh_def wal_inv_fresh(1) append_async sync_def sync_all_def on_current_def)




section \<open>Segments and pruning\<close>

text \<open>
  the names of segment files round trip: the parser reads back the sequence number the name
  was made from, and two segments never share a name.
\<close>

theorem segment_filename_roundtrip:
  "parse_segment_filename (segment_filename s) = Some s
   \<and> (segment_filename s = segment_filename t \<longrightarrow> s = t)"
  by (simp add: parse_segment_filename_roundtrip)

theorem segment_filename_roundtrip_witness:
  "segment_filename 7 = segment_filename (3 + 4) \<and> (7 :: u64) = 3 + 4"
  using segment_filename_roundtrip [of 7 "3 + 4"] by simp

text \<open>
  A writer with two acknowledged entries in segment 0 that has rotated to segment 3.
\<close>

definition ex_log :: "wal_entry list" where
  "ex_log = [ex_entry\<lparr>sequence := 1\<rparr>, ex_entry\<lparr>sequence := 2\<rparr>]"

definition ex_writer :: "sync_mode \<Rightarrow> nat \<Rightarrow> wal_writer" where
  "ex_writer mode mx = \<lparr>dir_name = ''w'', files = [(segment_filename 0,
       \<lparr>contents = concat (map (serialize ex_env) ex_log),
        durable = length (concat (map (serialize ex_env) ex_log))\<rparr>)],
     current_segment = \<lparr>path = segment_filename 0, start_sequence = 0,
       file_size = length (concat (map (serialize ex_env) ex_log))\<rparr>,
     next_sequence = 3, max_segment_size = mx, sync_mode = mode, last_sync = 0\<rparr>"

lemma ex_log_numbers: "(1 :: u64) < 2" "(1 :: u64) < 3" "(2 :: u64) < 3" "(0 :: u64) \<le> 3" "(0 :: u64) < 3"
  by (simp_all add: word_less_nat_alt)

lemma ex_writer_inv: "wal_inv ex_env (ex_writer mode mx) [] 0 ex_log"
  by (rule wal_invI [where ofiles = "[]" and f = "\<lparr>contents = concat (map (serialize ex_env) ex_log),
        durable = length (concat (map (serialize ex_env) ex_log))\<rparr>"])
    (auto simp: ex_writer_def log_of_def ex_log_def ex_log_numbers)

lemma sorted_around:
  "sorted_wrt (<) (xs @ ys @ zs) \<Longrightarrow> y \<in> set ys \<Longrightarrow>
     (\<forall>x \<in> set xs. x < y) \<and> (\<forall>z \<in> set zs. y < (z :: 'a::order))"
  by (auto simp: sorted_wrt_append)

lemma sorted_log_filter:
  assumes "sorted (map sequence (log_of old es))"
  shows "sorted (map sequence (log_of (filter P old) es))"
  using assms unfolding sorted_map
proof (induction old)
  case (Cons se old)
  have "log_of (x # xs) es = snd x @ log_of xs es" for x xs by (simp add: log_of_def)
  moreover have "set (log_of (filter P old) es) \<subseteq> set (log_of old es)"
    by (auto simp: log_of_def)
  ultimately show ?case using Cons by (auto simp: sorted_wrt_append)
qed simp

lemma wal_inv_old_below: "wal_inv env w old s es \<Longrightarrow> \<forall>e \<in> set (log_of old []). sequence e < s"
  by (erule wal_invE) blast

text \<open>
  pruning at the first sequence number of the open segment, the safe point, changes nothing
  that replay from that number returns, whatever has been pruned.
\<close>

theorem prune_at_current_segment_safe:
  assumes "run_ok (wal_step env) (wal_ok env) (wal_fresh name mode mx t) ops"
    and "run (wal_step env) (wal_fresh name mode mx t) ops = (w, log)"
    and "c = start_sequence (current_segment w)"
  shows "\<exists>n fs'. prune_segments_before d (Some (files w)) c = Inr (n, fs')
    \<and> replay_from env now d (Some fs') c = replay_from env now d (Some (files w)) c
    \<and> replay_from env now d (Some fs') c
       = Inr \<lparr>entries = map on_disk (filter (\<lambda>e. c \<le> sequence e) log), position = 0\<rparr>"
proof -
  have hl: "holds_log env (w, log)" using assms(1,2) by (rule run_holds_log)
  then obtain old s es where inv: "wal_inv env w old s es" and log: "log = log_of old es"
    by (rule holds_logE)
  have c: "c = s" using assms(3) by (simp add: wal_inv_start [OF inv])
  obtain n fs' ss where p: "prune_segments_before d (Some (files w)) c = Inr (n, fs')"
    "map fst fs' = map segment_filename ss" "sorted_wrt (<) ss"
    "dir_entries env now fs' = map on_disk (log_of (filter (\<lambda>se. c \<le> fst se) old) es)"
    by (rule prune_wal_inv [OF inv, of c]) (auto simp: c)
  have "sorted_wrt (<) (map fst old @ [s])" by (rule wal_inv_names(2) [OF inv])
  then have "filter (\<lambda>se. c \<le> fst se) old = []"
    by (auto simp: c sorted_wrt_append filter_empty_conv)
  then have "dir_entries env now fs' = map on_disk es" using p(4) by (simp add: log_of_def)
  moreover have "sorted (map sequence es)"
    using wal_inv_sorted [OF inv] by (simp add: log_of_def sorted_append)
  moreover have "filter (\<lambda>e. c \<le> sequence e) (log_of old []) = []"
    using wal_inv_old_below [OF inv] by (auto simp: c filter_empty_conv leD)
  then have "filter (\<lambda>e. c \<le> sequence e) log = filter (\<lambda>e. c \<le> sequence e) es"
    unfolding log by (subst log_of_split) simp
  ultimately show ?thesis
    using p(1) replay_dir_entries [OF p(2,3)] by (simp add: holds_log_replay [OF hl])
qed

theorem prune_at_current_segment_safe_witness:
  "\<exists>(w :: wal_writer) n fs'. prune_segments_before ''w'' (Some (files w))
      (start_sequence (current_segment w)) = Inr (n, fs')"
proof -
  obtain w where w: "run (wal_step ex_env) (wal_fresh ''w'' Fsync 1000 0) ex_ops
      = (w, [ex_entry\<lparr>sequence := 1\<rparr>, (checkpoint_entry 5)\<lparr>sequence := 2\<rparr>])"
    using ex_run_log by (metis prod.collapse)
  from prune_at_current_segment_safe [OF ex_run_ok w refl, of "''w''" 0] show ?thesis
    by blast
qed

text \<open>
  pruning elsewhere can lose acknowledged entries: a segment is deleted when its first
  sequence number is below the checkpoint and a later segment starts at or above it, although the
  segment also holds entries at or above the checkpoint, which replay no longer returns.
\<close>

theorem prune_drops_straddling_segment:
  assumes inv: "wal_inv env w old s es"
    and seg: "(st, ses) \<in> set old" "e \<in> set ses"
    and c: "st < c" "c \<le> sequence e" "c \<le> s"
  shows "\<exists>n fs' it. prune_segments_before d (Some (files w)) c = Inr (n, fs')
    \<and> replay_from env now d (Some (files w)) c
      = Inr \<lparr>entries = map on_disk (filter (\<lambda>e. c \<le> sequence e) (log_of old es)), position = 0\<rparr>
    \<and> e \<in> set (filter (\<lambda>e. c \<le> sequence e) (log_of old es))
    \<and> replay_from env now d (Some fs') c = Inr it
    \<and> sequence e \<notin> sequence ` set (entries it)"
proof -
  obtain n fs' ss where p: "prune_segments_before d (Some (files w)) c = Inr (n, fs')"
    "map fst fs' = map segment_filename ss" "sorted_wrt (<) ss"
    "dir_entries env now fs' = map on_disk (log_of (filter (\<lambda>se. c \<le> fst se) old) es)"
    by (rule prune_wal_inv [OF inv c(3)])
  have hl: "holds_log env (w, log_of old es)" by (rule holds_logI [OF inv refl])
  obtain xs ys where old: "old = xs @ (st, ses) # ys" using seg(1) by (auto simp: in_set_conv_decomp)
  let ?kept = "log_of (filter (\<lambda>se. c \<le> fst se) old) es"
  let ?keep_x = "concat (map snd (filter (\<lambda>se. c \<le> fst se) xs))"
  let ?keep_y = "concat (map snd (filter (\<lambda>se. c \<le> fst se) ys)) @ es"
  have kept: "?kept = ?keep_x @ ?keep_y" using c(1) by (simp add: old log_of_def not_le [symmetric])
  have strict: "sorted_wrt (<) (map sequence (log_of old es))" by (rule wal_invE [OF inv])
  have "log_of old es = concat (map snd xs) @ ses @ (concat (map snd ys) @ es)"
    by (simp add: old log_of_def)
  with strict have ord: "sorted_wrt (<) (map sequence (concat (map snd xs)) @ map sequence ses
      @ map sequence (concat (map snd ys) @ es))" by (simp only: map_append)
  have mem: "sequence e \<in> set (map sequence ses)" using seg(2) by simp
  have "\<forall>x \<in> set (concat (map snd xs)). sequence x < sequence e"
    using sorted_around [OF ord mem, THEN conjunct1] by (simp only: set_map ball_simps)
  moreover have "\<forall>x \<in> set (concat (map snd ys) @ es). sequence e < sequence x"
    using sorted_around [OF ord mem, THEN conjunct2] by (simp only: set_map ball_simps)
  moreover have "set ?kept \<subseteq> set (concat (map snd xs)) \<union> set (concat (map snd ys) @ es)"
    unfolding kept by auto
  ultimately have "sequence x \<noteq> sequence e" if "x \<in> set ?kept" for x
    using that by (metis (no_types, lifting) UnE subsetD less_irrefl)
  moreover have "sorted (map sequence ?kept)"
    using wal_inv_sorted [OF inv] by (rule sorted_log_filter)
  ultimately have gone: "sequence e \<notin> sequence ` set (map on_disk (filter (\<lambda>e. c \<le> sequence e) ?kept))"
    and sorted: "sorted (map sequence ?kept)"
    by fastforce+
  have "e \<in> set (log_of old es)" using seg(2) by (simp add: old log_of_def)
  then have "e \<in> set (filter (\<lambda>e. c \<le> sequence e) (log_of old es))" using c(2) by simp
  then show ?thesis
    using p(1) holds_log_replay [OF hl] replay_dir_entries [OF p(2,3,4) sorted] gone
    by (intro exI [of _ n] exI [of _ fs'] exI
        [of _ "\<lparr>entries = map on_disk (filter (\<lambda>e. c \<le> sequence e) ?kept), position = 0\<rparr>"])
      (simp only: wal_entry_iterator.simps simp_thms)
qed

theorem prune_drops_straddling_segment_witness:
  "\<exists>(w :: wal_writer) n fs' it. prune_segments_before ''w'' (Some (files w)) 2 = Inr (n, fs')
    \<and> replay_from ex_env 0 ''w'' (Some (files w)) 2
      = Inr \<lparr>entries = [on_disk (ex_entry\<lparr>sequence := 2\<rparr>)], position = 0\<rparr>
    \<and> replay_from ex_env 0 ''w'' (Some fs') 2 = Inr it
    \<and> 2 \<notin> sequence ` set (entries it)"
proof -
  have inv: "wal_inv ex_env (rotate 1 (ex_writer Fsync 1000)) ([] @ [(0, ex_log)]) 3 []"
    using wal_inv_rotate [OF ex_writer_inv, of Fsync 1000 1] by (simp add: ex_writer_def)
  have mem: "(0, ex_log) \<in> set ([] @ [(0, ex_log)])" "ex_entry\<lparr>sequence := 2\<rparr> \<in> set ex_log"
    by (simp_all add: ex_log_def)
  have ord: "(0 :: u64) < 2" "(2 :: u64) \<le> sequence (ex_entry\<lparr>sequence := 2\<rparr>)" "(2 :: u64) \<le> 3"
    by (simp_all add: word_le_nat_alt)
  have log: "filter (\<lambda>e. 2 \<le> sequence e) (log_of ([] @ [(0, ex_log)]) []) = [ex_entry\<lparr>sequence := 2\<rparr>]"
    by (simp add: log_of_def ex_log_def)
  from prune_drops_straddling_segment [OF inv mem ord, of "''w''" 0] show ?thesis
    unfolding log by (intro exI [of _ "rotate 1 (ex_writer Fsync 1000)"]) auto
qed

section \<open>Losses\<close>

text \<open>
  a rotation right after an append that rotated deletes the entry just acknowledged. The
  append takes its sequence number before it rotates, so the new segment is named after the number
  that follows its first entry; rotating again creates, and so truncates, the same file.
\<close>

theorem rotate_after_rotating_append_loses:
  assumes inv: "wal_inv env w old s es"
    and e: "readable env (e\<lparr>sequence := next_sequence w\<rparr>)" and nx: "next_sequence w < u64_max"
    and full: "max_segment_size w
      < file_size (current_segment w) + length (serialize env (e\<lparr>sequence := next_sequence w\<rparr>))"
    and app: "append_entry env clk e w = (seq, w')"
  shows "replay_all env now d (Some (files w'))
      = Inr \<lparr>entries = map on_disk (log_of old es @ [e\<lparr>sequence := seq\<rparr>]), position = 0\<rparr>
    \<and> replay_all env now d (Some (files (rotate t w')))
      = Inr \<lparr>entries = map on_disk (log_of old es), position = 0\<rparr>"
proof -
  have res: "seq = next_sequence w" "next_sequence w' = next_sequence w + 1"
    using append_entry_next [of env clk e w] by (simp_all add: app)
  have inv': "wal_inv env w' (old @ [(s, es)]) (next_sequence w + 1) [e\<lparr>sequence := seq\<rparr>]"
    using append_entry_rotates [OF inv e nx full, of clk] by (simp add: app res)
  have logs: "log_of (old @ [(s, es)]) [e\<lparr>sequence := seq\<rparr>] = log_of old es @ [e\<lparr>sequence := seq\<rparr>]"
    "log_of (old @ [(s, es)]) [] = log_of old es"
    by (simp_all add: log_of_def)
  have "holds_log env (w', log_of old es @ [e\<lparr>sequence := seq\<rparr>])"
    by (rule holds_logI [OF inv' logs(1) [symmetric]])
  moreover have "replay_from env now d (Some (files (rotate t w'))) 0
      = Inr \<lparr>entries = map on_disk (filter (\<lambda>e. 0 \<le> sequence e) (log_of old es)), position = 0\<rparr>"
    by (rule replay_dir_entries [OF rotate_onto_current(2) [OF inv' res(2)] wal_inv_names(2) [OF inv']
          rotate_onto_current(1) [OF inv' res(2), unfolded logs] wal_inv_sorted [OF inv]])
  ultimately show ?thesis by (simp add: replay_all_def holds_log_replay)
qed

theorem rotate_after_rotating_append_loses_witness:
  "\<exists>w' :: wal_writer. append_entry ex_env ex_clk ex_entry (ex_writer Fsync 100) = (3, w')
    \<and> replay_all ex_env 0 ''w'' (Some (files w'))
      = Inr \<lparr>entries = map on_disk (ex_log @ [ex_entry\<lparr>sequence := 3\<rparr>]), position = 0\<rparr>
    \<and> replay_all ex_env 0 ''w'' (Some (files (rotate 1 w')))
      = Inr \<lparr>entries = map on_disk ex_log, position = 0\<rparr>"
proof -
  let ?w = "ex_writer Fsync 100"
  have app: "append_entry ex_env ex_clk ex_entry ?w = (3, snd (append_entry ex_env ex_clk ex_entry ?w))"
    by (rule prod_eqI) (simp_all add: ex_writer_def)
  have full: "max_segment_size ?w < file_size (current_segment ?w)
      + length (serialize ex_env (ex_entry\<lparr>sequence := next_sequence ?w\<rparr>))"
    by (simp add: ex_writer_def ex_log_def length_serialize length_inner_bytes ex_entry_def)
  have nx: "next_sequence ?w < u64_max" by (simp add: ex_writer_def)
  from rotate_after_rotating_append_loses [OF ex_writer_inv _ nx full app, of 0 "''w''" 1] app
  show ?thesis by (auto simp: log_of_def)
qed

text \<open>
  an append after a torn write is lost. When a crash left the start of an entry at the end of
  the last segment, opening the log continues that file behind the torn bytes, and as long as
  what follows is shorter than the entry the torn length announces, replay returns what it
  returned before the append: the acknowledged entry is never read, in any sync mode.
\<close>

theorem append_after_torn_tail_lost:
  assumes names: "map fst ofiles = map segment_filename ss" "sorted_wrt (<) (ss @ [s])"
    and fs: "fs = ofiles @ [(segment_filename s, f)]"
    and es: "\<forall>x \<in> set es. readable env x" "readable env e0"
    and torn: "contents f = concat (map (serialize env) es) @ take k (serialize env e0)" "4 \<le> k"
    and op: "open_with_max_size name (Some fs) mode mx t = Inr w"
    and app: "append_entry env clk e w = (seq, w')"
    and short: "k + length (serialize env e) < length (serialize env e0)"
    and fit: "length (contents f) + length (serialize env e) \<le> mx"
  shows "replay_all env now d (Some (files w')) = replay_all env now d (Some fs)"
proof -
  let ?b = "serialize env (e\<lparr>sequence := next_sequence w\<rparr>)"
  have lenb: "length ?b = length (serialize env e)"
    by (simp add: length_serialize length_inner_bytes)
  have names': "map fst fs = map segment_filename (ss @ [s])" by (simp add: fs names(1))
  have dist: "segment_filename s \<notin> fst ` set ofiles"
    using distinct_segment_names [OF names' names(2)] by (simp add: fs)
  have segs: "list_segments name (Some fs) = Inr (List.map_filter segment_of ofiles
      @ [\<lparr>path = segment_filename s, start_sequence = s, file_size = length (contents f)\<rparr>])"
    by (subst list_segments_files [OF names' names(2)]) (simp add: fs List.map_filter_def segment_of_def parse_segment_filename_roundtrip)
  have w: "files w = ofiles @ [(segment_filename s, f)]" "path (current_segment w) = segment_filename s"
    "file_size (current_segment w) = length (contents f)" "max_segment_size w = mx"
    using op segs unfolding fs by (auto simp: open_with_max_size_def Let_def)
  obtain dur where w': "files w' = ofiles @ [(segment_filename s, \<lparr>contents = contents f @ ?b, durable = dur\<rparr>)]"
    using append_entry_last [OF w(1) dist w(2), of env e clk] fit by (auto simp: w lenb app)
  have l: "unat (word_of_nat (4 + length (inner_bytes e0)) :: u32) = 4 + length (inner_bytes e0)"
    by (rule readable_len [OF es(2)])
  have tail: "read_segment_entries env now (take k (serialize env e0) @ x) = []"
    if "length x \<le> length ?b" for x
  proof -
    have "take k (serialize env e0) @ x = u32_to_le (word_of_nat (4 + length (inner_bytes e0)))
        @ (take (k - 4) (drop 4 (serialize env e0)) @ x)"
      using torn(2) by (subst serialize_split) simp
    moreover have "length (take (k - 4) (drop 4 (serialize env e0)) @ x)
        < unat (word_of_nat (4 + length (inner_bytes e0)) :: u32)"
      using that short torn(2) l by (simp add: lenb) (simp add: length_serialize)
    ultimately show ?thesis by (simp only: read_segment_torn)
  qed
  have "dir_entries env now (files w') = dir_entries env now fs"
    using tail [of ?b] tail [of "[]"]
    by (simp add: w' fs dir_entries_append dir_entries_Cons torn(1)
        read_segment_serialize_all [OF es(1)])
  moreover have "map fst (files w') = map segment_filename (ss @ [s])"
    by (simp add: w' names(1))
  ultimately show ?thesis
    by (simp only: replay_all_def replay_from_files [OF names' names(2)] replay_from_files [OF _ names(2)])
qed

definition ex_long :: wal_entry where
  "ex_long = ex_entry\<lparr>payload := replicate 200 7\<rparr>"

definition ex_torn :: wal_file where
  "ex_torn = \<lparr>contents = serialize ex_env ex_entry @ take 20 (serialize ex_env ex_long), durable = 0\<rparr>"

theorem append_after_torn_tail_lost_witness:
  "\<exists>w w' :: wal_writer. open_with_max_size ''w'' (Some [(segment_filename 0, ex_torn)]) Fsync 1000 9 = Inr w
    \<and> append_entry ex_env ex_clk ex_entry w = (next_sequence w, w')
    \<and> replay_all ex_env 0 ''w'' (Some (files w'))
      = replay_all ex_env 0 ''w'' (Some [(segment_filename 0, ex_torn)])"
proof -
  let ?fs = "[(segment_filename 0, ex_torn)]"
  have "list_segments ''w'' (Some ?fs) = Inr [\<lparr>path = segment_filename 0, start_sequence = 0,
      file_size = length (contents ex_torn)\<rparr>]"
    by (simp add: list_segments_def List.map_filter_simps segment_of_def parse_segment_filename_roundtrip)
  then obtain w where op: "open_with_max_size ''w'' (Some ?fs) Fsync 1000 9 = Inr w"
    by (simp add: open_with_max_size_def Let_def)
  obtain w' where app: "append_entry ex_env ex_clk ex_entry w = (next_sequence w, w')"
    using append_entry_next(1) by (metis prod.collapse)
  have es: "\<forall>x \<in> set [ex_entry]. readable ex_env x" "readable ex_env ex_long"
    using ex_readable [of 0] ex_wf [of 0]
    by (simp_all add: ex_entry_def ex_long_def readable_def wf_entry_def length_inner_bytes
        unat_max_entry_size)
  have "replay_all ex_env 0 ''w'' (Some (files w')) = replay_all ex_env 0 ''w'' (Some ?fs)"
    by (rule append_after_torn_tail_lost [of "[]" "[]" 0 ?fs ex_torn "[ex_entry]" ex_env ex_long 20,
          OF _ _ _ es _ _ op app])
      (simp_all add: ex_torn_def length_serialize length_inner_bytes ex_entry_def ex_long_def)
  with op app show ?thesis by blast
qed

text \<open>
  the writer accepts entries the reader refuses. An entry of more than 64 MiB after its
  length field is appended and acknowledged like any other, but replay returns what it returned
  before the append.
\<close>

theorem oversize_append_lost:
  assumes inv: "wal_inv env w old s es" and nx: "next_sequence w < u64_max"
    and big: "67108864 < 4 + length (inner_bytes e)" "4 + length (inner_bytes e) < 2 ^ 32"
    and app: "append_entry env clk e w = (seq, w')"
  shows "seq = next_sequence w
    \<and> replay_all env now d (Some (files w')) = replay_all env now d (Some (files w))"
proof -
  let ?e = "e\<lparr>sequence := next_sequence w\<rparr>"
  obtain old' s' es' ofiles dur where w': "files w' = ofiles @ [(segment_filename s',
       \<lparr>contents = concat (map (serialize env) es') @ serialize env ?e, durable = dur\<rparr>)]"
    and old': "list_all2 (seg_rel env) old' ofiles" "sorted_wrt (<) (map fst old' @ [s'])"
    and log: "log_of old' es' = log_of old es" "\<forall>x \<in> set (log_of old es). readable env x"
    using append_entry_writes [OF inv nx, of clk e] unfolding app snd_conv by metis
  have read: "\<forall>x \<in> set (log_of old' []). readable env x" "\<forall>x \<in> set es'. readable env x"
    using log(2) unfolding log(1) [symmetric] by (auto simp: log_of_def)
  have "read_segment_entries env now (serialize env ?e @ []) = []"
    by (rule read_segment_oversize) (use big in \<open>simp_all add: unat_max_entry_size length_inner_bytes\<close>)
  then have "dir_entries env now (files w') = map on_disk (log_of old es)"
    unfolding log(1) [symmetric]
    by (subst log_of_split) (simp add: w' dir_entries_append dir_entries_Cons
        dir_entries_old [OF old'(1) read(1)] read_segment_serialize_all [OF read(2)])
  moreover have "map fst (files w') = map segment_filename (map fst old' @ [s'])"
    by (simp add: w' seg_rel_names [OF old'(1)])
  moreover have "seq = next_sequence w" using append_entry_next(1) [of env clk e w] by (simp add: app)
  ultimately show ?thesis
    using old'(2) replay_dir_entries [OF wal_inv_names [OF inv] wal_inv_dir_entries [OF inv] wal_inv_sorted [OF inv]]
      replay_dir_entries [OF _ old'(2) _ wal_inv_sorted [OF inv]]
    by (simp add: replay_all_def)
qed

theorem oversize_append_lost_witness:
  "\<exists>w' :: wal_writer. append_entry ex_env ex_clk (ex_entry\<lparr>payload := replicate 67108864 0\<rparr>)
      (ex_writer Fsync 67108864) = (3, w')
    \<and> replay_all ex_env 0 ''w'' (Some (files w')) = replay_all ex_env 0 ''w'' (Some (files (ex_writer Fsync 67108864)))"
proof -
  let ?e = "ex_entry\<lparr>payload := replicate 67108864 0\<rparr>"
  let ?w = "ex_writer Fsync 67108864"
  have app: "append_entry ex_env ex_clk ?e ?w = (3, snd (append_entry ex_env ex_clk ?e ?w))"
    by (rule prod_eqI) (simp_all add: ex_writer_def)
  have nx: "next_sequence ?w < u64_max" by (simp add: ex_writer_def)
  have big: "67108864 < 4 + length (inner_bytes ?e)" "4 + length (inner_bytes ?e) < 2 ^ 32"
    by (simp_all add: length_inner_bytes ex_entry_def)
  from oversize_append_lost [OF ex_writer_inv nx big app, of 0 "''w''"] app show ?thesis
    by blast
qed

end
