(* ===== verification/Lock_Table.thy ===== *)
theory Lock_Table
  imports Prelude
begin

text \<open>
  The lock table of the transaction manager (\<open>LockTable\<close> in \<open>verisim-octad/src/transaction.rs\<close>):
  granting and releasing of modality locks, the wait-for graph, and the breadth-first search for a
  cycle in it. The hash set of the transactions one waits for is a list without duplicates, in the
  order the set is iterated.
\<close>

section \<open>State\<close>

type_synonym uuid = "128 word"

datatype transaction_state = Active | Committed | RolledBack

datatype isolation_level = ReadCommitted | Serializable

datatype lock_type = Shared | Exclusive

datatype transaction_error =
    InvalidState uuid transaction_state string
  | LockConflict string string uuid
  | DeadlockDetected uuid "uuid list"
  | TransactionNotFound uuid
  | InvalidModality string
  | VersionConflict string u64 u64

type_synonym 'a txn_result = "transaction_error + 'a"

type_synonym lock_key = "string \<times> string"

record lock_info =
  holder :: uuid
  lock_kind :: lock_type

record lock_table =
  locks :: "(lock_key \<times> lock_info list) list"
  wait_for :: "(uuid \<times> uuid list) list"

definition lock_table_new :: lock_table where
  "lock_table_new = \<lparr>locks = [], wait_for = []\<rparr>"

definition holders_of :: "lock_table \<Rightarrow> lock_key \<Rightarrow> lock_info list" where
  "holders_of lt key = (case map_of (locks lt) key of None \<Rightarrow> [] | Some hs \<Rightarrow> hs)"

definition waits_of :: "(uuid \<times> uuid list) list \<Rightarrow> uuid \<Rightarrow> uuid list" where
  "waits_of g t = (case map_of g t of None \<Rightarrow> [] | Some ns \<Rightarrow> ns)"

section \<open>Cycle detection\<close>

text \<open>
  The loop of \<open>detect_cycle\<close>: \<open>visited\<close> and the queue of paths are its state. It ends because every
  round either shortens the queue or visits a transaction that waits for the first time.
\<close>

function bfs_loop ::
  "(uuid \<times> uuid list) list \<Rightarrow> uuid \<Rightarrow> uuid list \<Rightarrow> uuid list list \<Rightarrow> uuid list option" where
  "bfs_loop g start visited [] = None"
| "bfs_loop g start visited (path # queue) =
     (if path = [] then bfs_loop g start visited queue
      else let current = last path in
      if current = start then Some path
      else if current \<in> set visited then bfs_loop g start visited queue
      else bfs_loop g start (current # visited)
             (queue @ map (\<lambda>neighbor. path @ [neighbor]) (waits_of g current)))"
  by pat_completeness auto
termination
proof (relation "measures [\<lambda>(g, start, visited, queue). card (fst ` set g - set visited),
    \<lambda>(g, start, visited, queue). length queue]")
  show "wf (measures [\<lambda>(g, start, visited, queue). card (fst ` set g - set visited),
    \<lambda>(g :: (uuid \<times> uuid list) list, start :: uuid, visited, queue :: uuid list list). length queue])"
    by simp
next
  fix g :: "(uuid \<times> uuid list) list" and start :: uuid and visited path queue current
  assume new: "current = last path" "current \<noteq> start" "current \<notin> set visited"
  let ?left = "fst ` set g - set visited"
  show "((g, start, current # visited, queue @ map (\<lambda>n. path @ [n]) (waits_of g current)),
      g, start, visited, path # queue)
    \<in> measures [\<lambda>(g, start, visited, queue). card (fst ` set g - set visited),
      \<lambda>(g, start, visited, queue). length queue]"
  proof (cases "current \<in> fst ` set g")
    case True
    have "card (fst ` set g - set (current # visited)) < card ?left"
      by (rule psubset_card_mono) (use True new in auto)
    then show ?thesis by simp
  next
    case False
    then have "fst ` set g - set (current # visited) = ?left" by auto
    moreover have "waits_of g current = []"
      using False map_of_eq_None_iff [of g current] by (simp add: waits_of_def)
    ultimately show ?thesis by simp
  qed
qed auto

definition detect_cycle :: "lock_table \<Rightarrow> uuid \<Rightarrow> uuid list option" where
  "detect_cycle lt start =
     bfs_loop (wait_for lt) start []
       (map (\<lambda>neighbor. [start, neighbor]) (waits_of (wait_for lt) start))"

section \<open>Acquiring and releasing\<close>

datatype acquire_action =
    AlreadyHeld
  | Upgrade
  | UpgradeConflict uuid
  | Conflict uuid
  | Grant

fun acquire_scan ::
  "lock_info list \<Rightarrow> uuid \<Rightarrow> lock_type \<Rightarrow> lock_info list \<Rightarrow> acquire_action" where
  "acquire_scan all_holders t k [] = Grant"
| "acquire_scan all_holders t k (info # rest) =
     (if holder info = t then
        (if lock_kind info = Shared \<and> k = Exclusive then
           (if length all_holders = 1 then Upgrade
            else UpgradeConflict
              (case List.find (\<lambda>h. holder h \<noteq> t) all_holders of None \<Rightarrow> t | Some h \<Rightarrow> holder h))
         else AlreadyHeld)
      else if \<not> (lock_kind info = Shared \<and> k = Shared) then Conflict (holder info)
      else acquire_scan all_holders t k rest)"

definition lt_acquire ::
  "lock_table \<Rightarrow> uuid \<Rightarrow> string \<Rightarrow> string \<Rightarrow> lock_type \<Rightarrow> unit txn_result \<times> lock_table" where
  "lt_acquire lt t entity modality k =
     (let key = (entity, modality);
          hs = holders_of lt key;
          grant =
            lt\<lparr>locks := hm_entry [] key
                 (\<lambda>hs. filter (\<lambda>info. holder info \<noteq> t) hs @ [\<lparr>holder = t, lock_kind = k\<rparr>]) (locks lt),
               wait_for := AList.delete t (wait_for lt)\<rparr>
      in case acquire_scan hs t k hs of
           AlreadyHeld \<Rightarrow> (Inr (), lt)
         | UpgradeConflict other \<Rightarrow> (Inl (LockConflict entity modality other), lt)
         | Conflict blocker \<Rightarrow>
             (let lt' = lt\<lparr>wait_for := hm_entry [] t (List.insert blocker) (wait_for lt)\<rparr> in
              case detect_cycle lt' t of
                Some cycle \<Rightarrow>
                  (Inl (DeadlockDetected t cycle), lt'\<lparr>wait_for := AList.delete t (wait_for lt')\<rparr>)
              | None \<Rightarrow> (Inl (LockConflict entity modality blocker), lt'))
         | Upgrade \<Rightarrow> (Inr (), grant)
         | Grant \<Rightarrow> (Inr (), grant))"

definition lt_release_all :: "lock_table \<Rightarrow> uuid \<Rightarrow> lock_table" where
  "lt_release_all lt t =
     lt\<lparr>locks := hm_retain (\<lambda>_ hs. hs \<noteq> []) (hm_map (filter (\<lambda>info. holder info \<noteq> t)) (locks lt)),
        wait_for := hm_map (removeAll t) (AList.delete t (wait_for lt))\<rparr>"

definition lt_is_locked :: "lock_table \<Rightarrow> string \<Rightarrow> string \<Rightarrow> bool" where
  "lt_is_locked lt entity modality =
     (case map_of (locks lt) (entity, modality) of None \<Rightarrow> False | Some hs \<Rightarrow> hs \<noteq> [])"

definition lt_holders :: "lock_table \<Rightarrow> string \<Rightarrow> string \<Rightarrow> (uuid \<times> lock_type) list" where
  "lt_holders lt entity modality =
     (case map_of (locks lt) (entity, modality) of
        None \<Rightarrow> []
      | Some hs \<Rightarrow> map (\<lambda>info. (holder info, lock_kind info)) hs)"

lemma lt_holders_of: "lt_holders lt e m = map (\<lambda>i. (holder i, lock_kind i)) (holders_of lt (e, m))"
  by (simp add: lt_holders_def holders_of_def split: option.split)

section \<open>The wait-for graph\<close>

definition waits :: "(uuid \<times> uuid list) list \<Rightarrow> (uuid \<times> uuid) set" where
  "waits g = {(a, b). b \<in> set (waits_of g a)}"

fun is_path :: "(uuid \<times> uuid list) list \<Rightarrow> uuid list \<Rightarrow> bool" where
  "is_path g (a # b # p) \<longleftrightarrow> b \<in> set (waits_of g a) \<and> is_path g (b # p)"
| "is_path g p \<longleftrightarrow> True"

lemma is_path_snoc:
  "p \<noteq> [] \<Longrightarrow> is_path g (p @ [b]) \<longleftrightarrow> is_path g p \<and> b \<in> set (waits_of g (last p))"
  by (induction g p rule: is_path.induct) auto

text \<open>A path of at least one edge from \<open>start\<close>: what the queue of the search holds.\<close>

definition from_start :: "(uuid \<times> uuid list) list \<Rightarrow> uuid \<Rightarrow> uuid list \<Rightarrow> bool" where
  "from_start g start p \<longleftrightarrow> 2 \<le> length p \<and> hd p = start \<and> is_path g p"

lemma from_start_snoc:
  "from_start g start p \<Longrightarrow> b \<in> set (waits_of g (last p)) \<Longrightarrow> from_start g start (p @ [b])"
  by (cases "p = []") (auto simp: from_start_def is_path_snoc)

lemma bfs_loop_sound:
  "bfs_loop g start visited queue = Some p \<Longrightarrow> (\<forall>q \<in> set queue. from_start g start q) \<Longrightarrow>
     from_start g start p \<and> last p = start"
proof (induction g start visited queue rule: bfs_loop.induct)
  case (2 g start visited path queue)
  then show ?case
    by (auto simp: Let_def ball_Un from_start_snoc split: if_splits)
qed simp

lemma bfs_loop_complete:
  assumes "bfs_loop g start visited queue = None" "[] \<notin> set queue"
    and "\<forall>v \<in> set visited. v \<noteq> start \<and> set (waits_of g v) \<subseteq> set visited \<union> last ` set queue"
  shows "\<exists>V. set visited \<union> last ` set queue \<subseteq> V \<and> start \<notin> V
    \<and> (\<forall>v \<in> V. set (waits_of g v) \<subseteq> V)"
  using assms
proof (induction g start visited queue rule: bfs_loop.induct)
  case (1 g start visited)
  then show ?case by (intro exI [of _ "set visited"]) auto
next
  case (2 g start visited path queue)
  let ?c = "last path"
  let ?q = "queue @ map (\<lambda>n. path @ [n]) (waits_of g ?c)"
  have path: "path \<noteq> []" and ne: "[] \<notin> set queue" using "2.prems"(2) by auto
  have c: "?c \<noteq> start" using "2.prems"(1) path by (auto simp: Let_def)
  show ?case
  proof (cases "?c \<in> set visited")
    case True
    have "bfs_loop g start visited queue = None"
      using "2.prems"(1) path c True by (simp add: Let_def)
    moreover have "set visited \<union> last ` set (path # queue) = set visited \<union> last ` set queue"
      using True by auto
    ultimately show ?thesis
      using "2.IH"(2) [OF path refl c True _ ne] "2.prems"(3) by simp
  next
    case False
    have img: "last ` set ?q = last ` set queue \<union> set (waits_of g ?c)"
      by (simp add: image_Un image_image)
    have "bfs_loop g start (?c # visited) ?q = None" "[] \<notin> set ?q"
      using "2.prems"(1) path c False ne by (auto simp: Let_def)
    moreover have "\<forall>v \<in> set (?c # visited). v \<noteq> start
        \<and> set (waits_of g v) \<subseteq> set (?c # visited) \<union> last ` set ?q"
      using "2.prems"(3) c unfolding img by auto
    ultimately obtain V where "set (?c # visited) \<union> last ` set ?q \<subseteq> V" "start \<notin> V"
      "\<forall>v \<in> V. set (waits_of g v) \<subseteq> V"
      using "2.IH"(3) [OF path refl c False] by blast
    then show ?thesis unfolding img by (intro exI [of _ V]) simp
  qed
qed

lemma is_path_trancl:
  "is_path g (a # p) \<Longrightarrow> p \<noteq> [] \<Longrightarrow> (a, last p) \<in> (waits g)\<^sup>+"
proof (induction p arbitrary: a)
  case (Cons b p)
  then have "(a, b) \<in> waits g" by (simp add: waits_def)
  with Cons show ?case by (cases "p = []") (auto intro: trancl_into_trancl2)
qed simp

lemma from_start_trancl: "from_start g start p \<Longrightarrow> (start, last p) \<in> (waits g)\<^sup>+"
  using is_path_trancl [of g start "tl p"] by (cases p; cases "tl p") (auto simp: from_start_def)

lemma closed_no_trancl:
  assumes "(a, b) \<in> (waits g)\<^sup>+" "set (waits_of g a) \<subseteq> V" "\<forall>v \<in> V. set (waits_of g v) \<subseteq> V"
  shows "b \<in> V"
  using assms by (induction rule: trancl_induct) (auto simp: waits_def)

lemma detect_cycle_iff:
  "(case detect_cycle lt start of
      Some p \<Rightarrow> from_start (wait_for lt) start p \<and> last p = start
    | None \<Rightarrow> True)
   \<and> (detect_cycle lt start = None \<longleftrightarrow> (start, start) \<notin> (waits (wait_for lt))\<^sup>+)"
proof -
  let ?g = "wait_for lt"
  let ?q = "map (\<lambda>n. [start, n]) (waits_of ?g start)"
  have q: "\<forall>p \<in> set ?q. from_start ?g start p" by (auto simp: from_start_def)
  show ?thesis
  proof (cases "detect_cycle lt start")
    case None
    then have none: "bfs_loop ?g start [] ?q = None" by (simp add: detect_cycle_def)
    have "[] \<notin> set ?q" by auto
    from bfs_loop_complete [OF none this] obtain V where
      V: "last ` set ?q \<subseteq> V" "start \<notin> V" "\<forall>v \<in> V. set (waits_of ?g v) \<subseteq> V"
      by auto
    have "last ` set ?q = set (waits_of ?g start)" by (simp add: image_image)
    with V have "(start, start) \<notin> (waits ?g)\<^sup>+"
      using closed_no_trancl [of start start ?g V] by blast
    with None show ?thesis by simp
  next
    case (Some p)
    then have "bfs_loop ?g start [] ?q = Some p" by (simp add: detect_cycle_def)
    from bfs_loop_sound [OF this q] have p: "from_start ?g start p" "last p = start" by simp_all
    with from_start_trancl [OF p(1)] Some show ?thesis by simp
  qed
qed

section \<open>Exclusion\<close>

text \<open>
  The contract of the table: the holders of a key are different transactions, and either all of
  them share the lock or there is one holder.
\<close>

definition compatible :: "lock_info list \<Rightarrow> bool" where
  "compatible hs \<longleftrightarrow> hs \<noteq> [] \<and> distinct (map holder hs)
     \<and> (list_all (\<lambda>i. lock_kind i = Shared) hs \<or> length hs = 1)"

definition lock_table_inv :: "lock_table \<Rightarrow> bool" where
  "lock_table_inv lt \<longleftrightarrow> hm_wf (locks lt) \<and> hm_wf (wait_for lt)
     \<and> (\<forall>key hs. map_of (locks lt) key = Some hs \<longrightarrow> compatible hs)"

lemma lock_table_inv_new [simp]: "lock_table_inv lock_table_new"
  by (simp add: lock_table_inv_def lock_table_new_def)

lemma lock_table_inv_exclusive:
  assumes "lock_table_inv lt" "(t, Exclusive) \<in> set (lt_holders lt e m)" "(u, k) \<in> set (lt_holders lt e m)"
  shows "u = t \<and> k = Exclusive"
proof -
  obtain hs where hs: "map_of (locks lt) (e, m) = Some hs"
    using assms(2) by (cases "map_of (locks lt) (e, m)") (auto simp: lt_holders_def)
  with assms(1) have "compatible hs" by (auto simp: lock_table_inv_def)
  with hs assms(2,3) show ?thesis
    by (auto simp: compatible_def lt_holders_def list_all_iff length_Suc_conv)
qed

lemma acquire_scan_Grant:
  "acquire_scan hs t k rest = Grant \<Longrightarrow>
     \<forall>i \<in> set rest. holder i \<noteq> t \<and> lock_kind i = Shared \<and> k = Shared"
  by (induction rest) (auto split: if_splits)

lemma acquire_scan_Upgrade:
  "acquire_scan hs t k rest = Upgrade \<Longrightarrow> length hs = 1 \<and> (\<exists>i \<in> set rest. holder i = t)"
  by (induction rest) (auto split: if_splits)

lemma acquire_scan_AlreadyHeld:
  "acquire_scan hs t k rest = AlreadyHeld \<Longrightarrow>
     \<exists>i \<in> set rest. holder i = t \<and> (lock_kind i = Exclusive \<or> k = Shared)"
  by (induction rest) (auto split: if_splits intro: lock_type.exhaust)

lemma acquire_scan_Conflict:
  "acquire_scan hs t k rest = Conflict b \<Longrightarrow> b \<noteq> t \<and> (\<exists>i \<in> set rest. holder i = b)"
  by (induction rest) (auto split: if_splits)

lemma acquire_scan_UpgradeConflict:
  "acquire_scan hs t k rest = UpgradeConflict b \<Longrightarrow>
     length hs \<noteq> 1 \<and> k = Exclusive \<and> (\<exists>i \<in> set rest. holder i = t)"
  by (induction rest) (auto split: if_splits)

text \<open>The holders that a grant leaves.\<close>

definition granted :: "uuid \<Rightarrow> lock_type \<Rightarrow> lock_info list \<Rightarrow> lock_info list" where
  "granted t k hs = filter (\<lambda>i. holder i \<noteq> t) hs @ [\<lparr>holder = t, lock_kind = k\<rparr>]"

lemma granted_compatible:
  assumes "hs = [] \<or> compatible hs" "acquire_scan hs t k hs \<in> {Grant, Upgrade}"
  shows "compatible (granted t k hs)"
proof (cases "acquire_scan hs t k hs = Grant")
  case True
  from acquire_scan_Grant [OF this] have "filter (\<lambda>i. holder i \<noteq> t) hs = hs"
    "t \<notin> holder ` set hs" "hs \<noteq> [] \<Longrightarrow> list_all (\<lambda>i. lock_kind i = Shared) hs \<and> k = Shared"
    by (auto simp: list_all_iff neq_Nil_conv)
  with assms(1) show ?thesis by (cases "hs = []") (auto simp: compatible_def granted_def)
next
  case False
  with assms(2) have "acquire_scan hs t k hs = Upgrade" by simp
  from acquire_scan_Upgrade [OF this] have "filter (\<lambda>i. holder i \<noteq> t) hs = []"
    by (auto simp: length_Suc_conv)
  then show ?thesis by (simp add: compatible_def granted_def)
qed

text \<open>What acquiring does to the holders, by its result.\<close>

lemma lt_acquire_error:
  "lt_acquire lt t e m k = (Inl err, lt') \<Longrightarrow> locks lt' = locks lt"
  by (auto simp: lt_acquire_def Let_def split: acquire_action.splits option.splits)

lemma lt_acquire_ok:
  assumes "lt_acquire lt t e m k = (Inr (), lt')"
  obtains (held) i where "lt' = lt" "i \<in> set (holders_of lt (e, m))" "holder i = t"
      "lock_kind i = Exclusive \<or> k = Shared"
    | (grant) "acquire_scan (holders_of lt (e, m)) t k (holders_of lt (e, m)) \<in> {Grant, Upgrade}"
      "locks lt' = hm_entry [] (e, m) (granted t k) (locks lt)"
      "wait_for lt' = AList.delete t (wait_for lt)"
proof (cases "acquire_scan (holders_of lt (e, m)) t k (holders_of lt (e, m))")
  case AlreadyHeld
  with assms acquire_scan_AlreadyHeld [OF this] show thesis
    by (auto simp: lt_acquire_def Let_def intro: held)
qed (use assms in \<open>auto simp: lt_acquire_def Let_def granted_def [abs_def] split: option.splits intro: grant\<close>)

lemma holders_of_granted:
  "locks lt' = hm_entry [] key (granted t k) (locks lt) \<Longrightarrow>
     holders_of lt' j = (if j = key then granted t k (holders_of lt key) else holders_of lt j)"
  by (simp add: holders_of_def)

lemma holders_of_compatible:
  "lock_table_inv lt \<Longrightarrow> holders_of lt key = [] \<or> compatible (holders_of lt key)"
  by (cases key; cases "map_of (locks lt) key") (auto simp: lock_table_inv_def holders_of_def)

lemma lt_acquire_wf_wait_for:
  "lock_table_inv lt \<Longrightarrow> lt_acquire lt t e m k = (r, lt') \<Longrightarrow> hm_wf (wait_for lt')"
  by (auto simp: lt_acquire_def Let_def lock_table_inv_def split: acquire_action.splits option.splits)

lemma lt_acquire_inv:
  assumes inv: "lock_table_inv lt" and acq: "lt_acquire lt t e m k = (r, lt')"
  shows "lock_table_inv lt'"
proof (cases r)
  case (Inl err)
  with acq have "locks lt' = locks lt" using lt_acquire_error by blast
  with inv lt_acquire_wf_wait_for [OF assms] show ?thesis by (simp add: lock_table_inv_def)
next
  case (Inr u)
  with acq have "lt_acquire lt t e m k = (Inr (), lt')" by simp
  then show ?thesis
  proof (cases rule: lt_acquire_ok)
    case (held i)
    with inv show ?thesis by simp
  next
    case grant
    have "compatible (granted t k (holders_of lt (e, m)))"
      by (rule granted_compatible [OF holders_of_compatible [OF inv] grant(1)])
    with grant(2) inv lt_acquire_wf_wait_for [OF assms] show ?thesis
      by (auto simp: lock_table_inv_def holders_of_def)
  qed
qed

lemma lt_acquire_holds:
  assumes "lt_acquire lt t e m k = (Inr (), lt')"
  shows "\<exists>i \<in> set (holders_of lt' (e, m)). holder i = t \<and> (lock_kind i = Exclusive \<or> lock_kind i = k)"
  using assms
proof (cases rule: lt_acquire_ok)
  case (held i)
  then show ?thesis by (cases "lock_kind i") auto
next
  case grant
  then show ?thesis by (simp add: holders_of_granted granted_def)
qed

lemma map_of_release_all:
  assumes "hm_wf (locks lt)"
  shows "map_of (locks (lt_release_all lt t)) key =
    (case map_of (locks lt) key of
       None \<Rightarrow> None
     | Some hs \<Rightarrow> let hs' = filter (\<lambda>i. holder i \<noteq> t) hs in if hs' \<noteq> [] then Some hs' else None)"
  using assms by (simp add: lt_release_all_def map_of_hm_retain Let_def split: option.split)

lemma holders_of_release_all:
  assumes "hm_wf (locks lt)"
  shows "holders_of (lt_release_all lt t) key = filter (\<lambda>i. holder i \<noteq> t) (holders_of lt key)"
  by (simp add: holders_of_def map_of_release_all [OF assms] Let_def split: option.split)

lemma compatible_filter: "compatible hs \<Longrightarrow> filter P hs \<noteq> [] \<Longrightarrow> compatible (filter P hs)"
  by (auto simp: compatible_def list_all_iff length_Suc_conv distinct_map_filter split: if_splits)

lemma lt_release_all_inv: "lock_table_inv lt \<Longrightarrow> lock_table_inv (lt_release_all lt t)"
  by (auto simp: lock_table_inv_def map_of_release_all Let_def compatible_filter
      split: option.splits if_splits)
    (auto simp: lt_release_all_def)

lemma lt_release_all_holder:
  "lock_table_inv lt \<Longrightarrow> (t, k) \<notin> set (lt_holders (lt_release_all lt t) e m)"
  by (auto simp: lt_holders_of holders_of_release_all lock_table_inv_def)

text \<open>A transaction waits only for a holder of a lock; both ends of an edge are known here.\<close>

lemma waits_release_all:
  "hm_wf (wait_for lt) \<Longrightarrow> waits (wait_for (lt_release_all lt t))
     = {(a, b) \<in> waits (wait_for lt). a \<noteq> t \<and> b \<noteq> t}"
  by (auto simp: waits_def waits_of_def lt_release_all_def split: option.splits if_splits)

lemma waits_delete: "waits (AList.delete t g) = {(a, b) \<in> waits g. a \<noteq> t}"
  by (auto simp: waits_def waits_of_def split: option.splits if_splits)

lemma waits_insert: "waits (hm_entry [] t (List.insert b) g) = insert (t, b) (waits g)"
  by (auto simp: waits_def waits_of_def split: option.splits if_splits)

lemma lt_acquire_waits:
  assumes "lt_acquire lt t e m k = (r, lt')"
  shows "waits (wait_for lt') \<subseteq> waits (wait_for lt)
      \<union> {(t, holder i) |i. i \<in> set (holders_of lt (e, m)) \<and> holder i \<noteq> t}"
proof (cases "acquire_scan (holders_of lt (e, m)) t k (holders_of lt (e, m))")
  case (Conflict b)
  from acquire_scan_Conflict [OF this] obtain i where
    "i \<in> set (holders_of lt (e, m))" "holder i = b" "b \<noteq> t" by blast
  with Conflict assms show ?thesis
    by (auto simp: lt_acquire_def Let_def waits_insert waits_delete split: option.splits)
qed (use assms in \<open>auto simp: lt_acquire_def Let_def waits_delete\<close>)

end
