(* ===== verification/Txn_Manager.thy ===== *)
theory Txn_Manager
  imports Lock_Table
begin

text \<open>
  The transaction manager (\<open>TransactionManager\<close> in \<open>verisim-octad/src/transaction.rs\<close>): the version
  table, the transactions with their undo logs, lock sets and read sets, and every operation of the
  manager. An identifier \<open>Uuid::new_v4\<close> draws and a reading of the clock are arguments. The
  operations hold the write lock of the transactions while they run, and so are single steps, with
  two exceptions: \<open>acquire_lock\<close> takes its three locks one after the other and \<open>record_read\<close> its
  two. Their phases are definitions of their own, and \<open>conc_step\<close> interleaves them.
\<close>

section \<open>Version table\<close>

type_synonym version_table = "((string \<times> string) \<times> u64) list"

definition vt_get :: "version_table \<Rightarrow> string \<Rightarrow> string \<Rightarrow> u64" where
  "vt_get vt e m = (case map_of vt (e, m) of None \<Rightarrow> 0 | Some v \<Rightarrow> v)"

definition vt_set :: "version_table \<Rightarrow> string \<Rightarrow> string \<Rightarrow> u64 \<Rightarrow> version_table" where
  "vt_set vt e m v = AList.update (e, m) v vt"

definition vt_increment :: "version_table \<Rightarrow> string \<Rightarrow> string \<Rightarrow> u64 \<times> version_table" where
  "vt_increment vt e m = (let next = vt_get vt e m + 1 in (next, AList.update (e, m) next vt))"

section \<open>Transactions\<close>

definition modalities :: "string list" where
  "modalities = [''graph'', ''vector'', ''tensor'', ''semantic'', ''document'', ''temporal'',
     ''provenance'', ''spatial'']"

record lock_entry =
  le_entity :: string
  le_modality :: string
  le_kind :: lock_type

record undo_entry =
  ue_entity :: string
  ue_modality :: string
  previous_data :: "u8 list option"
  previous_version :: u64
  recorded_at :: datetime

record read_stamp =
  rs_entity :: string
  rs_modality :: string
  version_at_read :: u64

record transaction =
  txn_id :: uuid
  txn_state :: transaction_state
  isolation :: isolation_level
  undo_log :: "undo_entry list"
  txn_locks :: "lock_entry list"
  read_set :: "read_stamp list"
  started_at :: datetime
  completed_at :: "datetime option"

definition transaction_new :: "isolation_level \<Rightarrow> uuid \<Rightarrow> datetime \<Rightarrow> transaction" where
  "transaction_new il new_id now = \<lparr>txn_id = new_id, txn_state = Active, isolation = il,
     undo_log = [], txn_locks = [], read_set = [], started_at = now, completed_at = None\<rparr>"

definition is_active :: "transaction \<Rightarrow> bool" where
  "is_active txn \<longleftrightarrow> txn_state txn = Active"

record txn_manager =
  active_transactions :: "(uuid \<times> transaction) list"
  lock_tbl :: lock_table
  version_tbl :: version_table

definition tm_new :: txn_manager where
  "tm_new = \<lparr>active_transactions = [], lock_tbl = lock_table_new, version_tbl = []\<rparr>"

text \<open>The lookup and the state check that open every operation on a transaction.\<close>

definition get_active :: "txn_manager \<Rightarrow> uuid \<Rightarrow> transaction txn_result" where
  "get_active tm t =
     (case map_of (active_transactions tm) t of
        None \<Rightarrow> Inl (TransactionNotFound t)
      | Some txn \<Rightarrow>
          (if txn_state txn \<noteq> Active then Inl (InvalidState t (txn_state txn) ''Active'') else Inr txn))"

definition put_txn :: "uuid \<Rightarrow> transaction \<Rightarrow> txn_manager \<Rightarrow> txn_manager" where
  "put_txn t txn tm = tm\<lparr>active_transactions := AList.update t txn (active_transactions tm)\<rparr>"

section \<open>Begin, commit, rollback\<close>

definition tm_begin :: "isolation_level \<Rightarrow> uuid \<Rightarrow> datetime \<Rightarrow> txn_manager \<Rightarrow> uuid \<times> txn_manager" where
  "tm_begin il new_id now tm = (new_id, put_txn new_id (transaction_new il new_id now) tm)"

text \<open>The first stamp of the read set whose version has changed, with the current version.\<close>

fun validate :: "version_table \<Rightarrow> read_stamp list \<Rightarrow> (read_stamp \<times> u64) option" where
  "validate vt [] = None"
| "validate vt (stamp # stamps) =
     (let current = vt_get vt (rs_entity stamp) (rs_modality stamp) in
      if current \<noteq> version_at_read stamp then Some (stamp, current) else validate vt stamps)"

definition bump_versions :: "undo_entry list \<Rightarrow> version_table \<Rightarrow> version_table" where
  "bump_versions undo vt = fold (\<lambda>ue vt. snd (vt_increment vt (ue_entity ue) (ue_modality ue))) undo vt"

definition finish :: "uuid \<Rightarrow> transaction \<Rightarrow> transaction_state \<Rightarrow> datetime \<Rightarrow> txn_manager \<Rightarrow> txn_manager" where
  "finish t txn s now tm =
     (put_txn t (txn\<lparr>txn_state := s, completed_at := Some now\<rparr>) tm)
       \<lparr>lock_tbl := lt_release_all (lock_tbl tm) t\<rparr>"

definition tm_commit :: "uuid \<Rightarrow> datetime \<Rightarrow> txn_manager \<Rightarrow> unit txn_result \<times> txn_manager" where
  "tm_commit t now tm =
     (case get_active tm t of
        Inl err \<Rightarrow> (Inl err, tm)
      | Inr txn \<Rightarrow>
          (case (if isolation txn = Serializable then validate (version_tbl tm) (read_set txn) else None) of
             Some (stamp, current) \<Rightarrow>
               (Inl (VersionConflict (rs_entity stamp) (version_at_read stamp) current),
                finish t txn RolledBack now tm)
           | None \<Rightarrow>
               (Inr (), finish t txn Committed now
                  (tm\<lparr>version_tbl := bump_versions (undo_log txn) (version_tbl tm)\<rparr>))))"

definition tm_rollback ::
  "uuid \<Rightarrow> datetime \<Rightarrow> txn_manager \<Rightarrow> undo_entry list txn_result \<times> txn_manager" where
  "tm_rollback t now tm =
     (case get_active tm t of
        Inl err \<Rightarrow> (Inl err, tm)
      | Inr txn \<Rightarrow> (Inr (rev (undo_log txn)), finish t txn RolledBack now tm))"

section \<open>Locks, undo entries, reads\<close>

definition acquire_check :: "txn_manager \<Rightarrow> uuid \<Rightarrow> string \<Rightarrow> unit txn_result" where
  "acquire_check tm t m =
     (if m \<notin> set modalities then Inl (InvalidModality m)
      else case get_active tm t of Inl err \<Rightarrow> Inl err | Inr _ \<Rightarrow> Inr ())"

definition acquire_record ::
  "uuid \<Rightarrow> string \<Rightarrow> string \<Rightarrow> lock_type \<Rightarrow> txn_manager \<Rightarrow> txn_manager" where
  "acquire_record t e m k tm =
     (case map_of (active_transactions tm) t of
        None \<Rightarrow> tm
      | Some txn \<Rightarrow> put_txn t
          (txn\<lparr>txn_locks := filter (\<lambda>l. \<not> (le_entity l = e \<and> le_modality l = m)) (txn_locks txn)
             @ [\<lparr>le_entity = e, le_modality = m, le_kind = k\<rparr>]\<rparr>) tm)"

definition tm_acquire_lock ::
  "uuid \<Rightarrow> string \<Rightarrow> string \<Rightarrow> lock_type \<Rightarrow> txn_manager \<Rightarrow> unit txn_result \<times> txn_manager" where
  "tm_acquire_lock t e m k tm =
     (case acquire_check tm t m of
        Inl err \<Rightarrow> (Inl err, tm)
      | Inr _ \<Rightarrow>
          (case lt_acquire (lock_tbl tm) t e m k of
             (Inl err, lt) \<Rightarrow> (Inl err, tm\<lparr>lock_tbl := lt\<rparr>)
           | (Inr _, lt) \<Rightarrow> (Inr (), acquire_record t e m k (tm\<lparr>lock_tbl := lt\<rparr>))))"

definition tm_record_undo ::
  "uuid \<Rightarrow> string \<Rightarrow> string \<Rightarrow> u8 list option \<Rightarrow> u64 \<Rightarrow> datetime \<Rightarrow> txn_manager
     \<Rightarrow> unit txn_result \<times> txn_manager" where
  "tm_record_undo t e m data version now tm =
     (if m \<notin> set modalities then (Inl (InvalidModality m), tm)
      else case get_active tm t of
             Inl err \<Rightarrow> (Inl err, tm)
           | Inr txn \<Rightarrow> (Inr (), put_txn t
               (txn\<lparr>undo_log := undo_log txn @ [\<lparr>ue_entity = e, ue_modality = m,
                  previous_data = data, previous_version = version, recorded_at = now\<rparr>]\<rparr>) tm))"

definition record_stamp ::
  "uuid \<Rightarrow> string \<Rightarrow> string \<Rightarrow> u64 \<Rightarrow> txn_manager \<Rightarrow> unit txn_result \<times> txn_manager" where
  "record_stamp t e m version tm =
     (case get_active tm t of
        Inl err \<Rightarrow> (Inl err, tm)
      | Inr txn \<Rightarrow> (Inr (), put_txn t
          (txn\<lparr>read_set := read_set txn @ [\<lparr>rs_entity = e, rs_modality = m, version_at_read = version\<rparr>]\<rparr>) tm))"

definition tm_record_read ::
  "uuid \<Rightarrow> string \<Rightarrow> string \<Rightarrow> txn_manager \<Rightarrow> unit txn_result \<times> txn_manager" where
  "tm_record_read t e m tm =
     (if m \<notin> set modalities then (Inl (InvalidModality m), tm)
      else record_stamp t e m (vt_get (version_tbl tm) e m) tm)"

section \<open>Queries and housekeeping\<close>

definition get_transaction_state :: "txn_manager \<Rightarrow> uuid \<Rightarrow> transaction_state option" where
  "get_transaction_state tm t = map_option txn_state (map_of (active_transactions tm) t)"

definition active_count :: "txn_manager \<Rightarrow> nat" where
  "active_count tm = length (filter (\<lambda>(_, txn). txn_state txn = Active) (active_transactions tm))"

definition current_version :: "txn_manager \<Rightarrow> string \<Rightarrow> string \<Rightarrow> u64" where
  "current_version tm e m = vt_get (version_tbl tm) e m"

definition tm_set_version :: "string \<Rightarrow> string \<Rightarrow> u64 \<Rightarrow> txn_manager \<Rightarrow> txn_manager" where
  "tm_set_version e m v tm = tm\<lparr>version_tbl := vt_set (version_tbl tm) e m v\<rparr>"

definition tm_is_locked :: "txn_manager \<Rightarrow> string \<Rightarrow> string \<Rightarrow> bool" where
  "tm_is_locked tm e m = lt_is_locked (lock_tbl tm) e m"

definition tm_lock_holders :: "txn_manager \<Rightarrow> string \<Rightarrow> string \<Rightarrow> (uuid \<times> lock_type) list" where
  "tm_lock_holders tm e m = lt_holders (lock_tbl tm) e m"

definition tm_purge_completed :: "txn_manager \<Rightarrow> nat \<times> txn_manager" where
  "tm_purge_completed tm =
     (let kept = hm_retain (\<lambda>_ txn. txn_state txn = Active) (active_transactions tm)
      in (length (active_transactions tm) - length kept, tm\<lparr>active_transactions := kept\<rparr>))"

section \<open>Sequential use\<close>

datatype txn_op =
    TBegin isolation_level uuid datetime
  | TCommit uuid datetime
  | TRollback uuid datetime
  | TAcquire uuid string string lock_type
  | TUndo uuid string string "u8 list option" u64 datetime
  | TRead uuid string string
  | TSetVersion string string u64
  | TPurge

fun txn_step :: "txn_manager \<Rightarrow> txn_op \<Rightarrow> txn_manager" where
  "txn_step tm (TBegin il t now) = snd (tm_begin il t now tm)"
| "txn_step tm (TCommit t now) = snd (tm_commit t now tm)"
| "txn_step tm (TRollback t now) = snd (tm_rollback t now tm)"
| "txn_step tm (TAcquire t e m k) = snd (tm_acquire_lock t e m k tm)"
| "txn_step tm (TUndo t e m d v now) = snd (tm_record_undo t e m d v now tm)"
| "txn_step tm (TRead t e m) = snd (tm_record_read t e m tm)"
| "txn_step tm (TSetVersion e m v) = tm_set_version e m v tm"
| "txn_step tm TPurge = snd (tm_purge_completed tm)"

text \<open>\<open>Uuid::new_v4\<close> never draws an identifier in use.\<close>

fun txn_ok :: "txn_manager \<Rightarrow> txn_op \<Rightarrow> bool" where
  "txn_ok tm (TBegin il t now) \<longleftrightarrow> map_of (active_transactions tm) t = None"
| "txn_ok tm _ \<longleftrightarrow> True"

definition is_live :: "txn_manager \<Rightarrow> uuid \<Rightarrow> bool" where
  "is_live tm t \<longleftrightarrow> get_transaction_state tm t = Some Active"

definition holds_lock :: "lock_table \<Rightarrow> uuid \<Rightarrow> string \<Rightarrow> string \<Rightarrow> bool" where
  "holds_lock lt t e m \<longleftrightarrow> t \<in> holder ` set (holders_of lt (e, m))"

definition owns_lock :: "txn_manager \<Rightarrow> uuid \<Rightarrow> string \<Rightarrow> string \<Rightarrow> bool" where
  "owns_lock tm t e m \<longleftrightarrow>
     (case get_active tm t of
        Inl _ \<Rightarrow> False
      | Inr txn \<Rightarrow> \<exists>l \<in> set (txn_locks txn). le_entity l = e \<and> le_modality l = m)"

text \<open>
  The invariant of sequential use: the lock table and the lock sets of the active transactions
  agree, so that only active transactions hold locks, and only they wait or are waited for.
\<close>

definition tm_inv :: "txn_manager \<Rightarrow> bool" where
  "tm_inv tm \<longleftrightarrow> hm_wf (active_transactions tm) \<and> lock_table_inv (lock_tbl tm)
     \<and> (\<forall>t e m. holds_lock (lock_tbl tm) t e m \<longleftrightarrow> owns_lock tm t e m)
     \<and> (\<forall>a b. (a, b) \<in> waits (wait_for (lock_tbl tm)) \<longrightarrow> is_live tm a \<and> is_live tm b)"

lemma get_active_eq_Inr:
  "get_active tm t = Inr txn \<longleftrightarrow> map_of (active_transactions tm) t = Some txn \<and> txn_state txn = Active"
  by (auto simp: get_active_def split: option.splits)

lemma is_live_iff:
  "is_live tm t \<longleftrightarrow> (\<exists>txn. map_of (active_transactions tm) t = Some txn \<and> txn_state txn = Active)"
  by (auto simp: is_live_def get_transaction_state_def)

lemma is_live_get_active: "is_live tm t \<longleftrightarrow> (\<exists>txn. get_active tm t = Inr txn)"
  by (auto simp: is_live_iff get_active_eq_Inr)

lemma owns_lock_iff:
  "owns_lock tm t e m \<longleftrightarrow> (\<exists>txn. map_of (active_transactions tm) t = Some txn \<and> txn_state txn = Active
     \<and> (\<exists>l \<in> set (txn_locks txn). le_entity l = e \<and> le_modality l = m))"
  by (auto simp: owns_lock_def get_active_def split: option.splits)

lemma tm_inv_new [simp]: "tm_inv tm_new"
  by (simp add: tm_inv_def tm_new_def holds_lock_def owns_lock_iff is_live_iff holders_of_def
      lock_table_new_def waits_def waits_of_def)
    (simp add: lock_table_new_def [symmetric])

lemma put_txn_sel [simp]:
  "active_transactions (put_txn t txn tm) = AList.update t txn (active_transactions tm)"
  "lock_tbl (put_txn t txn tm) = lock_tbl tm" "version_tbl (put_txn t txn tm) = version_tbl tm"
  by (simp_all add: put_txn_def)

lemma finish_sel [simp]:
  "active_transactions (finish t txn s now tm)
     = AList.update t (txn\<lparr>txn_state := s, completed_at := Some now\<rparr>) (active_transactions tm)"
  "lock_tbl (finish t txn s now tm) = lt_release_all (lock_tbl tm) t"
  "version_tbl (finish t txn s now tm) = version_tbl tm"
  by (simp_all add: finish_def)

text \<open>Replacing an active transaction by one that is active and has the same lock set.\<close>

lemma tm_inv_put:
  assumes "tm_inv tm" "get_active tm t = Inr txn"
    and "txn_state txn' = Active" "txn_locks txn' = txn_locks txn"
  shows "tm_inv (put_txn t txn' tm)"
proof -
  have live: "is_live (put_txn t txn' tm) u \<longleftrightarrow> is_live tm u" for u
    using assms by (auto simp: is_live_iff get_active_eq_Inr)
  have "owns_lock (put_txn t txn' tm) u e m \<longleftrightarrow> owns_lock tm u e m" for u e m
    using assms by (auto simp: owns_lock_iff get_active_eq_Inr)
  with assms(1) live show ?thesis by (simp add: tm_inv_def)
qed

lemma holds_lock_release_all:
  "lock_table_inv lt \<Longrightarrow> holds_lock (lt_release_all lt t) u e m \<longleftrightarrow> u \<noteq> t \<and> holds_lock lt u e m"
  by (auto simp: holds_lock_def holders_of_release_all lock_table_inv_def)

lemma tm_inv_finish:
  assumes "tm_inv tm" "s \<noteq> Active"
  shows "tm_inv (finish t txn s now (tm\<lparr>version_tbl := vt\<rparr>))" (is "tm_inv ?tm")
proof -
  have live: "is_live ?tm u \<longleftrightarrow> u \<noteq> t \<and> is_live tm u" for u
    using assms(2) by (auto simp: is_live_iff)
  have "owns_lock ?tm u e m \<longleftrightarrow> u \<noteq> t \<and> owns_lock tm u e m" for u e m
    using assms(2) by (auto simp: owns_lock_iff)
  moreover have "lock_table_inv (lock_tbl tm)" "hm_wf (wait_for (lock_tbl tm))"
    using assms(1) by (auto simp: tm_inv_def lock_table_inv_def)
  ultimately show ?thesis
    using assms(1) by (auto simp: tm_inv_def holds_lock_release_all lt_release_all_inv waits_release_all live)
qed

lemma tm_inv_begin:
  assumes inv: "tm_inv tm" and fresh: "map_of (active_transactions tm) t = None"
  shows "tm_inv (snd (tm_begin il t now tm))" (is "tm_inv ?tm")
proof -
  have live: "is_live ?tm u \<longleftrightarrow> u = t \<or> is_live tm u" for u
    by (auto simp: is_live_iff tm_begin_def transaction_new_def)
  have "owns_lock ?tm u e m \<longleftrightarrow> owns_lock tm u e m" for u e m
    using fresh by (auto simp: owns_lock_iff tm_begin_def transaction_new_def)
  with inv live show ?thesis by (auto simp: tm_inv_def) (simp_all add: tm_begin_def)
qed

lemma holds_lock_acquire:
  assumes "lt_acquire lt t e m k = (Inr (), lt')"
  shows "holds_lock lt' u e' m' \<longleftrightarrow> holds_lock lt u e' m' \<or> (u = t \<and> e' = e \<and> m' = m)"
  using assms
proof (cases rule: lt_acquire_ok)
  case (held i)
  then show ?thesis by (auto simp: holds_lock_def)
next
  case grant
  then show ?thesis by (auto simp: holds_lock_def holders_of_granted granted_def image_iff)
qed

lemma holds_lock_acquire_error:
  "lt_acquire lt t e m k = (Inl err, lt') \<Longrightarrow> holds_lock lt' u e' m' \<longleftrightarrow> holds_lock lt u e' m'"
  by (simp add: holds_lock_def holders_of_def lt_acquire_error)

lemma lt_acquire_waits_holders:
  "lt_acquire lt t e m k = (r, lt') \<Longrightarrow> (a, b) \<in> waits (wait_for lt') \<Longrightarrow>
     (a, b) \<in> waits (wait_for lt) \<or> (a = t \<and> holds_lock lt b e m)"
  using lt_acquire_waits [of lt t e m k r lt'] by (auto simp: holds_lock_def)

lemma tm_inv_acquire:
  assumes inv: "tm_inv tm"
  shows "tm_inv (snd (tm_acquire_lock t e m k tm))"
proof (cases "acquire_check tm t m")
  case (Inl err)
  with inv show ?thesis by (simp add: tm_acquire_lock_def)
next
  case (Inr u)
  then obtain txn where act: "get_active tm t = Inr txn"
    by (auto simp: acquire_check_def split: if_splits sum.splits)
  then have t: "is_live tm t" by (auto simp: is_live_get_active)
  obtain r lt where acq: "lt_acquire (lock_tbl tm) t e m k = (r, lt)" by force
  have lt: "lock_table_inv lt" using inv acq by (auto simp: tm_inv_def intro: lt_acquire_inv)
  have hold: "holds_lock (lock_tbl tm) v e' m' \<longleftrightarrow> owns_lock tm v e' m'" for v e' m'
    using inv by (simp add: tm_inv_def)
  have waits: "is_live tm a \<and> is_live tm b" if "(a, b) \<in> waits (wait_for lt)" for a b
    using lt_acquire_waits_holders [OF acq that] inv t hold by (auto simp: tm_inv_def owns_lock_iff is_live_iff)
  show ?thesis
  proof (cases r)
    case (Inl err)
    let ?tm = "tm\<lparr>lock_tbl := lt\<rparr>"
    have "snd (tm_acquire_lock t e m k tm) = ?tm"
      using Inr acq Inl by (simp add: tm_acquire_lock_def)
    moreover have "is_live ?tm = is_live tm" "owns_lock ?tm = owns_lock tm"
      by (simp_all add: fun_eq_iff is_live_iff owns_lock_iff)
    ultimately show ?thesis
      using inv lt waits hold acq Inl by (simp add: tm_inv_def holds_lock_acquire_error)
  next
    case (Inr v)
    define locks' where "locks' = filter (\<lambda>l. \<not> (le_entity l = e \<and> le_modality l = m)) (txn_locks txn)
        @ [\<lparr>le_entity = e, le_modality = m, le_kind = k\<rparr>]"
    let ?tm = "put_txn t (txn\<lparr>txn_locks := locks'\<rparr>) (tm\<lparr>lock_tbl := lt\<rparr>)"
    have tm: "snd (tm_acquire_lock t e m k tm) = ?tm"
      using \<open>acquire_check tm t m = Inr u\<close> acq Inr act
      by (simp add: tm_acquire_lock_def acquire_record_def get_active_eq_Inr locks'_def)
    have live: "is_live ?tm a \<longleftrightarrow> is_live tm a" for a
      using act by (auto simp: is_live_iff get_active_eq_Inr)
    have "owns_lock ?tm a e' m' \<longleftrightarrow> owns_lock tm a e' m' \<or> (a = t \<and> e' = e \<and> m' = m)" for a e' m'
      using act by (auto simp: owns_lock_iff get_active_eq_Inr locks'_def)
    moreover have "lt_acquire (lock_tbl tm) t e m k = (Inr (), lt)" using acq Inr by simp
    from holds_lock_acquire [OF this] have "holds_lock lt a e' m'
        \<longleftrightarrow> holds_lock (lock_tbl tm) a e' m' \<or> (a = t \<and> e' = e \<and> m' = m)" for a e' m' .
    ultimately show ?thesis
      using inv lt waits hold live
      by (simp add: tm tm_inv_def)
  qed
qed

lemma tm_inv_purge:
  assumes inv: "tm_inv tm"
  shows "tm_inv (snd (tm_purge_completed tm))" (is "tm_inv ?tm")
proof -
  have wf: "hm_wf (active_transactions tm)" using inv by (simp add: tm_inv_def)
  have get: "map_of (active_transactions ?tm) t
      = (case map_of (active_transactions tm) t of None \<Rightarrow> None
         | Some txn \<Rightarrow> if txn_state txn = Active then Some txn else None)" for t
    by (simp add: tm_purge_completed_def Let_def map_of_hm_retain [OF wf])
  have live: "is_live ?tm t \<longleftrightarrow> is_live tm t" for t
    by (auto simp: is_live_iff get split: option.splits)
  have "owns_lock ?tm t e m \<longleftrightarrow> owns_lock tm t e m" for t e m
    by (auto simp: owns_lock_iff get split: option.splits)
  with inv live show ?thesis by (simp add: tm_inv_def) (simp add: tm_purge_completed_def Let_def)
qed

lemma tm_step_inv:
  assumes "tm_inv tm" "txn_ok tm op"
  shows "tm_inv (txn_step tm op)"
proof (cases op)
  case (TCommit t now)
  then show ?thesis
    using assms(1) tm_inv_finish [OF assms(1), of Committed]
      tm_inv_finish [OF assms(1), of RolledBack _ _ _ "version_tbl tm"]
    by (auto simp: tm_commit_def split: sum.splits option.splits)
next
  case (TRollback t now)
  then show ?thesis
    using assms(1) tm_inv_finish [OF assms(1), of RolledBack _ _ _ "version_tbl tm"]
    by (auto simp: tm_rollback_def split: sum.splits)
next
  case (TUndo t e m d v now)
  then show ?thesis
    using assms(1) by (auto simp: tm_record_undo_def get_active_eq_Inr split: sum.splits intro: tm_inv_put)
next
  case (TRead t e m)
  then show ?thesis
    using assms(1)
    by (auto simp: tm_record_read_def record_stamp_def get_active_eq_Inr split: sum.splits intro: tm_inv_put)
next
  case (TSetVersion e m v)
  then show ?thesis
    using assms(1) by (simp add: tm_set_version_def tm_inv_def is_live_iff owns_lock_iff)
qed (use assms in \<open>simp_all add: tm_inv_begin tm_inv_acquire tm_inv_purge\<close>)

interpretation tm: step_system txn_step txn_ok tm_inv
  by unfold_locales (rule tm_step_inv)

section \<open>Versions and validation\<close>

definition writes_key :: "undo_entry list \<Rightarrow> string \<Rightarrow> string \<Rightarrow> nat" where
  "writes_key undo e m = length (filter (\<lambda>ue. ue_entity ue = e \<and> ue_modality ue = m) undo)"

lemma vt_get_increment:
  "vt_get (snd (vt_increment vt e' m')) e m = (if (e', m') = (e, m) then vt_get vt e m + 1 else vt_get vt e m)"
  by (auto simp: vt_get_def vt_increment_def Let_def)

text \<open>A commit adds to the version of a key the number of its undo entries for that key.\<close>

lemma vt_get_bump_versions:
  "vt_get (bump_versions undo vt) e m = vt_get vt e m + of_nat (writes_key undo e m)"
proof (induction undo arbitrary: vt)
  case Nil
  then show ?case by (simp add: bump_versions_def writes_key_def)
next
  case (Cons ue undo)
  have "bump_versions (ue # undo) vt = bump_versions undo (snd (vt_increment vt (ue_entity ue) (ue_modality ue)))"
    by (simp add: bump_versions_def)
  with Cons show ?case by (auto simp: vt_get_increment writes_key_def)
qed

lemma bump_versions_changes:
  assumes "ue \<in> set undo" "ue_entity ue = e" "ue_modality ue = m" "length undo < 2 ^ 64"
  shows "vt_get (bump_versions undo vt) e m \<noteq> vt_get vt e m"
proof -
  have le: "writes_key undo e m \<le> length undo" by (simp add: writes_key_def)
  have "filter (\<lambda>ue. ue_entity ue = e \<and> ue_modality ue = m) undo \<noteq> []"
    using assms(1-3) by (auto simp: filter_empty_conv)
  then have "0 < writes_key undo e m" by (simp add: writes_key_def)
  moreover have "writes_key undo e m < 2 ^ 64" using le assms(4) by (rule le_less_trans)
  ultimately have "(of_nat (writes_key undo e m) :: u64) \<noteq> 0"
    by (simp add: word_of_nat_eq_0_iff nat_dvd_not_less)
  then show ?thesis by (simp add: vt_get_bump_versions)
qed

lemma validate_None:
  "validate vt stamps = None \<longleftrightarrow>
     (\<forall>s \<in> set stamps. vt_get vt (rs_entity s) (rs_modality s) = version_at_read s)"
  by (induction stamps) (auto simp: Let_def)

lemma validate_Some:
  "validate vt stamps = Some (s, v) \<Longrightarrow>
     s \<in> set stamps \<and> v = vt_get vt (rs_entity s) (rs_modality s) \<and> v \<noteq> version_at_read s"
  by (induction stamps) (auto simp: Let_def split: if_splits)

lemma finish_state:
  "get_transaction_state (finish t txn s now tm) u = (if u = t then Some s else get_transaction_state tm u)"
  by (simp add: get_transaction_state_def)

lemma finish_holders:
  "lock_table_inv (lock_tbl tm) \<Longrightarrow> (t, k) \<notin> set (tm_lock_holders (finish t txn s now tm) e m)"
  by (simp add: tm_lock_holders_def lt_release_all_holder)

end
