(* ===== verification/Txn_Concurrent.thy ===== *)
theory Txn_Concurrent
  imports Txn_Manager "HOL-Library.Transitive_Closure_Table"
begin

text \<open>
  Concurrent use of the transaction manager: the calls in progress, the step relation that
  interleaves the phases of \<open>acquire_lock\<close> and \<open>record_read\<close> with the other operations, and what
  holds in every reachable state. \<open>drawn\<close> is the set of identifiers \<open>Uuid::new_v4\<close> has returned.
\<close>

section \<open>The step relation\<close>

text \<open>
  A call between two of its locks: \<open>CheckedAcquire\<close> has seen its transaction active, \<open>GrantedAcquire\<close>
  has been granted the lock, \<open>VersionRead\<close> has read a version.
\<close>

datatype call =
    CheckedAcquire uuid string string lock_type
  | GrantedAcquire uuid string string lock_type
  | VersionRead uuid string string u64

record conc =
  mgr :: txn_manager
  calls :: "call list"
  drawn :: "uuid list"

definition conc_new :: conc where
  "conc_new = \<lparr>mgr = tm_new, calls = [], drawn = []\<rparr>"

fun is_atomic :: "txn_op \<Rightarrow> bool" where
  "is_atomic (TBegin _ _ _) = False"
| "is_atomic (TAcquire _ _ _ _) = False"
| "is_atomic (TRead _ _ _) = False"
| "is_atomic _ = True"

inductive conc_step :: "conc \<Rightarrow> conc \<Rightarrow> bool" where
  step_begin: "t \<notin> set (drawn c) \<Longrightarrow>
     conc_step c (c\<lparr>mgr := snd (tm_begin il t now (mgr c)), drawn := t # drawn c\<rparr>)"
| step_op: "is_atomic op \<Longrightarrow> conc_step c (c\<lparr>mgr := txn_step (mgr c) op\<rparr>)"
| step_check: "acquire_check (mgr c) t m = Inr () \<Longrightarrow>
     conc_step c (c\<lparr>calls := CheckedAcquire t e m k # calls c\<rparr>)"
| step_granted: "CheckedAcquire t e m k \<in> set (calls c) \<Longrightarrow>
     lt_acquire (lock_tbl (mgr c)) t e m k = (Inr (), lt) \<Longrightarrow>
     conc_step c (c\<lparr>mgr := (mgr c)\<lparr>lock_tbl := lt\<rparr>,
       calls := GrantedAcquire t e m k # remove1 (CheckedAcquire t e m k) (calls c)\<rparr>)"
| step_refused: "CheckedAcquire t e m k \<in> set (calls c) \<Longrightarrow>
     lt_acquire (lock_tbl (mgr c)) t e m k = (Inl err, lt) \<Longrightarrow>
     conc_step c (c\<lparr>mgr := (mgr c)\<lparr>lock_tbl := lt\<rparr>,
       calls := remove1 (CheckedAcquire t e m k) (calls c)\<rparr>)"
| step_record: "GrantedAcquire t e m k \<in> set (calls c) \<Longrightarrow>
     conc_step c (c\<lparr>mgr := acquire_record t e m k (mgr c),
       calls := remove1 (GrantedAcquire t e m k) (calls c)\<rparr>)"
| step_read: "m \<in> set modalities \<Longrightarrow>
     conc_step c (c\<lparr>calls := VersionRead t e m (vt_get (version_tbl (mgr c)) e m) # calls c\<rparr>)"
| step_stamp: "VersionRead t e m v \<in> set (calls c) \<Longrightarrow>
     conc_step c (c\<lparr>mgr := snd (record_stamp t e m v (mgr c)),
       calls := remove1 (VersionRead t e m v) (calls c)\<rparr>)"

inductive_cases conc_stepE: "conc_step c c'"

abbreviation conc_steps :: "conc \<Rightarrow> conc \<Rightarrow> bool" where
  "conc_steps \<equiv> conc_step\<^sup>*\<^sup>*"

text \<open>A call of \<open>acquire_lock\<close> or \<open>record_read\<close> with nothing in between is its sequential operation.\<close>

lemma acquire_sequential:
  assumes "acquire_check (mgr c) t m = Inr ()"
    and "lt_acquire (lock_tbl (mgr c)) t e m k = (Inr (), lt)"
  shows "conc_steps c (c\<lparr>mgr := snd (tm_acquire_lock t e m k (mgr c))\<rparr>)"
proof -
  let ?c1 = "c\<lparr>calls := CheckedAcquire t e m k # calls c\<rparr>"
  let ?c2 = "?c1\<lparr>mgr := (mgr c)\<lparr>lock_tbl := lt\<rparr>, calls := GrantedAcquire t e m k # calls c\<rparr>"
  have "conc_step c ?c1" by (rule step_check [OF assms(1)])
  moreover have "conc_step ?c1 ?c2"
    using step_granted [of t e m k ?c1 lt] assms(2) by simp
  moreover have "conc_step ?c2 (c\<lparr>mgr := snd (tm_acquire_lock t e m k (mgr c))\<rparr>)"
    using step_record [of t e m k ?c2] assms by (simp add: tm_acquire_lock_def)
  ultimately show ?thesis by (meson converse_rtranclp_into_rtranclp rtranclp.rtrancl_refl)
qed

section \<open>Every interleaving keeps the locks exclusive\<close>

definition conc_inv :: "conc \<Rightarrow> bool" where
  "conc_inv c \<longleftrightarrow> hm_wf (active_transactions (mgr c)) \<and> lock_table_inv (lock_tbl (mgr c))
     \<and> (\<forall>t. get_transaction_state (mgr c) t \<noteq> None \<longrightarrow> t \<in> set (drawn c))"

text \<open>
  The effect an operation may have on the transactions: it invents none, and a completed one keeps
  its state until it is purged.
\<close>

definition txn_effect :: "txn_manager \<Rightarrow> txn_manager \<Rightarrow> bool" where
  "txn_effect tm tm' \<longleftrightarrow> hm_wf (active_transactions tm')
     \<and> (\<forall>t. case get_transaction_state tm t of
              None \<Rightarrow> get_transaction_state tm' t = None
            | Some s \<Rightarrow> s = Active \<or> get_transaction_state tm' t \<in> {Some s, None})"

lemma txn_effect_None:
  "txn_effect tm tm' \<Longrightarrow> get_transaction_state tm t = None \<Longrightarrow> get_transaction_state tm' t = None"
  unfolding txn_effect_def by (drule conjunct2, drule spec [of _ t]) simp

lemma txn_effect_Some:
  "txn_effect tm tm' \<Longrightarrow> get_transaction_state tm t = Some s \<Longrightarrow> s \<noteq> Active \<Longrightarrow>
     get_transaction_state tm' t \<in> {Some s, None}"
  unfolding txn_effect_def by (drule conjunct2, drule spec [of _ t]) simp

lemma txn_effect_same:
  "hm_wf (active_transactions tm) \<Longrightarrow> active_transactions tm' = active_transactions tm \<Longrightarrow>
     txn_effect tm tm'"
  by (auto simp: txn_effect_def get_transaction_state_def split: option.splits)

lemmas txn_effect_refl = txn_effect_same [OF _ refl]

lemma txn_effect_put:
  "hm_wf (active_transactions tm) \<Longrightarrow> get_transaction_state tm t = Some s \<Longrightarrow>
     s = Active \<or> txn_state txn = s \<Longrightarrow> active_transactions tm' = active_transactions (put_txn t txn tm) \<Longrightarrow>
     txn_effect tm tm'"
  by (auto simp: txn_effect_def get_transaction_state_def split: option.splits)

lemma txn_effect_get_active:
  "hm_wf (active_transactions tm) \<Longrightarrow> get_active tm t = Inr txn \<Longrightarrow>
     active_transactions tm' = active_transactions (put_txn t txn' tm) \<Longrightarrow> txn_effect tm tm'"
  by (rule txn_effect_put) (auto simp: get_active_eq_Inr get_transaction_state_def)

lemma txn_effect_record:
  assumes "hm_wf (active_transactions tm)"
  shows "txn_effect tm (acquire_record t e m k tm)"
proof (cases "map_of (active_transactions tm) t")
  case None
  then show ?thesis by (simp add: acquire_record_def txn_effect_refl assms)
next
  case (Some txn)
  then have "get_transaction_state tm t = Some (txn_state txn)" by (simp add: get_transaction_state_def)
  note eff = txn_effect_put [OF assms this disjI2]
  show ?thesis by (simp add: acquire_record_def Some) (rule eff, simp_all)
qed

lemma txn_effect_stamp:
  "hm_wf (active_transactions tm) \<Longrightarrow> txn_effect tm (snd (record_stamp t e m v tm))"
  unfolding record_stamp_def
  by (auto split: sum.split simp: txn_effect_refl intro: txn_effect_get_active)

lemma txn_effect_purge:
  "hm_wf (active_transactions tm) \<Longrightarrow> txn_effect tm (snd (tm_purge_completed tm))"
  by (auto simp: txn_effect_def tm_purge_completed_def Let_def get_transaction_state_def
      map_of_hm_retain split: option.splits)

lemma txn_effect_op:
  assumes "hm_wf (active_transactions tm)" "is_atomic op"
  shows "txn_effect tm (txn_step tm op)"
proof (cases op)
  case (TCommit t now)
  then show ?thesis
    using assms(1) by (auto simp: tm_commit_def txn_effect_refl split: sum.split option.split
        intro: txn_effect_get_active)
next
  case (TRollback t now)
  then show ?thesis
    using assms(1) by (auto simp: tm_rollback_def txn_effect_refl split: sum.split
        intro: txn_effect_get_active)
next
  case (TUndo t e m d v now)
  then show ?thesis
    using assms(1) by (auto simp: tm_record_undo_def txn_effect_refl split: sum.split
        intro: txn_effect_get_active)
next
  case (TSetVersion e m v)
  then show ?thesis by (simp add: tm_set_version_def txn_effect_same assms(1))
qed (use assms in \<open>simp_all add: txn_effect_purge\<close>)

text \<open>The lock table is released for a transaction that was active, or kept.\<close>

lemma lock_tbl_op:
  assumes "is_atomic op"
  shows "lock_tbl (txn_step tm op) = lock_tbl tm
    \<or> (\<exists>t. is_live tm t \<and> lock_tbl (txn_step tm op) = lt_release_all (lock_tbl tm) t)"
  using assms
  by (cases op)
    (auto simp: tm_commit_def tm_rollback_def tm_record_undo_def tm_set_version_def
      tm_purge_completed_def Let_def is_live_get_active split: sum.split option.split)

lemma acquire_record_lock_tbl [simp]: "lock_tbl (acquire_record t e m k tm) = lock_tbl tm"
  by (simp add: acquire_record_def split: option.split)

lemma record_stamp_lock_tbl [simp]: "lock_tbl (snd (record_stamp t e m v tm)) = lock_tbl tm"
  by (simp add: record_stamp_def split: sum.split)

lemma conc_inv_effect:
  assumes "conc_inv c" "txn_effect (mgr c) tm'" "lock_table_inv (lock_tbl tm')"
  shows "conc_inv (c\<lparr>mgr := tm', calls := ps\<rparr>)"
  using assms txn_effect_None [OF assms(2)] by (force simp: conc_inv_def txn_effect_def)

lemma txn_effect_locks:
  "hm_wf (active_transactions tm) \<Longrightarrow> txn_effect tm (tm\<lparr>lock_tbl := lt\<rparr>)"
  by (simp add: txn_effect_same)

lemma conc_step_inv:
  assumes "conc_step c c'" "conc_inv c"
  shows "conc_inv c'"
proof -
  from assms(2) have wf: "hm_wf (active_transactions (mgr c))" "lock_table_inv (lock_tbl (mgr c))"
    by (auto simp: conc_inv_def)
  note eff = conc_inv_effect [OF assms(2)]
  from assms(1) show ?thesis
  proof cases
    case (step_begin t il now)
    then show ?thesis
      using assms(2) by (auto simp: conc_inv_def tm_begin_def get_transaction_state_def)
  next
    case (step_op op)
    have "lock_table_inv (lock_tbl (txn_step (mgr c) op))"
      using lock_tbl_op [OF step_op(2), of "mgr c"] wf(2) lt_release_all_inv by auto
    from eff [OF txn_effect_op [OF wf(1) step_op(2)] this, of "calls c"] show ?thesis
      by (simp add: step_op)
  next
    case (step_check t m e k)
    then show ?thesis using eff [OF txn_effect_refl [OF wf(1)] wf(2)] by simp
  next
    case (step_granted t e m k lt)
    then show ?thesis
      using eff [OF txn_effect_locks [OF wf(1)]] lt_acquire_inv [OF wf(2) step_granted(3)] by simp
  next
    case (step_refused t e m k err lt)
    then show ?thesis
      using eff [OF txn_effect_locks [OF wf(1)]] lt_acquire_inv [OF wf(2) step_refused(3)] by simp
  next
    case (step_record t e m k)
    then show ?thesis using eff [OF txn_effect_record [OF wf(1)]] wf(2) by simp
  next
    case (step_read m t e)
    then show ?thesis using eff [OF txn_effect_refl [OF wf(1)] wf(2)] by simp
  next
    case (step_stamp t e m v)
    then show ?thesis using eff [OF txn_effect_stamp [OF wf(1)]] wf(2) by simp
  qed
qed

lemma conc_steps_inv: "conc_steps c c' \<Longrightarrow> conc_inv c \<Longrightarrow> conc_inv c'"
  by (induction rule: rtranclp_induct) (auto intro: conc_step_inv)

lemma conc_inv_new [simp]: "conc_inv conc_new"
  by (simp add: conc_inv_def conc_new_def tm_new_def get_transaction_state_def)

section \<open>Completed transactions\<close>

text \<open>A completed transaction stays completed, or is purged and never seen again.\<close>

lemma conc_step_completed:
  assumes "conc_step c c'" "conc_inv c" "t \<in> set (drawn c)"
    and "get_transaction_state (mgr c) t \<in> {Some s, None}" "s \<noteq> Active"
  shows "t \<in> set (drawn c') \<and> get_transaction_state (mgr c') t \<in> {Some s, None}"
proof -
  from assms(2) have wf: "hm_wf (active_transactions (mgr c))" by (simp add: conc_inv_def)
  have eff: "get_transaction_state tm' t \<in> {Some s, None}" if "txn_effect (mgr c) tm'" for tm'
    using assms(4) txn_effect_None [OF that, of t] txn_effect_Some [OF that, of t s, OF _ assms(5)]
    by auto
  from assms(1) show ?thesis
  proof cases
    case (step_begin u il now)
    with assms(3,4) show ?thesis by (auto simp: tm_begin_def get_transaction_state_def)
  next
    case (step_op op)
    with assms(3) eff [OF txn_effect_op [OF wf step_op(2)]] show ?thesis by simp
  qed (use assms(3,4) eff [OF txn_effect_record [OF wf]]
      eff [OF txn_effect_stamp [OF wf]] eff [OF txn_effect_locks [OF wf]] in \<open>simp_all\<close>)
qed

lemma conc_steps_completed:
  assumes "conc_steps c c'" "conc_inv c" "t \<in> set (drawn c)"
    and "get_transaction_state (mgr c) t \<in> {Some s, None}" "s \<noteq> Active"
  shows "t \<in> set (drawn c') \<and> get_transaction_state (mgr c') t \<in> {Some s, None}"
  using assms(1)
proof (induction rule: rtranclp_induct)
  case base
  then show ?case using assms by simp
next
  case (step c' c'')
  then show ?case
    using conc_step_completed [OF step.hyps(2) conc_steps_inv [OF step.hyps(1) assms(2)] _ _ assms(5)]
    by blast
qed

section \<open>Locks of completed transactions\<close>

lemma acquire_keeps_exclusive:
  assumes "lock_table_inv lt" "(t, Exclusive) \<in> set (lt_holders lt e m)"
    and "lt_acquire lt u e' m' k = (r, lt')"
  shows "(t, Exclusive) \<in> set (lt_holders lt' e m)"
proof (cases r)
  case (Inl err)
  with assms(2,3) show ?thesis by (simp add: lt_holders_of holders_of_def lt_acquire_error)
next
  case (Inr v)
  with assms(3) have "lt_acquire lt u e' m' k = (Inr (), lt')" by simp
  then show ?thesis
  proof (cases rule: lt_acquire_ok)
    case (held i)
    with assms(2) show ?thesis by simp
  next
    case grant
    show ?thesis
    proof (cases "(e', m') = (e, m)")
      case True
      obtain i where i: "i \<in> set (holders_of lt (e, m))" "holder i = t" "lock_kind i = Exclusive"
        using assms(2) by (auto simp: lt_holders_of)
      have "holders_of lt (e, m) \<noteq> []" using i(1) by auto
      with holders_of_compatible [OF assms(1), of "(e, m)"] i have "holders_of lt (e, m) = [i]"
        by (auto simp: compatible_def list_all_iff length_Suc_conv)
      with grant(1) True i(3) show ?thesis by (auto split: if_splits)
    next
      case False
      with grant(2) assms(2) show ?thesis
        by (auto simp: lt_holders_of holders_of_granted)
    qed
  qed
qed

text \<open>An exclusive lock of a transaction that is not active is held for ever.\<close>

lemma conc_step_leaked:
  assumes "conc_step c c'" "conc_inv c" "\<not> is_live (mgr c) t"
    and "(t, Exclusive) \<in> set (tm_lock_holders (mgr c) e m)"
  shows "(t, Exclusive) \<in> set (tm_lock_holders (mgr c') e m)"
proof -
  from assms(2) have lt: "lock_table_inv (lock_tbl (mgr c))" by (simp add: conc_inv_def)
  note held = assms(4) [unfolded tm_lock_holders_def]
  from assms(1) show ?thesis
  proof cases
    case (step_begin u il now)
    with held show ?thesis by (simp add: tm_begin_def tm_lock_holders_def)
  next
    case (step_op op)
    have "(t, Exclusive) \<in> set (lt_holders (lt_release_all (lock_tbl (mgr c)) u) e m)" if "is_live (mgr c) u" for u
      using that held assms(3) lt by (auto simp: lt_holders_of holders_of_release_all lock_table_inv_def)
    with lock_tbl_op [OF step_op(2), of "mgr c"] held show ?thesis
      by (auto simp: step_op(1) tm_lock_holders_def)
  next
    case (step_granted u e' m' k lt')
    then show ?thesis
      using acquire_keeps_exclusive [OF lt held step_granted(3)] by (simp add: tm_lock_holders_def)
  next
    case (step_refused u e' m' k err lt')
    then show ?thesis
      using acquire_keeps_exclusive [OF lt held step_refused(3)] by (simp add: tm_lock_holders_def)
  qed (use held in \<open>simp_all add: tm_lock_holders_def\<close>)
qed

end
