(* ===== verification/Txn_Props.thy ===== *)
theory Txn_Props
  imports Txn_Concurrent
begin

text \<open>
  The properties of the transaction manager: deadlock detection, exclusion under every
  interleaving, agreement of the lock table with the transactions in sequential use, validation at
  commit, finality of completion, and the places where the code falls short of its documentation.
\<close>

section \<open>Concrete runs for the instances\<close>

definition ex_txn_ops :: "txn_op list" where
  "ex_txn_ops = [TBegin ReadCommitted 1 0, TBegin Serializable 2 0,
     TAcquire 1 ''e'' ''graph'' Exclusive, TUndo 1 ''e'' ''graph'' None 0 5, TRead 2 ''e'' ''graph'']"

lemma graph_modality [simp]: "''graph'' \<in> set modalities"
  by (simp add: modalities_def)

lemmas txn_exec = tm_begin_def put_txn_def transaction_new_def tm_acquire_lock_def acquire_check_def
  get_active_def lt_acquire_def holders_of_def hm_entry_def Let_def acquire_record_def
  tm_record_undo_def tm_record_read_def record_stamp_def vt_get_def tm_new_def lock_table_new_def
  tm_lock_holders_def lt_holders_def current_version_def get_transaction_state_def is_live_def

lemma ex_txn_run:
  "run txn_step tm_new ex_txn_ops = \<lparr>active_transactions =
     [(1, \<lparr>txn_id = 1, txn_state = Active, isolation = ReadCommitted,
        undo_log = [\<lparr>ue_entity = ''e'', ue_modality = ''graph'', previous_data = None,
          previous_version = 0, recorded_at = 5\<rparr>],
        txn_locks = [\<lparr>le_entity = ''e'', le_modality = ''graph'', le_kind = Exclusive\<rparr>],
        read_set = [], started_at = 0, completed_at = None\<rparr>),
      (2, \<lparr>txn_id = 2, txn_state = Active, isolation = Serializable, undo_log = [], txn_locks = [],
        read_set = [\<lparr>rs_entity = ''e'', rs_modality = ''graph'', version_at_read = 0\<rparr>],
        started_at = 0, completed_at = None\<rparr>)],
     lock_tbl = \<lparr>locks = [((''e'', ''graph''), [\<lparr>holder = 1, lock_kind = Exclusive\<rparr>])], wait_for = []\<rparr>,
     version_tbl = []\<rparr>"
  by (simp add: ex_txn_ops_def txn_exec)

lemma ex_txn_ok: "run_ok txn_step txn_ok tm_new ex_txn_ops"
  by (simp add: ex_txn_ops_def txn_exec)

section \<open>Deadlock detection\<close>

text \<open>
  C30: the search of the wait-for graph is exact: it ends on every graph, a path it returns runs
  along edges from the transaction back to itself, and it returns none only when the transaction
  is on no cycle.
\<close>

theorem detect_cycle_exact:
  "(\<forall>p. detect_cycle lt t = Some p \<longrightarrow>
      2 \<le> length p \<and> hd p = t \<and> last p = t \<and> is_path (wait_for lt) p)
   \<and> (detect_cycle lt t = None \<longleftrightarrow> (t, t) \<notin> (waits (wait_for lt))\<^sup>+)"
  using detect_cycle_iff [of lt t] by (auto simp: from_start_def split: option.splits)

theorem detect_cycle_exact_witness:
  "\<exists>p. detect_cycle \<lparr>locks = [], wait_for = [(1, [2, 3]), (2, [3]), (3, [1])]\<rparr> 1 = Some p
    \<and> 2 \<le> length p \<and> hd p = 1 \<and> last p = 1"
proof -
  let ?lt = "\<lparr>locks = [], wait_for = [(1, [2, 3]), (2, [3]), (3, [1])]\<rparr> :: lock_table"
  have "(1, 2) \<in> waits (wait_for ?lt)" "(2, 3) \<in> waits (wait_for ?lt)" "(3, 1) \<in> waits (wait_for ?lt)"
    by (simp_all add: waits_def waits_of_def)
  then have "(1, 1) \<in> (waits (wait_for ?lt))\<^sup>+" by (meson trancl.simps)
  then show ?thesis using detect_cycle_exact [of ?lt 1] by auto
qed

text \<open>
  two holders of a shared lock that both ask for the exclusive one are not seen as a deadlock.
  The request of the first holder does not enter the wait-for graph, so that neither the second
  request nor the first one repeated closes a cycle: both are refused as a plain conflict, each
  held up by the other.
\<close>

theorem upgrade_deadlock_undetected:
  assumes "holders_of lt (e, m) = [\<lparr>holder = t, lock_kind = Shared\<rparr>, \<lparr>holder = u, lock_kind = Shared\<rparr>]"
    and "t \<noteq> u" and "waits (wait_for lt) = {}"
  shows "lt_acquire lt t e m Exclusive = (Inl (LockConflict e m u), lt)
    \<and> (\<exists>lt'. lt_acquire lt u e m Exclusive = (Inl (LockConflict e m t), lt')
         \<and> lt_acquire lt' t e m Exclusive = (Inl (LockConflict e m u), lt'))"
proof -
  let ?lt = "lt\<lparr>wait_for := hm_entry [] u (List.insert t) (wait_for lt)\<rparr>"
  have first: "lt_acquire l t e m Exclusive = (Inl (LockConflict e m u), l)"
    if "holders_of l (e, m) = holders_of lt (e, m)" for l
    using assms(1,2) that by (simp add: lt_acquire_def)
  have "waits (wait_for ?lt) = {(u, t)}" using assms(3) by (simp add: waits_insert)
  moreover have "(u, u) \<notin> {(u, t)}\<^sup>+"
  proof
    assume "(u, u) \<in> {(u, t)}\<^sup>+"
    then show False using assms(2) by (cases rule: tranclE) auto
  qed
  ultimately have "detect_cycle ?lt u = None"
    using detect_cycle_iff [of ?lt u] by (simp del: lock_table.update_convs)
  then have "lt_acquire lt u e m Exclusive = (Inl (LockConflict e m t), ?lt)"
    using assms(1,2) by (simp add: lt_acquire_def)
  moreover have "lt_acquire ?lt t e m Exclusive = (Inl (LockConflict e m u), ?lt)"
    by (rule first) (simp add: holders_of_def)
  ultimately show ?thesis using first [of lt] by blast
qed

theorem upgrade_deadlock_undetected_witness:
  "\<exists>lt'. lt_acquire \<lparr>locks = [((''e'', ''graph''), [\<lparr>holder = 1, lock_kind = Shared\<rparr>,
       \<lparr>holder = 2, lock_kind = Shared\<rparr>])], wait_for = []\<rparr> 2 ''e'' ''graph'' Exclusive
    = (Inl (LockConflict ''e'' ''graph'' 1), lt')"
  using upgrade_deadlock_undetected [of "\<lparr>locks = [((''e'', ''graph''), [\<lparr>holder = 1, lock_kind = Shared\<rparr>,
       \<lparr>holder = 2, lock_kind = Shared\<rparr>])], wait_for = []\<rparr>" "''e''" "''graph''" 1 2]
  by (auto simp: holders_of_def waits_def waits_of_def)

section \<open>Locks\<close>

text \<open>
  C19: exclusive locks exclude, however calls interleave: in every state reachable by any
  interleaving of the phases of all operations, a key held exclusively by one transaction is held
  by no other, in no mode.
\<close>

theorem locks_exclude:
  assumes "conc_steps conc_new c"
    and "(t, Exclusive) \<in> set (tm_lock_holders (mgr c) e m)" "(u, k) \<in> set (tm_lock_holders (mgr c) e m)"
  shows "u = t \<and> k = Exclusive"
proof -
  have "lock_table_inv (lock_tbl (mgr c))"
    using conc_steps_inv [OF assms(1) conc_inv_new] by (simp add: conc_inv_def)
  then show ?thesis
    using assms(2,3) unfolding tm_lock_holders_def by (rule lock_table_inv_exclusive)
qed

definition ex_conc_begun :: conc where
  "ex_conc_begun = \<lparr>mgr = snd (tm_begin ReadCommitted 1 0 tm_new), calls = [], drawn = [1]\<rparr>"

lemma ex_conc_begun_reachable: "conc_steps conc_new ex_conc_begun"
  using step_begin [of 1 conc_new ReadCommitted 0] by (simp add: conc_new_def ex_conc_begun_def r_into_rtranclp)

lemma ex_conc_locked_reachable:
  "conc_steps conc_new (ex_conc_begun\<lparr>mgr := snd (tm_acquire_lock 1 ''e'' ''graph'' Exclusive (mgr ex_conc_begun))\<rparr>)"
proof -
  have "conc_steps ex_conc_begun
      (ex_conc_begun\<lparr>mgr := snd (tm_acquire_lock 1 ''e'' ''graph'' Exclusive (mgr ex_conc_begun))\<rparr>)"
    by (rule acquire_sequential [where lt = "\<lparr>locks = [((''e'', ''graph''),
          [\<lparr>holder = 1, lock_kind = Exclusive\<rparr>])], wait_for = []\<rparr>"])
      (simp_all add: ex_conc_begun_def txn_exec)
  with ex_conc_begun_reachable show ?thesis by (rule rtranclp_trans)
qed

theorem locks_exclude_witness:
  "(1 :: uuid) = 1 \<and> (Exclusive = Exclusive)
   \<and> (\<exists>c. conc_steps conc_new c \<and> (1, Exclusive) \<in> set (tm_lock_holders (mgr c) ''e'' ''graph''))"
proof -
  let ?c = "ex_conc_begun\<lparr>mgr := snd (tm_acquire_lock 1 ''e'' ''graph'' Exclusive (mgr ex_conc_begun))\<rparr>"
  have held: "(1, Exclusive) \<in> set (tm_lock_holders (mgr ?c) ''e'' ''graph'')"
    by (simp add: ex_conc_begun_def txn_exec)
  from locks_exclude [OF ex_conc_locked_reachable held held] ex_conc_locked_reachable held
  show ?thesis by blast
qed

text \<open>
  in sequential use the lock table and the transactions agree: after any sequence of
  operations a transaction is a holder of a key exactly when it is active and has the key in its
  lock set. So completing a transaction leaves none of its locks behind.
\<close>

theorem holders_are_active_owners:
  assumes "run_ok txn_step txn_ok tm_new ops" and "run txn_step tm_new ops = tm"
  shows "(\<exists>k. (t, k) \<in> set (tm_lock_holders tm e m)) \<longleftrightarrow>
    (\<exists>txn. get_active tm t = Inr txn \<and> (\<exists>l \<in> set (txn_locks txn). le_entity l = e \<and> le_modality l = m))"
proof -
  have "tm_inv tm" using tm.run_inv [OF tm_inv_new assms(1)] assms(2) by simp
  then have "holds_lock (lock_tbl tm) t e m \<longleftrightarrow> owns_lock tm t e m" by (simp add: tm_inv_def)
  then show ?thesis
    by (auto simp: holds_lock_def owns_lock_iff get_active_eq_Inr tm_lock_holders_def lt_holders_of image_iff)
qed

theorem holders_are_active_owners_witness:
  "\<exists>k. (1, k) \<in> set (tm_lock_holders (run txn_step tm_new ex_txn_ops) ''e'' ''graph'')"
  by (subst holders_are_active_owners [OF ex_txn_ok refl])
    (simp add: ex_txn_run get_active_def)

text \<open>
  a transaction can complete in the middle of one of its \<open>acquire_lock\<close> calls, between the check
  that it is active and the grant, and then its lock is never released: from every reachable state
  with an active transaction and a free key there is an interleaving after which the transaction
  is rolled back and holds the key, and it holds it in every state reachable from there.
\<close>

theorem lock_of_completed_transaction_leaks:
  assumes reach: "conc_steps conc_new c"
    and live: "get_active (mgr c) t = Inr txn"
    and free: "tm_lock_holders (mgr c) e m = []" and m: "m \<in> set modalities"
  shows "\<exists>c'. conc_steps c c' \<and> get_transaction_state (mgr c') t = Some RolledBack
    \<and> (\<forall>c''. conc_steps c' c'' \<longrightarrow> (t, Exclusive) \<in> set (tm_lock_holders (mgr c'') e m))"
proof -
  have inv: "conc_inv c" by (rule conc_steps_inv [OF reach conc_inv_new])
  let ?tm = "snd (tm_rollback t 0 (mgr c))"
  let ?call = "CheckedAcquire t e m Exclusive"
  let ?c1 = "c\<lparr>calls := ?call # calls c\<rparr>"
  let ?c2 = "?c1\<lparr>mgr := ?tm\<rparr>"
  have s1: "conc_step c ?c1" by (rule step_check) (use live m in \<open>simp add: acquire_check_def\<close>)
  have s2: "conc_step ?c1 ?c2"
    using step_op [of "TRollback t 0" ?c1] by simp
  have tm: "?tm = finish t txn RolledBack 0 (mgr c)" using live by (simp add: tm_rollback_def)
  have "lock_table_inv (lock_tbl (mgr c))" using inv by (simp add: conc_inv_def)
  then have "holders_of (lock_tbl ?tm) (e, m) = []"
    using free by (simp add: tm holders_of_release_all lock_table_inv_def tm_lock_holders_def lt_holders_of)
  then obtain lt where acq: "lt_acquire (lock_tbl ?tm) t e m Exclusive = (Inr (), lt)"
    and hold: "(t, Exclusive) \<in> set (lt_holders lt e m)"
    by (simp add: lt_acquire_def Let_def lt_holders_of holders_of_def)
  let ?c3 = "?c2\<lparr>mgr := ?tm\<lparr>lock_tbl := lt\<rparr>, calls := GrantedAcquire t e m Exclusive # calls c\<rparr>"
  have s3: "conc_step ?c2 ?c3" using step_granted [of t e m Exclusive ?c2 lt] acq by simp
  have steps: "conc_steps c ?c3"
    by (intro converse_rtranclp_into_rtranclp [of conc_step, OF s1]
        converse_rtranclp_into_rtranclp [of conc_step, OF s2]
        converse_rtranclp_into_rtranclp [of conc_step, OF s3] rtranclp.rtrancl_refl)
  have inv3: "conc_inv ?c3" by (rule conc_steps_inv [OF steps inv])
  have state: "get_transaction_state (mgr ?c3) t = Some RolledBack"
    by (simp add: tm get_transaction_state_def)
  have "get_transaction_state (mgr c) t = Some Active"
    using live by (simp add: get_active_eq_Inr get_transaction_state_def)
  then have drawn: "t \<in> set (drawn ?c3)" using inv by (simp add: conc_inv_def)
  have "(t, Exclusive) \<in> set (tm_lock_holders (mgr c'') e m)" if "conc_steps ?c3 c''" for c''
    using that
  proof (induction rule: rtranclp_induct)
    case base
    show ?case using hold by (simp add: tm_lock_holders_def)
  next
    case (step c' c'')
    have "get_transaction_state (mgr c') t \<in> {Some RolledBack, None}"
      using conc_steps_completed [OF step.hyps(1) inv3 drawn] state by simp
    then have "\<not> is_live (mgr c') t" by (auto simp: is_live_def)
    then show ?case
      using conc_step_leaked [OF step.hyps(2) conc_steps_inv [OF step.hyps(1) inv3]] step.IH by blast
  qed
  then show ?thesis using steps state by (intro exI [of _ ?c3] conjI allI impI)
qed

theorem lock_of_completed_transaction_leaks_witness:
  "\<exists>c'. conc_steps ex_conc_begun c' \<and> get_transaction_state (mgr c') 1 = Some RolledBack
    \<and> (\<forall>c''. conc_steps c' c'' \<longrightarrow> (1, Exclusive) \<in> set (tm_lock_holders (mgr c'') ''e'' ''graph''))"
  by (rule lock_of_completed_transaction_leaks [OF ex_conc_begun_reachable])
    (simp_all add: ex_conc_begun_def txn_exec)

text \<open>
  a shared request under an exclusive lock is granted without a change of the table, but the
  lock set of the transaction then says shared.
\<close>

theorem shared_request_downgrades_lock_set:
  assumes "get_active tm t = Inr txn" "m \<in> set modalities"
    and "tm_lock_holders tm e m = [(t, Exclusive)]"
  shows "\<exists>tm' txn'. tm_acquire_lock t e m Shared tm = (Inr (), tm')
    \<and> tm_lock_holders tm' e m = [(t, Exclusive)]
    \<and> get_active tm' t = Inr txn'
    \<and> \<lparr>le_entity = e, le_modality = m, le_kind = Shared\<rparr> \<in> set (txn_locks txn')
    \<and> \<lparr>le_entity = e, le_modality = m, le_kind = Exclusive\<rparr> \<notin> set (txn_locks txn')"
proof -
  obtain i where i: "holders_of (lock_tbl tm) (e, m) = [i]" "holder i = t" "lock_kind i = Exclusive"
    using assms(3) by (auto simp: tm_lock_holders_def lt_holders_of)
  then have "lt_acquire (lock_tbl tm) t e m Shared = (Inr (), lock_tbl tm)"
    by (simp add: lt_acquire_def)
  moreover have "map_of (active_transactions tm) t = Some txn" "txn_state txn = Active"
    using assms(1) by (simp_all add: get_active_eq_Inr)
  ultimately show ?thesis
    using assms by (simp add: tm_acquire_lock_def acquire_check_def acquire_record_def get_active_def
        tm_lock_holders_def)
qed

theorem shared_request_downgrades_lock_set_witness:
  "\<exists>tm'. tm_acquire_lock 1 ''e'' ''graph'' Shared (run txn_step tm_new ex_txn_ops) = (Inr (), tm')
    \<and> tm_lock_holders tm' ''e'' ''graph'' = [(1, Exclusive)]"
proof -
  let ?tm = "run txn_step tm_new ex_txn_ops"
  have held: "tm_lock_holders ?tm ''e'' ''graph'' = [(1, Exclusive)]"
    by (simp add: ex_txn_run tm_lock_holders_def lt_holders_def)
  obtain txn where "get_active ?tm 1 = Inr txn" by (simp add: ex_txn_run get_active_def)
  from shared_request_downgrades_lock_set [OF this graph_modality held] show ?thesis by blast
qed

section \<open>Commit and rollback\<close>



text \<open>
  rollback hands out the undo log, newest entry first, exactly once: the transaction is then
  rolled back, holds no lock and no version has changed, and a second rollback or a commit fails
  with the state it found and changes nothing.
\<close>

theorem rollback_hands_out_undo_once:
  assumes "tm_inv tm" "get_active tm t = Inr txn" "tm_rollback t now tm = (r, tm')"
  shows "r = Inr (rev (undo_log txn)) \<and> version_tbl tm' = version_tbl tm
    \<and> get_transaction_state tm' t = Some RolledBack
    \<and> (\<forall>k e m. (t, k) \<notin> set (tm_lock_holders tm' e m))
    \<and> tm_rollback t now' tm' = (Inl (InvalidState t RolledBack ''Active''), tm')
    \<and> tm_commit t now' tm' = (Inl (InvalidState t RolledBack ''Active''), tm')"
proof -
  have tm': "tm' = finish t txn RolledBack now tm" "r = Inr (rev (undo_log txn))"
    using assms(2,3) by (simp_all add: tm_rollback_def)
  have "get_active tm' t = Inl (InvalidState t RolledBack ''Active'')"
    by (simp add: tm' get_active_def)
  moreover have "lock_table_inv (lock_tbl tm)" using assms(1) by (simp add: tm_inv_def)
  ultimately show ?thesis
    by (simp add: tm' finish_state finish_holders tm_rollback_def tm_commit_def)
qed

theorem rollback_hands_out_undo_once_witness:
  "\<exists>tm'. tm_rollback 1 7 (run txn_step tm_new ex_txn_ops)
     = (Inr [\<lparr>ue_entity = ''e'', ue_modality = ''graph'', previous_data = None,
          previous_version = 0, recorded_at = 5\<rparr>], tm')"
proof -
  let ?tm = "run txn_step tm_new ex_txn_ops"
  have inv: "tm_inv ?tm" by (rule tm.run_inv [OF tm_inv_new ex_txn_ok])
  obtain x where x: "get_active ?tm 1 = Inr x" "undo_log x = [\<lparr>ue_entity = ''e'', ue_modality = ''graph'',
      previous_data = None, previous_version = 0, recorded_at = 5\<rparr>]"
    by (simp add: ex_txn_run get_active_def)
  obtain r tm' where "tm_rollback 1 7 ?tm = (r, tm')" by force
  with rollback_hands_out_undo_once [OF inv x(1) this, of 9] x(2) show ?thesis by auto
qed

text \<open>
  a commit that fails validation loses the undo log. The transaction is rolled back by the
  failing commit itself, which returns no undo entries, and the call of \<open>rollback\<close> that would
  return them fails afterwards: nothing can restore the data the transaction has overwritten.
\<close>

theorem conflict_abort_loses_undo:
  assumes "tm_commit t now tm = (Inl (VersionConflict e v v'), tm')"
  shows "get_transaction_state tm' t = Some RolledBack
    \<and> tm_rollback t now' tm' = (Inl (InvalidState t RolledBack ''Active''), tm')"
proof -
  obtain txn where "get_active tm t = Inr txn" "tm' = finish t txn RolledBack now tm"
    using assms by (auto simp: tm_commit_def get_active_def split: option.splits if_splits)
  then show ?thesis by (simp add: finish_state tm_rollback_def) (simp add: get_active_def)
qed

theorem conflict_abort_loses_undo_witness:
  "\<exists>tm'. tm_rollback 2 9 tm' = (Inl (InvalidState 2 RolledBack ''Active''), tm')
    \<and> (\<exists>ops e v v'. tm_commit 2 8 (run txn_step tm_new ops) = (Inl (VersionConflict e v v'), tm'))"
proof -
  let ?ops = "ex_txn_ops @ [TSetVersion ''e'' ''graph'' 4]"
  obtain tm' where "tm_commit 2 8 (run txn_step tm_new ?ops) = (Inl (VersionConflict ''e'' 0 4), tm')"
    by (simp add: run_append ex_txn_run tm_set_version_def vt_set_def tm_commit_def get_active_def vt_get_def)
  with conflict_abort_loses_undo [OF this, of 9] show ?thesis by blast
qed

text \<open>
  completion is final under every interleaving: a transaction that was committed or rolled
  back in a reachable state keeps that state for ever, until it is purged from memory, after which
  it is never seen again.
\<close>

theorem completion_is_final:
  assumes "conc_steps conc_new c" "conc_steps c c'"
    and "get_transaction_state (mgr c) t = Some s" "s \<noteq> Active"
  shows "get_transaction_state (mgr c') t \<in> {Some s, None}"
proof -
  have inv: "conc_inv c" by (rule conc_steps_inv [OF assms(1) conc_inv_new])
  then have "t \<in> set (drawn c)" using assms(3) by (auto simp: conc_inv_def)
  then show ?thesis using conc_steps_completed [OF assms(2) inv _ _ assms(4)] assms(3) by simp
qed

theorem completion_is_final_witness:
  "get_transaction_state (snd (tm_purge_completed (snd (tm_commit 1 5 (mgr ex_conc_begun))))) 1
     \<in> {Some Committed, None}"
proof -
  let ?c = "ex_conc_begun\<lparr>mgr := snd (tm_commit 1 5 (mgr ex_conc_begun))\<rparr>"
  have c: "conc_step ex_conc_begun ?c" using step_op [of "TCommit 1 5" ex_conc_begun] by simp
  then have reach: "conc_steps conc_new ?c" using ex_conc_begun_reachable by (rule rtranclp.rtrancl_into_rtrancl [rotated])
  have "conc_step ?c (?c\<lparr>mgr := snd (tm_purge_completed (mgr ?c))\<rparr>)" using step_op [of TPurge ?c] by simp
  from completion_is_final [OF reach r_into_rtranclp [of conc_step, OF this], of 1 Committed] show ?thesis
    by (simp add: ex_conc_begun_def txn_exec tm_commit_def)
qed

end
