(* ===== verification/Api_Txn.thy ===== *)
theory Api_Txn
  imports Prelude
begin

text \<open>
  The transaction manager of the HTTP API (\<open>verisim-api/src/transaction.rs\<close>): transactions buffer
  operations and hand them to the caller on commit. SHA-256, the hexadecimal encoder, the process
  identifier and the RFC
  3339 printer and parser of \<open>chrono\<close> are parameters, as are the readings of the clock; the write
  lock of the map makes every operation one step. A panic is \<open>None\<close>.
\<close>

section \<open>State\<close>

record api_env =
  sha256 :: "u8 list \<Rightarrow> u8 list"
  hex_encode :: "u8 list \<Rightarrow> string"
  process_id :: u32
  to_rfc3339 :: "datetime \<Rightarrow> string"
  parse_from_rfc3339 :: "string \<Rightarrow> datetime option"

datatype api_txn_state = Active | Committed | RolledBack

datatype operation_type = Create | Update | Delete

record buffered_operation =
  op_entity_id :: string
  op_type :: operation_type
  op_payload :: "u8 list"
  op_timestamp :: string

record api_txn =
  at_id :: string
  at_state :: api_txn_state
  operations :: "buffered_operation list"
  at_started_at :: string
  at_completed_at :: "string option"

record transaction_status =
  ts_id :: string
  ts_state :: api_txn_state
  operation_count :: nat
  ts_started_at :: string
  ts_completed_at :: "string option"

datatype api_txn_error =
    NotFound string
  | NotActive string
  | AlreadyCommitted string
  | AlreadyRolledBack string
  | TooManyTransactions

record transaction_config =
  max_concurrent :: nat
  timeout_seconds :: u64

definition transaction_config_default :: transaction_config where
  "transaction_config_default = \<lparr>max_concurrent = 256, timeout_seconds = 300\<rparr>"

record api_manager =
  config :: transaction_config
  transactions :: "(string \<times> api_txn) list"

definition api_manager_new :: "transaction_config \<Rightarrow> api_manager" where
  "api_manager_new cfg = \<lparr>config = cfg, transactions = []\<rparr>"

section \<open>Identifiers\<close>

text \<open>\<open>timestamp_nanos_opt\<close> is \<open>None\<close> when the nanoseconds do not fit 64 signed bits.\<close>

definition timestamp_nanos_opt :: "datetime \<Rightarrow> int option" where
  "timestamp_nanos_opt t = (if - (2 ^ 63) \<le> t \<and> t < 2 ^ 63 then Some t else None)"

definition transaction_id_new :: "api_env \<Rightarrow> datetime \<Rightarrow> string" where
  "transaction_id_new env now =
     (let nanos = (case timestamp_nanos_opt now of None \<Rightarrow> 0 | Some n \<Rightarrow> n);
          hash = sha256 env (u64_to_le (word_of_int nanos) @ u32_to_le (process_id env))
      in hex_encode env (take 16 hash))"

text \<open>\<open>Display\<close> cuts the identifier to twelve bytes, and panics on a shorter one.\<close>

definition transaction_id_display :: "string \<Rightarrow> string option" where
  "transaction_id_display i = (if length i < 12 then None else Some (''txn_'' @ take 12 i))"

section \<open>Operations\<close>

definition count_active :: "(string \<times> api_txn) list \<Rightarrow> nat" where
  "count_active txns = length (filter (\<lambda>(_, t). at_state t = Active) txns)"

definition api_begin ::
  "api_env \<Rightarrow> datetime \<Rightarrow> datetime \<Rightarrow> api_manager \<Rightarrow> (api_txn_error + string) \<times> api_manager" where
  "api_begin env now_id now m =
     (if max_concurrent (config m) \<le> count_active (transactions m) then (Inl TooManyTransactions, m)
      else let i = transaction_id_new env now_id;
               txn = \<lparr>at_id = i, at_state = Active, operations = [],
                      at_started_at = to_rfc3339 env now, at_completed_at = None\<rparr>
           in (Inr i, m\<lparr>transactions := AList.update i txn (transactions m)\<rparr>))"

text \<open>The match on the state that opens each operation on a transaction.\<close>

definition api_get_active :: "api_manager \<Rightarrow> string \<Rightarrow> api_txn_error + api_txn" where
  "api_get_active m i =
     (case map_of (transactions m) i of
        None \<Rightarrow> Inl (NotFound i)
      | Some txn \<Rightarrow>
          (case at_state txn of
             Active \<Rightarrow> Inr txn
           | Committed \<Rightarrow> Inl (AlreadyCommitted i)
           | RolledBack \<Rightarrow> Inl (AlreadyRolledBack i)))"

definition api_put :: "string \<Rightarrow> api_txn \<Rightarrow> api_manager \<Rightarrow> api_manager" where
  "api_put i txn m = m\<lparr>transactions := AList.update i txn (transactions m)\<rparr>"

definition api_buffer ::
  "string \<Rightarrow> buffered_operation \<Rightarrow> api_manager \<Rightarrow> (api_txn_error + unit) \<times> api_manager" where
  "api_buffer i op m =
     (case api_get_active m i of
        Inl err \<Rightarrow> (Inl err, m)
      | Inr txn \<Rightarrow> (Inr (), api_put i (txn\<lparr>operations := operations txn @ [op]\<rparr>) m))"

definition api_commit ::
  "api_env \<Rightarrow> string \<Rightarrow> datetime \<Rightarrow> api_manager
     \<Rightarrow> (api_txn_error + buffered_operation list) \<times> api_manager" where
  "api_commit env i now m =
     (case api_get_active m i of
        Inl err \<Rightarrow> (Inl err, m)
      | Inr txn \<Rightarrow> (Inr (operations txn),
          api_put i (txn\<lparr>at_state := Committed, at_completed_at := Some (to_rfc3339 env now)\<rparr>) m))"

definition api_rollback ::
  "api_env \<Rightarrow> string \<Rightarrow> datetime \<Rightarrow> api_manager \<Rightarrow> (api_txn_error + nat) \<times> api_manager" where
  "api_rollback env i now m =
     (case api_get_active m i of
        Inl err \<Rightarrow> (Inl err, m)
      | Inr txn \<Rightarrow> (Inr (length (operations txn)),
          api_put i (txn\<lparr>operations := [], at_state := RolledBack,
                        at_completed_at := Some (to_rfc3339 env now)\<rparr>) m))"

definition status_from :: "api_txn \<Rightarrow> transaction_status" where
  "status_from txn = \<lparr>ts_id = at_id txn, ts_state = at_state txn,
     operation_count = length (operations txn), ts_started_at = at_started_at txn,
     ts_completed_at = at_completed_at txn\<rparr>"

definition api_status :: "string \<Rightarrow> api_manager \<Rightarrow> api_txn_error + transaction_status" where
  "api_status i m =
     (case map_of (transactions m) i of None \<Rightarrow> Inl (NotFound i) | Some txn \<Rightarrow> Inr (status_from txn))"

definition api_expired :: "api_env \<Rightarrow> datetime \<Rightarrow> int \<Rightarrow> api_txn \<Rightarrow> bool" where
  "api_expired env now timeout txn =
     (if at_state txn \<noteq> Active then
        (case at_completed_at txn of
           None \<Rightarrow> False
         | Some completed \<Rightarrow>
             (case parse_from_rfc3339 env completed of None \<Rightarrow> False | Some t \<Rightarrow> timeout < now - t))
      else
        (case parse_from_rfc3339 env (at_started_at txn) of None \<Rightarrow> False | Some t \<Rightarrow> timeout < now - t))"

definition api_cleanup_expired ::
  "api_env \<Rightarrow> datetime \<Rightarrow> api_manager \<Rightarrow> (nat \<times> api_manager) option" where
  "api_cleanup_expired env now m =
     (case duration_seconds (timeout_seconds (config m)) of
        None \<Rightarrow> None
      | Some timeout \<Rightarrow>
          (let expired = map fst (filter (\<lambda>(_, txn). api_expired env now timeout txn) (transactions m))
           in Some (length expired, m\<lparr>transactions := fold AList.delete expired (transactions m)\<rparr>)))"

section \<open>Runs\<close>

datatype api_op =
    ABegin datetime datetime
  | ABuffer string buffered_operation
  | ACommit string datetime
  | ARollback string datetime
  | ACleanup datetime

fun api_step :: "api_env \<Rightarrow> api_manager \<Rightarrow> api_op \<Rightarrow> api_manager" where
  "api_step env m (ABegin n1 n2) = snd (api_begin env n1 n2 m)"
| "api_step env m (ABuffer i op) = snd (api_buffer i op m)"
| "api_step env m (ACommit i now) = snd (api_commit env i now m)"
| "api_step env m (ARollback i now) = snd (api_rollback env i now m)"
| "api_step env m (ACleanup now) = (case api_cleanup_expired env now m of None \<Rightarrow> m | Some (n, m') \<Rightarrow> m')"

text \<open>The invariant: the number of active transactions is within the limit.\<close>

definition api_inv :: "nat \<Rightarrow> api_manager \<Rightarrow> bool" where
  "api_inv mx m \<longleftrightarrow> hm_wf (transactions m) \<and> max_concurrent (config m) = mx
     \<and> count_active (transactions m) \<le> mx
     \<and> (\<forall>i txn. map_of (transactions m) i = Some txn \<longrightarrow> at_id txn = i)"

lemma count_active_update_le: "count_active (AList.update i txn ts) \<le> Suc (count_active ts)"
  by (induction ts) (auto simp: count_active_def)

lemma count_active_update:
  "map_of ts i = Some old \<Longrightarrow> at_state old = Active \<Longrightarrow> count_active (AList.update i txn ts) \<le> count_active ts"
  by (induction ts) (auto simp: count_active_def)

lemma count_active_delete: "count_active (AList.delete i ts) \<le> count_active ts"
  by (induction ts) (auto simp: count_active_def)

lemma count_active_fold_delete: "count_active (fold AList.delete is ts) \<le> count_active ts"
  by (induction "is" arbitrary: ts) (auto intro: order_trans [OF _ count_active_delete])

lemma hm_wf_fold_delete: "hm_wf m \<Longrightarrow> hm_wf (fold AList.delete ks m)"
  by (induction ks arbitrary: m) auto

lemma map_of_fold_delete_keys: "map_of (fold AList.delete ks m) k = (if k \<in> set ks then None else map_of m k)"
  by (induction ks arbitrary: m) auto

lemma api_get_active_eq_Inr:
  "api_get_active m i = Inr txn \<longleftrightarrow> map_of (transactions m) i = Some txn \<and> at_state txn = Active"
  by (auto simp: api_get_active_def split: option.splits api_txn_state.splits)

lemma api_inv_put:
  "api_inv mx m \<Longrightarrow> api_get_active m i = Inr txn \<Longrightarrow> at_id txn' = at_id txn \<Longrightarrow> api_inv mx (api_put i txn' m)"
  by (auto simp: api_inv_def api_put_def api_get_active_eq_Inr intro: order_trans [OF count_active_update])

lemma api_step_inv: "api_inv mx m \<Longrightarrow> api_inv mx (api_step env m op)"
proof (cases op)
  case (ABegin n1 n2)
  assume inv: "api_inv mx m"
  have "count_active (AList.update i txn (transactions m)) \<le> mx"
    if "count_active (transactions m) < mx" for i txn
    using that count_active_update_le [of i txn "transactions m"] by simp
  with inv show ?thesis by (auto simp: ABegin api_begin_def api_inv_def Let_def)
next
  case (ACleanup now)
  assume "api_inv mx m"
  then show ?thesis
    by (auto simp: ACleanup api_cleanup_expired_def api_inv_def Let_def hm_wf_fold_delete
        map_of_fold_delete_keys intro: order_trans [OF count_active_fold_delete] split: option.split if_splits)
qed (auto simp: api_buffer_def api_commit_def api_rollback_def split: sum.split intro: api_inv_put)

interpretation api: step_system "api_step env" "\<lambda>_ _. True" "api_inv mx"
  by unfold_locales (rule api_step_inv)

lemma api_inv_new: "api_inv (max_concurrent cfg) (api_manager_new cfg)"
  by (simp add: api_inv_def api_manager_new_def count_active_def)

text \<open>The operations of a run that concern a transaction that is open.\<close>

fun leaves_open :: "api_env \<Rightarrow> string \<Rightarrow> api_op \<Rightarrow> bool" where
  "leaves_open env i (ABegin n1 n2) \<longleftrightarrow> transaction_id_new env n1 \<noteq> i"
| "leaves_open env i (ABuffer j op) \<longleftrightarrow> True"
| "leaves_open env i (ACommit j now) \<longleftrightarrow> j \<noteq> i"
| "leaves_open env i (ARollback j now) \<longleftrightarrow> j \<noteq> i"
| "leaves_open env i (ACleanup now) \<longleftrightarrow> False"

fun buffered_for :: "string \<Rightarrow> api_op list \<Rightarrow> buffered_operation list" where
  "buffered_for i [] = []"
| "buffered_for i (ABuffer j op # ls) = (if j = i then op # buffered_for i ls else buffered_for i ls)"
| "buffered_for i (_ # ls) = buffered_for i ls"

lemma api_step_other:
  assumes "api_get_active m i = Inr txn" "leaves_open env i l"
  shows "api_get_active (api_step env m l) i = Inr (txn\<lparr>operations := operations txn @ buffered_for i [l]\<rparr>)"
proof -
  have get: "map_of (transactions m) i = Some txn" "at_state txn = Active"
    using assms(1) by (simp_all add: api_get_active_eq_Inr)
  have same: "txn\<lparr>operations := operations txn\<rparr> = txn" by simp
  have "map_of (transactions (api_step env m l)) i
      = Some (txn\<lparr>operations := operations txn @ buffered_for i [l]\<rparr>)"
    using assms(2) get
    by (cases l)
      (auto simp: assms(1) api_begin_def api_buffer_def api_commit_def api_rollback_def api_put_def
        Let_def split: sum.split)
  then show ?thesis using get(2) by (simp add: api_get_active_eq_Inr)
qed

lemma api_run_open:
  assumes "api_get_active m i = Inr txn" "list_all (leaves_open env i) ls"
  shows "api_get_active (run (api_step env) m ls) i = Inr (txn\<lparr>operations := operations txn @ buffered_for i ls\<rparr>)"
  using assms
proof (induction ls arbitrary: m txn)
  case Nil
  then show ?case by simp
next
  case (Cons l ls)
  have "buffered_for i (l # ls) = buffered_for i [l] @ buffered_for i ls" by (cases l) auto
  with Cons.IH [OF api_step_other [OF Cons.prems(1), of env l]] Cons.prems(2) show ?case by simp
qed

section \<open>Properties\<close>

text \<open>A concrete environment and operation for the instances.\<close>

definition ex_api :: api_env where
  "ex_api = \<lparr>sha256 = (\<lambda>bs. [ucast (u64_from_le (take 8 bs))]), hex_encode = map (\<lambda>b. char_of (unat b)),
     process_id = 7, to_rfc3339 = (\<lambda>t. [char_of (nat t)]),
     parse_from_rfc3339 = (\<lambda>s. if s = [] then None else Some (of_char (hd s)))\<rparr>"

definition ex_buffered :: "string \<Rightarrow> buffered_operation" where
  "ex_buffered e = \<lparr>op_entity_id = e, op_type = Create, op_payload = [123, 125], op_timestamp = ''''\<rparr>"

text \<open>
  the limit on concurrent transactions holds in every run, and \<open>begin\<close> refuses a transaction
  exactly when the limit is reached.
\<close>

theorem active_transactions_limited:
  "count_active (transactions (run (api_step env) (api_manager_new cfg) ls)) \<le> max_concurrent cfg
   \<and> (fst (api_begin env n1 n2 (run (api_step env) (api_manager_new cfg) ls)) = Inl TooManyTransactions
      \<longleftrightarrow> count_active (transactions (run (api_step env) (api_manager_new cfg) ls)) = max_concurrent cfg)"
proof -
  let ?m = "run (api_step env) (api_manager_new cfg) ls"
  have "api_inv (max_concurrent cfg) ?m"
    by (rule api.run_inv [OF api_inv_new]) simp
  then show ?thesis by (auto simp: api_inv_def api_begin_def Let_def)
qed

text \<open>
  commit hands out what was buffered: between the \<open>begin\<close> that returns an identifier and its
  commit, other transactions may begin, buffer, commit and roll back as they like; the commit
  returns exactly the operations buffered under the identifier, in order, and a second commit or
  rollback is refused.
\<close>

theorem commit_returns_buffered:
  assumes "api_begin env n1 n2 m = (Inr i, m1)" and "list_all (leaves_open env i) ls"
    and "api_commit env i now (run (api_step env) m1 ls) = (r, m2)"
  shows "r = Inr (buffered_for i ls)
    \<and> api_commit env i now' m2 = (Inl (AlreadyCommitted i), m2)
    \<and> api_rollback env i now' m2 = (Inl (AlreadyCommitted i), m2)"
proof -
  obtain txn where get: "api_get_active m1 i = Inr txn" "operations txn = []"
    using assms(1) by (auto simp: api_begin_def api_get_active_eq_Inr Let_def split: if_splits)
  from assms(3) have "r = Inr (buffered_for i ls)" "\<exists>txn'. map_of (transactions m2) i = Some txn' \<and> at_state txn' = Committed"
    by (auto simp: api_commit_def api_run_open [OF get(1) assms(2)] get(2) api_put_def)
  then show ?thesis by (auto simp: api_commit_def api_rollback_def api_get_active_def)
qed

theorem commit_returns_buffered_witness:
  "\<exists>i m1 m2. api_begin ex_api 5 6 (api_manager_new transaction_config_default) = (Inr i, m1)
    \<and> api_commit ex_api i 9 (run (api_step ex_api) m1
        [ABuffer i (ex_buffered ''a''), ABegin 8 8, ABuffer ''other'' (ex_buffered ''b''),
         ABuffer i (ex_buffered ''c'')]) = (Inr [ex_buffered ''a'', ex_buffered ''c''], m2)"
proof -
  let ?i = "transaction_id_new ex_api 5"
  let ?ls = "[ABuffer ?i (ex_buffered ''a''), ABegin 8 8, ABuffer ''other'' (ex_buffered ''b''),
         ABuffer ?i (ex_buffered ''c'')]"
  obtain m1 where b: "api_begin ex_api 5 6 (api_manager_new transaction_config_default) = (Inr ?i, m1)"
    by (simp add: api_begin_def api_manager_new_def transaction_config_default_def count_active_def Let_def)
  have ne: "transaction_id_new ex_api 8 \<noteq> ?i" "?i \<noteq> ''other''"
    by (simp_all add: transaction_id_new_def ex_api_def timestamp_nanos_opt_def Let_def)
  obtain r m2 where c: "api_commit ex_api ?i 9 (run (api_step ex_api) m1 ?ls) = (r, m2)" by force
  have "list_all (leaves_open ex_api ?i) ?ls" using ne by simp
  from commit_returns_buffered [OF b this c, of 10] have "r = Inr (buffered_for ?i ?ls)" by blast
  then have "r = Inr [ex_buffered ''a'', ex_buffered ''c'']" using ne by simp
  with b c show ?thesis by blast
qed

text \<open>
  two transactions that begin in the same tick of the clock share one identifier: the second
  \<open>begin\<close> replaces the first transaction, whose buffered operations are lost, so that a commit
  under the identifier returns none of them.
\<close>

theorem begin_collision_discards_buffer:
  assumes "api_get_active m i = Inr txn" "i = transaction_id_new env n1"
    and "count_active (transactions m) < max_concurrent (config m)"
  shows "\<exists>m' m''. api_begin env n1 n2 m = (Inr i, m') \<and> api_commit env i now m' = (Inr [], m'')"
  using assms by (simp add: api_begin_def api_commit_def api_get_active_def Let_def)

theorem begin_collision_discards_buffer_witness:
  "\<exists>m i m' m''. api_commit ex_api i 9 m = (Inr [ex_buffered ''a''], snd (api_commit ex_api i 9 m))
    \<and> api_begin ex_api 5 6 m = (Inr i, m') \<and> api_commit ex_api i 9 m' = (Inr [], m'')"
proof -
  let ?i = "transaction_id_new ex_api 5"
  let ?txn = "\<lparr>at_id = ?i, at_state = Active, operations = [ex_buffered ''a''], at_started_at = '''',
    at_completed_at = None\<rparr>"
  let ?m = "\<lparr>config = transaction_config_default, transactions = [(?i, ?txn)]\<rparr>"
  have get: "api_get_active ?m ?i = Inr ?txn" by (simp add: api_get_active_eq_Inr)
  have "count_active (transactions ?m) < max_concurrent (config ?m)"
    by (simp add: count_active_def transaction_config_default_def)
  from begin_collision_discards_buffer [OF get refl this, of 6 9]
  have "\<exists>m' m''. api_begin ex_api 5 6 ?m = (Inr ?i, m') \<and> api_commit ex_api ?i 9 m' = (Inr [], m'')" .
  moreover have "api_commit ex_api ?i 9 ?m = (Inr [ex_buffered ''a''], snd (api_commit ex_api ?i 9 ?m))"
    by (simp add: api_commit_def get)
  ultimately show ?thesis by blast
qed

end
