(* ===== verification/Rbac.thy ===== *)
theory Rbac
  imports Prelude
begin

text \<open>
  Role-based access control of the HTTP API (\<open>verisim-api/src/rbac.rs\<close>): the policy, the audit
  log, the permission a request needs, and the check that decides. A panic is \<open>None\<close>; the clock
  is an argument. The client identity comes from \<open>verisim-api/src/auth.rs\<close>.
\<close>

section \<open>Identities, permissions, policy\<close>

datatype client_role = Reader | Writer | AdminRole

record client_identity =
  client_ident :: string
  client_role_of :: client_role

datatype permission = Read | Write | Admin | Execute

definition permission_name :: "permission \<Rightarrow> string" where
  "permission_name p = (case p of
     Read \<Rightarrow> ''read'' | Write \<Rightarrow> ''write'' | Admin \<Rightarrow> ''admin'' | Execute \<Rightarrow> ''execute'')"

record role_definition =
  role_name :: string
  global_permissions :: "permission list"
  modality_permissions :: "(string \<times> permission list) list"

definition has_global_permission :: "role_definition \<Rightarrow> permission \<Rightarrow> bool" where
  "has_global_permission r p \<longleftrightarrow> p \<in> set (global_permissions r)"

definition has_modality_permission :: "role_definition \<Rightarrow> string \<Rightarrow> permission \<Rightarrow> bool" where
  "has_modality_permission r m p =
     (if has_global_permission r p then True
      else case map_of (modality_permissions r) m of None \<Rightarrow> False | Some ps \<Rightarrow> p \<in> set ps)"

record rbac_policy =
  roles :: "(string \<times> role_definition) list"
  entity_acls :: "(string \<times> (string \<times> permission list) list) list"

definition rbac_policy_new :: rbac_policy where
  "rbac_policy_new = \<lparr>roles = [], entity_acls = []\<rparr>"

definition rbac_policy_default :: rbac_policy where
  "rbac_policy_default =
     (let rs = AList.update ''reader'' \<lparr>role_name = ''reader'',
                 global_permissions = [Read, Execute], modality_permissions = []\<rparr> [];
          rs = AList.update ''writer'' \<lparr>role_name = ''writer'',
                 global_permissions = [Read, Write, Execute], modality_permissions = []\<rparr> rs;
          rs = AList.update ''admin'' \<lparr>role_name = ''admin'',
                 global_permissions = [Read, Write, Admin, Execute], modality_permissions = []\<rparr> rs
      in \<lparr>roles = rs, entity_acls = []\<rparr>)"

definition role_key :: "client_role \<Rightarrow> string" where
  "role_key r = (case r of Reader \<Rightarrow> ''reader'' | Writer \<Rightarrow> ''writer'' | AdminRole \<Rightarrow> ''admin'')"

definition role_for :: "rbac_policy \<Rightarrow> client_role \<Rightarrow> role_definition option" where
  "role_for pol r = map_of (roles pol) (role_key r)"

definition set_role :: "role_definition \<Rightarrow> rbac_policy \<Rightarrow> rbac_policy" where
  "set_role r pol = pol\<lparr>roles := AList.update (role_name r) r (roles pol)\<rparr>"

definition add_entity_acl :: "string \<Rightarrow> string \<Rightarrow> permission list \<Rightarrow> rbac_policy \<Rightarrow> rbac_policy" where
  "add_entity_acl e c ps pol =
     pol\<lparr>entity_acls := hm_entry [] e (\<lambda>acls. acls @ [(c, ps)]) (entity_acls pol)\<rparr>"

definition check_entity_acl :: "rbac_policy \<Rightarrow> string \<Rightarrow> string \<Rightarrow> permission \<Rightarrow> bool" where
  "check_entity_acl pol e c p =
     (case map_of (entity_acls pol) e of
        None \<Rightarrow> False
      | Some acls \<Rightarrow> list_ex (\<lambda>(cid, ps). cid = c \<and> p \<in> set ps) acls)"

section \<open>Audit log\<close>

datatype access_decision = Allowed | Denied

datatype http_method = GET | HEAD | OPTIONS | POST | PUT | PATCH | DELETE | ExtensionMethod string

definition method_name :: "http_method \<Rightarrow> string" where
  "method_name m = (case m of GET \<Rightarrow> ''GET'' | HEAD \<Rightarrow> ''HEAD'' | OPTIONS \<Rightarrow> ''OPTIONS'' | POST \<Rightarrow> ''POST''
     | PUT \<Rightarrow> ''PUT'' | PATCH \<Rightarrow> ''PATCH'' | DELETE \<Rightarrow> ''DELETE'' | ExtensionMethod s \<Rightarrow> s)"

record audit_entry =
  ae_timestamp :: u64
  ae_client_id :: string
  ae_client_role :: string
  ae_resource_path :: string
  ae_method :: string
  ae_required_permission :: permission
  ae_decision :: access_decision
  ae_reason :: "string option"

record audit_log =
  audit_entries :: "audit_entry list"
  max_entries :: nat

definition audit_log_new :: "nat \<Rightarrow> audit_log" where
  "audit_log_new n = \<lparr>audit_entries = [], max_entries = n\<rparr>"

text \<open>\<open>remove(0)\<close> panics on an empty vector, which a capacity of zero makes it meet.\<close>

definition audit_record :: "audit_entry \<Rightarrow> audit_log \<Rightarrow> audit_log option" where
  "audit_record e l =
     (if max_entries l \<le> length (audit_entries l) then
        (case audit_entries l of
           [] \<Rightarrow> None
         | _ # rest \<Rightarrow> Some (l\<lparr>audit_entries := rest @ [e]\<rparr>))
      else Some (l\<lparr>audit_entries := audit_entries l @ [e]\<rparr>))"

definition audit_len :: "audit_log \<Rightarrow> nat" where
  "audit_len l = length (audit_entries l)"

definition audit_is_empty :: "audit_log \<Rightarrow> bool" where
  "audit_is_empty l \<longleftrightarrow> audit_len l = 0"

definition audit_clear :: "audit_log \<Rightarrow> audit_log" where
  "audit_clear l = l\<lparr>audit_entries := []\<rparr>"

record rbac_state =
  policy :: rbac_policy
  audit_log_of :: audit_log

definition rbac_state_new :: "rbac_policy \<Rightarrow> rbac_state" where
  "rbac_state_new pol = \<lparr>policy = pol, audit_log_of = audit_log_new 10000\<rparr>"

definition rbac_state_default :: rbac_state where
  "rbac_state_default = rbac_state_new rbac_policy_default"

record authz_error =
  authz_message :: string
  authz_code :: nat
  authz_required :: string

section \<open>What a request needs\<close>

definition is_admin_path :: "http_method \<Rightarrow> string \<Rightarrow> bool" where
  "is_admin_path m p =
     (if starts_with p ''/normalizer/trigger'' \<and> m = POST then True
      else if starts_with p ''/planner/config'' \<and> m = PUT then True
      else False)"

definition is_execute_path :: "http_method \<Rightarrow> string \<Rightarrow> bool" where
  "is_execute_path m p =
     (if m \<noteq> POST then False
      else starts_with p ''/query/plan'' \<or> starts_with p ''/query/explain''
        \<or> starts_with p ''/queries/similar'' \<or> starts_with p ''/search/'')"

definition required_permission :: "http_method \<Rightarrow> string \<Rightarrow> permission" where
  "required_permission m p =
     (if is_admin_path m p then Admin
      else if is_execute_path m p then Execute
      else if m \<in> {GET, HEAD, OPTIONS} then Read
      else Write)"

definition modality_from_path :: "string \<Rightarrow> string option" where
  "modality_from_path p =
     (if starts_with p ''/search/vector'' then Some ''vector''
      else if starts_with p ''/search/text'' then Some ''document''
      else if starts_with p ''/search/related'' then Some ''graph''
      else if starts_with p ''/drift'' then Some ''temporal''
      else None)"

text \<open>One of the three patterns: the segment after the prefix, when it is not empty.\<close>

definition id_after :: "string \<Rightarrow> string \<Rightarrow> string option" where
  "id_after prefix p =
     (case strip_prefix p prefix of
        None \<Rightarrow> None
      | Some rest \<Rightarrow> (let i = takeWhile (\<lambda>c. c \<noteq> CHR ''/'') rest in if i \<noteq> [] then Some i else None))"

definition entity_from_path :: "string \<Rightarrow> string option" where
  "entity_from_path p =
     (case id_after ''/octads/'' p of
        Some i \<Rightarrow> Some i
      | None \<Rightarrow>
          (case id_after ''/drift/entity/'' p of
             Some i \<Rightarrow> Some i
           | None \<Rightarrow> id_after ''/normalizer/trigger/'' p))"

section \<open>The check\<close>

definition check_access ::
  "client_identity \<Rightarrow> string \<Rightarrow> http_method \<Rightarrow> u64 \<Rightarrow> rbac_state
     \<Rightarrow> ((authz_error + unit) \<times> rbac_state) option" where
  "check_access identity path m now rbac =
     (let perm = required_permission m path;
          pol = policy rbac;
          role = role_key (client_role_of identity);
          finish = (\<lambda>decision reason.
            case audit_record
                \<lparr>ae_timestamp = now, ae_client_id = client_ident identity, ae_client_role = role,
                 ae_resource_path = path, ae_method = method_name m,
                 ae_required_permission = perm, ae_decision = decision, ae_reason = Some reason\<rparr>
                (audit_log_of rbac) of
              None \<Rightarrow> None
            | Some log \<Rightarrow> Some
                (if decision = Allowed then Inr ()
                 else Inl \<lparr>authz_message = reason, authz_code = 403, authz_required = permission_name perm\<rparr>,
                 rbac\<lparr>audit_log_of := log\<rparr>))
      in if (case entity_from_path path of
               None \<Rightarrow> False
             | Some e \<Rightarrow> check_entity_acl pol e (client_ident identity) perm)
         then finish Allowed ''entity ACL grant''
         else case role_for pol (client_role_of identity) of
           None \<Rightarrow> finish Denied (''No role definition found for '' @ [CHR 0x27] @ role @ [CHR 0x27])
         | Some rd \<Rightarrow>
             (let global =
                (if has_global_permission rd perm then finish Allowed ''global role grant''
                 else finish Denied (''Role '' @ [CHR 0x27] @ role @ [CHR 0x27] @ '' does not have ''
                        @ [CHR 0x27] @ permission_name perm @ [CHR 0x27] @ '' permission''))
              in case modality_from_path path of
                   None \<Rightarrow> global
                 | Some md \<Rightarrow>
                     (if has_modality_permission rd md perm
                      then finish Allowed (''modality '' @ [CHR 0x27] @ md @ [CHR 0x27] @ '' grant'')
                      else if map_of (modality_permissions rd) md \<noteq> None
                      then finish Denied (''Role '' @ [CHR 0x27] @ role @ [CHR 0x27] @ '' lacks ''
                             @ [CHR 0x27] @ permission_name perm @ [CHR 0x27]
                             @ '' permission on modality '' @ [CHR 0x27] @ md @ [CHR 0x27])
                      else global)))"

definition check_authorization ::
  "client_identity \<Rightarrow> string \<Rightarrow> http_method \<Rightarrow> u64 \<Rightarrow> rbac_state
     \<Rightarrow> ((authz_error + unit) \<times> rbac_state) option" where
  "check_authorization identity path m now rbac = check_access identity path m now rbac"

section \<open>What the check decides\<close>

text \<open>
  The specification of the decision: a grant by an access list of the entity, or by the role of the
  client, globally or for the modality the path names. The branch of the code that refuses a
  modality the role lists is not part of it: it refuses nothing the other branches would allow.
\<close>

definition authorized :: "rbac_policy \<Rightarrow> client_identity \<Rightarrow> string \<Rightarrow> http_method \<Rightarrow> bool" where
  "authorized pol identity path m \<longleftrightarrow>
     (let perm = required_permission m path in
      (\<exists>e. entity_from_path path = Some e \<and> check_entity_acl pol e (client_ident identity) perm)
      \<or> (\<exists>rd. role_for pol (client_role_of identity) = Some rd
           \<and> (has_global_permission rd perm
              \<or> (\<exists>md ps. modality_from_path path = Some md
                   \<and> map_of (modality_permissions rd) md = Some ps \<and> perm \<in> set ps))))"

lemma audit_record_eq:
  assumes "0 < max_entries l"
  shows "audit_record e l = Some (l\<lparr>audit_entries :=
    (if max_entries l \<le> length (audit_entries l) then tl (audit_entries l) else audit_entries l) @ [e]\<rparr>)"
  using assms by (cases "audit_entries l") (auto simp: audit_record_def)

lemma has_modality_permission_iff:
  "has_modality_permission rd md p \<longleftrightarrow>
     has_global_permission rd p \<or> (\<exists>ps. map_of (modality_permissions rd) md = Some ps \<and> p \<in> set ps)"
  by (auto simp: has_modality_permission_def split: option.splits)

text \<open>The answer and the audit entry of a check, by the specification.\<close>

definition audited :: "client_identity \<Rightarrow> string \<Rightarrow> http_method \<Rightarrow> u64 \<Rightarrow> bool \<Rightarrow> audit_entry \<Rightarrow> bool" where
  "audited identity path m now ok e \<longleftrightarrow>
     ae_timestamp e = now \<and> ae_client_id e = client_ident identity
     \<and> ae_client_role e = role_key (client_role_of identity) \<and> ae_resource_path e = path
     \<and> ae_method e = method_name m \<and> ae_required_permission e = required_permission m path
     \<and> ae_decision e = (if ok then Allowed else Denied) \<and> ae_reason e \<noteq> None"

definition answered :: "http_method \<Rightarrow> string \<Rightarrow> bool \<Rightarrow> authz_error + unit \<Rightarrow> bool" where
  "answered m path ok r \<longleftrightarrow>
     (if ok then r = Inr ()
      else \<exists>err. r = Inl err \<and> authz_code err = 403
             \<and> authz_required err = permission_name (required_permission m path))"

lemma check_access_spec:
  assumes "0 < max_entries (audit_log_of rbac)"
  shows "\<exists>r e log. check_access identity path m now rbac = Some (r, rbac\<lparr>audit_log_of := log\<rparr>)
    \<and> audit_record e (audit_log_of rbac) = Some log
    \<and> audited identity path m now (authorized (policy rbac) identity path m) e
    \<and> answered m path (authorized (policy rbac) identity path m) r"
proof -
  note [simp] = audit_record_eq [OF assms] check_access_def Let_def audited_def answered_def
    authorized_def has_modality_permission_iff
  show ?thesis
  proof (cases "\<exists>e. entity_from_path path = Some e
      \<and> check_entity_acl (policy rbac) e (client_ident identity) (required_permission m path)")
    case True
    then show ?thesis by auto
  next
    case no_acl: False
    then have acl: "(case entity_from_path path of None \<Rightarrow> False
        | Some e \<Rightarrow> check_entity_acl (policy rbac) e (client_ident identity) (required_permission m path)) = False"
      by (auto split: option.splits)
    show ?thesis
    proof (cases "role_for (policy rbac) (client_role_of identity)")
      case None
      with no_acl acl show ?thesis by auto
    next
      case (Some rd)
      with no_acl acl show ?thesis
        by (cases "modality_from_path path") auto
    qed
  qed
qed

section \<open>Properties\<close>



text \<open>A run of checks, with all decisions it has taken.\<close>

type_synonym access_request = "client_identity \<times> string \<times> http_method \<times> u64"

type_synonym access_decided = "string \<times> string \<times> string \<times> access_decision"

fun rbac_step ::
  "rbac_state \<times> access_decided list \<Rightarrow> access_request \<Rightarrow> rbac_state \<times> access_decided list" where
  "rbac_step (rbac, all_decided) (identity, path, m, now) =
     (case check_authorization identity path m now rbac of
        None \<Rightarrow> (rbac, all_decided)
      | Some (r, rbac') \<Rightarrow> (rbac', all_decided @ [(client_ident identity, path, method_name m,
                               if r = Inr () then Allowed else Denied)]))"

definition decided_of :: "audit_entry \<Rightarrow> access_decided" where
  "decided_of e = (ae_client_id e, ae_resource_path e, ae_method e, ae_decision e)"

definition audit_inv :: "nat \<Rightarrow> rbac_state \<times> access_decided list \<Rightarrow> bool" where
  "audit_inv n s \<longleftrightarrow> 0 < n \<and> max_entries (audit_log_of (fst s)) = n
     \<and> map decided_of (audit_entries (audit_log_of (fst s))) = drop (length (snd s) - n) (snd s)"

lemma audit_step_inv:
  assumes "audit_inv n s"
  shows "audit_inv n (rbac_step s l)"
proof -
  obtain rbac ds where s: "s = (rbac, ds)" by (cases s)
  obtain identity path m now where l: "l = (identity, path, m, now)" by (cases l)
  let ?es = "audit_entries (audit_log_of rbac)"
  let ?ok = "authorized (policy rbac) identity path m"
  have n: "0 < n" "max_entries (audit_log_of rbac) = n"
    and es: "map decided_of ?es = drop (length ds - n) ds"
    using assms by (auto simp: audit_inv_def s)
  have max: "0 < max_entries (audit_log_of rbac)" using n by simp
  obtain r e log where c: "check_access identity path m now rbac = Some (r, rbac\<lparr>audit_log_of := log\<rparr>)"
    "audit_record e (audit_log_of rbac) = Some log" "audited identity path m now ?ok e"
    "answered m path ?ok r"
    using check_access_spec [OF max, of identity path m now] by blast
  have log: "log = (audit_log_of rbac)\<lparr>audit_entries := (if n \<le> length ?es then tl ?es else ?es) @ [e]\<rparr>"
    using c(2) n(2) audit_record_eq [OF max, of e] by simp
  have "decided_of e = (client_ident identity, path, method_name m, if r = Inr () then Allowed else Denied)"
    using c(3,4) by (auto simp: audited_def answered_def decided_of_def split: if_splits)
  moreover have "length ?es = min n (length ds)"
    using arg_cong [OF es, of length] by simp
  then have "map decided_of (if n \<le> length ?es then tl ?es else ?es)
      = drop (length ds + 1 - n) ds"
    using n(1) es by (auto simp: map_tl drop_Suc tl_drop Suc_diff_le)
  ultimately show ?thesis
    using n by (simp add: s l c(1) check_authorization_def audit_inv_def log)
qed

interpretation audit: step_system rbac_step "\<lambda>_ _. True" "audit_inv n"
  by unfold_locales (rule audit_step_inv)

text \<open>
  the audit log is faithful: after any number of checks it holds the decisions of the most
  recent ones, as many as its capacity, in order, and nothing else.
\<close>

theorem audit_log_keeps_last_decisions:
  assumes "0 < max_entries (audit_log_of rbac)" "audit_entries (audit_log_of rbac) = []"
    and "run rbac_step (rbac, []) ls = (rbac', ds)"
  shows "map decided_of (audit_entries (audit_log_of rbac'))
    = drop (length ds - max_entries (audit_log_of rbac)) ds"
proof -
  have "audit_inv (max_entries (audit_log_of rbac)) (rbac, [])"
    using assms(1,2) by (simp add: audit_inv_def)
  then have "audit_inv (max_entries (audit_log_of rbac)) (run rbac_step (rbac, []) ls)"
    by (rule audit.run_inv) simp
  then show ?thesis by (simp add: assms(3) audit_inv_def)
qed

definition ex_rbac :: rbac_state where
  "ex_rbac = \<lparr>policy = rbac_policy_default, audit_log_of = audit_log_new 1\<rparr>"

theorem audit_log_keeps_last_decisions_witness:
  "\<exists>rbac' ds. run rbac_step (ex_rbac, [])
      [(\<lparr>client_ident = ''c'', client_role_of = Reader\<rparr>, ''/octads'', GET, 1),
       (\<lparr>client_ident = ''d'', client_role_of = Reader\<rparr>, ''/octads'', POST, 2)] = (rbac', ds)
    \<and> map decided_of (audit_entries (audit_log_of rbac')) = drop (length ds - 1) ds"
proof -
  obtain rbac' ds where "run rbac_step (ex_rbac, [])
      [(\<lparr>client_ident = ''c'', client_role_of = Reader\<rparr>, ''/octads'', GET, 1),
       (\<lparr>client_ident = ''d'', client_role_of = Reader\<rparr>, ''/octads'', POST, 2)] = (rbac', ds)"
    by force
  with audit_log_keeps_last_decisions [OF _ _ this] show ?thesis
    by (simp add: ex_rbac_def audit_log_new_def)
qed

text \<open>
  under the default policy the role alone decides, by the permission the request needs:
  readers read and execute, writers also write, administrators do everything. The path on which
  queries are executed, \<open>POST /vcl/execute\<close>, needs \<open>write\<close> and not \<open>execute\<close>, so readers are
  refused there.
\<close>

theorem default_policy_by_role:
  "authorized rbac_policy_default identity path m
     = (required_permission m path \<in>
         (case client_role_of identity of
            Reader \<Rightarrow> {Read, Execute}
          | Writer \<Rightarrow> {Read, Write, Execute}
          | AdminRole \<Rightarrow> {Read, Write, Admin, Execute}))
   \<and> required_permission POST ''/vcl/execute'' = Write
   \<and> \<not> authorized rbac_policy_default \<lparr>client_ident = c, client_role_of = Reader\<rparr> ''/vcl/execute'' POST"
proof -
  have acl: "check_entity_acl rbac_policy_default e c' p = False" for e c' p
    by (simp add: check_entity_acl_def rbac_policy_default_def Let_def)
  have role: "\<exists>rd. role_for rbac_policy_default r = Some rd \<and> modality_permissions rd = []
      \<and> set (global_permissions rd) = (case r of Reader \<Rightarrow> {Read, Execute}
          | Writer \<Rightarrow> {Read, Write, Execute} | AdminRole \<Rightarrow> {Read, Write, Admin, Execute})" for r
    by (cases r) (auto simp: role_for_def role_key_def rbac_policy_default_def Let_def)
  have auth: "authorized rbac_policy_default i p mt \<longleftrightarrow> required_permission mt p \<in>
      (case client_role_of i of Reader \<Rightarrow> {Read, Execute}
          | Writer \<Rightarrow> {Read, Write, Execute} | AdminRole \<Rightarrow> {Read, Write, Admin, Execute})" for i p mt
  proof -
    obtain rd where "role_for rbac_policy_default (client_role_of i) = Some rd"
      "modality_permissions rd = []" and set: "set (global_permissions rd) = (case client_role_of i of
         Reader \<Rightarrow> {Read, Execute} | Writer \<Rightarrow> {Read, Write, Execute}
       | AdminRole \<Rightarrow> {Read, Write, Admin, Execute})"
      using role by metis
    then have "authorized rbac_policy_default i p mt
        \<longleftrightarrow> required_permission mt p \<in> set (global_permissions rd)"
      by (simp add: authorized_def acl has_global_permission_def Let_def)
    then show ?thesis by (simp only: set)
  qed
  have "required_permission POST ''/vcl/execute'' = Write"
    by (simp add: required_permission_def is_admin_path_def is_execute_path_def starts_with_def)
  then show ?thesis by (simp add: auth)
qed

end
