(* ===== verification/Auth.thy ===== *)
theory Auth
  imports Rbac
begin

text \<open>
  Authentication and rate limiting of the HTTP API (\<open>verisim-api/src/auth.rs\<close>): the registry of API
  keys, the sliding-window rate limiter, the base64url decoder, HMAC, the JWT check and the
  middleware that puts them in front of every route. SHA-256, the hexadecimal encoder and the JSON
  parser are parameters; clocks are arguments.
\<close>

unbundle bit_operations_syntax

section \<open>Parameters and configuration\<close>

text \<open>What the code reads of the parsed claims: \<open>exp\<close> as an \<open>i64\<close>, \<open>sub\<close> and \<open>role\<close> as strings.\<close>

record jwt_claims =
  claim_exp :: "int option"
  claim_sub :: "string option"
  claim_role :: "string option"

record auth_env =
  sha256 :: "u8 list \<Rightarrow> u8 list"
  hex_encode :: "u8 list \<Rightarrow> string"
  parse_claims :: "u8 list \<Rightarrow> jwt_claims option"

record auth_config =
  enabled :: bool
  allow_public_health :: bool
  rate_limit_per_minute :: u32
  jwt_secret :: "string option"

definition auth_config_default :: auth_config where
  "auth_config_default = \<lparr>enabled = False, allow_public_health = True, rate_limit_per_minute = 0,
     jwt_secret = None\<rparr>"

section \<open>API keys\<close>

record api_key_entry =
  key_hash :: string
  key_label :: string
  key_role :: client_role
  key_active :: bool

type_synonym key_registry = "(string \<times> api_key_entry) list"

definition hash_key :: "auth_env \<Rightarrow> string \<Rightarrow> string" where
  "hash_key env key = hex_encode env (sha256 env (str_bytes key))"

definition key_register :: "auth_env \<Rightarrow> string \<Rightarrow> string \<Rightarrow> client_role \<Rightarrow> key_registry \<Rightarrow> key_registry" where
  "key_register env key label role reg =
     (let h = hash_key env key
      in AList.update h \<lparr>key_hash = h, key_label = label, key_role = role, key_active = True\<rparr> reg)"

definition key_validate :: "auth_env \<Rightarrow> string \<Rightarrow> key_registry \<Rightarrow> api_key_entry option" where
  "key_validate env key reg =
     (case map_of reg (hash_key env key) of
        None \<Rightarrow> None
      | Some entry \<Rightarrow> if key_active entry then Some entry else None)"

definition key_revoke :: "string \<Rightarrow> key_registry \<Rightarrow> bool \<times> key_registry" where
  "key_revoke h reg =
     (case map_of reg h of
        None \<Rightarrow> (False, reg)
      | Some entry \<Rightarrow> (True, AList.update h (entry\<lparr>key_active := False\<rparr>) reg))"

definition key_list :: "key_registry \<Rightarrow> api_key_entry list" where
  "key_list reg = map snd reg"

section \<open>Rate limiter\<close>

record rate_limiter =
  windows :: "(string \<times> nat list) list"
  max_requests :: u32
  window :: nat

definition rate_limiter_new :: "u32 \<Rightarrow> rate_limiter" where
  "rate_limiter_new mx = \<lparr>windows = [], max_requests = mx, window = 60000000000\<rparr>"

text \<open>The timestamps of a client that are younger than the window.\<close>

definition recent :: "rate_limiter \<Rightarrow> string \<Rightarrow> nat \<Rightarrow> nat list" where
  "recent rl client now =
     filter (\<lambda>t. now - t < window rl)
       (case map_of (windows rl) client of None \<Rightarrow> [] | Some ts \<Rightarrow> ts)"

definition rate_check :: "string \<Rightarrow> nat \<Rightarrow> rate_limiter \<Rightarrow> bool \<times> rate_limiter" where
  "rate_check client now rl =
     (if max_requests rl = 0 then (True, rl)
      else let ts = recent rl client now in
           if max_requests rl \<le> word_of_nat (length ts)
           then (False, rl\<lparr>windows := AList.update client ts (windows rl)\<rparr>)
           else (True, rl\<lparr>windows := AList.update client (ts @ [now]) (windows rl)\<rparr>))"

definition rate_remaining :: "string \<Rightarrow> nat \<Rightarrow> rate_limiter \<Rightarrow> u32 \<times> rate_limiter" where
  "rate_remaining client now rl =
     (if max_requests rl = 0 then (- 1, rl)
      else let ts = recent rl client now;
               n = (word_of_nat (length ts) :: u32)
           in (if n \<le> max_requests rl then max_requests rl - n else 0,
               rl\<lparr>windows := AList.update client ts (windows rl)\<rparr>))"

section \<open>HMAC\<close>

definition hmac_sha256 :: "auth_env \<Rightarrow> u8 list \<Rightarrow> u8 list \<Rightarrow> u8 list" where
  "hmac_sha256 env msg key =
     (let block_size = 64;
          k = (if block_size < length key then sha256 env key else key);
          key_block = k @ replicate (block_size - length k) 0;
          ipad = map (\<lambda>b. 0x36 XOR b) key_block;
          opad = map (\<lambda>b. 0x5c XOR b) key_block;
          inner_hash = sha256 env (ipad @ msg)
      in sha256 env (opad @ inner_hash))"

section \<open>Base64\<close>

definition charset :: string where
  "charset = ''ABCDEFGHIJKLMNOPQRSTUVWXYZabcdefghijklmnopqrstuvwxyz0123456789+/''"

fun position_of :: "'a \<Rightarrow> 'a list \<Rightarrow> nat option" where
  "position_of x [] = None"
| "position_of x (y # ys) = (if y = x then Some 0 else map_option Suc (position_of x ys))"

definition char_to_val :: "char \<Rightarrow> string + u8" where
  "char_to_val c =
     (if c = CHR ''='' then Inr 0
      else case position_of c charset of
             None \<Rightarrow> Inl ''invalid base64 character''
           | Some p \<Rightarrow> Inr (word_of_nat p))"

text \<open>The loop over the chunks of four; the caller has checked the length.\<close>

fun base64_chunks :: "string \<Rightarrow> string + u8 list" where
  "base64_chunks (c0 # c1 # c2 # c3 # rest) =
     (case char_to_val c0 of Inl err \<Rightarrow> Inl err | Inr a \<Rightarrow>
     (case char_to_val c1 of Inl err \<Rightarrow> Inl err | Inr b \<Rightarrow>
     (case char_to_val c2 of Inl err \<Rightarrow> Inl err | Inr c \<Rightarrow>
     (case char_to_val c3 of Inl err \<Rightarrow> Inl err | Inr d \<Rightarrow>
     (case base64_chunks rest of Inl err \<Rightarrow> Inl err | Inr bs \<Rightarrow>
        Inr ([push_bit 2 a OR drop_bit 4 b]
             @ (if c2 \<noteq> CHR ''='' then [push_bit 4 b OR drop_bit 2 c] else [])
             @ (if c3 \<noteq> CHR ''='' then [push_bit 6 c OR d] else [])
             @ bs))))))"
| "base64_chunks _ = Inr []"

definition base64_decode :: "string \<Rightarrow> string + u8 list" where
  "base64_decode inp =
     (if length inp mod 4 \<noteq> 0 then Inl ''invalid base64 length'' else base64_chunks inp)"

definition base64url_decode :: "string \<Rightarrow> string + u8 list" where
  "base64url_decode inp =
     (let standard = map (\<lambda>c. if c = CHR ''_'' then CHR ''/'' else c) \<circ> map (\<lambda>c. if c = CHR ''-'' then CHR ''+'' else c)
      in if length inp mod 4 = 2 then base64_decode (standard (inp @ ''==''))
         else if length inp mod 4 = 3 then base64_decode (standard (inp @ ''=''))
         else if length inp mod 4 = 0 then base64_decode (standard inp)
         else Inl ''invalid base64url length'')"

text \<open>
  The encoder of the unit tests: the four six-bit groups of three bytes, a byte that is missing at
  the end being zero.
\<close>

definition sextet_0 :: "u8 \<Rightarrow> u8" where
  "sextet_0 a = drop_bit 2 a"

definition sextet_1 :: "u8 \<Rightarrow> u8 \<Rightarrow> u8" where
  "sextet_1 a b = push_bit 4 (a AND 0x03) OR drop_bit 4 b"

definition sextet_2 :: "u8 \<Rightarrow> u8 \<Rightarrow> u8" where
  "sextet_2 b c = push_bit 2 (b AND 0x0f) OR drop_bit 6 c"

definition sextet_3 :: "u8 \<Rightarrow> u8" where
  "sextet_3 c = c AND 0x3f"

fun base64_encode :: "u8 list \<Rightarrow> string" where
  "base64_encode [] = []"
| "base64_encode [a] = [charset ! unat (sextet_0 a), charset ! unat (sextet_1 a 0)]"
| "base64_encode [a, b] =
     [charset ! unat (sextet_0 a), charset ! unat (sextet_1 a b), charset ! unat (sextet_2 b 0)]"
| "base64_encode (a # b # c # rest) =
     [charset ! unat (sextet_0 a), charset ! unat (sextet_1 a b), charset ! unat (sextet_2 b c),
      charset ! unat (sextet_3 c)] @ base64_encode rest"

definition base64url_encode :: "u8 list \<Rightarrow> string" where
  "base64url_encode bs =
     map (\<lambda>c. if c = CHR ''/'' then CHR ''_'' else c)
       (map (\<lambda>c. if c = CHR ''+'' then CHR ''-'' else c) (base64_encode bs))"

section \<open>JSON web tokens\<close>

definition claims_role :: "jwt_claims \<Rightarrow> client_role" where
  "claims_role cl =
     (case claim_role cl of
        None \<Rightarrow> Reader
      | Some r \<Rightarrow> if r = ''admin'' then AdminRole else if r = ''writer'' then Writer else Reader)"

definition validate_jwt :: "auth_env \<Rightarrow> string \<Rightarrow> auth_config \<Rightarrow> int \<Rightarrow> string + client_identity" where
  "validate_jwt env token cfg now =
     (case jwt_secret cfg of
        None \<Rightarrow> Inl ''JWT authentication not configured''
      | Some secret \<Rightarrow>
          (let parts = split_on (CHR ''.'') token in
           if length parts \<noteq> 3 then Inl ''Invalid JWT format''
           else case base64url_decode (parts ! 1) of
                  Inl _ \<Rightarrow> Inl ''Invalid JWT payload encoding''
                | Inr payload_bytes \<Rightarrow>
                    (let signing_input = parts ! 0 @ ''.'' @ parts ! 1;
                         expected_sig = hmac_sha256 env (str_bytes signing_input) (str_bytes secret)
                     in case base64url_decode (parts ! 2) of
                          Inl _ \<Rightarrow> Inl ''Invalid JWT signature encoding''
                        | Inr actual_sig \<Rightarrow>
                            (if expected_sig \<noteq> actual_sig then Inl ''Invalid JWT signature''
                             else case parse_claims env payload_bytes of
                                    None \<Rightarrow> Inl ''Invalid JWT payload''
                                  | Some cl \<Rightarrow>
                                      (if (case claim_exp cl of None \<Rightarrow> False | Some e \<Rightarrow> e < now)
                                       then Inl ''JWT token expired''
                                       else Inr \<lparr>client_ident = (case claim_sub cl of None \<Rightarrow> ''unknown'' | Some s \<Rightarrow> s),
                                                 client_role_of = claims_role cl\<rparr>)))))"

section \<open>Middleware\<close>

record auth_state =
  auth_cfg :: auth_config
  registry :: key_registry
  limiter :: rate_limiter
  rbac_of :: rbac_state

definition auth_state_with_rbac :: "auth_config \<Rightarrow> rbac_state \<Rightarrow> auth_state" where
  "auth_state_with_rbac cfg rbac = \<lparr>auth_cfg = cfg, registry = [],
     limiter = rate_limiter_new (rate_limit_per_minute cfg), rbac_of = rbac\<rparr>"

definition auth_state_new :: "auth_config \<Rightarrow> auth_state" where
  "auth_state_new cfg = auth_state_with_rbac cfg rbac_state_default"

text \<open>The headers as \<open>to_str\<close> reads them, \<open>None\<close> when absent or not visible ASCII.\<close>

record http_request =
  req_path :: string
  req_method :: http_method
  x_api_key :: "string option"
  authorization :: "string option"

datatype outcome =
    RunNext
  | Unauthorized string
  | TooManyRequests u32
  | Forbidden authz_error

definition extract_identity ::
  "auth_env \<Rightarrow> http_request \<Rightarrow> auth_state \<Rightarrow> int \<Rightarrow> string + client_identity" where
  "extract_identity env req st now =
     (let no_credentials = Inl ''Authentication required. Provide X-API-Key header or Authorization: Bearer <token>''
      in case x_api_key req of
           Some api_key \<Rightarrow>
             (case key_validate env api_key (registry st) of
                Some entry \<Rightarrow> Inr \<lparr>client_ident = key_hash entry, client_role_of = key_role entry\<rparr>
              | None \<Rightarrow> Inl ''Invalid API key'')
         | None \<Rightarrow>
             (case authorization req of
                None \<Rightarrow> no_credentials
              | Some auth_header \<Rightarrow>
                  (case strip_prefix auth_header ''Bearer '' of
                     None \<Rightarrow> no_credentials
                   | Some token \<Rightarrow> validate_jwt env token (auth_cfg st) now)))"

text \<open>
  The clocks of a call: the seconds the JWT check and the audit entry read, and the two readings of
  the monotonic clock of the rate limiter.
\<close>

definition auth_middleware ::
  "auth_env \<Rightarrow> http_request \<Rightarrow> int \<Rightarrow> u64 \<Rightarrow> nat \<Rightarrow> nat \<Rightarrow> auth_state \<Rightarrow> (outcome \<times> auth_state) option" where
  "auth_middleware env req now now_secs i1 i2 st =
     (if \<not> enabled (auth_cfg st) then Some (RunNext, st)
      else if allow_public_health (auth_cfg st)
           \<and> (req_path req = ''/health'' \<or> req_path req = ''/ready'' \<or> req_path req = ''/metrics'')
      then Some (RunNext, st)
      else case extract_identity env req st now of
             Inl msg \<Rightarrow> Some (Unauthorized msg, st)
           | Inr identity \<Rightarrow>
               (let (allowed, rl) = rate_check (client_ident identity) i1 (limiter st);
                    st = st\<lparr>limiter := rl\<rparr>
                in if \<not> allowed then
                     (let (remaining, rl) = rate_remaining (client_ident identity) i2 rl
                      in Some (TooManyRequests remaining, st\<lparr>limiter := rl\<rparr>))
                   else case check_authorization identity (req_path req) (req_method req) now_secs (rbac_of st) of
                          None \<Rightarrow> None
                        | Some (r, rbac) \<Rightarrow>
                            (let st = st\<lparr>rbac_of := rbac\<rparr>
                             in case r of Inl err \<Rightarrow> Some (Forbidden err, st) | Inr _ \<Rightarrow> Some (RunNext, st))))"

section \<open>The base64 decoder inverts the encoder\<close>

lemma mask_numerals: "(0x03 :: u8) = mask 2" "(0x0f :: u8) = mask 4" "(0x3f :: u8) = mask 6"
  by (simp_all add: mask_eq_exp_minus_1)

lemma u8_eqI: "(\<And>n. n \<in> {0, 1, 2, 3, 4, 5, 6, 7} \<Longrightarrow> bit a n = bit b n) \<Longrightarrow> a = (b :: u8)"
  by (rule bit_word_eqI) (auto simp: less_Suc_eq eval_nat_numeral)

lemmas sextet_defs = sextet_0_def sextet_1_def sextet_2_def sextet_3_def mask_numerals

lemma base64_byte_1: "push_bit 2 (sextet_0 a) OR drop_bit 4 (sextet_1 a b) = a"
  unfolding sextet_defs
  by (rule u8_eqI) (auto simp: bit_simps simp flip: numeral_2_eq_2 numeral_3_eq_3)

lemma base64_byte_2: "push_bit 4 (sextet_1 a b) OR drop_bit 2 (sextet_2 b c) = b"
  unfolding sextet_defs by (rule u8_eqI) (auto simp: bit_simps)

lemma base64_byte_3: "push_bit 6 (sextet_2 b c) OR sextet_3 c = c"
  unfolding sextet_defs by (rule u8_eqI) (auto simp: bit_simps)

lemma u8_no_bit: "8 \<le> n \<Longrightarrow> \<not> bit (a :: u8) n"
  using bit_imp_le_length [of a n] by auto

lemma six_bits:
  assumes "\<not> bit w 6" "\<not> bit w 7"
  shows "unat (w :: u8) < 64"
proof -
  have "take_bit 6 w = w"
    using assms by (intro u8_eqI) (auto simp: bit_simps)
  then have "take_bit 6 (unat w) = unat w"
    by (metis unsigned_take_bit_eq)
  then show ?thesis
    using take_bit_nat_less_exp [of 6 "unat w"] by simp
qed

lemma sextet_bounds [simp]:
  "unat (sextet_0 a) < 64" "unat (sextet_1 a b) < 64" "unat (sextet_2 b c) < 64" "unat (sextet_3 c) < 64"
  unfolding sextet_defs by (rule six_bits, simp_all add: bit_simps u8_no_bit)+

lemma position_of_nth: "distinct xs \<Longrightarrow> i < length xs \<Longrightarrow> position_of (xs ! i) xs = Some i"
  by (induction xs arbitrary: i) (auto simp: nth_Cons split: nat.split)

lemma charset_facts: "length charset = 64" "distinct charset"
  "CHR ''='' \<notin> set charset" "CHR ''-'' \<notin> set charset" "CHR ''_'' \<notin> set charset"
  by (simp_all add: charset_def)

lemma charset_nth:
  assumes "unat w < 64"
  shows "char_to_val (charset ! unat w) = Inr w" and "charset ! unat w \<noteq> CHR ''=''"
    and "charset ! unat w \<in> set charset"
proof -
  show mem: "charset ! unat w \<in> set charset" using assms by (simp add: charset_facts)
  then show ne: "charset ! unat w \<noteq> CHR ''=''" using charset_facts(3) by metis
  show "char_to_val (charset ! unat w) = Inr w"
    using assms ne by (simp add: char_to_val_def position_of_nth charset_facts)
qed

definition base64_pad :: "u8 list \<Rightarrow> string" where
  "base64_pad bs = (if length bs mod 3 = 1 then ''=='' else if length bs mod 3 = 2 then ''='' else [])"

lemma char_to_val_eq [simp]: "char_to_val CHR ''='' = Inr 0"
  by (simp add: char_to_val_def)

lemma base64_chunks_encode: "base64_chunks (base64_encode bs @ base64_pad bs) = Inr bs"
proof (induction bs rule: base64_encode.induct)
  case (4 a b c rest)
  have "base64_pad (a # b # c # rest) = base64_pad rest" by (simp add: base64_pad_def)
  with 4 show ?case
    by (simp add: charset_nth base64_byte_1 base64_byte_2 base64_byte_3)
qed (use base64_byte_2 [of _ _ 0] in \<open>simp_all add: base64_pad_def charset_nth base64_byte_1\<close>)

lemma length_base64_encode: "length (base64_encode bs) mod 4
    = (if length bs mod 3 = 0 then 0 else if length bs mod 3 = 1 then 2 else 3)"
  by (induction bs rule: base64_encode.induct) auto

lemma set_base64_encode: "set (base64_encode bs) \<subseteq> set charset"
  by (induction bs rule: base64_encode.induct) (auto simp: charset_nth)

section \<open>Rate limiting over a run\<close>

text \<open>
  A run of checks by any clients at times that do not decrease; the log of the requests it has
  accepted is kept beside the limiter.
\<close>

type_synonym rate_run = "rate_limiter \<times> (string \<times> nat) list \<times> nat"

fun rate_step :: "rate_run \<Rightarrow> string \<times> nat \<Rightarrow> rate_run" where
  "rate_step (rl, acc, last_time) (client, now) =
     (let (ok, rl') = rate_check client now rl in (rl', if ok then acc @ [(client, now)] else acc, now))"

fun rate_ok :: "rate_run \<Rightarrow> string \<times> nat \<Rightarrow> bool" where
  "rate_ok (rl, acc, last_time) (client, now) \<longleftrightarrow> last_time \<le> now"

text \<open>The accepted requests of a client in the window that ends at a time.\<close>

definition in_window :: "string \<Rightarrow> nat \<Rightarrow> nat \<Rightarrow> (string \<times> nat) list \<Rightarrow> nat list" where
  "in_window client w now acc = filter (\<lambda>t. t \<le> now \<and> now - t < w) (map snd (filter (\<lambda>(c, t). c = client) acc))"

definition stamps :: "rate_limiter \<Rightarrow> string \<Rightarrow> nat list" where
  "stamps rl client = (case map_of (windows rl) client of None \<Rightarrow> [] | Some ts \<Rightarrow> ts)"

definition rate_inv :: "u32 \<Rightarrow> nat \<Rightarrow> rate_run \<Rightarrow> bool" where
  "rate_inv mx w s \<longleftrightarrow> (case s of (rl, acc, last_time) \<Rightarrow>
     mx \<noteq> 0 \<and> max_requests rl = mx \<and> window rl = w
     \<and> (\<forall>(c, t) \<in> set acc. t \<le> last_time)
     \<and> (\<forall>c. length (stamps rl c) \<le> unat mx
          \<and> (\<forall>now \<ge> last_time. filter (\<lambda>t. now - t < w) (stamps rl c) = in_window c w now acc)
          \<and> (\<forall>now. length (in_window c w now acc) \<le> unat mx)))"

lemma in_window_snoc:
  "in_window c w now (acc @ [(d, t)])
     = in_window c w now acc @ (if d = c \<and> t \<le> now \<and> now - t < w then [t] else [])"
  by (auto simp: in_window_def)

lemma rate_check_exact:
  assumes inv: "rate_inv mx w (rl, acc, last_time)" and "last_time \<le> now"
  shows "rate_check client now rl =
    (let ts = in_window client w now acc in
     if length ts = unat mx then (False, rl\<lparr>windows := AList.update client ts (windows rl)\<rparr>)
     else (True, rl\<lparr>windows := AList.update client (ts @ [now]) (windows rl)\<rparr>))"
proof -
  have mx: "max_requests rl = mx" "window rl = w" "mx \<noteq> 0" using inv by (auto simp: rate_inv_def)
  have recent: "recent rl client now = in_window client w now acc"
    using inv assms(2) by (simp add: rate_inv_def recent_def stamps_def)
  let ?n = "length (in_window client w now acc)"
  have le: "?n \<le> unat mx" using inv by (simp add: rate_inv_def)
  have "unat mx < 2 ^ LENGTH(32)" by (rule unsigned_less)
  with le have "unat (word_of_nat ?n :: u32) = ?n" by (simp add: unat_of_nat)
  then have "mx \<le> word_of_nat ?n \<longleftrightarrow> ?n = unat mx"
    using le by (auto simp: word_le_nat_alt)
  then show ?thesis by (simp add: rate_check_def mx recent Let_def)
qed

lemma filter_window_mono:
  "now \<le> (later :: nat) \<Longrightarrow> filter (\<lambda>t. later - t < w) (filter (\<lambda>t. t \<le> now \<and> now - t < w) xs)
     = filter (\<lambda>t. t \<le> now \<and> later - t < w) xs"
  by (induction xs) auto

lemma rate_step_inv:
  assumes "rate_inv mx w s" "rate_ok s l"
  shows "rate_inv mx w (rate_step s l)"
proof -
  obtain rl acc last_time where s: "s = (rl, acc, last_time)" by (cases s)
  obtain client now where l: "l = (client, now)" by (cases l)
  have inv: "rate_inv mx w (rl, acc, last_time)" and le: "last_time \<le> now"
    using assms by (simp_all add: s l)
  have acc: "\<forall>(c, t) \<in> set acc. t \<le> last_time" and mx: "max_requests rl = mx" "window rl = w" "mx \<noteq> 0"
    and len: "length (stamps rl c) \<le> unat mx" "length (in_window c w n acc) \<le> unat mx"
    and st: "last_time \<le> n \<Longrightarrow> filter (\<lambda>t. n - t < w) (stamps rl c) = in_window c w n acc" for c n
    using inv by (auto simp: rate_inv_def)
  let ?ts = "in_window client w now acc"
  define ok where "ok \<longleftrightarrow> length ?ts \<noteq> unat mx"
  define new where "new = (if ok then ?ts @ [now] else ?ts)"
  define acc' where "acc' = (if ok then acc @ [(client, now)] else acc)"
  let ?rl = "rl\<lparr>windows := AList.update client new (windows rl)\<rparr>"
  have step: "rate_step s l = (?rl, acc', now)"
    using rate_check_exact [OF inv le, of client]
    by (simp add: s l Let_def ok_def new_def acc'_def)
  have acc_now: "\<forall>(c, t) \<in> set acc. t \<le> now" using acc le by force
  have keep: "filter (\<lambda>t. n - t < w) ?ts = in_window client w n acc" if "now \<le> n" for n
  proof -
    have "filter (\<lambda>t. n - t < w) ?ts
        = filter (\<lambda>t. t \<le> now \<and> n - t < w) (map snd (filter (\<lambda>(c, t). c = client) acc))"
      unfolding in_window_def by (rule filter_window_mono [OF that])
    also have "\<dots> = in_window client w n acc"
      unfolding in_window_def by (rule filter_cong) (use acc_now that in auto)
    finally show ?thesis .
  qed
  have stamps: "stamps ?rl c = (if c = client then new else stamps rl c)" for c
    by (simp add: stamps_def)
  have win: "length (in_window c w n acc') \<le> unat mx" for c n
  proof (cases "ok \<and> client = c \<and> now \<le> n \<and> n - now < w")
    case True
    have "in_window c w n acc = filter (\<lambda>t. n - t < w) ?ts" using keep [of n] True by simp
    then have "length (in_window c w n acc) \<le> length ?ts" by simp
    moreover have "length ?ts < unat mx" using True len(2) [of client now] by (auto simp: ok_def)
    ultimately show ?thesis using True by (simp add: acc'_def in_window_snoc)
  next
    case False
    then have "in_window c w n acc' = in_window c w n acc"
      by (auto simp: acc'_def in_window_snoc)
    then show ?thesis using len(2) by simp
  qed
  have "length new \<le> unat mx"
    using len(2) [of client now] by (auto simp: new_def ok_def)
  moreover have "filter (\<lambda>t. n - t < w) new = in_window client w n acc'" if "now \<le> n" for n
    using keep [OF that] that by (auto simp: new_def acc'_def in_window_snoc)
  moreover have "in_window c w n acc' = in_window c w n acc" if "c \<noteq> client" for c n
    using that by (simp add: acc'_def in_window_snoc)
  ultimately show ?thesis
    using mx len st acc_now le win
    by (auto simp: step rate_inv_def stamps acc'_def split: if_splits)
qed

interpretation rate: step_system rate_step rate_ok "rate_inv mx w"
  by unfold_locales (rule rate_step_inv)

lemma rate_inv_new: "mx \<noteq> 0 \<Longrightarrow> rate_inv mx 60000000000 (rate_limiter_new mx, [], 0)"
  by (simp add: rate_inv_def rate_limiter_new_def stamps_def in_window_def)

section \<open>Properties\<close>

text \<open>A concrete environment for the instances: the hash sums the bytes.\<close>

definition ex_auth :: auth_env where
  "ex_auth = \<lparr>sha256 = (\<lambda>bs. [sum_list bs]), hex_encode = map (\<lambda>b. char_of (unat b)),
     parse_claims = (\<lambda>bs. Some \<lparr>claim_exp = Some 100, claim_sub = Some ''u'', claim_role = Some ''writer''\<rparr>)\<rparr>"

definition ex_auth_config :: auth_config where
  "ex_auth_config = \<lparr>enabled = True, allow_public_health = True, rate_limit_per_minute = 2,
     jwt_secret = Some ''k''\<rparr>"

definition ex_auth_state :: auth_state where
  "ex_auth_state = (auth_state_new ex_auth_config)
     \<lparr>registry := key_register ex_auth ''key'' ''label'' Reader []\<rparr>"

text \<open>
  the base64url decoder inverts the encoder on every byte string, with the padding it adds
  itself and both URL-safe characters.
\<close>

theorem base64url_roundtrip:
  "base64url_decode (base64url_encode bs) = Inr bs"
proof -
  let ?std = "map (\<lambda>c. if c = CHR ''_'' then CHR ''/'' else c) \<circ> map (\<lambda>c. if c = CHR ''-'' then CHR ''+'' else c)"
  have "set (base64_encode bs) \<inter> {CHR ''-'', CHR ''_''} = {}"
    using set_base64_encode [of bs] charset_facts(4,5) by blast
  then have std: "?std (base64url_encode bs) = base64_encode bs"
    by (simp add: base64url_encode_def) (rule map_idI, auto)
  have len: "length (base64url_encode bs) mod 4 = length (base64_encode bs) mod 4"
    by (simp add: base64url_encode_def)
  have "base64url_decode (base64url_encode bs) = base64_decode (base64_encode bs @ base64_pad bs)"
    using std by (auto simp: base64url_decode_def Let_def len length_base64_encode base64_pad_def)
  moreover have "(length (base64_encode bs) + length (base64_pad bs)) mod 4
      = (length (base64_encode bs) mod 4 + length (base64_pad bs)) mod 4"
    by (simp add: mod_add_left_eq)
  then have "length (base64_encode bs @ base64_pad bs) mod 4 = 0"
    unfolding length_append length_base64_encode by (auto simp: base64_pad_def)
  ultimately show ?thesis by (simp add: base64_decode_def base64_chunks_encode)
qed

text \<open>
  C40: the rate limiter keeps to its sliding window. Over any run of requests of any clients, no
  client has more than the configured number accepted within any sixty seconds, and a request is
  refused only when that number has been accepted in the sixty seconds before it.
\<close>

theorem rate_limit_sliding_window:
  assumes "mx \<noteq> 0" and "run_ok rate_step rate_ok (rate_limiter_new mx, [], 0) ls"
    and "run rate_step (rate_limiter_new mx, [], 0) ls = (rl, acc, last_time)"
  shows "length (in_window client 60000000000 t acc) \<le> unat mx
    \<and> (last_time \<le> now \<longrightarrow>
        (fst (rate_check client now rl) \<longleftrightarrow> length (in_window client 60000000000 now acc) < unat mx))"
proof -
  have inv: "rate_inv mx 60000000000 (rl, acc, last_time)"
    using rate.run_inv [OF rate_inv_new [OF assms(1)] assms(2)] assms(3) by simp
  then have "length (in_window c 60000000000 n acc) \<le> unat mx" for c n
    by (simp add: rate_inv_def)
  then show ?thesis
    using rate_check_exact [OF inv, of now client] by (auto simp: Let_def le_less)
qed

theorem rate_limit_sliding_window_witness:
  "\<exists>rl acc. run rate_step (rate_limiter_new 1, [], 0) [(''a'', 5), (''b'', 7), (''a'', 9)] = (rl, acc, 9)
    \<and> \<not> fst (rate_check ''a'' 10 rl)"
proof -
  have ok: "run_ok rate_step rate_ok (rate_limiter_new 1, [], 0) [(''a'', 5), (''b'', 7), (''a'', 9)]"
    by (simp add: rate_limiter_new_def rate_check_def recent_def Let_def)
  have run: "run rate_step (rate_limiter_new 1, [], 0) [(''a'', 5), (''b'', 7), (''a'', 9)]
      = (\<lparr>windows = [(''a'', [5]), (''b'', [7])], max_requests = 1, window = 60000000000\<rparr>,
         [(''a'', 5), (''b'', 7)], 9)"
    by (simp add: rate_limiter_new_def rate_check_def recent_def Let_def)
  from rate_limit_sliding_window [OF _ ok run, of "''a''" 0 10] run show ?thesis
    by (simp add: in_window_def)
qed

text \<open>The credential of a request: an active key, or a signed token that has not expired.\<close>

definition presents :: "auth_env \<Rightarrow> auth_state \<Rightarrow> http_request \<Rightarrow> int \<Rightarrow> client_identity \<Rightarrow> bool" where
  "presents env st req now identity \<longleftrightarrow>
     (\<exists>key entry. x_api_key req = Some key \<and> map_of (registry st) (hash_key env key) = Some entry
        \<and> key_active entry \<and> identity = \<lparr>client_ident = key_hash entry, client_role_of = key_role entry\<rparr>)
     \<or> (\<exists>token secret h p s payload cl. x_api_key req = None
        \<and> authorization req = Some (''Bearer '' @ token) \<and> jwt_secret (auth_cfg st) = Some secret
        \<and> split_on (CHR ''.'') token = [h, p, s]
        \<and> base64url_decode s = Inr (hmac_sha256 env (str_bytes (h @ ''.'' @ p)) (str_bytes secret))
        \<and> base64url_decode p = Inr payload \<and> parse_claims env payload = Some cl
        \<and> (\<forall>e. claim_exp cl = Some e \<longrightarrow> now \<le> e)
        \<and> client_role_of identity = claims_role cl)"

lemma validate_jwt_Inr:
  assumes "validate_jwt env token cfg now = Inr identity"
  shows "\<exists>secret h p s payload cl. jwt_secret cfg = Some secret \<and> split_on (CHR ''.'') token = [h, p, s]
    \<and> base64url_decode s = Inr (hmac_sha256 env (str_bytes (h @ ''.'' @ p)) (str_bytes secret))
    \<and> base64url_decode p = Inr payload \<and> parse_claims env payload = Some cl
    \<and> (\<forall>e. claim_exp cl = Some e \<longrightarrow> now \<le> e) \<and> client_role_of identity = claims_role cl"
proof -
  from assms obtain secret where secret: "jwt_secret cfg = Some secret"
    by (auto simp: validate_jwt_def split: option.splits)
  from assms secret have "length (split_on (CHR ''.'') token) = 3"
    by (auto simp: validate_jwt_def Let_def split: if_splits)
  then obtain h p s where parts: "split_on (CHR ''.'') token = [h, p, s]"
    by (auto simp: length_Suc_conv numeral_3_eq_3)
  with assms secret show ?thesis
    by (auto simp: validate_jwt_def Let_def split: sum.splits if_splits option.splits)
qed

lemma extract_identity_Inr:
  "extract_identity env req st now = Inr identity \<Longrightarrow> presents env st req now identity"
  using validate_jwt_Inr [of env _ "auth_cfg st" now identity]
  by (fastforce simp: extract_identity_def presents_def key_validate_def Let_def strip_prefix_eq_Some
      split: option.splits if_splits)



text \<open>Later operations on the registry.\<close>

datatype key_op = KRegister string string client_role | KRevoke string

fun key_step :: "auth_env \<Rightarrow> key_registry \<Rightarrow> key_op \<Rightarrow> key_registry" where
  "key_step env reg (KRegister k label r) = key_register env k label r reg"
| "key_step env reg (KRevoke h) = snd (key_revoke h reg)"

fun key_ok :: "auth_env \<Rightarrow> string \<Rightarrow> key_registry \<Rightarrow> key_op \<Rightarrow> bool" where
  "key_ok env h reg (KRegister k label r) \<longleftrightarrow> hash_key env k \<noteq> h"
| "key_ok env h reg (KRevoke h') \<longleftrightarrow> True"

definition key_dead :: "string \<Rightarrow> key_registry \<Rightarrow> bool" where
  "key_dead h reg \<longleftrightarrow> (\<forall>entry. map_of reg h = Some entry \<longrightarrow> \<not> key_active entry)"

interpretation keys: step_system "key_step env" "key_ok env h" "key_dead h"
proof unfold_locales
  fix reg l assume "key_dead h reg" "key_ok env h reg l"
  then show "key_dead h (key_step env reg l)"
    by (cases l) (auto simp: key_dead_def key_register_def key_revoke_def Let_def split: option.splits)
qed

text \<open>
  a revoked key stays revoked: whatever is registered and revoked afterwards, as long as no
  key with the same hash is registered again, a request with the key is answered 401, even if it
  also carries a valid token.
\<close>

theorem revoked_key_rejected:
  assumes "key_revoke (hash_key env key) reg = (found, reg')"
    and "run_ok (key_step env) (key_ok env (hash_key env key)) reg' ls"
    and "registry st = run (key_step env) reg' ls" and "x_api_key req = Some key"
    and "enabled (auth_cfg st)" and "req_path req \<notin> {''/health'', ''/ready'', ''/metrics''}"
  shows "auth_middleware env req now now_secs i1 i2 st = Some (Unauthorized ''Invalid API key'', st)"
proof -
  have "key_dead (hash_key env key) reg'"
    using assms(1) by (auto simp: key_dead_def key_revoke_def split: option.splits)
  then have "key_dead (hash_key env key) (registry st)"
    unfolding assms(3) using assms(2) by (rule keys.run_inv)
  then have "key_validate env key (registry st) = None"
    by (auto simp: key_dead_def key_validate_def split: option.splits)
  then show ?thesis
    using assms(4-6) by (simp add: auth_middleware_def extract_identity_def)
qed

theorem revoked_key_rejected_witness:
  "auth_middleware ex_auth \<lparr>req_path = ''/octads'', req_method = GET, x_api_key = Some ''key'',
      authorization = None\<rparr> 5 5 5 5
      (ex_auth_state\<lparr>registry := snd (key_revoke (hash_key ex_auth ''key'') (registry ex_auth_state))\<rparr>)
    = Some (Unauthorized ''Invalid API key'',
        ex_auth_state\<lparr>registry := snd (key_revoke (hash_key ex_auth ''key'') (registry ex_auth_state))\<rparr>)"
proof -
  obtain found reg' where "key_revoke (hash_key ex_auth ''key'') (registry ex_auth_state) = (found, reg')"
    by force
  from revoked_key_rejected [OF this, of "[]" "ex_auth_state\<lparr>registry := reg'\<rparr>"] this show ?thesis
    by (simp add: ex_auth_state_def auth_state_new_def auth_state_with_rbac_def ex_auth_config_def)
qed

end
