(* ===== verification/Provenance.thy ===== *)
theory Provenance
  imports Prelude
begin

text \<open>
  The provenance modality (\<open>verisim-provenance/src/lib.rs\<close>): records linked by hashes, the check of
  a chain, the trait \<open>ProvenanceStore\<close> as a locale, and its in-memory implementation. SHA-256, the
  hexadecimal printer and the JSON text of the fields are parameters; the clock is an argument. The
  store on disk (\<open>persistent.rs\<close>) is not modelled.
\<close>

section \<open>Records\<close>

datatype provenance_event_type =
    Created | Modified | Imported | Normalized | DriftRepaired | Deleted | Merged | Custom string

datatype provenance_error =
    NotFound string
  | ChainCorrupted string string
  | HashMismatch string nat
  | IoError string

definition event_type_name :: "provenance_event_type \<Rightarrow> string" where
  "event_type_name et = (case et of
     Created \<Rightarrow> ''created'' | Modified \<Rightarrow> ''modified'' | Imported \<Rightarrow> ''imported''
   | Normalized \<Rightarrow> ''normalized'' | DriftRepaired \<Rightarrow> ''drift_repaired'' | Deleted \<Rightarrow> ''deleted''
   | Merged \<Rightarrow> ''merged'' | Custom name \<Rightarrow> ''custom:'' @ name)"

record prov_env =
  canonical ::
    "provenance_event_type \<times> string \<times> datetime \<times> string option \<times> string \<times> string \<Rightarrow> u8 list"
  sha256 :: "u8 list \<Rightarrow> u8 list"
  hex :: "u8 list \<Rightarrow> string"

record provenance_record =
  event_type :: provenance_event_type
  actor :: string
  timestamp :: datetime
  source :: "string option"
  description :: string
  parent_hash :: string
  content_hash :: string

definition digest :: "prov_env \<Rightarrow> u8 list \<Rightarrow> string" where
  "digest env bytes = hex env (sha256 env bytes)"

definition compute_hash ::
  "prov_env \<Rightarrow> provenance_event_type \<Rightarrow> string \<Rightarrow> datetime \<Rightarrow> string option \<Rightarrow> string \<Rightarrow> string \<Rightarrow> string" where
  "compute_hash env et act ts src descr parent = digest env (canonical env (et, act, ts, src, descr, parent))"

definition record_new ::
  "prov_env \<Rightarrow> datetime \<Rightarrow> provenance_event_type \<Rightarrow> string \<Rightarrow> string option \<Rightarrow> string \<Rightarrow> string
     \<Rightarrow> provenance_record" where
  "record_new env now et act src descr parent =
     \<lparr>event_type = et, actor = act, timestamp = now, source = src, description = descr,
      parent_hash = parent, content_hash = compute_hash env et act now src descr parent\<rparr>"

definition record_verify :: "prov_env \<Rightarrow> provenance_record \<Rightarrow> bool" where
  "record_verify env r \<longleftrightarrow>
     content_hash r = compute_hash env (event_type r) (actor r) (timestamp r) (source r) (description r)
       (parent_hash r)"

section \<open>Chains\<close>

record provenance_chain =
  chain_entity :: string
  records :: "provenance_record list"

definition chain_new :: "string \<Rightarrow> provenance_chain" where
  "chain_new e = \<lparr>chain_entity = e, records = []\<rparr>"

definition chain_len :: "provenance_chain \<Rightarrow> nat" where
  "chain_len c = length (records c)"

definition chain_is_empty :: "provenance_chain \<Rightarrow> bool" where
  "chain_is_empty c \<longleftrightarrow> records c = []"

definition genesis_hash :: "prov_env \<Rightarrow> string" where
  "genesis_hash env = digest env []"

fun verify_loop ::
  "prov_env \<Rightarrow> string \<Rightarrow> nat \<Rightarrow> string \<Rightarrow> provenance_record list \<Rightarrow> provenance_error + unit" where
  "verify_loop env entity i expected_parent [] = Inr ()"
| "verify_loop env entity i expected_parent (r # rs) =
     (if parent_hash r \<noteq> expected_parent then
        Inl (ChainCorrupted entity (''Record '' @ dec_digits i @ '' parent_hash mismatch: expected ''
               @ expected_parent @ '', got '' @ parent_hash r))
      else if \<not> record_verify env r then Inl (HashMismatch entity i)
      else verify_loop env entity (Suc i) (content_hash r) rs)"

definition chain_verify :: "prov_env \<Rightarrow> provenance_chain \<Rightarrow> provenance_error + unit" where
  "chain_verify env c = verify_loop env (chain_entity c) 0 (genesis_hash env) (records c)"

definition chain_origin :: "provenance_chain \<Rightarrow> provenance_record option" where
  "chain_origin c = (case records c of [] \<Rightarrow> None | r # _ \<Rightarrow> Some r)"

definition chain_latest :: "provenance_chain \<Rightarrow> provenance_record option" where
  "chain_latest c = (if records c = [] then None else Some (last (records c)))"

definition chain_append ::
  "prov_env \<Rightarrow> datetime \<Rightarrow> provenance_event_type \<Rightarrow> string \<Rightarrow> string option \<Rightarrow> string
     \<Rightarrow> provenance_chain \<Rightarrow> provenance_chain" where
  "chain_append env now et act src descr c =
     (let parent = (case chain_latest c of None \<Rightarrow> genesis_hash env | Some r \<Rightarrow> content_hash r)
      in c\<lparr>records := records c @ [record_new env now et act src descr parent]\<rparr>)"

section \<open>The in-memory store\<close>

type_synonym prov_store = "(string \<times> provenance_chain) list"

definition record_event ::
  "prov_env \<Rightarrow> datetime \<Rightarrow> string \<Rightarrow> provenance_event_type \<Rightarrow> string \<Rightarrow> string option \<Rightarrow> string
     \<Rightarrow> prov_store \<Rightarrow> (provenance_error + provenance_record) \<times> prov_store" where
  "record_event env now e et act src descr st =
     (let chain = (case map_of st e of None \<Rightarrow> chain_new e | Some c \<Rightarrow> c);
          chain' = chain_append env now et act src descr chain
      in (Inr (last (records chain')), AList.update e chain' st))"

definition get_chain :: "prov_store \<Rightarrow> string \<Rightarrow> provenance_error + provenance_chain" where
  "get_chain st e = (case map_of st e of None \<Rightarrow> Inl (NotFound e) | Some c \<Rightarrow> Inr c)"

definition verify_chain :: "prov_env \<Rightarrow> prov_store \<Rightarrow> string \<Rightarrow> provenance_error + bool" where
  "verify_chain env st e =
     (case map_of st e of
        None \<Rightarrow> Inr False
      | Some c \<Rightarrow> (case chain_verify env c of Inl err \<Rightarrow> Inl err | Inr _ \<Rightarrow> Inr True))"

definition get_origin :: "prov_store \<Rightarrow> string \<Rightarrow> provenance_error + provenance_record option" where
  "get_origin st e = Inr (Option.bind (map_of st e) chain_origin)"

definition get_latest :: "prov_store \<Rightarrow> string \<Rightarrow> provenance_error + provenance_record option" where
  "get_latest st e = Inr (Option.bind (map_of st e) chain_latest)"

definition search_by_actor ::
  "prov_store \<Rightarrow> string \<Rightarrow> provenance_error + (string \<times> provenance_record) list" where
  "search_by_actor st a =
     Inr (concat (map (\<lambda>(e, c). map (Pair e) (filter (\<lambda>r. actor r = a) (records c))) st))"

definition delete_chain :: "string \<Rightarrow> prov_store \<Rightarrow> (provenance_error + unit) \<times> prov_store" where
  "delete_chain e st = (Inr (), AList.delete e st)"

section \<open>Valid chains\<close>

lemma verify_loop_append:
  "verify_loop env e i h (rs @ [r]) = Inr () \<longleftrightarrow>
     verify_loop env e i h rs = Inr ()
     \<and> parent_hash r = (if rs = [] then h else content_hash (last rs)) \<and> record_verify env r"
  by (induction rs arbitrary: i h) auto

lemma verify_loop_entity: "verify_loop env e i h rs = Inr () \<longleftrightarrow> verify_loop env e' j h rs = Inr ()"
  by (induction rs arbitrary: i j h) auto

lemma record_verify_new [simp]: "record_verify env (record_new env now et act src descr parent)"
  by (simp add: record_verify_def record_new_def)

lemma parent_hash_new [simp]: "parent_hash (record_new env now et act src descr parent) = parent"
  by (simp add: record_new_def)

lemma chain_verify_append:
  "chain_verify env c = Inr () \<Longrightarrow> chain_verify env (chain_append env now et act src descr c) = Inr ()"
  by (auto simp: chain_verify_def chain_append_def chain_latest_def Let_def verify_loop_append)

lemma chain_verify_new [simp]: "chain_verify env (chain_new e) = Inr ()"
  by (simp add: chain_verify_def chain_new_def)

text \<open>
  The check reports the first record that is wrong: everything before the index is a valid chain.
\<close>

lemma verify_loop_mismatch:
  "verify_loop env e i h rs = Inl (HashMismatch e' n) \<Longrightarrow>
     i \<le> n \<and> n - i < length rs \<and> \<not> record_verify env (rs ! (n - i))
     \<and> verify_loop env e i h (take (n - i) rs) = Inr ()"
proof (induction rs arbitrary: i h)
  case (Cons r rs)
  show ?case
  proof (cases "parent_hash r = h \<and> record_verify env r")
    case True
    with Cons show ?thesis by (force simp: Suc_diff_le nth_Cons' take_Cons' dest: Suc_leD)
  next
    case False
    with Cons.prems show ?thesis by (auto split: if_splits)
  qed
qed simp

text \<open>Cutting the end off a valid chain leaves a valid chain: truncation is not detected.\<close>

lemma chain_verify_truncated:
  assumes "chain_verify env c = Inr ()"
  shows "chain_verify env (c\<lparr>records := take n (records c)\<rparr>) = Inr ()"
proof -
  have "verify_loop env e i h rs = Inr () \<Longrightarrow> verify_loop env e i h (take n rs) = Inr ()" for e i h rs n
    by (induction rs arbitrary: i h n) (auto simp: take_Cons' split: if_splits)
  with assms show ?thesis by (simp add: chain_verify_def)
qed

section \<open>Tampering\<close>

text \<open>The preimages a chain hashes, and a pair of them that collide.\<close>

definition fields ::
  "provenance_record \<Rightarrow> provenance_event_type \<times> string \<times> datetime \<times> string option \<times> string \<times> string" where
  "fields r = (event_type r, actor r, timestamp r, source r, description r, parent_hash r)"

definition preimage :: "prov_env \<Rightarrow> provenance_record \<Rightarrow> u8 list" where
  "preimage env r = canonical env (fields r)"

definition collision_in :: "prov_env \<Rightarrow> u8 list set \<Rightarrow> bool" where
  "collision_in env X \<longleftrightarrow> (\<exists>x \<in> X. \<exists>y \<in> X. x \<noteq> y \<and> digest env x = digest env y)"

lemma collision_inI:
  "x \<in> X \<Longrightarrow> y \<in> X \<Longrightarrow> x \<noteq> y \<Longrightarrow> digest env x = digest env y \<Longrightarrow> collision_in env X"
  by (auto simp: collision_in_def)

lemma collision_in_mono: "collision_in env X \<Longrightarrow> X \<subseteq> Y \<Longrightarrow> collision_in env Y"
  by (auto simp: collision_in_def)

lemma record_verify_preimage: "record_verify env r \<longleftrightarrow> content_hash r = digest env (preimage env r)"
  by (simp add: record_verify_def compute_hash_def preimage_def fields_def)

lemma preimage_inject:
  assumes "inj_on (canonical env) (fields ` S)" "r \<in> S" "r' \<in> S"
    and "preimage env r = preimage env r'" "content_hash r = content_hash r'"
  shows "r = r'"
proof -
  have "fields r = fields r'"
    by (rule inj_onD [OF assms(1)]) (use assms(2-4) in \<open>simp_all add: preimage_def\<close>)
  with assms(5) show ?thesis by (cases r, cases r') (simp add: fields_def)
qed

definition head_hash :: "prov_env \<Rightarrow> provenance_record list \<Rightarrow> string" where
  "head_hash env rs = (if rs = [] then genesis_hash env else content_hash (last rs))"

lemma valid_snoc:
  "verify_loop env e 0 (genesis_hash env) (rs @ [r]) = Inr () \<longleftrightarrow>
     verify_loop env e 0 (genesis_hash env) rs = Inr () \<and> parent_hash r = head_hash env rs
     \<and> content_hash r = digest env (preimage env r)"
  by (auto simp: verify_loop_append head_hash_def record_verify_preimage)

lemma same_head_same_chain:
  assumes "inj_on (canonical env) (fields ` S)" "[] \<notin> range (canonical env)"
    and "set rs \<subseteq> S" "set rs' \<subseteq> S"
    and "verify_loop env e 0 (genesis_hash env) rs = Inr ()"
    and "verify_loop env e' 0 (genesis_hash env) rs' = Inr ()"
    and "head_hash env rs = head_hash env rs'"
    and "\<not> collision_in env (insert [] (preimage env ` (set rs \<union> set rs')))"
  shows "rs = rs'"
  using assms(3-8)
proof (induction rs arbitrary: rs' rule: rev_induct)
  case Nil
  show ?case
  proof (cases rs' rule: rev_cases)
    case (snoc ss s)
    have "content_hash s = digest env (preimage env s)"
      using Nil.prems(4) unfolding snoc valid_snoc by blast
    with Nil.prems(5) have "digest env [] = digest env (preimage env s)"
      by (simp add: snoc head_hash_def genesis_hash_def)
    moreover have "preimage env s \<noteq> []" using assms(2) by (metis preimage_def rangeI)
    ultimately have "collision_in env (insert [] (preimage env ` (set [] \<union> set rs')))"
      by (intro collision_inI [of "[]" _ "preimage env s"]) (simp_all add: snoc)
    with Nil.prems(6) show ?thesis by blast
  qed simp
next
  case (snoc r rs)
  show ?case
  proof (cases rs' rule: rev_cases)
    case Nil
    have "content_hash r = digest env (preimage env r)"
      using snoc.prems(3) unfolding valid_snoc by blast
    with snoc.prems(5) Nil have "digest env [] = digest env (preimage env r)"
      by (simp add: head_hash_def genesis_hash_def)
    moreover have "preimage env r \<noteq> []" using assms(2) by (metis preimage_def rangeI)
    ultimately have "collision_in env (insert [] (preimage env ` (set (rs @ [r]) \<union> set rs')))"
      by (intro collision_inI [of "[]" _ "preimage env r"]) simp_all
    with snoc.prems(6) show ?thesis by blast
  next
    case (snoc ss s)
    note rs' = snoc
    have v: "verify_loop env e 0 (genesis_hash env) rs = Inr ()" "parent_hash r = head_hash env rs"
      "content_hash r = digest env (preimage env r)"
      "verify_loop env e' 0 (genesis_hash env) ss = Inr ()" "parent_hash s = head_hash env ss"
      "content_hash s = digest env (preimage env s)"
      using snoc.prems(3,4) by (simp_all add: rs' valid_snoc)
    let ?X = "insert [] (preimage env ` (set (rs @ [r]) \<union> set rs'))"
    have "content_hash r = content_hash s" using snoc.prems(5) by (simp add: rs' head_hash_def)
    moreover have "preimage env r = preimage env s"
    proof -
      have "preimage env r \<in> ?X" "preimage env s \<in> ?X" by (simp_all add: rs')
      with snoc.prems(6) show ?thesis
        using collision_inI [of "preimage env r" ?X "preimage env s" env] v(3,6) \<open>content_hash r = content_hash s\<close>
        by argo
    qed
    ultimately have "r = s" 
      using snoc.prems(1,2) by (intro preimage_inject [OF assms(1)]) (simp_all add: rs')
    moreover have "\<not> collision_in env (insert [] (preimage env ` (set rs \<union> set ss)))"
    proof
      assume "collision_in env (insert [] (preimage env ` (set rs \<union> set ss)))"
      then have "collision_in env ?X" by (rule collision_in_mono) (auto simp: rs')
      with snoc.prems(6) show False by blast
    qed
    then have "rs = ss" using snoc.IH [OF _ _ v(1,4)] snoc.prems(1,2) v(2,5) \<open>r = s\<close> by (simp add: rs')
    ultimately show ?thesis by (simp add: rs')
  qed
qed

section \<open>The contract of a store\<close>

type_synonym prov_event = "provenance_event_type \<times> string \<times> string option \<times> string"

datatype prov_op = PRecord datetime string prov_event | PDelete string

text \<open>
  The trait \<open>ProvenanceStore\<close> as far as it changes the store: recording extends the chain of the
  entity, or a fresh one, deleting forgets it, and both leave the other entities alone.
\<close>

locale provenance_store =
  fixes record_ev :: "datetime \<Rightarrow> string \<Rightarrow> prov_event \<Rightarrow> 'st \<Rightarrow> (provenance_error + provenance_record) \<times> 'st"
    and chain_of :: "'st \<Rightarrow> string \<Rightarrow> provenance_error + provenance_chain"
    and delete :: "string \<Rightarrow> 'st \<Rightarrow> (provenance_error + unit) \<times> 'st"
    and extend :: "datetime \<Rightarrow> prov_event \<Rightarrow> provenance_chain \<Rightarrow> provenance_chain"
    and fresh :: "string \<Rightarrow> provenance_chain"
  assumes record_same: "chain_of (snd (record_ev now e ev st)) e
      = Inr (extend now ev (case chain_of st e of Inl _ \<Rightarrow> fresh e | Inr c \<Rightarrow> c))"
    and record_other: "d \<noteq> e \<Longrightarrow> chain_of (snd (record_ev now e ev st)) d = chain_of st d"
    and delete_same: "chain_of (snd (delete e st)) e = Inl (NotFound e)"
    and delete_other: "d \<noteq> e \<Longrightarrow> chain_of (snd (delete e st)) d = chain_of st d"
begin

fun apply_op :: "'st \<Rightarrow> prov_op \<Rightarrow> 'st" where
  "apply_op st (PRecord now e ev) = snd (record_ev now e ev st)"
| "apply_op st (PDelete e) = snd (delete e st)"

text \<open>An invariant of the chains that a fresh one has and extending keeps.\<close>

lemma chains_satisfy:
  assumes "\<And>e. P (fresh e)" "\<And>now ev c. P c \<Longrightarrow> P (extend now ev c)"
    and "\<And>e c. chain_of st e = Inr c \<Longrightarrow> P c"
  shows "chain_of (run apply_op st ops) e = Inr c \<Longrightarrow> P c"
  using assms(3)
proof (induction ops arbitrary: st)
  case (Cons op ops)
  have "P c'" if c': "chain_of (apply_op st op) d = Inr c'" for d c'
  proof (cases op)
    case (PRecord now e' ev)
    show ?thesis
    proof (cases "d = e'")
      case True
      have "P (case chain_of st e' of Inl _ \<Rightarrow> fresh e' | Inr c \<Rightarrow> c)"
        using assms(1) Cons.prems(2) by (auto split: sum.split)
      with c' show ?thesis by (auto simp: PRecord True record_same intro: assms(2))
    next
      case False
      with c' show ?thesis by (auto simp: PRecord record_other intro: Cons.prems(2))
    qed
  next
    case (PDelete e')
    with c' show ?thesis by (cases "d = e'") (auto simp: delete_same delete_other intro: Cons.prems(2))
  qed
  with Cons show ?case by simp
qed simp

text \<open>A view of the chain of an entity that extending appends to.\<close>

lemma chain_view:
  assumes "\<And>now ev c. view (extend now ev c) = view c @ [(now, ev)]" "view (fresh e) = []"
  shows "(case chain_of (run apply_op st ops) e of Inl _ \<Rightarrow> [] | Inr c \<Rightarrow> view c)
    = fold (\<lambda>op vs. case op of
        PRecord now d ev \<Rightarrow> if d = e then vs @ [(now, ev)] else vs
      | PDelete d \<Rightarrow> if d = e then [] else vs) ops (case chain_of st e of Inl _ \<Rightarrow> [] | Inr c \<Rightarrow> view c)"
proof (induction ops arbitrary: st)
  case (Cons op ops)
  show ?case
  proof (cases op)
    case (PRecord now d ev)
    then show ?thesis using Cons
      by (cases "d = e") (auto simp: record_same record_other [of e d] assms split: sum.split)
  next
    case (PDelete d)
    then show ?thesis using Cons by (cases "d = e") (auto simp: delete_same delete_other [of e d])
  qed
qed simp

end

definition chain_extend :: "prov_env \<Rightarrow> datetime \<Rightarrow> prov_event \<Rightarrow> provenance_chain \<Rightarrow> provenance_chain" where
  "chain_extend env now ev c = (case ev of (et, act, src, descr) \<Rightarrow> chain_append env now et act src descr c)"

definition record_prov_event ::
  "prov_env \<Rightarrow> datetime \<Rightarrow> string \<Rightarrow> prov_event \<Rightarrow> prov_store
     \<Rightarrow> (provenance_error + provenance_record) \<times> prov_store" where
  "record_prov_event env now e ev st = (case ev of (et, act, src, descr) \<Rightarrow> record_event env now e et act src descr st)"

interpretation in_memory: provenance_store "record_prov_event env" get_chain delete_chain "chain_extend env" chain_new
  by unfold_locales
    (auto simp: record_prov_event_def record_event_def get_chain_def delete_chain_def chain_extend_def
      Let_def split: option.splits prod.splits)

section \<open>Properties\<close>

fun prov_step :: "prov_env \<Rightarrow> prov_store \<Rightarrow> prov_op \<Rightarrow> prov_store" where
  "prov_step env st (PRecord now e (et, act, src, descr)) = snd (record_event env now e et act src descr st)"
| "prov_step env st (PDelete e) = snd (delete_chain e st)"

lemma apply_op_prov_step: "in_memory.apply_op env = prov_step env"
proof (intro ext)
  fix st op show "in_memory.apply_op env st op = prov_step env st op"
    by (cases op) (auto simp: record_prov_event_def split: prod.splits)
qed

text \<open>The events recorded for an entity since its chain was last deleted.\<close>

definition events_since :: "string \<Rightarrow> prov_op list \<Rightarrow> (datetime \<times> prov_event) list" where
  "events_since e ops = fold (\<lambda>op vs. case op of
     PRecord now d ev \<Rightarrow> if d = e then vs @ [(now, ev)] else vs
   | PDelete d \<Rightarrow> if d = e then [] else vs) ops []"

definition event_of :: "provenance_record \<Rightarrow> datetime \<times> prov_event" where
  "event_of r = (timestamp r, event_type r, actor r, source r, description r)"

lemma event_of_new: "event_of (record_new env now et act src descr parent) = (now, et, act, src, descr)"
  by (simp add: event_of_def record_new_def)

definition owned :: "prov_store \<Rightarrow> bool" where
  "owned st \<longleftrightarrow> (\<forall>d c. map_of st d = Some c \<longrightarrow> records c \<noteq> [] \<and> chain_entity c = d)"

lemma owned_step: "owned st \<Longrightarrow> owned (prov_step env st op)"
proof (cases op)
  case (PRecord now e ev)
  assume st: "owned st"
  obtain et act src descr where ev: "ev = (et, act, src, descr)" by (cases ev)
  define c where "c = (case map_of st e of None \<Rightarrow> chain_new e | Some c \<Rightarrow> c)"
  have "chain_entity c = e"
    using st by (auto simp: c_def owned_def chain_new_def split: option.split)
  then have "records (chain_append env now et act src descr c) \<noteq> []
      \<and> chain_entity (chain_append env now et act src descr c) = e"
    by (simp add: chain_append_def Let_def)
  then show ?thesis
    using st by (simp add: PRecord ev record_event_def Let_def owned_def flip: c_def)
next
  case (PDelete e)
  assume "owned st"
  then show ?thesis by (simp add: PDelete delete_chain_def owned_def)
qed

lemma prov_run_owned: "owned st \<Longrightarrow> owned (run (prov_step env) st ops)"
  by (induction ops arbitrary: st) (auto intro: owned_step)

text \<open>
  C27: a store that only records and deletes is always sound: the chain of an entity verifies, holds
  exactly the events recorded since it was last deleted, in order, and ends with the last of
  them; without events there is no chain, and verification answers false instead of an error.
\<close>

theorem provenance_store_sound:
  "(case get_chain (run (prov_step env) [] ops) e of
      Inl err \<Rightarrow> err = NotFound e \<and> events_since e ops = []
    | Inr c \<Rightarrow> map event_of (records c) = events_since e ops \<and> records c \<noteq> []
        \<and> chain_entity c = e \<and> get_latest (run (prov_step env) [] ops) e = Inr (Some (last (records c))))
   \<and> verify_chain env (run (prov_step env) [] ops) e = Inr (events_since e ops \<noteq> [])"
proof -
  let ?st = "run (prov_step env) [] ops"
  have empty: "get_chain [] d = Inl (NotFound d)" for d by (simp add: get_chain_def)
  have sat: "Q c" if "get_chain ?st d = Inr c" "\<And>d. Q (chain_new d)"
    "\<And>now ev c. Q c \<Longrightarrow> Q (chain_extend env now ev c)" for Q c d
    using in_memory.chains_satisfy [of Q env "[]" ops d c] that by (simp add: apply_op_prov_step empty)
  have valid: "chain_verify env c = Inr ()" if "get_chain ?st e = Inr c" for c
    by (rule sat [OF that]) (auto simp: chain_extend_def chain_verify_append split: prod.split)
  have view: "(case get_chain ?st e of Inl _ \<Rightarrow> [] | Inr c \<Rightarrow> map event_of (records c)) = events_since e ops"
    using in_memory.chain_view [of "\<lambda>c. map event_of (records c)" env e "[]" ops]
    by (simp add: apply_op_prov_step empty events_since_def chain_extend_def chain_append_def chain_new_def
        event_of_new Let_def split: prod.split)
  have own: "records c \<noteq> [] \<and> chain_entity c = e" if "get_chain ?st e = Inr c" for c
    using that prov_run_owned [of "[]" env ops] by (simp add: owned_def get_chain_def split: option.splits)
  show ?thesis
  proof (cases "map_of ?st e")
    case None
    with view show ?thesis by (simp add: get_chain_def verify_chain_def)
  next
    case (Some c)
    then have g: "get_chain ?st e = Inr c" by (simp add: get_chain_def)
    from Some own [OF g] valid [OF g] view show ?thesis
      by (auto simp: g verify_chain_def get_latest_def chain_latest_def)
  qed
qed


definition ex_prov :: prov_env where
  "ex_prov = \<lparr>canonical = (\<lambda>(et, act, ts, src, descr, parent). 1 # map (\<lambda>c. word_of_nat (of_char c)) act),
     sha256 = (\<lambda>bs. []), hex = (\<lambda>bs. ''00'')\<rparr>"


end
