(* ===== verification/Temporal.thy ===== *)
theory Temporal
  imports Prelude
begin

text \<open>
  The temporal modality (\<open>verisim-temporal/src/lib.rs\<close>, \<open>diff.rs\<close>): versions of entities, the diff of
  two versions, the trait \<open>TemporalStore\<close> as a locale with its two provided methods, the in-memory
  version store and the in-memory time series. The clock is an argument; no operation panics while
  it holds the lock, so \<open>LockPoisoned\<close> is never returned.
\<close>

section \<open>Versions, points, ranges\<close>

datatype temporal_error =
    NotFound string
  | VersionNotFound string u64
  | InvalidTimeRange string
  | TemporalConflict string
  | LockPoisoned

record 'a version =
  version_no :: u64
  v_timestamp :: datetime
  v_data :: 'a
  v_author :: string
  v_message :: "string option"

definition version_new :: "u64 \<Rightarrow> datetime \<Rightarrow> 'a \<Rightarrow> string \<Rightarrow> 'a version" where
  "version_new n now data author =
     \<lparr>version_no = n, v_timestamp = now, v_data = data, v_author = author, v_message = None\<rparr>"

definition with_message :: "string \<Rightarrow> 'a version \<Rightarrow> 'a version" where
  "with_message msg v = v\<lparr>v_message := Some msg\<rparr>"

record 'a time_point =
  p_time :: datetime
  p_value :: 'a
  p_labels :: "(string \<times> string) list"

definition time_point_new :: "datetime \<Rightarrow> 'a \<Rightarrow> 'a time_point" where
  "time_point_new t v = \<lparr>p_time = t, p_value = v, p_labels = []\<rparr>"

definition with_label :: "string \<Rightarrow> string \<Rightarrow> 'a time_point \<Rightarrow> 'a time_point" where
  "with_label k v p = p\<lparr>p_labels := AList.update k v (p_labels p)\<rparr>"

record time_range =
  range_start :: datetime
  range_end :: datetime

definition time_range_new :: "datetime \<Rightarrow> datetime \<Rightarrow> temporal_error + time_range" where
  "time_range_new s e =
     (if e \<le> s then Inl (InvalidTimeRange ''start must be before end'')
      else Inr \<lparr>range_start = s, range_end = e\<rparr>)"

definition time_range_last :: "datetime \<Rightarrow> int \<Rightarrow> time_range" where
  "time_range_last now duration = \<lparr>range_start = now - duration, range_end = now\<rparr>"

definition range_contains :: "time_range \<Rightarrow> datetime \<Rightarrow> bool" where
  "range_contains r t \<longleftrightarrow> range_start r \<le> t \<and> t < range_end r"

section \<open>Diffs\<close>

datatype 'a diff = NoChange 'a | Changed 'a 'a | Added 'a | Removed 'a

datatype diff_error = IncomparableValues

definition has_change :: "'a diff \<Rightarrow> bool" where
  "has_change d = (case d of NoChange _ \<Rightarrow> False | _ \<Rightarrow> True)"

definition new_value :: "'a diff \<Rightarrow> 'a option" where
  "new_value d = (case d of NoChange v \<Rightarrow> Some v | Changed old v \<Rightarrow> Some v | Added v \<Rightarrow> Some v | Removed v \<Rightarrow> None)"

definition old_value :: "'a diff \<Rightarrow> 'a option" where
  "old_value d = (case d of NoChange v \<Rightarrow> Some v | Changed v new \<Rightarrow> Some v | Added v \<Rightarrow> None | Removed v \<Rightarrow> Some v)"

definition compare_values :: "'a option \<Rightarrow> 'a option \<Rightarrow> diff_error + 'a diff" where
  "compare_values old new =
     (case (old, new) of
        (Some o', Some n) \<Rightarrow> if o' = n then Inr (NoChange o') else Inr (Changed o' n)
      | (Some o', None) \<Rightarrow> Inr (Removed o')
      | (None, Some n) \<Rightarrow> Inr (Added n)
      | (None, None) \<Rightarrow> Inl IncomparableValues)"

text \<open>The body of the provided methods \<open>diff\<close> and \<open>diff_time\<close>, over the lookup they call.\<close>

definition diff_by ::
  "(string \<Rightarrow> 'k \<Rightarrow> temporal_error + 'a version option) \<Rightarrow> string \<Rightarrow> 'k \<Rightarrow> 'k \<Rightarrow> temporal_error + 'a diff" where
  "diff_by at e k1 k2 =
     (case at e k1 of
        Inl err \<Rightarrow> Inl err
      | Inr v1 \<Rightarrow>
          (case at e k2 of
             Inl err \<Rightarrow> Inl err
           | Inr v2 \<Rightarrow>
               (case compare_values (map_option v_data v1) (map_option v_data v2) of
                  Inl _ \<Rightarrow> Inl (NotFound (''No versions to compare for entity '' @ e))
                | Inr d \<Rightarrow> Inr d)))"

section \<open>The in-memory version store\<close>

type_synonym 'a version_store = "(string \<times> (u64 \<times> 'a version) list) list"

definition versions_of :: "'a version_store \<Rightarrow> string \<Rightarrow> (u64 \<times> 'a version) list" where
  "versions_of st e = (case map_of st e of None \<Rightarrow> [] | Some vs \<Rightarrow> vs)"

definition vs_append ::
  "datetime \<Rightarrow> string \<Rightarrow> 'a \<Rightarrow> string \<Rightarrow> string option \<Rightarrow> 'a version_store
     \<Rightarrow> (temporal_error + u64) \<times> 'a version_store" where
  "vs_append now e data author message st =
     (let vs = versions_of st e;
          next_version = (if vs = [] then 1 else fst (last vs) + 1);
          v = version_new next_version now data author;
          v = (case message of None \<Rightarrow> v | Some msg \<Rightarrow> with_message msg v)
      in (Inr next_version, AList.update e (bt_insert next_version v vs) st))"

definition vs_latest :: "'a version_store \<Rightarrow> string \<Rightarrow> temporal_error + 'a version option" where
  "vs_latest st e =
     Inr (case map_of st e of None \<Rightarrow> None | Some vs \<Rightarrow> if vs = [] then None else Some (snd (last vs)))"

definition vs_at_version :: "'a version_store \<Rightarrow> string \<Rightarrow> u64 \<Rightarrow> temporal_error + 'a version option" where
  "vs_at_version st e n = Inr (case map_of st e of None \<Rightarrow> None | Some vs \<Rightarrow> map_of vs n)"

definition vs_at_time :: "'a version_store \<Rightarrow> string \<Rightarrow> datetime \<Rightarrow> temporal_error + 'a version option" where
  "vs_at_time st e t =
     Inr (case map_of st e of
            None \<Rightarrow> None
          | Some vs \<Rightarrow> (let upto = filter (\<lambda>v. v_timestamp v \<le> t) (map snd vs)
                        in if upto = [] then None else Some (last upto)))"

definition vs_in_range :: "'a version_store \<Rightarrow> string \<Rightarrow> time_range \<Rightarrow> temporal_error + 'a version list" where
  "vs_in_range st e r =
     Inr (case map_of st e of
            None \<Rightarrow> []
          | Some vs \<Rightarrow> filter (\<lambda>v. range_contains r (v_timestamp v)) (map snd vs))"

definition vs_history :: "'a version_store \<Rightarrow> string \<Rightarrow> nat \<Rightarrow> temporal_error + 'a version list" where
  "vs_history st e limit =
     Inr (case map_of st e of None \<Rightarrow> [] | Some vs \<Rightarrow> take limit (rev (map snd vs)))"

definition vs_diff :: "'a version_store \<Rightarrow> string \<Rightarrow> u64 \<Rightarrow> u64 \<Rightarrow> temporal_error + 'a diff" where
  "vs_diff st = diff_by (vs_at_version st)"

definition vs_diff_time :: "'a version_store \<Rightarrow> string \<Rightarrow> datetime \<Rightarrow> datetime \<Rightarrow> temporal_error + 'a diff" where
  "vs_diff_time st = diff_by (vs_at_time st)"

section \<open>The in-memory time series\<close>

type_synonym 'a series_store = "(string \<times> 'a time_point list) list"

definition ts_append ::
  "string \<Rightarrow> 'a time_point \<Rightarrow> 'a series_store \<Rightarrow> (temporal_error + unit) \<times> 'a series_store" where
  "ts_append s p st = (Inr (), hm_entry [] s (\<lambda>ps. ps @ [p]) st)"

definition ts_query :: "'a series_store \<Rightarrow> string \<Rightarrow> time_range \<Rightarrow> temporal_error + 'a time_point list" where
  "ts_query st s r =
     Inr (case map_of st s of None \<Rightarrow> [] | Some ps \<Rightarrow> filter (\<lambda>p. range_contains r (p_time p)) ps)"

definition ts_latest :: "'a series_store \<Rightarrow> string \<Rightarrow> temporal_error + 'a time_point option" where
  "ts_latest st s =
     Inr (case map_of st s of None \<Rightarrow> None | Some ps \<Rightarrow> if ps = [] then None else Some (last ps))"

section \<open>The contract of a temporal store\<close>

text \<open>
  The trait \<open>TemporalStore\<close>, over the history of an entity: the versions appended to it, oldest
  first. Appending extends the history of one entity by a version with the next number, and the
  queries are functions of the history.
\<close>

locale temporal_store =
  fixes append :: "datetime \<Rightarrow> string \<Rightarrow> 'a \<Rightarrow> string \<Rightarrow> string option \<Rightarrow> 'st \<Rightarrow> (temporal_error + u64) \<times> 'st"
    and at_version :: "'st \<Rightarrow> string \<Rightarrow> u64 \<Rightarrow> temporal_error + 'a version option"
    and at_time :: "'st \<Rightarrow> string \<Rightarrow> datetime \<Rightarrow> temporal_error + 'a version option"
    and hist :: "'st \<Rightarrow> string \<Rightarrow> 'a version list"
    and wf :: "'st \<Rightarrow> bool"
  assumes append_hist: "wf st \<Longrightarrow> length (hist st e) < 2 ^ 64 - 1 \<Longrightarrow>
      append now e data author message st = (r, st') \<Longrightarrow>
      wf st' \<and> r = Inr (of_nat (Suc (length (hist st e))))
      \<and> hist st' d = (if d = e then hist st e @ [\<lparr>version_no = of_nat (Suc (length (hist st e))),
            v_timestamp = now, v_data = data, v_author = author, v_message = message\<rparr>] else hist st d)"
    and at_version_hist: "wf st \<Longrightarrow> length (hist st e) < 2 ^ 64 \<Longrightarrow>
      at_version st e n = Inr (if 0 < n \<and> unat n \<le> length (hist st e) then Some (hist st e ! (unat n - 1)) else None)"
    and at_time_hist: "wf st \<Longrightarrow>
      at_time st e t = Inr (let us = filter (\<lambda>v. v_timestamp v \<le> t) (hist st e) in if us = [] then None else Some (last us))"
begin

text \<open>A version, once written, never changes.\<close>

lemma append_keeps_versions:
  assumes "wf st" "length (hist st e) < 2 ^ 64 - 1" "append now e data author message st = (r, st')"
    and "at_version st d n = Inr (Some v)" "length (hist st d) < 2 ^ 64 - 1"
  shows "at_version st' d n = Inr (Some v)"
proof -
  from append_hist [OF assms(1-3)] have st': "wf st'" "length (hist st' d) < 2 ^ 64"
    and pre: "\<exists>more. hist st' d = hist st d @ more"
    using assms(2,5) by (auto split: if_splits)
  obtain more where more: "hist st' d = hist st d @ more" using pre by blast
  have "0 < n \<and> unat n \<le> length (hist st d)" "v = hist st d ! (unat n - 1)"
    using assms(1,4,5) by (auto simp: at_version_hist split: if_splits)
  moreover from this have "0 < unat n" by (simp add: word_less_nat_alt)
  ultimately show ?thesis
    using at_version_hist [OF st', of n] by (auto simp: more nth_append)
qed

text \<open>The provided methods compare what the lookups return.\<close>

lemma diff_values:
  assumes "at_version st e n1 = Inr v1" "at_version st e n2 = Inr v2" "diff_by (at_version st) e n1 n2 = Inr d"
  shows "old_value d = map_option v_data v1 \<and> new_value d = map_option v_data v2"
  using assms
  by (auto simp: diff_by_def compare_values_def old_value_def new_value_def split: option.splits if_splits)

end

section \<open>The in-memory store meets the contract\<close>

definition vs_wf :: "(u64 \<times> 'a version) list \<Rightarrow> bool" where
  "vs_wf vs \<longleftrightarrow> length vs < 2 ^ 64 \<and> map fst vs = map (\<lambda>i. of_nat (Suc i)) [0..<length vs]"

definition store_wf :: "'a version_store \<Rightarrow> bool" where
  "store_wf st \<longleftrightarrow> (\<forall>e. vs_wf (versions_of st e))"

definition vs_hist :: "'a version_store \<Rightarrow> string \<Rightarrow> 'a version list" where
  "vs_hist st e = map snd (versions_of st e)"

lemma unat_of_nat_u64: "n < 2 ^ 64 \<Longrightarrow> unat (of_nat n :: u64) = n"
  by (simp add: unat_of_nat)

lemma bt_insert_end: "\<forall>j \<in> fst ` set m. j < k \<Longrightarrow> bt_insert k v m = m @ [(k, v)]"
  by (induction m) auto

lemma map_of_indexed:
  assumes "map fst vs = map f [0..<length vs]" "inj_on f {0..<length vs}" "i < length vs"
  shows "map_of vs (f i) = Some (snd (vs ! i))"
proof -
  have "distinct (map fst vs)" using assms(1,2) by (simp add: distinct_map)
  moreover have "fst (vs ! i) = f i"
    using arg_cong [OF assms(1), of "\<lambda>xs. xs ! i"] assms(3) by simp
  then have "(f i, snd (vs ! i)) \<in> set vs" using assms(3) by (metis nth_mem prod.collapse)
  ultimately show ?thesis by simp
qed

lemma vs_wf_map_of:
  assumes "vs_wf vs"
  shows "map_of vs n = (if 0 < n \<and> unat n \<le> length vs then Some (snd (vs ! (unat n - 1))) else None)"
proof -
  let ?f = "\<lambda>i. of_nat (Suc i) :: u64"
  have keys: "map fst vs = map ?f [0..<length vs]" and len: "length vs < 2 ^ 64"
    using assms by (simp_all add: vs_wf_def)
  have un: "unat (?f i) = Suc i" if "i < length vs" for i
    using that len by (intro unat_of_nat_u64) simp
  show ?thesis
  proof (cases "0 < n \<and> unat n \<le> length vs")
    case True
    then have pos: "0 < unat n" by (simp add: word_less_nat_alt)
    then have n: "?f (unat n - 1) = n" by simp
    have "inj_on ?f {0..<length vs}" by (rule inj_onI) (metis atLeastLessThan_iff nat.inject un)
    moreover have "unat n - 1 < length vs" using True pos by linarith
    ultimately have "map_of vs n = Some (snd (vs ! (unat n - 1)))"
      using map_of_indexed [OF keys, of "unat n - 1"] unfolding n by blast
    with True show ?thesis by simp
  next
    case False
    have "n \<notin> fst ` set vs"
    proof
      assume "n \<in> fst ` set vs"
      then have "n \<in> set (map fst vs)" by simp
      then obtain i where "i < length vs" "n = ?f i" unfolding keys by auto
      with un [of i] False show False by (simp add: word_less_nat_alt)
    qed
    then have "map_of vs n = None" by (simp add: map_of_eq_None_iff)
    with False show ?thesis by auto
  qed
qed

lemma vs_wf_snoc:
  assumes "vs_wf vs" "length vs < 2 ^ 64 - 1"
  shows "(if vs = [] then 1 else fst (last vs) + 1) = (of_nat (Suc (length vs)) :: u64)"
    and "bt_insert (of_nat (Suc (length vs))) v vs = vs @ [(of_nat (Suc (length vs)), v)]"
    and "vs_wf (vs @ [(of_nat (Suc (length vs)), v)])"
proof -
  have keys: "map fst vs = map (\<lambda>i. of_nat (Suc i)) [0..<length vs]" using assms(1) by (simp add: vs_wf_def)
  have "fst (last vs) = of_nat (length vs)" if "vs \<noteq> []"
    using arg_cong [OF keys, of last] that by (cases "length vs") (auto simp: last_map)
  then show "(if vs = [] then 1 else fst (last vs) + 1) = (of_nat (Suc (length vs)) :: u64)"
    by simp
  have "j < of_nat (Suc (length vs))" if j: "j \<in> fst ` set vs" for j
  proof -
    from j have "j \<in> set (map fst vs)" by simp
    then obtain i where "i < length vs" "j = of_nat (Suc i)" unfolding keys by auto
    then show ?thesis
      using assms(2) unat_of_nat_u64 [of "Suc i"] unat_of_nat_u64 [of "Suc (length vs)"]
      by (simp add: word_less_nat_alt)
  qed
  then show "bt_insert (of_nat (Suc (length vs))) v vs = vs @ [(of_nat (Suc (length vs)), v)]"
    by (intro bt_insert_end) blast
  show "vs_wf (vs @ [(of_nat (Suc (length vs)), v)])"
    using assms by (simp add: vs_wf_def)
qed

lemma vs_append_result:
  assumes "store_wf st" "length (versions_of st e) < 2 ^ 64 - 1"
  shows "vs_append now e data author message st = (Inr (of_nat (Suc (length (versions_of st e)))),
    AList.update e (versions_of st e @ [(of_nat (Suc (length (versions_of st e))),
      \<lparr>version_no = of_nat (Suc (length (versions_of st e))), v_timestamp = now, v_data = data,
       v_author = author, v_message = message\<rparr>)]) st)"
proof -
  have wf: "vs_wf (versions_of st e)" using assms(1) by (simp add: store_wf_def)
  show ?thesis
    unfolding vs_append_def vs_wf_snoc(1) [OF wf assms(2)] Let_def vs_wf_snoc(2) [OF wf assms(2)]
    by (simp add: version_new_def with_message_def split: option.split)
qed

lemma versions_of_update: "versions_of (AList.update e vs st) d = (if d = e then vs else versions_of st d)"
  by (simp add: versions_of_def)

lemma vs_at_version_versions_of: "vs_at_version st e n = Inr (map_of (versions_of st e) n)"
  by (simp add: vs_at_version_def versions_of_def split: option.split)

lemma vs_at_time_hist:
  "vs_at_time st e t = Inr (let us = filter (\<lambda>v. v_timestamp v \<le> t) (vs_hist st e) in if us = [] then None else Some (last us))"
  by (simp add: vs_at_time_def vs_hist_def versions_of_def split: option.split)

interpretation versions: temporal_store vs_append vs_at_version vs_at_time vs_hist store_wf
proof unfold_locales
  fix st st' :: "'a version_store" and e now data author message r d
  assume "store_wf st" "length (vs_hist st e) < 2 ^ 64 - 1" "vs_append now e data author message st = (r, st')"
  then show "store_wf st' \<and> r = Inr (of_nat (Suc (length (vs_hist st e))))
      \<and> vs_hist st' d = (if d = e then vs_hist st e @ [\<lparr>version_no = of_nat (Suc (length (vs_hist st e))),
            v_timestamp = now, v_data = data, v_author = author, v_message = message\<rparr>] else vs_hist st d)"
    using vs_wf_snoc(3) [of "versions_of st e"]
    by (auto simp: vs_append_result vs_hist_def store_wf_def versions_of_update)
next
  fix st :: "'a version_store" and e n
  assume "store_wf st" "length (vs_hist st e) < 2 ^ 64"
  then show "vs_at_version st e n = Inr (if 0 < n \<and> unat n \<le> length (vs_hist st e)
      then Some (vs_hist st e ! (unat n - 1)) else None)"
    by (auto simp: vs_at_version_versions_of vs_wf_map_of store_wf_def vs_hist_def word_less_nat_alt)
qed (rule vs_at_time_hist)

section \<open>Properties\<close>

text \<open>A run of appends: time, entity, data, author, message.\<close>

type_synonym 'a vs_op = "datetime \<times> string \<times> 'a \<times> string \<times> string option"

fun vs_step :: "'a version_store \<Rightarrow> 'a vs_op \<Rightarrow> 'a version_store" where
  "vs_step st (now, e, data, author, message) = snd (vs_append now e data author message st)"

text \<open>The versions an entity should have: its appends in order, numbered from one.\<close>

definition expected_versions :: "string \<Rightarrow> 'a vs_op list \<Rightarrow> 'a version list" where
  "expected_versions e ops =
     map (\<lambda>(i, (now, _, data, author, message)). \<lparr>version_no = of_nat i, v_timestamp = now,
            v_data = data, v_author = author, v_message = message\<rparr>)
       (enumerate 1 (filter (\<lambda>(_, d, _). d = e) ops))"

lemma expected_versions_snoc:
  "expected_versions e (ops @ [(now, d, data, author, message)])
     = (if d = e then expected_versions e ops @ [\<lparr>version_no = of_nat (Suc (length (expected_versions e ops))),
          v_timestamp = now, v_data = data, v_author = author, v_message = message\<rparr>]
        else expected_versions e ops)"
  by (simp add: expected_versions_def enumerate_append_eq)

lemma length_expected_versions: "length (expected_versions e ops) \<le> length ops"
  by (simp add: expected_versions_def)

lemma vs_run_hist:
  "length ops < 2 ^ 64 - 1 \<Longrightarrow>
     store_wf (run vs_step [] ops) \<and> (\<forall>e. vs_hist (run vs_step [] ops) e = expected_versions e ops)"
proof (induction ops rule: rev_induct)
  case Nil
  show ?case by (simp add: store_wf_def vs_hist_def versions_of_def vs_wf_def expected_versions_def)
next
  case (snoc op ops)
  obtain now d data author message where op: "op = (now, d, data, author, message)" by (cases op)
  let ?st = "run vs_step [] ops"
  have IH: "store_wf ?st" "vs_hist ?st e = expected_versions e ops" for e
    using snoc by auto
  obtain r st' where a: "vs_append now d data author message ?st = (r, st')" by force
  have "length (vs_hist ?st d) < 2 ^ 64 - 1"
    using length_expected_versions [of d ops] snoc.prems by (simp add: IH(2))
  from versions.append_hist [OF IH(1) this a] show ?case
    by (auto simp: run_append op a IH(2) expected_versions_snoc)
qed

lemma vs_latest_hist: "vs_latest st e = Inr (if vs_hist st e = [] then None else Some (last (vs_hist st e)))"
  by (simp add: vs_latest_def vs_hist_def versions_of_def last_map split: option.split)

lemma vs_history_hist: "vs_history st e n = Inr (take n (rev (vs_hist st e)))"
  by (simp add: vs_history_def vs_hist_def versions_of_def split: option.split)

text \<open>
  C35: the store keeps every version. After any appends, to any entities in any order, the versions
  of an entity are numbered from one without a gap in the order of their appending, each number
  returns the data, author, message and time it was appended with, no other number returns
  anything, the latest version is the last, the history is the newest first, and the next append
  returns the next number.
\<close>

theorem versions_are_kept:
  assumes "length ops < 2 ^ 64 - 1"
  shows "vs_at_version (run vs_step [] ops) e n
      = Inr (if 0 < n \<and> unat n \<le> length (expected_versions e ops)
             then Some (expected_versions e ops ! (unat n - 1)) else None)
    \<and> vs_latest (run vs_step [] ops) e
      = Inr (if expected_versions e ops = [] then None else Some (last (expected_versions e ops)))
    \<and> vs_history (run vs_step [] ops) e limit = Inr (take limit (rev (expected_versions e ops)))
    \<and> fst (vs_append now e data author message (run vs_step [] ops))
      = Inr (of_nat (Suc (length (expected_versions e ops))))"
proof -
  let ?st = "run vs_step [] ops"
  have wf: "store_wf ?st" and hist: "vs_hist ?st e = expected_versions e ops"
    using vs_run_hist [OF assms] by auto
  have len: "length (vs_hist ?st e) < 2 ^ 64 - 1"
    using length_expected_versions [of e ops] assms by (simp add: hist)
  obtain r st' where a: "vs_append now e data author message ?st = (r, st')" by force
  show ?thesis
    using versions.at_version_hist [OF wf, of e n] versions.append_hist [OF wf len a] len
    by (simp add: hist vs_latest_hist vs_history_hist a)
qed

theorem versions_are_kept_witness:
  "vs_at_version (run vs_step [] [(5, ''a'', 10 :: int, ''x'', None), (7, ''b'', 20, ''y'', None),
      (9, ''a'', 30, ''z'', Some ''m'')]) ''a'' 2
    = Inr (Some \<lparr>version_no = 2, v_timestamp = 9, v_data = 30, v_author = ''z'', v_message = Some ''m''\<rparr>)"
  using versions_are_kept [of "[(5, ''a'', 10 :: int, ''x'', None), (7, ''b'', 20, ''y'', None),
      (9, ''a'', 30, ''z'', Some ''m'')]" "''a''" 2]
  by (simp add: expected_versions_def word_less_nat_alt)

text \<open>
  reads of the past are stable: a lookup at a point in time, and a diff of two points, are not
  changed by versions appended later, as long as the clock has moved past those points.
\<close>

theorem past_reads_stable:
  assumes "length ops + length later < 2 ^ 64 - 1"
    and "\<forall>(now, d, _) \<in> set later. d = e \<longrightarrow> t1 < now \<and> t2 < now"
  shows "vs_at_time (run vs_step [] (ops @ later)) e t1 = vs_at_time (run vs_step [] ops) e t1
    \<and> vs_diff_time (run vs_step [] (ops @ later)) e t1 t2 = vs_diff_time (run vs_step [] ops) e t1 t2"
proof -
  have "length (ops @ later) < 2 ^ 64 - 1" "length ops < 2 ^ 64 - 1" using assms(1) by simp_all
  then have hist: "vs_hist (run vs_step [] (ops @ later)) e = expected_versions e (ops @ later)"
    "vs_hist (run vs_step [] ops) e = expected_versions e ops"
    using vs_run_hist by blast+
  have "filter (\<lambda>v. v_timestamp v \<le> t) (expected_versions e (ops @ later))
      = filter (\<lambda>v. v_timestamp v \<le> t) (expected_versions e ops)" if "t = t1 \<or> t = t2" for t
    using assms(2)
  proof (induction later rule: rev_induct)
    case (snoc op later)
    obtain now d data author message where op: "op = (now, d, data, author, message)" by (cases op)
    have "expected_versions e (ops @ later @ [op])
        = expected_versions e ((ops @ later) @ [(now, d, data, author, message)])" by (simp add: op)
    with snoc that show ?case
      by (simp only: expected_versions_snoc) (auto simp: op)
  qed simp
  then have same: "vs_at_time (run vs_step [] (ops @ later)) e t = vs_at_time (run vs_step [] ops) e t"
    if "t = t1 \<or> t = t2" for t
    using that by (simp add: vs_at_time_hist hist)
  show ?thesis
    unfolding vs_diff_time_def diff_by_def same [OF disjI1 [OF refl]] same [OF disjI2 [OF refl]] by simp
qed

theorem past_reads_stable_witness:
  "vs_at_time (run vs_step [] ([(5, ''a'', 10 :: int, ''x'', None)] @ [(9, ''a'', 30, ''z'', None)])) ''a'' 6
    = vs_at_time (run vs_step [] [(5, ''a'', 10, ''x'', None)]) ''a'' 6"
  using past_reads_stable [of "[(5, ''a'', 10 :: int, ''x'', None)]" "[(9, ''a'', 30, ''z'', None)]" "''a''" 6 7]
  by simp

text \<open>
  a diff of two versions is faithful: its old and new values are the data of the two versions,
  absent where a version is, it reports a change exactly when they differ, and it fails only when
  neither version exists.
\<close>

theorem diff_faithful:
  "case vs_diff st e n1 n2 of
     Inl err \<Rightarrow> vs_at_version st e n1 = Inr None \<and> vs_at_version st e n2 = Inr None
       \<and> err = NotFound (''No versions to compare for entity '' @ e)
   | Inr d \<Rightarrow> (\<exists>v1 v2. vs_at_version st e n1 = Inr v1 \<and> vs_at_version st e n2 = Inr v2
       \<and> old_value d = map_option v_data v1 \<and> new_value d = map_option v_data v2
       \<and> (has_change d \<longleftrightarrow> map_option v_data v1 \<noteq> map_option v_data v2))"
  by (auto simp: vs_diff_def diff_by_def vs_at_version_versions_of compare_values_def old_value_def
      new_value_def has_change_def split: option.split sum.split)

theorem diff_faithful_witness:
  "\<exists>d. vs_diff (run vs_step [] [(5, ''a'', 10 :: int, ''x'', None)]) ''a'' 1 2 = Inr d \<and> old_value d = Some 10
    \<and> new_value d = None"
proof -
  let ?st = "run vs_step [] [(5, ''a'', 10 :: int, ''x'', None)]"
  obtain v where v: "vs_at_version ?st ''a'' 1 = Inr (Some v)" "v_data v = 10" "vs_at_version ?st ''a'' 2 = Inr None"
    by (simp add: vs_append_def versions_of_def version_new_def vs_at_version_def Let_def)
  then show ?thesis
    using diff_faithful [of ?st "''a''" 1 2] by (auto split: sum.splits)
qed

end
