(* ===== verification/Storage.thy ===== *)
theory Storage
  imports Utf8
begin

text \<open>
  The storage abstraction (\<open>verisim-storage\<close>): the backend trait as a record of operations with its
  contract as a locale, the in-memory backend on a \<open>BTreeMap\<close> of byte strings, and the typed store
  that serializes values and prefixes keys with a namespace, written over any backend.
\<close>

section \<open>Errors and the backend trait\<close>

text \<open>\<open>StorageError\<close>; an I/O error is known by its message.\<close>

datatype storage_error =
    Io string
  | KeyNotFound string
  | SerializationError string
  | CorruptedData string
  | BackendUnavailable string
  | KeyTooLarge nat nat
  | ValueTooLarge nat nat

type_synonym bytes = "u8 list"

text \<open>
  The trait \<open>StorageBackend\<close> over the state \<open>'s\<close> of a backend. The operations that only read return
  their result, the others their result and the new state.
\<close>

record 's storage_backend_ops =
  b_get :: "'s \<Rightarrow> bytes \<Rightarrow> storage_error + bytes option"
  b_put :: "bytes \<Rightarrow> bytes \<Rightarrow> 's \<Rightarrow> (storage_error + unit) \<times> 's"
  b_delete :: "bytes \<Rightarrow> 's \<Rightarrow> (storage_error + bool) \<times> 's"
  b_exists :: "'s \<Rightarrow> bytes \<Rightarrow> storage_error + bool"
  b_scan_prefix :: "'s \<Rightarrow> bytes \<Rightarrow> nat \<Rightarrow> storage_error + (bytes \<times> bytes) list"
  b_multi_get :: "'s \<Rightarrow> bytes list \<Rightarrow> storage_error + bytes option list"
  b_batch_put :: "(bytes \<times> bytes) list \<Rightarrow> 's \<Rightarrow> (storage_error + unit) \<times> 's"
  b_flush :: "'s \<Rightarrow> (storage_error + unit) \<times> 's"
  b_name :: string
  b_approximate_size :: "'s \<Rightarrow> storage_error + u64 option"

section \<open>The in-memory backend\<close>

type_synonym in_memory_backend = "(bytes \<times> bytes) list"

definition mem_new :: in_memory_backend where
  "mem_new = []"

definition mem_len :: "in_memory_backend \<Rightarrow> nat" where
  "mem_len m = length m"

definition mem_is_empty :: "in_memory_backend \<Rightarrow> bool" where
  "mem_is_empty m \<longleftrightarrow> m = []"

definition mem_get :: "in_memory_backend \<Rightarrow> bytes \<Rightarrow> storage_error + bytes option" where
  "mem_get m k = Inr (map_of m k)"

definition mem_put :: "bytes \<Rightarrow> bytes \<Rightarrow> in_memory_backend \<Rightarrow> (storage_error + unit) \<times> in_memory_backend" where
  "mem_put k v m = (Inr (), bt_insert k v m)"

definition mem_delete :: "bytes \<Rightarrow> in_memory_backend \<Rightarrow> (storage_error + bool) \<times> in_memory_backend" where
  "mem_delete k m = (Inr (map_of m k \<noteq> None), AList.delete k m)"

definition mem_exists :: "in_memory_backend \<Rightarrow> bytes \<Rightarrow> storage_error + bool" where
  "mem_exists m k = Inr (map_of m k \<noteq> None)"

text \<open>\<open>map.range(prefix..)\<close>: the entries from the first key that is not below \<open>prefix\<close>.\<close>

definition bt_range_from :: "'k::linorder \<Rightarrow> ('k \<times> 'v) list \<Rightarrow> ('k \<times> 'v) list" where
  "bt_range_from k m = dropWhile (\<lambda>(j, _). j < k) m"

definition mem_scan_prefix :: "in_memory_backend \<Rightarrow> bytes \<Rightarrow> nat \<Rightarrow> storage_error + (bytes \<times> bytes) list" where
  "mem_scan_prefix m prefix limit =
     Inr (take limit (takeWhile (\<lambda>(k, _). starts_with k prefix) (bt_range_from prefix m)))"

definition mem_multi_get :: "in_memory_backend \<Rightarrow> bytes list \<Rightarrow> storage_error + bytes option list" where
  "mem_multi_get m keys = Inr (map (map_of m) keys)"

definition mem_batch_put :: "(bytes \<times> bytes) list \<Rightarrow> in_memory_backend \<Rightarrow> (storage_error + unit) \<times> in_memory_backend" where
  "mem_batch_put entries m = (Inr (), fold (\<lambda>(k, v). bt_insert k v) entries m)"

definition mem_flush :: "in_memory_backend \<Rightarrow> (storage_error + unit) \<times> in_memory_backend" where
  "mem_flush m = (Inr (), m)"

definition mem_approximate_size :: "in_memory_backend \<Rightarrow> storage_error + u64 option" where
  "mem_approximate_size m = Inr (Some (sum_list (map (\<lambda>(k, v). of_nat (length k + length v)) m)))"

definition in_memory_ops :: "in_memory_backend storage_backend_ops" where
  "in_memory_ops = \<lparr>b_get = mem_get, b_put = mem_put, b_delete = mem_delete, b_exists = mem_exists,
     b_scan_prefix = mem_scan_prefix, b_multi_get = mem_multi_get, b_batch_put = mem_batch_put,
     b_flush = mem_flush, b_name = ''in-memory'', b_approximate_size = mem_approximate_size\<rparr>"

section \<open>The typed store\<close>

text \<open>\<open>serde_json\<close> at one type: the bytes of a value or an error message, and back.\<close>

record 'a json =
  to_vec :: "'a \<Rightarrow> string + bytes"
  from_slice :: "bytes \<Rightarrow> string + 'a"

text \<open>A typed store is its namespace; the backend it wraps is passed with its operations.\<close>

record typed_store =
  namespace :: string

definition ts_new :: "string \<Rightarrow> typed_store" where
  "ts_new ns = \<lparr>namespace = ns\<rparr>"

definition prefixed_key :: "typed_store \<Rightarrow> string \<Rightarrow> bytes" where
  "prefixed_key ts key = str_bytes (namespace ts @ '':'' @ key)"

definition prefix_bytes :: "typed_store \<Rightarrow> bytes" where
  "prefix_bytes ts = str_bytes (namespace ts @ '':'')"

definition ts_get ::
  "'a json \<Rightarrow> 's storage_backend_ops \<Rightarrow> typed_store \<Rightarrow> string \<Rightarrow> 's \<Rightarrow> storage_error + 'a option" where
  "ts_get js B ts key s =
     (case b_get B s (prefixed_key ts key) of
        Inl e \<Rightarrow> Inl e
      | Inr None \<Rightarrow> Inr None
      | Inr (Some bs) \<Rightarrow>
          (case from_slice js bs of
             Inl err \<Rightarrow> Inl (SerializationError (''failed to deserialize value for key '' @ [CHR 0x27]
               @ key @ [CHR 0x27] @ '': '' @ err))
           | Inr v \<Rightarrow> Inr (Some v)))"

definition ts_put ::
  "'a json \<Rightarrow> 's storage_backend_ops \<Rightarrow> typed_store \<Rightarrow> string \<Rightarrow> 'a \<Rightarrow> 's \<Rightarrow> (storage_error + unit) \<times> 's" where
  "ts_put js B ts key v s =
     (case to_vec js v of
        Inl err \<Rightarrow> (Inl (SerializationError (''failed to serialize value for key '' @ [CHR 0x27]
          @ key @ [CHR 0x27] @ '': '' @ err)), s)
      | Inr bs \<Rightarrow> b_put B (prefixed_key ts key) bs s)"

definition ts_delete ::
  "'s storage_backend_ops \<Rightarrow> typed_store \<Rightarrow> string \<Rightarrow> 's \<Rightarrow> (storage_error + bool) \<times> 's" where
  "ts_delete B ts key s = b_delete B (prefixed_key ts key) s"

definition logical_key :: "typed_store \<Rightarrow> bytes \<Rightarrow> string" where
  "logical_key ts raw_key =
     (let n = length (prefix_bytes ts)
      in if n \<le> length raw_key then from_utf8_lossy (drop n raw_key) else from_utf8_lossy raw_key)"

fun decode_scanned :: "'a json \<Rightarrow> typed_store \<Rightarrow> (bytes \<times> bytes) list \<Rightarrow> storage_error + (string \<times> 'a) list" where
  "decode_scanned js ts [] = Inr []"
| "decode_scanned js ts ((raw_key, raw_value) # rs) =
     (case from_slice js raw_value of
        Inl err \<Rightarrow> Inl (SerializationError (''failed to deserialize scanned value for key '' @ [CHR 0x27]
          @ logical_key ts raw_key @ [CHR 0x27] @ '': '' @ err))
      | Inr v \<Rightarrow>
          (case decode_scanned js ts rs of
             Inl e \<Rightarrow> Inl e
           | Inr kvs \<Rightarrow> Inr ((logical_key ts raw_key, v) # kvs)))"

definition ts_scan_prefix ::
  "'a json \<Rightarrow> 's storage_backend_ops \<Rightarrow> typed_store \<Rightarrow> string \<Rightarrow> nat \<Rightarrow> 's
     \<Rightarrow> storage_error + (string \<times> 'a) list" where
  "ts_scan_prefix js B ts key_prefix limit s =
     (case b_scan_prefix B s (str_bytes (namespace ts @ '':'' @ key_prefix)) limit of
        Inl e \<Rightarrow> Inl e
      | Inr raw \<Rightarrow> decode_scanned js ts raw)"

section \<open>The contract of a backend\<close>

text \<open>
  What the trait promises, over the contents of a backend as a map: a successful read answers from
  the contents, a successful write changes them at its key alone, a failed one leaves them, a batch
  is applied whole, and a scan returns the smallest keys with the prefix, in order.
\<close>

definition sorted_entries :: "(bytes \<times> 'v) list \<Rightarrow> (bytes \<Rightarrow> 'v option) \<Rightarrow> bool" where
  "sorted_entries es m \<longleftrightarrow> bt_wf es \<and> map_of es = m"

locale storage_backend =
  fixes B :: "'s storage_backend_ops"
    and contents :: "'s \<Rightarrow> bytes \<Rightarrow> bytes option"
    and ok :: "'s \<Rightarrow> bool"
  assumes get_contents: "ok s \<Longrightarrow> b_get B s k = Inr found \<Longrightarrow> found = contents s k"
    and exists_contents: "ok s \<Longrightarrow> b_exists B s k = Inr b \<Longrightarrow> b \<longleftrightarrow> contents s k \<noteq> None"
    and multi_get_contents: "ok s \<Longrightarrow> b_multi_get B s ks = Inr founds \<Longrightarrow> founds = map (contents s) ks"
    and scan_contents: "ok s \<Longrightarrow> b_scan_prefix B s p n = Inr rows
      \<Longrightarrow> \<exists>es. rows = take n es \<and> sorted_entries es (\<lambda>k. if starts_with k p then contents s k else None)"
    and put_contents: "ok s \<Longrightarrow> b_put B k v s = (rp, s')
      \<Longrightarrow> ok s' \<and> contents s' = (if is_ok rp then (contents s)(k \<mapsto> v) else contents s)"
    and delete_contents: "ok s \<Longrightarrow> b_delete B k s = (rd, s')
      \<Longrightarrow> ok s' \<and> (case rd of Inl _ \<Rightarrow> contents s' = contents s
            | Inr b \<Rightarrow> (b \<longleftrightarrow> contents s k \<noteq> None) \<and> contents s' = (contents s)(k := None))"
    and batch_contents: "ok s \<Longrightarrow> b_batch_put B es s = (rb, s')
      \<Longrightarrow> ok s' \<and> contents s' = (if is_ok rb then contents s ++ map_of (rev es) else contents s)"

text \<open>A backend whose operations do not fail.\<close>

locale reliable_backend = storage_backend +
  assumes get_succeeds: "ok s \<Longrightarrow> is_ok (b_get B s k)"
    and put_succeeds: "ok s \<Longrightarrow> is_ok (fst (b_put B k v s))"
    and delete_succeeds: "ok s \<Longrightarrow> is_ok (fst (b_delete B k s))"
    and scan_succeeds: "ok s \<Longrightarrow> is_ok (b_scan_prefix B s p n)"

section \<open>The in-memory backend meets the contract\<close>

lemma prefix_interval:
  fixes p :: "'a::linorder list"
  shows "p \<le> k \<Longrightarrow> k \<le> p @ t \<Longrightarrow> starts_with k p"
proof (induction p arbitrary: k)
  case Nil
  then show ?case by (simp add: starts_with_def)
next
  case (Cons a p)
  then show ?case by (cases k) (auto simp: starts_with_def)
qed

lemma starts_with_ge: "starts_with k p \<Longrightarrow> p \<le> (k :: 'a::linorder list)"
proof -
  have "p \<le> p @ t" for t :: "'a list" by (induction p) auto
  then show "starts_with k p \<Longrightarrow> p \<le> k" by (auto simp: starts_with_iff)
qed

lemma takeWhile_starts_with:
  fixes m :: "('a::linorder list \<times> 'v) list"
  assumes "bt_wf m" "\<forall>j \<in> fst ` set m. p \<le> j"
  shows "takeWhile (\<lambda>(k, _). starts_with k p) m = filter (\<lambda>(k, _). starts_with k p) m"
  using assms
proof (induction m)
  case (Cons kv m)
  obtain k v where kv: "kv = (k, v)" by (cases kv)
  show ?case
  proof (cases "starts_with k p")
    case True
    with Cons kv show ?thesis by (auto simp: bt_wf_Cons)
  next
    case False
    have "\<not> starts_with j p" if "(j, w) \<in> set m" for j w
    proof
      assume "starts_with j p"
      then obtain t where "j = p @ t" by (auto simp: starts_with_iff)
      moreover have "k < j" using that Cons.prems(1) kv by (force simp: bt_wf_Cons)
      ultimately show False using False prefix_interval [of p k t] Cons.prems(2) kv by auto
    qed
    with False kv show ?thesis by (auto simp: empty_filter_conv)
  qed
qed simp

lemma range_takeWhile_filter:
  fixes m :: "('a::linorder list \<times> 'v) list"
  assumes "bt_wf m"
  shows "takeWhile (\<lambda>(k, _). starts_with k p) (bt_range_from p m) = filter (\<lambda>(k, _). starts_with k p) m"
  using assms
proof (induction m)
  case (Cons kv m)
  obtain k v where kv: "kv = (k, v)" by (cases kv)
  show ?case
  proof (cases "k < p")
    case True
    then have "\<not> starts_with k p" using starts_with_ge [of k p] by auto
    with True Cons kv show ?thesis by (simp add: bt_range_from_def bt_wf_Cons)
  next
    case False
    then have "\<forall>j \<in> fst ` set (kv # m). p \<le> j" using Cons.prems kv by (force simp: bt_wf_Cons)
    then have "takeWhile (\<lambda>(k, _). starts_with k p) (kv # m) = filter (\<lambda>(k, _). starts_with k p) (kv # m)"
      by (rule takeWhile_starts_with [OF Cons.prems])
    with False kv show ?thesis by (simp add: bt_range_from_def)
  qed
qed (simp add: bt_range_from_def)

lemma bt_wf_filter: "bt_wf m \<Longrightarrow> bt_wf (filter P m)"
  by (simp add: bt_wf_def sorted_wrt_map sorted_wrt_filter)

lemma map_of_filter_key: "map_of (filter (\<lambda>(k, _). P k) m) = (\<lambda>k. if P k then map_of m k else None)"
  by (induction m) auto

lemma mem_scan_prefix_filter:
  "bt_wf m \<Longrightarrow> mem_scan_prefix m p n = Inr (take n (filter (\<lambda>(k, _). starts_with k p) m))"
  by (simp add: mem_scan_prefix_def range_takeWhile_filter)

lemma sorted_entries_filter:
  "bt_wf m \<Longrightarrow> sorted_entries (filter (\<lambda>(k, _). starts_with k p) m)
     (\<lambda>k. if starts_with k p then map_of m k else None)"
  by (simp add: sorted_entries_def bt_wf_filter map_of_filter_key)

lemmas in_memory_defs = in_memory_ops_def mem_get_def mem_put_def mem_delete_def mem_exists_def
  mem_multi_get_def mem_batch_put_def mem_flush_def

interpretation mem: reliable_backend in_memory_ops map_of bt_wf
proof unfold_locales
  fix s p n rs
  assume s: "bt_wf s" and "b_scan_prefix in_memory_ops s p n = Inr rs"
  then have "rs = take n (filter (\<lambda>(k, _). starts_with k p) s)"
    by (simp add: in_memory_ops_def mem_scan_prefix_filter)
  with sorted_entries_filter [OF s, of p]
  show "\<exists>es. rs = take n es \<and> sorted_entries es (\<lambda>k. if starts_with k p then map_of s k else None)" by blast
next
  fix s es r s'
  assume s: "bt_wf s" and b: "b_batch_put in_memory_ops es s = (r, s')"
  have "map_of (fold (\<lambda>(k, v). bt_insert k v) es s) = map_of s ++ map_of (rev es)"
    using bt.lookup_fold_insert [OF s, of es] by (auto simp: map_add_def fun_eq_iff)
  with b bt.wf_fold_insert [OF s, of es]
  show "bt_wf s' \<and> map_of s' = (if is_ok r then map_of s ++ map_of (rev es) else map_of s)"
    by (auto simp: in_memory_defs)
qed (auto simp: in_memory_defs mem_scan_prefix_def store_simps fun_eq_iff)

section \<open>Typed stores over any backend\<close>

lemma starts_with_str_bytes [simp]: "starts_with (str_bytes s) (str_bytes p) \<longleftrightarrow> starts_with s p"
proof -
  have "take n (str_bytes s) = str_bytes (take n s)" for n by (simp add: str_bytes_def take_map)
  then show ?thesis by (simp add: starts_with_def)
qed

lemma drop_str_bytes: "drop (Suc 0) (str_bytes (c # s)) = str_bytes s"
  by (simp add: str_bytes_def)

lemma str_bytes_Cons_less: "str_bytes (c # s) < str_bytes (c # t) \<longleftrightarrow> str_bytes s < str_bytes t"
  by (simp add: str_bytes_def)

lemma sep_eq: "c \<notin> set xs \<Longrightarrow> c \<notin> set xs' \<Longrightarrow> xs @ c # ys = xs' @ c # ys' \<longleftrightarrow> xs = xs' \<and> ys = ys'"
proof (induction xs arbitrary: xs')
  case Nil
  then show ?case by (cases xs') auto
next
  case (Cons a xs)
  then show ?case by (cases xs') auto
qed

lemma prefix_less_iff: "p @ a < p @ b \<longleftrightarrow> a < (b :: 'a::linorder list)"
  by (induction p) auto

text \<open>
  The abstract view of typed stores that share a backend: a map from a namespace and a key to a
  value. \<open>ts_repr\<close> relates it to the contents of the backend, for namespaces without a colon.
\<close>

type_synonym 'a typed_view = "string \<times> string \<Rightarrow> 'a option"

definition ts_repr :: "'a json \<Rightarrow> (bytes \<Rightarrow> bytes option) \<Rightarrow> 'a typed_view \<Rightarrow> bool" where
  "ts_repr js c m \<longleftrightarrow>
     (\<forall>ns k. CHR '':'' \<notin> set ns \<longrightarrow> c (prefixed_key (ts_new ns) k) = map_option (\<lambda>v. projr (to_vec js v)) (m (ns, k))
        \<and> (m (ns, k) \<noteq> None \<longrightarrow> valid_utf8 (str_bytes k)))
     \<and> (\<forall>raw. c raw \<noteq> None \<longrightarrow> (\<exists>ns k. CHR '':'' \<notin> set ns \<and> raw = prefixed_key (ts_new ns) k))"

text \<open>\<open>serde_json\<close> at the type: every value has an encoding that decodes to it.\<close>

definition json_ok :: "'a json \<Rightarrow> bool" where
  "json_ok js \<longleftrightarrow> (\<forall>v. \<exists>bs. to_vec js v = Inr bs \<and> from_slice js bs = Inr v)"

lemma json_okD: "json_ok js \<Longrightarrow> from_slice js (projr (to_vec js v)) = Inr v"
  by (metis json_ok_def sum.sel(2))

lemma prefixed_key_inject:
  "CHR '':'' \<notin> set ns \<Longrightarrow> CHR '':'' \<notin> set ns'
     \<Longrightarrow> prefixed_key (ts_new ns) k = prefixed_key (ts_new ns') k' \<longleftrightarrow> ns = ns' \<and> k = k'"
  using sep_eq [of "CHR '':''" ns ns' k k'] by (simp add: prefixed_key_def ts_new_def del: str_bytes_append)

lemma prefixed_key_starts_with:
  assumes "CHR '':'' \<notin> set ns" "CHR '':'' \<notin> set ns'"
  shows "starts_with (prefixed_key (ts_new ns') k) (prefixed_key (ts_new ns) p) \<longleftrightarrow> ns' = ns \<and> starts_with k p"
proof -
  have "starts_with (ns' @ '':'' @ k) (ns @ '':'' @ p) \<longleftrightarrow> ns' = ns \<and> starts_with k p"
    using assms sep_eq [of "CHR '':''" ns' ns k] by (auto simp: starts_with_iff)
  then show ?thesis by (simp add: prefixed_key_def ts_new_def del: str_bytes_append)
qed

lemma logical_key_prefixed: "valid_utf8 (str_bytes k) \<Longrightarrow> logical_key (ts_new ns) (prefixed_key (ts_new ns) k) = k"
  by (simp add: logical_key_def prefixed_key_def prefix_bytes_def ts_new_def Let_def drop_str_bytes
      from_utf8_lossy_id)

lemma decode_scanned_ok:
  "\<forall>(raw, bs) \<in> set rows. is_ok (from_slice js bs)
     \<Longrightarrow> decode_scanned js ts rows = Inr (map (\<lambda>(raw, bs). (logical_key ts raw, projr (from_slice js bs))) rows)"
proof (induction rows)
  case (Cons row rows)
  then show ?case by (cases row) (auto split: sum.split)
qed simp

lemma ts_repr_empty: "ts_repr js Map.empty Map.empty"
  by (simp add: ts_repr_def)

lemma ts_repr_put:
  assumes "ts_repr js c m" "CHR '':'' \<notin> set ns" "valid_utf8 (str_bytes k)" "to_vec js v = Inr bs"
  shows "ts_repr js (c(prefixed_key (ts_new ns) k \<mapsto> bs)) (m((ns, k) \<mapsto> v))"
  using assms by (auto simp: ts_repr_def prefixed_key_inject)

lemma ts_repr_delete:
  assumes "ts_repr js c m" "CHR '':'' \<notin> set ns"
  shows "ts_repr js (c(prefixed_key (ts_new ns) k := None)) (m((ns, k) := None))"
  using assms by (auto simp: ts_repr_def prefixed_key_inject)

text \<open>A sorted table of the backend's rows under a prefix, read as typed rows.\<close>

lemma ts_repr_rows:
  assumes js: "json_ok js" and repr: "ts_repr js c m" and ns: "CHR '':'' \<notin> set ns"
    and es: "sorted_entries es (\<lambda>raw. if starts_with raw (prefixed_key (ts_new ns) p) then c raw else None)"
  defines "f \<equiv> \<lambda>(raw, bs). (logical_key (ts_new ns) raw, projr (from_slice js bs))"
  shows "\<forall>(raw, bs) \<in> set es. is_ok (from_slice js bs)"
    and "sorted_wrt (\<lambda>a b. str_bytes a < str_bytes b) (map fst (map f es))"
    and "set (map f es) = {(k, v). m (ns, k) = Some v \<and> starts_with k p}"
proof -
  have wf: "hm_wf es" using es by (simp add: sorted_entries_def bt_wf_imp_hm_wf)
  have mem_iff: "(raw, bs) \<in> set es \<longleftrightarrow> starts_with raw (prefixed_key (ts_new ns) p) \<and> c raw = Some bs" for raw bs
    using es wf map_of_eq_Some_iff [of es raw bs] by (auto simp: sorted_entries_def hm_wf_def split: if_splits)
  have rowD: "\<exists>k v. raw = prefixed_key (ts_new ns) k \<and> starts_with k p \<and> m (ns, k) = Some v
      \<and> bs = projr (to_vec js v) \<and> f (raw, bs) = (k, v) \<and> from_slice js bs = Inr v"
    if row: "(raw, bs) \<in> set es" for raw bs
  proof -
    from row have c: "starts_with raw (prefixed_key (ts_new ns) p)" "c raw = Some bs" by (simp_all add: mem_iff)
    from repr c(2) obtain ns' k where raw: "CHR '':'' \<notin> set ns'" "raw = prefixed_key (ts_new ns') k"
      by (auto simp: ts_repr_def)
    with c(1) prefixed_key_starts_with [OF ns raw(1)] have k: "ns' = ns" "starts_with k p" by auto
    with repr ns c(2) raw obtain v where v: "m (ns, k) = Some v" "bs = projr (to_vec js v)" "valid_utf8 (str_bytes k)"
      unfolding ts_repr_def by force
    then show ?thesis using raw k json_okD [OF js, of v] by (auto simp: f_def logical_key_prefixed)
  qed
  show "\<forall>(raw, bs) \<in> set es. is_ok (from_slice js bs)" by (auto dest!: rowD)
  have "sorted_wrt (\<lambda>x y. str_bytes (fst (f x)) < str_bytes (fst (f y))) es"
  proof (rule sorted_wrt_mono_rel)
    show "sorted_wrt (\<lambda>x y. fst x < fst y) es"
      using es by (simp add: sorted_entries_def bt_wf_def sorted_wrt_map)
  next
    fix x y assume "x \<in> set es" "y \<in> set es" "fst x < fst y"
    then show "str_bytes (fst (f x)) < str_bytes (fst (f y))"
      using rowD [of "fst x" "snd x"] rowD [of "fst y" "snd y"]
      by (auto simp: prefixed_key_def prefix_less_iff str_bytes_Cons_less)
  qed
  then show "sorted_wrt (\<lambda>a b. str_bytes a < str_bytes b) (map fst (map f es))"
    by (simp add: sorted_wrt_map)
  show "set (map f es) = {(k, v). m (ns, k) = Some v \<and> starts_with k p}"
  proof (rule set_eqI, clarify)
    fix k v
    show "(k, v) \<in> set (map f es) \<longleftrightarrow> (k, v) \<in> {(k, v). m (ns, k) = Some v \<and> starts_with k p}"
    proof
      assume "(k, v) \<in> {(k, v). m (ns, k) = Some v \<and> starts_with k p}"
      then have v: "m (ns, k) = Some v" "starts_with k p" by auto
      with repr ns have "c (prefixed_key (ts_new ns) k) = Some (projr (to_vec js v))" "valid_utf8 (str_bytes k)"
        by (auto simp: ts_repr_def)
      with v(2) ns have "(prefixed_key (ts_new ns) k, projr (to_vec js v)) \<in> set es"
        by (simp add: mem_iff prefixed_key_starts_with)
      moreover have "f (prefixed_key (ts_new ns) k, projr (to_vec js v)) = (k, v)"
        using rowD [OF calculation] json_okD [OF js, of v] ns by (auto simp: prefixed_key_inject)
      ultimately show "(k, v) \<in> set (map f es)" by force
    qed (auto dest!: rowD)
  qed
qed

text \<open>A run of puts (\<open>Some v\<close>) and deletes (\<open>None\<close>) by typed stores that share one backend.\<close>

type_synonym 'a ts_op = "string \<times> string \<times> 'a option"

fun ts_step :: "'a json \<Rightarrow> 's storage_backend_ops \<Rightarrow> 's \<Rightarrow> 'a ts_op \<Rightarrow> 's" where
  "ts_step js B s (ns, k, Some v) = snd (ts_put js B (ts_new ns) k v s)"
| "ts_step js B s (ns, k, None) = snd (ts_delete B (ts_new ns) k s)"

definition ts_view :: "'a ts_op list \<Rightarrow> 'a typed_view" where
  "ts_view ops = fold (\<lambda>(ns, k, vo) m. m((ns, k) := vo)) ops Map.empty"

definition ts_op_ok :: "'a ts_op \<Rightarrow> bool" where
  "ts_op_ok = (\<lambda>(ns, k, _). CHR '':'' \<notin> set ns \<and> valid_utf8 (str_bytes k))"

lemma ts_view_snoc: "ts_view (ops @ [(ns, k, vo)]) = (ts_view ops)((ns, k) := vo)"
  by (simp add: ts_view_def)

context storage_backend
begin

lemma ts_get_repr:
  assumes "ok s" "json_ok js" "ts_repr js (contents s) m" "CHR '':'' \<notin> set ns"
    and "is_ok (b_get B s (prefixed_key (ts_new ns) k))"
  shows "ts_get js B (ts_new ns) k s = Inr (m (ns, k))"
proof -
  from assms(5) obtain found where found: "b_get B s (prefixed_key (ts_new ns) k) = Inr found"
    by (auto simp: isl_def split: sum.splits) (metis sum.exhaust)
  have "found = map_option (\<lambda>v. projr (to_vec js v)) (m (ns, k))"
    using get_contents [OF assms(1) found] assms(3,4) by (simp add: ts_repr_def)
  with found show ?thesis
    by (cases "m (ns, k)") (simp_all add: ts_get_def json_okD [OF assms(2)])
qed

lemma ts_put_repr:
  assumes "ok s" "json_ok js" "ts_repr js (contents s) m" "CHR '':'' \<notin> set ns" "valid_utf8 (str_bytes k)"
    and "ts_put js B (ts_new ns) k v s = (r, s')"
  shows "ok s' \<and> ts_repr js (contents s') (if is_ok r then m((ns, k) \<mapsto> v) else m)"
proof -
  obtain bs where bs: "to_vec js v = Inr bs" using assms(2) by (auto simp: json_ok_def)
  with assms(6) have p: "b_put B (prefixed_key (ts_new ns) k) bs s = (r, s')" by (simp add: ts_put_def)
  from put_contents [OF assms(1) this] ts_repr_put [OF assms(3-5) bs] assms(3) show ?thesis by simp
qed

lemma ts_delete_repr:
  assumes "ok s" "ts_repr js (contents s) m" "CHR '':'' \<notin> set ns"
    and "ts_delete B (ts_new ns) k s = (r, s')"
  shows "ok s' \<and> ts_repr js (contents s') (if is_ok r then m((ns, k) := None) else m)"
  using delete_contents [OF assms(1), of "prefixed_key (ts_new ns) k" r s'] assms(2,4)
    ts_repr_delete [OF assms(2,3), of k]
  by (auto simp: ts_delete_def split: sum.splits)

lemma ts_scan_repr:
  assumes "ok s" "json_ok js" "ts_repr js (contents s) m" "CHR '':'' \<notin> set ns"
    and "is_ok (b_scan_prefix B s (prefixed_key (ts_new ns) p) n)"
  shows "\<exists>all. ts_scan_prefix js B (ts_new ns) p n s = Inr (take n all)
    \<and> sorted_wrt (\<lambda>a b. str_bytes a < str_bytes b) (map fst all)
    \<and> set all = {(k, v). m (ns, k) = Some v \<and> starts_with k p}"
proof -
  from assms(5) obtain rows where rows: "b_scan_prefix B s (prefixed_key (ts_new ns) p) n = Inr rows"
    by (auto simp: isl_def) (metis sum.exhaust)
  from scan_contents [OF assms(1) this] obtain es where es: "rows = take n es"
    "sorted_entries es (\<lambda>k. if starts_with k (prefixed_key (ts_new ns) p) then contents s k else None)"
    by blast
  note typed = ts_repr_rows [OF assms(2-4) es(2)]
  let ?f = "\<lambda>(raw, bs). (logical_key (ts_new ns) raw, projr (from_slice js bs))"
  have "\<forall>(raw, bs) \<in> set rows. is_ok (from_slice js bs)"
    using typed(1) es(1) by (auto dest: in_set_takeD)
  then have "decode_scanned js (ts_new ns) rows = Inr (take n (map ?f es))"
    by (simp add: decode_scanned_ok es(1) take_map)
  then have "ts_scan_prefix js B (ts_new ns) p n s = Inr (take n (map ?f es))"
    using rows by (simp add: ts_scan_prefix_def prefixed_key_def)
  with typed(2,3) show ?thesis by blast
qed

end

context reliable_backend
begin

lemma ts_step_repr:
  assumes "ok s" "json_ok js" "ts_repr js (contents s) m" "ts_op_ok (ns, k, vo)"
  shows "ok (ts_step js B s (ns, k, vo)) \<and> ts_repr js (contents (ts_step js B s (ns, k, vo))) (m((ns, k) := vo))"
proof -
  have op: "CHR '':'' \<notin> set ns" "valid_utf8 (str_bytes k)" using assms(4) by (simp_all add: ts_op_ok_def)
  show ?thesis
  proof (cases vo)
    case None
    obtain r s' where d: "ts_delete B (ts_new ns) k s = (r, s')" by force
    then have "is_ok r" using delete_succeeds [OF assms(1), of "prefixed_key (ts_new ns) k"] by (simp add: ts_delete_def)
    with ts_delete_repr [OF assms(1,3) op(1) d] d None show ?thesis by simp
  next
    case (Some v)
    obtain r s' where p: "ts_put js B (ts_new ns) k v s = (r, s')" by force
    obtain bs where "to_vec js v = Inr bs" using assms(2) by (auto simp: json_ok_def)
    then have "is_ok r"
      using p put_succeeds [OF assms(1), of "prefixed_key (ts_new ns) k" bs] by (simp add: ts_put_def)
    with ts_put_repr [OF assms(1-3) op p] p Some show ?thesis by simp
  qed
qed

lemma ts_run_repr:
  assumes "ok s" "json_ok js" "ts_repr js (contents s) Map.empty" "\<forall>op \<in> set ops. ts_op_ok op"
  shows "ok (run (ts_step js B) s ops) \<and> ts_repr js (contents (run (ts_step js B) s ops)) (ts_view ops)"
  using assms(4)
proof (induction ops rule: rev_induct)
  case Nil
  then show ?case using assms by (simp add: ts_view_def)
next
  case (snoc op ops)
  obtain ns k vo where op: "op = (ns, k, vo)" by (cases op)
  from snoc have "ok (run (ts_step js B) s ops)" "ts_repr js (contents (run (ts_step js B) s ops)) (ts_view ops)"
    "ts_op_ok (ns, k, vo)" by (auto simp: op)
  from ts_step_repr [OF this(1) assms(2) this(2,3)] show ?case
    unfolding op run_append run.simps ts_view_snoc .
qed

lemma typed_reads:
  assumes "ok s" "json_ok js" "ts_repr js (contents s) Map.empty" "\<forall>op \<in> set ops. ts_op_ok op"
    and "CHR '':'' \<notin> set ns"
  shows "ts_get js B (ts_new ns) k (run (ts_step js B) s ops) = Inr (ts_view ops (ns, k))"
    and "\<exists>all. ts_scan_prefix js B (ts_new ns) p n (run (ts_step js B) s ops) = Inr (take n all)
      \<and> sorted_wrt (\<lambda>a b. str_bytes a < str_bytes b) (map fst all)
      \<and> set all = {(k, v). ts_view ops (ns, k) = Some v \<and> starts_with k p}"
  using ts_run_repr [OF assms(1-4)] ts_get_repr ts_scan_repr assms(2,5) get_succeeds scan_succeeds by blast+

end

section \<open>Properties\<close>

text \<open>Puts (\<open>Some v\<close>) and deletes (\<open>None\<close>) on the in-memory backend.\<close>

fun mem_step :: "in_memory_backend \<Rightarrow> bytes \<times> bytes option \<Rightarrow> in_memory_backend" where
  "mem_step m (k, Some v) = snd (mem_put k v m)"
| "mem_step m (k, None) = snd (mem_delete k m)"

lemma mem_run_wf: "bt_wf m \<Longrightarrow> bt_wf (run mem_step m ops)"
proof (induction ops arbitrary: m)
  case (Cons op ops)
  obtain k vo where op: "op = (k, vo)" by (cases op)
  from Cons show ?case by (cases vo) (auto simp: op mem_put_def mem_delete_def)
qed simp

text \<open>
  a prefix scan is exact. On a backend filled by any puts, deletes and batches, the scan returns the
  first \<open>limit\<close> of the stored pairs whose key starts with the prefix, in ascending order of their
  keys, and no pair in between is skipped.
\<close>

theorem scan_prefix_exact:
  "\<exists>es. mem_scan_prefix (run mem_step mem_new ops) prefix limit = Inr (take limit es)
    \<and> sorted_wrt (<) (map fst es)
    \<and> (\<forall>k v. (k, v) \<in> set es \<longleftrightarrow> starts_with k prefix \<and> mem_get (run mem_step mem_new ops) k = Inr (Some v))"
proof -
  let ?m = "run mem_step mem_new ops"
  have wf: "bt_wf ?m" by (simp add: mem_run_wf mem_new_def)
  then have "hm_wf ?m" by (rule bt_wf_imp_hm_wf)
  with mem_scan_prefix_filter [OF wf, of prefix limit] bt_wf_filter [OF wf, of "\<lambda>(k, _). starts_with k prefix"]
  show ?thesis
    by (intro exI [of _ "filter (\<lambda>(k, _). starts_with k prefix) ?m"])
      (auto simp: mem_get_def bt_wf_def hm_wf_def)
qed

text \<open>
  C28: typed stores are isolated. When any number of typed stores with colon-free namespaces share one
  in-memory backend, then after any puts and deletes a \<open>get\<close> returns the value last put under its
  own namespace and key, and a scan returns the typed entries of its own namespace whose key starts
  with the prefix, in order, up to the limit, for every type whose JSON encoding decodes.
\<close>

theorem typed_stores_isolated:
  assumes "json_ok js" and "\<forall>op \<in> set ops. ts_op_ok op" and "CHR '':'' \<notin> set ns"
  shows "ts_get js in_memory_ops (ts_new ns) k (run (ts_step js in_memory_ops) mem_new ops) = Inr (ts_view ops (ns, k))
    \<and> (\<exists>all. ts_scan_prefix js in_memory_ops (ts_new ns) p n (run (ts_step js in_memory_ops) mem_new ops)
            = Inr (take n all)
        \<and> sorted_wrt (\<lambda>a b. str_bytes a < str_bytes b) (map fst all)
        \<and> set all = {(k, v). ts_view ops (ns, k) = Some v \<and> starts_with k p})"
proof -
  have "bt_wf mem_new" "ts_repr js (map_of mem_new) Map.empty" by (simp_all add: mem_new_def ts_repr_def)
  from mem.typed_reads [OF this(1) assms(1) this(2) assms(2,3)] show ?thesis by blast
qed

text \<open>A type to apply it at: a byte, encoded as itself.\<close>

definition byte_json :: "u8 json" where
  "byte_json = \<lparr>to_vec = (\<lambda>v. Inr [v]), from_slice = (\<lambda>bs. case bs of [v] \<Rightarrow> Inr v | _ \<Rightarrow> Inl ''trailing'')\<rparr>"

theorem typed_stores_isolated_witness:
  "ts_get byte_json in_memory_ops (ts_new ''a'')  ''k''
    (run (ts_step byte_json in_memory_ops) mem_new [(''a'', ''k'', Some 1), (''b'', ''k'', Some 2), (''b'', ''k'', None)])
    = Inr (Some 1)"
proof -
  have "valid_utf8 (str_bytes ''k'')" by (simp add: str_bytes_def Let_def utf8_width_def)
  then show ?thesis
    using typed_stores_isolated [of byte_json
        "[(''a'', ''k'', Some 1), (''b'', ''k'', Some 2), (''b'', ''k'', None)]" "''a''" "''k''"]
    by (simp add: json_ok_def byte_json_def ts_op_ok_def ts_view_def)
qed

text \<open>
  a colon in a namespace breaks the isolation: what the store of namespace \<open>a:b\<close> puts under \<open>c\<close>,
  the store of namespace \<open>a\<close> reads under \<open>b:c\<close>, and its delete removes it from the other.
\<close>

theorem namespace_with_colon_collides:
  assumes "json_ok js"
  shows "ts_get js in_memory_ops (ts_new a) (b @ '':'' @ c)
      (snd (ts_put js in_memory_ops (ts_new (a @ '':'' @ b)) c v s)) = Inr (Some v)
    \<and> ts_get js in_memory_ops (ts_new (a @ '':'' @ b)) c
      (snd (ts_delete in_memory_ops (ts_new a) (b @ '':'' @ c) s)) = Inr None"
proof -
  obtain bs where "to_vec js v = Inr bs" "from_slice js bs = Inr v" using assms by (auto simp: json_ok_def)
  then show ?thesis
    by (simp add: ts_get_def ts_put_def ts_delete_def in_memory_ops_def mem_get_def mem_put_def mem_delete_def
        prefixed_key_def ts_new_def)
qed

theorem namespace_with_colon_collides_witness:
  "ts_get byte_json in_memory_ops (ts_new ''x'') ''y:z''
    (snd (ts_put byte_json in_memory_ops (ts_new ''x:y'') ''z'' 7 mem_new)) = Inr (Some 7)"
  using namespace_with_colon_collides [of byte_json "''x''" "''y''" "''z''" 7 mem_new]
  by (simp add: json_ok_def byte_json_def)

end
