(* ===== verification/Text.thy ===== *)
theory Text
  imports Prelude
begin

text \<open>
  Rust strings as sequences of characters, for the components that read a text character by
  character: a character is its Unicode scalar value. The tables of the Unicode character database
  (white space, alphanumeric characters, case conversion) are parameters; the conversions to UTF-8
  and to hexadecimal, and the splitting of a text at white space, are written out.
\<close>

type_synonym ustring = "nat list"

record unicode =
  is_whitespace :: "nat \<Rightarrow> bool"
  is_alphanumeric :: "nat \<Rightarrow> bool"
  to_uppercase :: "ustring \<Rightarrow> ustring"
  to_lowercase :: "ustring \<Rightarrow> ustring"

text \<open>An ASCII literal as a text.\<close>

definition lit :: "string \<Rightarrow> ustring" where
  "lit s = map of_char s"

section \<open>UTF-8 and hexadecimal\<close>

definition utf8_char :: "nat \<Rightarrow> u8 list" where
  "utf8_char c =
     (if c < 0x80 then [word_of_nat c]
      else if c < 0x800 then [word_of_nat (0xC0 + c div 64), word_of_nat (0x80 + c mod 64)]
      else if c < 0x10000 then
        [word_of_nat (0xE0 + c div 4096), word_of_nat (0x80 + c div 64 mod 64), word_of_nat (0x80 + c mod 64)]
      else
        [word_of_nat (0xF0 + c div 262144), word_of_nat (0x80 + c div 4096 mod 64),
         word_of_nat (0x80 + c div 64 mod 64), word_of_nat (0x80 + c mod 64)])"

definition as_bytes :: "ustring \<Rightarrow> u8 list" where
  "as_bytes s = concat (map utf8_char s)"

text \<open>\<open>format!("{:02x}")\<close> of each byte.\<close>

definition hex_digit :: "nat \<Rightarrow> char" where
  "hex_digit d = (if d < 10 then char_of (48 + d) else char_of (87 + d))"

definition to_hex :: "u8 list \<Rightarrow> string" where
  "to_hex bs = concat (map (\<lambda>b. [hex_digit (unat b div 16), hex_digit (unat b mod 16)]) bs)"

section \<open>Splitting at white space\<close>

text \<open>\<open>split_whitespace\<close>: the maximal runs of characters that are not white space.\<close>

fun split_ws :: "(nat \<Rightarrow> bool) \<Rightarrow> ustring \<Rightarrow> ustring \<Rightarrow> ustring list" where
  "split_ws ws [] cur = (if cur = [] then [] else [cur])"
| "split_ws ws (c # cs) cur =
     (if ws c then (if cur = [] then split_ws ws cs [] else cur # split_ws ws cs [])
      else split_ws ws cs (cur @ [c]))"

definition split_whitespace :: "unicode \<Rightarrow> ustring \<Rightarrow> ustring list" where
  "split_whitespace uc s = split_ws (is_whitespace uc) s []"

lemma split_ws_tokens:
  "list_all (\<lambda>c. \<not> ws c) cur \<Longrightarrow> list_all (\<lambda>t. t \<noteq> [] \<and> list_all (\<lambda>c. \<not> ws c) t) (split_ws ws s cur)"
  by (induction ws s cur rule: split_ws.induct) simp_all

lemma split_whitespace_tokens:
  "t \<in> set (split_whitespace uc s) \<Longrightarrow> t \<noteq> [] \<and> (\<forall>c \<in> set t. \<not> is_whitespace uc c)"
  using split_ws_tokens [of "is_whitespace uc" "[]" s] by (auto simp: split_whitespace_def list_all_iff)

lemma split_ws_token: "\<forall>c \<in> set t. \<not> ws c \<Longrightarrow> split_ws ws (t @ s) cur = split_ws ws s (cur @ t)"
  by (induction t arbitrary: cur) auto

lemma split_ws_last: "\<forall>c \<in> set t. \<not> ws c \<Longrightarrow> split_ws ws t cur = (if cur @ t = [] then [] else [cur @ t])"
  by (induction t arbitrary: cur) auto

lemma split_ws_join:
  assumes "\<forall>t \<in> set ts. t \<noteq> [] \<and> (\<forall>c \<in> set t. \<not> ws c)" "ws d"
  shows "split_ws ws (join [d] ts) [] = ts"
  using assms
  by (induction "[d]" ts rule: join.induct) (simp_all add: split_ws_token split_ws_last)

section \<open>ASCII tables\<close>

text \<open>Tables that are right on ASCII, to evaluate the definitions at.\<close>

definition ascii :: unicode where
  "ascii = \<lparr>is_whitespace = (\<lambda>c. c = 32 \<or> 9 \<le> c \<and> c \<le> 13),
     is_alphanumeric = (\<lambda>c. 48 \<le> c \<and> c \<le> 57 \<or> 65 \<le> c \<and> c \<le> 90 \<or> 97 \<le> c \<and> c \<le> 122),
     to_uppercase = map (\<lambda>c. if 97 \<le> c \<and> c \<le> 122 then c - 32 else c),
     to_lowercase = map (\<lambda>c. if 65 \<le> c \<and> c \<le> 90 then c + 32 else c)\<rparr>"

end
