(* ===== verification/Plan_Cache.thy ===== *)
theory Plan_Cache
  imports Text
begin

text \<open>
  Prepared statements and the plan cache (\<open>verisim-planner/src/prepared.rs\<close>): the normalization of a
  query and its fingerprint, the parameters it names, and the cache with its expiry and its eviction
  of the least recently used statement. Logical plans, physical plans and floating-point parameters
  are type variables; SHA-256 and the Unicode tables are parameters; each read of the clock is an
  argument. An operation is one step, as each holds the lock of the statements while it changes
  them; the running averages, which are floating-point numbers, are left out.
\<close>

section \<open>Types\<close>

datatype 'f param_value =
    PString ustring
  | PInt int
  | PFloat 'f
  | PBool bool
  | PVector "'f list"
  | PNull

record ('l, 'p) prepared_statement =
  ps_id :: string
  original_query :: ustring
  parameter_names :: "ustring list"
  logical_plan :: 'l
  cached_physical_plan :: "'p option"
  created_at :: datetime
  last_used :: datetime
  use_count :: u64

record cache_config =
  max_entries :: nat
  ttl_seconds :: u64
  enable_plan_cache :: bool
  enable_result_cache :: bool
  max_result_cache_bytes :: nat

definition cache_config_default :: cache_config where
  "cache_config_default = \<lparr>max_entries = 1024, ttl_seconds = 3600, enable_plan_cache = True,
     enable_result_cache = False, max_result_cache_bytes = 64 * 1024 * 1024\<rparr>"

record cache_stats =
  total_entries :: nat
  cs_hit_count :: u64
  cs_miss_count :: u64
  cs_eviction_count :: u64
  cs_generation :: u64

datatype cache_error =
    StmtNotFound string
  | ParameterMismatch "ustring list" "ustring list"
  | Expired string
  | CacheFull

record ('l, 'p) plan_cache =
  config :: cache_config
  statements :: "(string \<times> ('l, 'p) prepared_statement) list"
  fingerprints :: "(string \<times> string) list"
  generation :: u64
  hit_count :: u64
  miss_count :: u64
  eviction_count :: u64

record cache_env =
  uc :: unicode
  sha256 :: "u8 list \<Rightarrow> u8 list"

definition plan_cache_new :: "cache_config \<Rightarrow> ('l, 'p) plan_cache" where
  "plan_cache_new cfg = \<lparr>config = cfg, statements = [], fingerprints = [], generation = 0,
     hit_count = 0, miss_count = 0, eviction_count = 0\<rparr>"

section \<open>Normalization, fingerprint, parameters\<close>

definition query_keywords :: "ustring list" where
  "query_keywords = map lit
     [''SELECT'', ''WHERE'', ''FROM'', ''SEARCH'', ''LIMIT'', ''ORDER'', ''BY'', ''GROUP'',
      ''AND'', ''OR'', ''NOT'', ''JOIN'', ''ON'', ''AS'', ''HAVING'', ''INSERT'', ''UPDATE'',
      ''DELETE'', ''SET'', ''INTO'', ''VALUES'', ''WITH'', ''UNION'', ''INTERSECT'', ''EXCEPT'',
      ''EXISTS'', ''BETWEEN'', ''LIKE'', ''IN'', ''IS'', ''NULL'', ''TRUE'', ''FALSE'',
      ''ASC'', ''DESC'', ''DISTINCT'', ''ALL'', ''ANY'', ''SOME'', ''CASE'', ''WHEN'', ''THEN'',
      ''ELSE'', ''END'',
      ''PROOF'', ''VERIFY'', ''DRIFT'', ''OCTAD'', ''MODALITY'', ''TYPE'',
      ''GRAPH'', ''VECTOR'', ''TENSOR'', ''SEMANTIC'', ''DOCUMENT'', ''TEMPORAL'']"

definition normalize_token :: "unicode \<Rightarrow> ustring \<Rightarrow> ustring" where
  "normalize_token u token = (if to_uppercase u token \<in> set query_keywords then to_lowercase u token else token)"

definition normalize_query :: "unicode \<Rightarrow> ustring \<Rightarrow> ustring" where
  "normalize_query u query =
     (let collapsed = join [32] (split_whitespace u query)
      in join [32] (map (normalize_token u) (split_on 32 collapsed)))"

definition fingerprint :: "cache_env \<Rightarrow> ustring \<Rightarrow> string" where
  "fingerprint env query = to_hex (sha256 env (as_bytes (normalize_query (uc env) query)))"

function parameters_loop :: "unicode \<Rightarrow> ustring \<Rightarrow> ustring list \<Rightarrow> ustring list" where
  "parameters_loop u [] params = params"
| "parameters_loop u (ch # chars) params =
     (if ch = 36 then
        (let word = (\<lambda>c. is_alphanumeric u c \<or> c = 95);
             name = 36 # takeWhile word chars
         in parameters_loop u (dropWhile word chars)
              (if 1 < length name \<and> name \<notin> set params then params @ [name] else params))
      else parameters_loop u chars params)"
  by pat_completeness auto
termination
  by (relation "measure (\<lambda>(u, chars, params). length chars)") (auto simp: le_imp_less_Suc length_dropWhile_le)

definition extract_parameters :: "unicode \<Rightarrow> ustring \<Rightarrow> ustring list" where
  "extract_parameters u query = parameters_loop u query []"

section \<open>Operations\<close>

text \<open>The duration of the time to live panics when it does not fit, which is \<open>None\<close>.\<close>

definition is_expired :: "datetime \<Rightarrow> ('l, 'p) plan_cache \<Rightarrow> ('l, 'p) prepared_statement \<Rightarrow> bool option" where
  "is_expired now c stmt =
     (case duration_seconds (ttl_seconds (config c)) of
        None \<Rightarrow> None
      | Some ttl \<Rightarrow> Some (ttl < now - created_at stmt))"

text \<open>Removal of a statement with the fingerprint of its query, as the evictions do it.\<close>

definition remove_stmt :: "cache_env \<Rightarrow> string \<Rightarrow> ('l, 'p) plan_cache \<Rightarrow> ('l, 'p) plan_cache" where
  "remove_stmt env i c =
     (case map_of (statements c) i of
        None \<Rightarrow> c
      | Some stmt \<Rightarrow>
          c\<lparr>statements := AList.delete i (statements c),
            fingerprints := AList.delete (fingerprint env (original_query stmt)) (fingerprints c)\<rparr>)"

text \<open>\<open>min_by_key\<close> keeps the first of equal minima.\<close>

fun min_by_last_used ::
  "(string \<times> ('l, 'p) prepared_statement) list \<Rightarrow> (string \<times> ('l, 'p) prepared_statement) option" where
  "min_by_last_used [] = None"
| "min_by_last_used (kv # m) =
     (case min_by_last_used m of
        None \<Rightarrow> Some kv
      | Some kv' \<Rightarrow> if last_used (snd kv') < last_used (snd kv) then Some kv' else Some kv)"

definition evict_lru_inner :: "cache_env \<Rightarrow> ('l, 'p) plan_cache \<Rightarrow> nat \<times> ('l, 'p) plan_cache" where
  "evict_lru_inner env c =
     (case map_option fst (min_by_last_used (statements c)) of
        None \<Rightarrow> (0, c)
      | Some i \<Rightarrow>
          (let c = remove_stmt env i c
           in (1, c\<lparr>eviction_count := eviction_count c + 1, generation := generation c + 1\<rparr>)))"

definition prepare ::
  "cache_env \<Rightarrow> datetime \<Rightarrow> ustring \<Rightarrow> 'l \<Rightarrow> ('l, 'p) plan_cache \<Rightarrow> string \<times> ('l, 'p) plan_cache" where
  "prepare env now query plan c =
     (let fp = fingerprint env query in
      case map_of (statements c) fp of
        Some stmt \<Rightarrow>
          (fp, c\<lparr>statements := AList.update fp (stmt\<lparr>last_used := now\<rparr>) (statements c),
                 generation := generation c + 1\<rparr>)
      | None \<Rightarrow>
          (let stmt = \<lparr>ps_id = fp, original_query = query,
                       parameter_names = extract_parameters (uc env) query, logical_plan = plan,
                       cached_physical_plan = None, created_at = now, last_used = now, use_count = 0\<rparr>;
               c = (if max_entries (config c) \<le> length (statements c) then snd (evict_lru_inner env c) else c)
           in (fp, c\<lparr>statements := AList.update fp stmt (statements c),
                     fingerprints := AList.update fp fp (fingerprints c),
                     generation := generation c + 1\<rparr>)))"

definition cache_get ::
  "datetime \<Rightarrow> string \<Rightarrow> ('l, 'p) plan_cache
     \<Rightarrow> (('l, 'p) prepared_statement option \<times> ('l, 'p) plan_cache) option" where
  "cache_get now i c =
     (case map_of (statements c) i of
        None \<Rightarrow> Some (None, c\<lparr>miss_count := miss_count c + 1\<rparr>)
      | Some stmt \<Rightarrow>
          (case is_expired now c stmt of
             None \<Rightarrow> None
           | Some True \<Rightarrow> Some (None, c\<lparr>miss_count := miss_count c + 1\<rparr>)
           | Some False \<Rightarrow> Some (Some stmt, c\<lparr>hit_count := hit_count c + 1\<rparr>)))"

definition execute_prepared ::
  "datetime \<Rightarrow> datetime \<Rightarrow> string \<Rightarrow> (ustring \<times> 'f param_value) list \<Rightarrow> ('l, 'p) plan_cache
     \<Rightarrow> ((cache_error + ('l, 'p) prepared_statement) \<times> ('l, 'p) plan_cache) option" where
  "execute_prepared now now' i params c =
     (case map_of (statements c) i of
        None \<Rightarrow> Some (Inl (StmtNotFound i), c)
      | Some stmt \<Rightarrow>
          (case is_expired now c stmt of
             None \<Rightarrow> None
           | Some True \<Rightarrow> Some (Inl (Expired i), c\<lparr>statements := AList.delete i (statements c)\<rparr>)
           | Some False \<Rightarrow>
               (if parameter_names stmt \<noteq> [] \<and> sort (parameter_names stmt) \<noteq> sort (map fst params)
                then Some (Inl (ParameterMismatch (parameter_names stmt) (map fst params)), c)
                else (let stmt = stmt\<lparr>use_count := use_count stmt + 1, last_used := now'\<rparr>
                      in Some (Inr stmt,
                           c\<lparr>statements := AList.update i stmt (statements c),
                             hit_count := hit_count c + 1, generation := generation c + 1\<rparr>)))))"

definition invalidate :: "cache_env \<Rightarrow> string \<Rightarrow> ('l, 'p) plan_cache \<Rightarrow> bool \<times> ('l, 'p) plan_cache" where
  "invalidate env i c =
     (if map_of (statements c) i = None then (False, c)
      else let c = remove_stmt env i c
           in (True, c\<lparr>eviction_count := eviction_count c + 1, generation := generation c + 1\<rparr>))"

definition invalidate_all :: "('l, 'p) plan_cache \<Rightarrow> ('l, 'p) plan_cache" where
  "invalidate_all c =
     c\<lparr>statements := [], fingerprints := [],
       eviction_count := eviction_count c + word_of_nat (length (statements c)),
       generation := generation c + 1\<rparr>"

definition lookup_by_query ::
  "cache_env \<Rightarrow> ustring \<Rightarrow> ('l, 'p) plan_cache \<Rightarrow> string option \<times> ('l, 'p) plan_cache" where
  "lookup_by_query env query c =
     (case map_of (fingerprints c) (fingerprint env query) of
        Some i \<Rightarrow> (Some i, c\<lparr>hit_count := hit_count c + 1\<rparr>)
      | None \<Rightarrow> (None, c\<lparr>miss_count := miss_count c + 1\<rparr>))"

definition cache_plan :: "string \<Rightarrow> 'p \<Rightarrow> ('l, 'p) plan_cache \<Rightarrow> ('l, 'p) plan_cache" where
  "cache_plan i plan c =
     (case map_of (statements c) i of
        None \<Rightarrow> c
      | Some stmt \<Rightarrow>
          c\<lparr>statements := AList.update i (stmt\<lparr>cached_physical_plan := Some plan\<rparr>) (statements c),
            generation := generation c + 1\<rparr>)"

definition stats_async :: "('l, 'p) plan_cache \<Rightarrow> cache_stats" where
  "stats_async c = \<lparr>total_entries = length (statements c), cs_hit_count = hit_count c,
     cs_miss_count = miss_count c, cs_eviction_count = eviction_count c, cs_generation = generation c\<rparr>"

definition evict_expired ::
  "cache_env \<Rightarrow> datetime \<Rightarrow> ('l, 'p) plan_cache \<Rightarrow> (nat \<times> ('l, 'p) plan_cache) option" where
  "evict_expired env now c =
     (case duration_seconds (ttl_seconds (config c)) of
        None \<Rightarrow> None
      | Some ttl \<Rightarrow>
          (let expired = map fst (filter (\<lambda>(_, stmt). ttl < now - created_at stmt) (statements c));
               count = length expired;
               c = fold (remove_stmt env) expired c;
               c = c\<lparr>eviction_count := eviction_count c + word_of_nat count\<rparr>
           in Some (count, if 0 < count then c\<lparr>generation := generation c + 1\<rparr> else c)))"

definition evict_lru :: "cache_env \<Rightarrow> ('l, 'p) plan_cache \<Rightarrow> nat \<times> ('l, 'p) plan_cache" where
  "evict_lru env c =
     (if length (statements c) \<le> max_entries (config c) then (0, c) else evict_lru_inner env c)"

section \<open>The invariant of the cache\<close>

text \<open>
  Statements are stored under the fingerprint of their query, with the parameters the query names,
  and are indexed under it; there are never more than \<open>max_entries\<close>, or one when that is zero.
  \<open>cache_inv\<close> also relates them to the history of calls: each was prepared from its query.
\<close>

datatype ('l, 'p, 'f) cache_op =
    CPrepare datetime ustring 'l
  | CGet datetime string
  | CExecute datetime datetime string "(ustring \<times> 'f param_value) list"
  | CInvalidate string
  | CInvalidateAll
  | CLookup ustring
  | CCachePlan string 'p
  | CEvictExpired datetime
  | CEvictLru

fun cache_step1 :: "cache_env \<Rightarrow> ('l, 'p) plan_cache \<Rightarrow> ('l, 'p, 'f) cache_op \<Rightarrow> ('l, 'p) plan_cache" where
  "cache_step1 env c (CPrepare now query plan) = snd (prepare env now query plan c)"
| "cache_step1 env c (CGet now i) = (case cache_get now i c of None \<Rightarrow> c | Some (_, c') \<Rightarrow> c')"
| "cache_step1 env c (CExecute now now' i params) =
     (case execute_prepared now now' i params c of None \<Rightarrow> c | Some (_, c') \<Rightarrow> c')"
| "cache_step1 env c (CInvalidate i) = snd (invalidate env i c)"
| "cache_step1 env c CInvalidateAll = invalidate_all c"
| "cache_step1 env c (CLookup query) = snd (lookup_by_query env query c)"
| "cache_step1 env c (CCachePlan i plan) = cache_plan i plan c"
| "cache_step1 env c (CEvictExpired now) = (case evict_expired env now c of None \<Rightarrow> c | Some (_, c') \<Rightarrow> c')"
| "cache_step1 env c CEvictLru = snd (evict_lru env c)"

fun cache_step ::
  "cache_env \<Rightarrow> ('l, 'p) plan_cache \<times> ('l, 'p, 'f) cache_op list \<Rightarrow> ('l, 'p, 'f) cache_op
     \<Rightarrow> ('l, 'p) plan_cache \<times> ('l, 'p, 'f) cache_op list" where
  "cache_step env (c, hist) op = (cache_step1 env c op, hist @ [op])"

text \<open>What a statement keeps as long as it is cached.\<close>

definition stmt_core :: "('l, 'p) prepared_statement \<Rightarrow> string \<times> ustring \<times> ustring list \<times> 'l \<times> datetime" where
  "stmt_core s = (ps_id s, original_query s, parameter_names s, logical_plan s, created_at s)"

definition cache_wf :: "cache_env \<Rightarrow> ('l, 'p) plan_cache \<Rightarrow> bool" where
  "cache_wf env c \<longleftrightarrow> hm_wf (statements c) \<and> hm_wf (fingerprints c)
     \<and> length (statements c) \<le> max 1 (max_entries (config c))
     \<and> (\<forall>i s. map_of (statements c) i = Some s \<longrightarrow>
          i = fingerprint env (original_query s) \<and> ps_id s = i
          \<and> parameter_names s = extract_parameters (uc env) (original_query s)
          \<and> map_of (fingerprints c) i = Some i)"

definition was_prepared :: "('l, 'p, 'f) cache_op list \<Rightarrow> ('l, 'p) prepared_statement \<Rightarrow> bool" where
  "was_prepared hist s \<longleftrightarrow> CPrepare (created_at s) (original_query s) (logical_plan s) \<in> set hist"

fun cache_inv :: "cache_env \<Rightarrow> cache_config \<Rightarrow> ('l, 'p) plan_cache \<times> ('l, 'p, 'f) cache_op list \<Rightarrow> bool" where
  "cache_inv env cfg (c, hist) \<longleftrightarrow> cache_wf env c \<and> config c = cfg
     \<and> (\<forall>i s. map_of (statements c) i = Some s \<longrightarrow> was_prepared hist s)"

lemma cache_wfD:
  assumes "cache_wf env c" "map_of (statements c) i = Some s"
  shows "i = fingerprint env (original_query s)" "ps_id s = i"
    "parameter_names s = extract_parameters (uc env) (original_query s)"
    "map_of (fingerprints c) i = Some i"
  using assms unfolding cache_wf_def by metis+

text \<open>A change that adds no statement and keeps the core and the index of those that stay.\<close>

definition keeps_stmts :: "('l, 'p) plan_cache \<Rightarrow> ('l, 'p) plan_cache \<Rightarrow> bool" where
  "keeps_stmts c c' \<longleftrightarrow> hm_wf (statements c') \<and> hm_wf (fingerprints c')
     \<and> length (statements c') \<le> length (statements c) \<and> config c' = config c
     \<and> (\<forall>i s'. map_of (statements c') i = Some s' \<longrightarrow>
          (\<exists>s. map_of (statements c) i = Some s \<and> stmt_core s' = stmt_core s)
          \<and> map_of (fingerprints c') i = map_of (fingerprints c) i)"

lemma length_update: "length (AList.update k v m) = (if map_of m k = None then Suc (length m) else length m)"
  by (induction m) auto

lemma length_delete_less: "map_of m k \<noteq> None \<Longrightarrow> length (AList.delete k m) < length m"
  by (induction m) (auto simp: AList.delete_eq less_Suc_eq_le split: if_splits)

lemma keeps_wf: "cache_wf env c \<Longrightarrow> keeps_stmts c c' \<Longrightarrow> cache_wf env c'"
  unfolding cache_wf_def keeps_stmts_def stmt_core_def by (auto 0 3)

lemma keeps_prepared:
  assumes "keeps_stmts c c'" "\<And>i s. map_of (statements c) i = Some s \<Longrightarrow> was_prepared hist s"
    and "map_of (statements c') i = Some s'"
  shows "was_prepared hist s'"
proof -
  obtain s where "map_of (statements c) i = Some s" "stmt_core s' = stmt_core s"
    using assms(1,3) by (auto simp: keeps_stmts_def)
  with assms(2) [of i s] show ?thesis by (simp add: was_prepared_def stmt_core_def)
qed

lemma keeps_refl: "cache_wf env c \<Longrightarrow> keeps_stmts c c"
  by (simp add: keeps_stmts_def cache_wf_def)

lemma keeps_trans: "keeps_stmts a b \<Longrightarrow> keeps_stmts b c \<Longrightarrow> keeps_stmts a c"
  unfolding keeps_stmts_def by (elim conjE) (intro conjI; fastforce)

lemma keeps_remove: "cache_wf env c \<Longrightarrow> keeps_stmts c (remove_stmt env i c)"
  by (auto simp: keeps_stmts_def cache_wf_def remove_stmt_def length_delete_le split: option.split)

lemma keeps_fold_remove: "cache_wf env c \<Longrightarrow> keeps_stmts c (fold (remove_stmt env) is c)"
proof (induction "is" arbitrary: c)
  case Nil
  then show ?case by (simp add: keeps_refl)
next
  case (Cons i "is")
  note k = keeps_remove [OF Cons.prems, of i]
  from keeps_trans [OF k Cons.IH [OF keeps_wf [OF Cons.prems k]]] show ?case by simp
qed

lemma keeps_counters:
  "keeps_stmts c (c'\<lparr>eviction_count := e\<rparr>) \<longleftrightarrow> keeps_stmts c c'"
  "keeps_stmts c (c'\<lparr>generation := g\<rparr>) \<longleftrightarrow> keeps_stmts c c'"
  "keeps_stmts c (c'\<lparr>hit_count := h\<rparr>) \<longleftrightarrow> keeps_stmts c c'"
  "keeps_stmts c (c'\<lparr>miss_count := m\<rparr>) \<longleftrightarrow> keeps_stmts c c'"
  by (simp_all add: keeps_stmts_def)

lemma keeps_update:
  "cache_wf env c \<Longrightarrow> map_of (statements c) i = Some s \<Longrightarrow> stmt_core s' = stmt_core s
     \<Longrightarrow> keeps_stmts c (c\<lparr>statements := AList.update i s' (statements c)\<rparr>)"
  by (auto simp: keeps_stmts_def cache_wf_def length_update)

lemma keeps_evict_lru_inner: "cache_wf env c \<Longrightarrow> keeps_stmts c (snd (evict_lru_inner env c))"
  by (auto simp: evict_lru_inner_def Let_def keeps_counters keeps_remove keeps_refl split: option.split)

lemma keeps_clear: "keeps_stmts c (c\<lparr>statements := [], fingerprints := []\<rparr>)"
  by (simp add: keeps_stmts_def)

lemma keeps_delete: "cache_wf env c \<Longrightarrow> keeps_stmts c (c\<lparr>statements := AList.delete i (statements c)\<rparr>)"
  by (auto simp: keeps_stmts_def cache_wf_def length_delete_le)

lemma stmt_core_update [simp]:
  "stmt_core (s\<lparr>use_count := n\<rparr>) = stmt_core s" "stmt_core (s\<lparr>last_used := t\<rparr>) = stmt_core s"
  "stmt_core (s\<lparr>cached_physical_plan := p\<rparr>) = stmt_core s"
  by (simp_all add: stmt_core_def)

lemmas keeps_intros = keeps_counters keeps_refl keeps_remove keeps_fold_remove keeps_clear keeps_delete
  keeps_update keeps_evict_lru_inner

lemma keeps_execute:
  assumes "cache_wf env c" "execute_prepared now now' i params c = Some (r, c')"
  shows "keeps_stmts c c'"
proof (cases "map_of (statements c) i")
  case None
  with assms show ?thesis by (auto simp: execute_prepared_def keeps_intros)
next
  case (Some s)
  note u = keeps_update [OF assms(1) Some, of "s\<lparr>use_count := use_count s + 1, last_used := now'\<rparr>", simplified]
  show ?thesis
    using assms Some keeps_delete [OF assms(1), of i] keeps_refl [OF assms(1)] u
    by (auto simp: execute_prepared_def Let_def keeps_counters split: option.splits bool.splits if_splits)
qed

lemma keeps_step:
  assumes "cache_wf env c" "\<forall>now query plan. op \<noteq> CPrepare now query plan"
  shows "keeps_stmts c (cache_step1 env c op)"
proof (cases op)
  case (CPrepare now query plan)
  with assms(2) show ?thesis by simp
next
  case (CGet now i)
  then show ?thesis using keeps_refl [OF assms(1)]
    by (auto simp: cache_get_def keeps_counters split: option.splits bool.splits)
next
  case (CExecute now now' i params)
  then show ?thesis using keeps_execute [OF assms(1)] keeps_refl [OF assms(1)]
    by (auto split: option.split)
next
  case (CInvalidate i)
  then show ?thesis using assms(1) by (simp add: invalidate_def Let_def keeps_intros)
next
  case CInvalidateAll
  then show ?thesis using keeps_clear [of c] by (simp add: invalidate_all_def keeps_counters)
next
  case (CLookup query)
  then show ?thesis using assms(1) by (simp add: lookup_by_query_def keeps_intros split: option.split)
next
  case (CCachePlan i plan)
  then show ?thesis using assms(1) by (simp add: cache_plan_def keeps_intros split: option.split)
next
  case (CEvictExpired now)
  then show ?thesis using assms(1) by (simp add: evict_expired_def Let_def keeps_intros split: option.split)
next
  case CEvictLru
  then show ?thesis using assms(1) by (simp add: evict_lru_def keeps_intros)
qed

text \<open>The statement chosen for eviction.\<close>

lemma min_by_last_used:
  "m \<noteq> [] \<Longrightarrow> \<exists>kv. min_by_last_used m = Some kv \<and> kv \<in> set m
     \<and> (\<forall>kv' \<in> set m. last_used (snd kv) \<le> last_used (snd kv'))"
proof (induction m)
  case (Cons kv m)
  show ?case
  proof (cases "m = []")
    case False
    with Cons.IH obtain kv' where "min_by_last_used m = Some kv'" "kv' \<in> set m"
      "\<forall>x \<in> set m. last_used (snd kv') \<le> last_used (snd x)" by blast
    then show ?thesis
      by (intro exI [of _ "if last_used (snd kv') < last_used (snd kv) then kv' else kv"]) auto
  qed simp
qed simp

lemma evict_lru_inner_removes:
  assumes "cache_wf env c" "statements c \<noteq> []"
  obtains i s where "map_of (statements c) i = Some s"
    "\<forall>j t. map_of (statements c) j = Some t \<longrightarrow> last_used s \<le> last_used t"
    "statements (snd (evict_lru_inner env c)) = AList.delete i (statements c)"
    "fingerprints (snd (evict_lru_inner env c)) = AList.delete i (fingerprints c)"
proof -
  obtain i s where m: "min_by_last_used (statements c) = Some (i, s)" "(i, s) \<in> set (statements c)"
    "\<forall>kv \<in> set (statements c). last_used s \<le> last_used (snd kv)"
    using min_by_last_used [OF assms(2)] by auto
  have s: "map_of (statements c) i = Some s" using assms(1) m(2) by (simp add: cache_wf_def hm_wf_def)
  moreover have "fingerprint env (original_query s) = i" using assms(1) s by (auto simp: cache_wf_def)
  moreover have "\<forall>j t. map_of (statements c) j = Some t \<longrightarrow> last_used s \<le> last_used t"
    using m(3) by (auto dest!: map_of_SomeD)
  ultimately show thesis
    using that m(1) by (simp add: evict_lru_inner_def remove_stmt_def Let_def)
qed

lemma length_evict_lru_inner:
  "cache_wf env c \<Longrightarrow> statements c \<noteq> []
     \<Longrightarrow> length (statements (snd (evict_lru_inner env c))) < length (statements c)"
  by (metis evict_lru_inner_removes length_delete_less option.distinct(1))

text \<open>The cache after the eviction a \<open>prepare\<close> may make first.\<close>

definition make_room :: "cache_env \<Rightarrow> ('l, 'p) plan_cache \<Rightarrow> ('l, 'p) plan_cache" where
  "make_room env c =
     (if max_entries (config c) \<le> length (statements c) then snd (evict_lru_inner env c) else c)"

lemma make_room_keeps:
  assumes "cache_wf env c"
  shows "keeps_stmts c (make_room env c)" and "length (statements (make_room env c)) < max 1 (max_entries (config c))"
proof -
  show "keeps_stmts c (make_room env c)" using assms by (simp add: make_room_def keeps_intros)
  show "length (statements (make_room env c)) < max 1 (max_entries (config c))"
  proof (cases "max_entries (config c) \<le> length (statements c)")
    case False
    then show ?thesis by (simp add: make_room_def)
  next
    case True
    show ?thesis
    proof (cases "statements c = []")
      case True
      then show ?thesis by (simp add: make_room_def evict_lru_inner_def)
    next
      case False
      have "length (statements c) \<le> max 1 (max_entries (config c))" using assms by (simp add: cache_wf_def)
      with True length_evict_lru_inner [OF assms False] show ?thesis by (simp add: make_room_def)
    qed
  qed
qed

definition fresh_stmt :: "cache_env \<Rightarrow> datetime \<Rightarrow> ustring \<Rightarrow> 'l \<Rightarrow> ('l, 'p) prepared_statement" where
  "fresh_stmt env now query plan = \<lparr>ps_id = fingerprint env query, original_query = query,
     parameter_names = extract_parameters (uc env) query, logical_plan = plan,
     cached_physical_plan = None, created_at = now, last_used = now, use_count = 0\<rparr>"

lemma prepare_new:
  assumes "map_of (statements c) (fingerprint env query) = None"
  shows "statements (snd (prepare env now query plan c))
      = AList.update (fingerprint env query) (fresh_stmt env now query plan) (statements (make_room env c))"
    and "fingerprints (snd (prepare env now query plan c))
      = AList.update (fingerprint env query) (fingerprint env query) (fingerprints (make_room env c))"
    and "config (snd (prepare env now query plan c)) = config (make_room env c)"
  using assms by (simp_all add: prepare_def Let_def make_room_def fresh_stmt_def)

lemma cache_wf_generation: "cache_wf env (c\<lparr>generation := g\<rparr>) \<longleftrightarrow> cache_wf env c"
  by (simp add: cache_wf_def)

lemma prepare_wf:
  assumes "cache_wf env c"
  shows "cache_wf env (snd (prepare env now query plan c))"
proof (cases "map_of (statements c) (fingerprint env query)")
  case (Some s)
  have "cache_wf env (c\<lparr>statements := AList.update (fingerprint env query) (s\<lparr>last_used := now\<rparr>) (statements c)\<rparr>)"
    by (rule keeps_wf [OF assms keeps_update [OF assms Some]]) simp
  then show ?thesis by (simp add: prepare_def Let_def Some cache_wf_generation)
next
  case None
  have cfg: "config (make_room env c) = config c" using make_room_keeps(1) [OF assms] by (simp add: keeps_stmts_def)
  have r: "cache_wf env (make_room env c)" using keeps_wf assms make_room_keeps(1) by blast
  have stmts: "i = fingerprint env (original_query s) \<and> ps_id s = i
      \<and> parameter_names s = extract_parameters (uc env) (original_query s)
      \<and> map_of (fingerprints (snd (prepare env now query plan c))) i = Some i"
    if "map_of (statements (snd (prepare env now query plan c))) i = Some s" for i s
  proof (cases "i = fingerprint env query")
    case True
    with that show ?thesis by (auto simp: prepare_new [OF None] fresh_stmt_def)
  next
    case False
    with that r show ?thesis by (simp add: prepare_new [OF None] cache_wf_def)
  qed
  have "length (statements (snd (prepare env now query plan c)))
      \<le> max 1 (max_entries (config (snd (prepare env now query plan c))))"
    using make_room_keeps(2) [OF assms] by (simp add: prepare_new [OF None] length_update cfg)
  moreover have "hm_wf (statements (snd (prepare env now query plan c)))"
    "hm_wf (fingerprints (snd (prepare env now query plan c)))"
    using r by (simp_all add: prepare_new [OF None] cache_wf_def)
  ultimately show ?thesis using stmts unfolding cache_wf_def by blast
qed

lemma cache_step_inv: "cache_inv env cfg s \<Longrightarrow> cache_inv env cfg (cache_step env s op)"
proof (cases s)
  case (Pair c hist)
  assume "cache_inv env cfg s"
  then have inv: "cache_wf env c" "config c = cfg"
    "\<And>i s. map_of (statements c) i = Some s \<Longrightarrow> was_prepared hist s" by (auto simp: Pair)
  have more: "was_prepared hist s \<Longrightarrow> was_prepared (hist @ [op]) s" for s by (simp add: was_prepared_def)
  show ?thesis
  proof (cases "\<exists>now query plan. op = CPrepare now query plan")
    case False
    then have k: "keeps_stmts c (cache_step1 env c op)" using keeps_step [OF inv(1)] by blast
    then have "config (cache_step1 env c op) = cfg" using inv(2) by (simp add: keeps_stmts_def)
    then show ?thesis
      using keeps_wf [OF inv(1) k] keeps_prepared [OF k inv(3)] more by (auto simp: Pair)
  next
    case True
    then obtain now query plan where op: "op = CPrepare now query plan" by blast
    note wf' = prepare_wf [OF inv(1), of now query plan]
    show ?thesis
    proof (cases "map_of (statements c) (fingerprint env query)")
      case (Some s)
      with wf' inv(2,3) more show ?thesis
        by (auto simp: Pair op prepare_def Let_def was_prepared_def dest: inv(3))
    next
      case None
      have "config (make_room env c) = cfg"
        using make_room_keeps(1) [OF inv(1)] inv(2) by (simp add: keeps_stmts_def)
      with wf' more keeps_prepared [OF make_room_keeps(1) [OF inv(1)] inv(3)] show ?thesis
        by (auto simp: Pair op prepare_new [OF None] was_prepared_def fresh_stmt_def)
    qed
  qed
qed

interpretation cache: step_system "cache_step env" "\<lambda>_ _. True" "cache_inv env cfg"
  by unfold_locales (rule cache_step_inv)

lemma run_cache_hist: "snd (run (cache_step env) (c, hist) ops) = hist @ ops"
  by (induction ops arbitrary: c hist) auto

text \<open>The cache after a list of calls.\<close>

definition cache_after :: "cache_env \<Rightarrow> cache_config \<Rightarrow> ('l, 'p, 'f) cache_op list \<Rightarrow> ('l, 'p) plan_cache" where
  "cache_after env cfg ops = fst (run (cache_step env) (plan_cache_new cfg, []) ops)"

lemma cache_after_inv:
  fixes ops :: "('l, 'p, 'f) cache_op list" and env cfg
  defines "c \<equiv> (cache_after env cfg ops :: ('l, 'p) plan_cache)"
  shows "cache_wf env c" "config c = cfg" "map_of (statements c) i = Some s \<Longrightarrow> was_prepared ops s"
proof -
  have "cache_inv env cfg (plan_cache_new cfg :: ('l, 'p) plan_cache, [] :: ('l, 'p, 'f) cache_op list)"
    by (simp add: plan_cache_new_def cache_wf_def)
  then have "cache_inv env cfg (run (cache_step env) (plan_cache_new cfg, []) ops)"
    by (rule cache.run_inv) simp
  then have "cache_inv env cfg (c, ops)"
    using run_cache_hist [of env "plan_cache_new cfg" "[]" ops]
    unfolding c_def cache_after_def by (metis append_Nil prod.collapse)
  then show "cache_wf env c" "config c = cfg" "map_of (statements c) i = Some s \<Longrightarrow> was_prepared ops s" by auto
qed

section \<open>Queries with the same fingerprint\<close>

text \<open>The laws of the Unicode tables the normalization relies on.\<close>

definition unicode_ok :: "unicode \<Rightarrow> bool" where
  "unicode_ok u \<longleftrightarrow> is_whitespace u 32 \<and> to_uppercase u [] = []"

lemma normalize_token_Nil: "unicode_ok u \<Longrightarrow> normalize_token u [] = []"
  by (simp add: normalize_token_def unicode_ok_def query_keywords_def lit_def)

lemma normalize_query_tokens:
  assumes "unicode_ok u"
  shows "normalize_query u q = join [32] (map (normalize_token u) (split_whitespace u q))"
proof (cases "split_whitespace u q = []")
  case True
  with normalize_token_Nil [OF assms] show ?thesis by (simp add: normalize_query_def)
next
  case False
  have "\<forall>t \<in> set (split_whitespace u q). 32 \<notin> set t"
    using split_whitespace_tokens assms unfolding unicode_ok_def by blast
  from split_on_join [OF False this] show ?thesis by (simp add: normalize_query_def Let_def)
qed

text \<open>The parameters of a query are distinct.\<close>

lemma distinct_parameters_loop: "distinct ps \<Longrightarrow> distinct (parameters_loop u s ps)"
  by (induction u s ps rule: parameters_loop.induct) (simp_all add: Let_def)

lemma sort_eq_iff_set_eq:
  "distinct xs \<Longrightarrow> distinct ys \<Longrightarrow> sort xs = sort ys \<longleftrightarrow> set xs = set (ys :: 'a::linorder list)"
  by (metis distinct_sort set_sort sorted_distinct_set_unique sorted_sort)

section \<open>Properties\<close>


definition ex_cache_env :: cache_env where
  "ex_cache_env = \<lparr>uc = ascii, sha256 = (\<lambda>bs. [sum_list bs])\<rparr>"

lemma fingerprint_ex: "fingerprint ex_cache_env [] = ''00''" "fingerprint ex_cache_env [36, 97] = ''85''"
  by code_simp+


text \<open>
  eviction is least recently used. When a query that is not cached is prepared in a full cache,
  exactly one statement leaves, none of the others was used less recently, and every other one stays
  as it was.
\<close>

theorem prepare_evicts_least_recently_used:
  fixes ops :: "('l, 'p, 'f) cache_op list"
  assumes "c = (cache_after env cfg ops :: ('l, 'p) plan_cache)"
    and "map_of (statements c) (fingerprint env q) = None"
    and "statements c \<noteq> []" "max_entries cfg \<le> length (statements c)"
  shows "\<exists>i s. map_of (statements c) i = Some s
    \<and> (\<forall>j t. map_of (statements c) j = Some t \<longrightarrow> last_used s \<le> last_used t)
    \<and> map_of (statements (snd (prepare env now q plan c))) i = None
    \<and> (\<forall>j. j \<noteq> i \<and> j \<noteq> fingerprint env q
         \<longrightarrow> map_of (statements (snd (prepare env now q plan c))) j = map_of (statements c) j)
    \<and> map_option logical_plan (map_of (statements (snd (prepare env now q plan c))) (fingerprint env q)) = Some plan"
proof -
  have wf: "cache_wf env c" "config c = cfg" unfolding assms(1) by (rule cache_after_inv)+
  obtain i s where e: "map_of (statements c) i = Some s"
    "\<forall>j t. map_of (statements c) j = Some t \<longrightarrow> last_used s \<le> last_used t"
    "statements (snd (evict_lru_inner env c)) = AList.delete i (statements c)"
    by (rule evict_lru_inner_removes [OF wf(1) assms(3)])
  have room: "statements (make_room env c) = AList.delete i (statements c)"
    using assms(4) wf(2) e(3) by (simp add: make_room_def)
  have "i \<noteq> fingerprint env q" using e(1) assms(2) by auto
  with e(1,2) show ?thesis
    by (intro exI [of _ i] exI [of _ s]) (simp add: prepare_new [OF assms(2)] room fresh_stmt_def)
qed

theorem prepare_evicts_least_recently_used_witness:
  "\<exists>i. i \<noteq> ''00'' \<and> map_of (statements (snd (prepare ex_cache_env 9 [] (8 :: nat) (cache_after ex_cache_env
      (cache_config_default\<lparr>max_entries := 1\<rparr>) [CPrepare 5 [36, 97] 7 :: (nat, unit, unit) cache_op]
      :: (nat, unit) plan_cache)))) i = None"
proof -
  let ?c = "cache_after ex_cache_env (cache_config_default\<lparr>max_entries := 1\<rparr>)
    [CPrepare 5 [36, 97] (7 :: nat) :: (nat, unit, unit) cache_op] :: (nat, unit) plan_cache"
  have c: "statements ?c = [(''85'', fresh_stmt ex_cache_env 5 [36, 97] 7)]"
    by (simp add: cache_after_def plan_cache_new_def prepare_def Let_def fresh_stmt_def fingerprint_ex)
  from prepare_evicts_least_recently_used [OF refl, of ex_cache_env "cache_config_default\<lparr>max_entries := 1\<rparr>"
      "[CPrepare 5 [36, 97] (7 :: nat) :: (nat, unit, unit) cache_op]" "[]" 9 8]
  show ?thesis unfolding c fingerprint_ex by (auto split: if_splits)
qed

text \<open>
  execution validates its parameters. It succeeds exactly when \<open>get\<close> would return the statement
  and the names of the parameters given are the names the statement declares, or it declares none;
  then it returns and stores that statement with its use counted.
\<close>

theorem execute_checks_parameters:
  fixes ops :: "('l, 'p, 'f) cache_op list"
  assumes c: "c = (cache_after env cfg ops :: ('l, 'p) plan_cache)"
    and params: "distinct (map fst params)"
    and exec: "execute_prepared now now' i params c = Some (r, c')"
  shows "(is_ok r \<longleftrightarrow> (\<exists>s c''. cache_get now i c = Some (Some s, c'')
            \<and> (parameter_names s = [] \<or> set (parameter_names s) = fst ` set params)))
    \<and> (\<forall>s'. r = Inr s' \<longrightarrow> map_of (statements c') i = Some s'
        \<and> (\<exists>s c''. cache_get now i c = Some (Some s, c'') \<and> s' = s\<lparr>use_count := use_count s + 1, last_used := now'\<rparr>))"
proof (cases "map_of (statements c) i")
  case None
  with exec show ?thesis by (auto simp: execute_prepared_def cache_get_def)
next
  case (Some s)
  have "cache_wf env c" unfolding c by (rule cache_after_inv(1))
  then have "parameter_names s = extract_parameters (uc env) (original_query s)" using Some by (rule cache_wfD(3))
  then have "distinct (parameter_names s)" by (simp add: extract_parameters_def distinct_parameters_loop)
  then have sorts: "sort (parameter_names s) = sort (map fst params) \<longleftrightarrow> set (parameter_names s) = fst ` set params"
    using sort_eq_iff_set_eq [OF _ params] by simp
  show ?thesis
  proof (cases "is_expired now c s")
    case None
    with exec Some show ?thesis by (simp add: execute_prepared_def)
  next
    case live: (Some b)
    with exec Some show ?thesis
      by (cases b) (auto simp: execute_prepared_def cache_get_def Let_def sorts split: if_splits)
  qed
qed

theorem execute_checks_parameters_witness:
  "\<not> (\<exists>s c''. cache_get 6 ''85'' (cache_after ex_cache_env cache_config_default
      [CPrepare 5 [36, 97] (7 :: nat) :: (nat, unit, unit) cache_op] :: (nat, unit) plan_cache) = Some (Some s, c'')
    \<and> (parameter_names s = [] \<or> set (parameter_names s) = {[36, 98]}))"
proof -
  let ?c = "cache_after ex_cache_env cache_config_default
    [CPrepare 5 [36, 97] (7 :: nat) :: (nat, unit, unit) cache_op] :: (nat, unit) plan_cache"
  let ?s = "fresh_stmt ex_cache_env 5 [36, 97] (7 :: nat) :: (nat, unit) prepared_statement"
  have c: "config ?c = cache_config_default" "statements ?c = [(''85'', ?s)]"
    by (simp_all add: cache_after_def plan_cache_new_def prepare_def Let_def cache_config_default_def fresh_stmt_def
        fingerprint_ex)
  have names: "parameter_names ?s = [[36, 97]]"
    by (simp add: fresh_stmt_def extract_parameters_def ex_cache_env_def ascii_def Let_def)
  have live: "is_expired 6 ?c ?s = Some False"
    by (simp add: is_expired_def c(1)) (simp add: cache_config_default_def duration_seconds_def fresh_stmt_def)
  have e: "execute_prepared 6 6 ''85'' [([36, 98], PInt 3 :: unit param_value)] ?c
      = Some (Inl (ParameterMismatch [[36, 97]] [[36, 98]]), ?c)"
    by (simp add: execute_prepared_def c(2) live names)
  from conjunct1 [OF execute_checks_parameters [OF refl _ e]] show ?thesis by simp
qed

lemma fst_prepare: "fst (prepare env now q plan c) = fingerprint env q"
  by (simp add: prepare_def Let_def split: option.split)

lemma prepare_existing:
  "map_of (statements c) (fingerprint env q) = Some s \<Longrightarrow>
     statements (snd (prepare env now q plan c)) = AList.update (fingerprint env q) (s\<lparr>last_used := now\<rparr>) (statements c)"
  by (simp add: prepare_def Let_def)

text \<open>
  the fingerprint ignores layout and the case of keywords. Two queries whose tokens, split at
  white space, agree up to the case of keywords get the same identifier, and preparing the second
  after the first keeps the plan of the first.
\<close>

theorem same_tokens_share_statement:
  assumes "unicode_ok (uc env)"
    and "map (normalize_token (uc env)) (split_whitespace (uc env) q1)
       = map (normalize_token (uc env)) (split_whitespace (uc env) q2)"
  shows "fst (prepare env t1 q1 p1 c) = fst (prepare env t2 q2 p2 c')
    \<and> map_option logical_plan (map_of (statements (snd (prepare env t2 q2 p2 (snd (prepare env t1 q1 p1 c)))))
        (fst (prepare env t2 q2 p2 c')))
      = map_option logical_plan (map_of (statements (snd (prepare env t1 q1 p1 c))) (fst (prepare env t1 q1 p1 c)))"
proof -
  have fp: "fingerprint env q1 = fingerprint env q2"
    using assms by (simp add: fingerprint_def normalize_query_tokens)
  obtain s where s: "map_of (statements (snd (prepare env t1 q1 p1 c))) (fingerprint env q2) = Some s"
    by (cases "map_of (statements c) (fingerprint env q2)") (auto simp: prepare_def Let_def fp)
  show ?thesis unfolding fst_prepare fp prepare_existing [OF s] by (simp add: s)
qed

theorem same_tokens_share_statement_witness:
  "fst (prepare ex_cache_env 1 (lit ''select  x'') () (plan_cache_new cache_config_default :: (unit, unit) plan_cache))
   = fst (prepare ex_cache_env 2 (lit '' SELECT x '') () (plan_cache_new cache_config_default :: (unit, unit) plan_cache))"
proof -
  have "unicode_ok (uc ex_cache_env)" by (simp add: unicode_ok_def ex_cache_env_def ascii_def)
  moreover have "map (normalize_token (uc ex_cache_env)) (split_whitespace (uc ex_cache_env) (lit ''select  x''))
      = map (normalize_token (uc ex_cache_env)) (split_whitespace (uc ex_cache_env) (lit '' SELECT x ''))"
    by code_simp
  ultimately show ?thesis by (rule conjunct1 [OF same_tokens_share_statement])
qed

text \<open>A query with a quoted literal.\<close>

definition literal_query :: "string \<Rightarrow> ustring" where
  "literal_query value = lit ''SEARCH document WHERE title = '' @ [34] @ lit value @ [34]"

lemma literal_tokens:
  "split_whitespace ascii (literal_query ''a  b'') = split_whitespace ascii (literal_query ''a b'')"
  by code_simp

text \<open>
  the normalization reaches into string literals: two queries that differ only in the number of
  spaces inside a quoted literal share a statement, and the second is answered with the plan of the
  first, whatever hash is used.
\<close>

theorem literals_share_a_plan:
  "literal_query ''a  b'' \<noteq> literal_query ''a b''
   \<and> map_option logical_plan (map_of (statements (snd (prepare \<lparr>uc = ascii, sha256 = h\<rparr> t2 (literal_query ''a b'') p2
        (snd (prepare \<lparr>uc = ascii, sha256 = h\<rparr> t1 (literal_query ''a  b'') p1 (plan_cache_new cfg))))))
       (fst (prepare \<lparr>uc = ascii, sha256 = h\<rparr> t2 (literal_query ''a b'') p2 (plan_cache_new cfg))))
     = Some p1"
proof -
  let ?env = "\<lparr>uc = ascii, sha256 = h\<rparr>"
  have fp: "fingerprint ?env (literal_query ''a  b'') = fingerprint ?env (literal_query ''a b'')"
    by (simp add: fingerprint_def normalize_query_def literal_tokens)
  have "literal_query ''a  b'' \<noteq> literal_query ''a b''" by (simp add: literal_query_def lit_def)
  then show ?thesis by (simp add: prepare_def Let_def plan_cache_new_def fp [simplified] evict_lru_inner_def)
qed

text \<open>
  an expired statement blocks its query. Preparing the query again returns its identifier without
  renewing it, so \<open>get\<close> finds nothing and execution reports it expired, and although that execution
  removes the statement, the text of the query is still looked up to the dead identifier.
\<close>

theorem expired_statement_blocks_query:
  fixes ops :: "('l, 'p, 'f) cache_op list"
  assumes c: "c = (cache_after env cfg ops :: ('l, 'p) plan_cache)"
    and stmt: "map_of (statements c) (fingerprint env q) = Some s" "is_expired now c s = Some True"
    and prep: "prepare env now q plan c = (i, c1)" and "now \<le> later"
  shows "(\<exists>c'. cache_get later i c1 = Some (None, c'))
    \<and> (\<exists>c2. execute_prepared later later' i params c1 = Some (Inl (Expired i), c2)
        \<and> fst (lookup_by_query env q c2) = Some i \<and> (\<exists>c'. cache_get later i c2 = Some (None, c')))"
proof -
  have wf: "cache_wf env c" unfolding c by (rule cache_after_inv(1))
  have i: "i = fingerprint env q" and c1: "statements c1 = AList.update i (s\<lparr>last_used := now\<rparr>) (statements c)"
    "fingerprints c1 = fingerprints c" "config c1 = config c"
    using prep stmt(1) by (auto simp: prepare_def Let_def)
  have fp: "map_of (fingerprints c) i = Some i" unfolding i by (rule cache_wfD(4) [OF wf stmt(1)])
  have exp: "is_expired later c1 (s\<lparr>last_used := now\<rparr>) = Some True"
    using stmt(2) \<open>now \<le> later\<close> by (auto simp: is_expired_def c1(3) split: option.splits)
  have "execute_prepared later later' i params c1 = Some (Inl (Expired i), c1\<lparr>statements := AList.delete i (statements c1)\<rparr>)"
    by (simp add: execute_prepared_def c1(1) exp)
  moreover have "\<exists>c'. cache_get later i c1 = Some (None, c')" by (simp add: cache_get_def c1(1) exp)
  ultimately show ?thesis using fp by (simp add: lookup_by_query_def cache_get_def i [symmetric] c1(2))
qed

theorem expired_statement_blocks_query_witness:
  "\<exists>c' :: (nat, unit) plan_cache. cache_get 3700000000000 ''85'' (snd (prepare ex_cache_env 3700000000000 [36, 97] 8
      (cache_after ex_cache_env cache_config_default [CPrepare 5 [36, 97] (7 :: nat) :: (nat, unit, unit) cache_op])))
    = Some (None, c')"
proof -
  let ?c = "cache_after ex_cache_env cache_config_default
    [CPrepare 5 [36, 97] (7 :: nat) :: (nat, unit, unit) cache_op] :: (nat, unit) plan_cache"
  let ?s = "fresh_stmt ex_cache_env 5 [36, 97] (7 :: nat) :: (nat, unit) prepared_statement"
  have c: "config ?c = cache_config_default" "statements ?c = [(''85'', ?s)]"
    by (simp_all add: cache_after_def plan_cache_new_def prepare_def Let_def cache_config_default_def fresh_stmt_def
        fingerprint_ex)
  have s: "map_of (statements ?c) (fingerprint ex_cache_env [36, 97]) = Some ?s" by (simp add: c(2) fingerprint_ex)
  have dead: "is_expired 3700000000000 ?c ?s = Some True"
    by (simp add: is_expired_def c(1)) (simp add: cache_config_default_def duration_seconds_def fresh_stmt_def)
  obtain i c1 where p: "prepare ex_cache_env 3700000000000 [36, 97] 8 ?c = (i, c1)" by force
  then have "i = ''85''" using s by (auto simp: prepare_def Let_def fingerprint_ex)
  with conjunct1 [OF expired_statement_blocks_query [OF refl s dead p order.refl]] p show ?thesis by simp
qed

end
