(* ===== verification/Graph_Store.thy ===== *)
theory Graph_Store
  imports Prelude
begin

text \<open>
  The graph modality (\<open>verisim-graph/src/lib.rs\<close>): nodes, edges and the in-memory \<open>SimpleGraphStore\<close>
  with its subject and object indices. A poisoned lock, which needs a panic inside the store, is not
  modelled, so the operations do not fail. A \<open>HashSet\<close> is a list without duplicates.
\<close>

section \<open>Nodes and edges\<close>

text \<open>\<open>rsplit_once\<close>: the text before and after the last occurrence of a character.\<close>

definition rsplit_once :: "char \<Rightarrow> string \<Rightarrow> (string \<times> string) option" where
  "rsplit_once c s =
     (if c \<in> set s
      then Some (rev (tl (dropWhile (\<lambda>x. x \<noteq> c) (rev s))), rev (takeWhile (\<lambda>x. x \<noteq> c) (rev s)))
      else None)"

record graph_node =
  iri :: string
  local_name :: string

definition graph_node_new :: "string \<Rightarrow> graph_node" where
  "graph_node_new i = \<lparr>iri = i, local_name =
     (case rsplit_once (CHR ''/'') i of
        Some (_, name) \<Rightarrow> name
      | None \<Rightarrow> (case rsplit_once (CHR ''#'') i of Some (_, name) \<Rightarrow> name | None \<Rightarrow> i))\<rparr>"

datatype graph_object = Node graph_node | Literal string "string option"

record graph_edge =
  edge_subject :: graph_node
  edge_predicate :: graph_node
  edge_object :: graph_object

type_synonym edge_key = "string \<times> string \<times> string"

definition object_key :: "graph_object \<Rightarrow> string" where
  "object_key ob = (case ob of Node n \<Rightarrow> iri n | Literal v _ \<Rightarrow> ''literal::'' @ v)"

definition triple_key :: "graph_edge \<Rightarrow> edge_key" where
  "triple_key e = (iri (edge_subject e), iri (edge_predicate e), object_key (edge_object e))"

section \<open>The store\<close>

type_synonym key_index = "(string \<times> edge_key list) list"

record graph_store =
  edges :: "(edge_key \<times> graph_edge) list"
  subject_idx :: key_index
  object_idx :: key_index

definition graph_store_new :: graph_store where
  "graph_store_new = \<lparr>edges = [], subject_idx = [], object_idx = []\<rparr>"

definition keys_at :: "key_index \<Rightarrow> string \<Rightarrow> edge_key list" where
  "keys_at idx s = (case map_of idx s of None \<Rightarrow> [] | Some ks \<Rightarrow> ks)"

definition idx_add :: "string \<Rightarrow> edge_key \<Rightarrow> key_index \<Rightarrow> key_index" where
  "idx_add s k idx = hm_entry [] s (List.insert k) idx"

definition idx_remove :: "string \<Rightarrow> edge_key \<Rightarrow> key_index \<Rightarrow> key_index" where
  "idx_remove s k idx =
     (case map_of idx s of
        None \<Rightarrow> idx
      | Some ks \<Rightarrow>
          (let ks = removeAll k ks
           in if ks = [] then AList.delete s idx else AList.update s ks idx))"

definition gs_insert :: "graph_edge \<Rightarrow> graph_store \<Rightarrow> graph_store" where
  "gs_insert e g =
     (let k = triple_key e
      in g\<lparr>subject_idx := idx_add (iri (edge_subject e)) k (subject_idx g),
           object_idx := (case edge_object e of Node n \<Rightarrow> idx_add (iri n) k (object_idx g) | _ \<Rightarrow> object_idx g),
           edges := AList.update k e (edges g)\<rparr>)"

definition gs_outgoing :: "graph_store \<Rightarrow> graph_node \<Rightarrow> graph_edge list" where
  "gs_outgoing g n = List.map_filter (map_of (edges g)) (keys_at (subject_idx g) (iri n))"

definition gs_incoming :: "graph_store \<Rightarrow> graph_node \<Rightarrow> graph_edge list" where
  "gs_incoming g n = List.map_filter (map_of (edges g)) (keys_at (object_idx g) (iri n))"

definition gs_exists :: "graph_store \<Rightarrow> graph_edge \<Rightarrow> bool" where
  "gs_exists g e \<longleftrightarrow> map_of (edges g) (triple_key e) \<noteq> None"

definition gs_delete :: "graph_edge \<Rightarrow> graph_store \<Rightarrow> graph_store" where
  "gs_delete e g =
     (let k = triple_key e
      in g\<lparr>subject_idx := idx_remove (iri (edge_subject e)) k (subject_idx g),
           object_idx := (case edge_object e of Node n \<Rightarrow> idx_remove (iri n) k (object_idx g) | _ \<Rightarrow> object_idx g),
           edges := AList.delete k (edges g)\<rparr>)"

text \<open>
  \<open>neighborhood\<close>: the visited IRIs and the next frontier are extended by the nodes met, first along
  outgoing, then along incoming edges of each node of the frontier; the loop makes \<open>hops\<close> rounds.
\<close>

fun mark :: "graph_node list \<Rightarrow> string list \<times> graph_node list \<Rightarrow> string list \<times> graph_node list" where
  "mark [] (visited, next_frontier) = (visited, next_frontier)"
| "mark (n # ns) (visited, next_frontier) =
     (if iri n \<in> set visited then mark ns (visited, next_frontier)
      else mark ns (visited @ [iri n], next_frontier @ [n]))"

definition out_nodes :: "graph_store \<Rightarrow> graph_node \<Rightarrow> graph_node list" where
  "out_nodes g n =
     List.map_filter (\<lambda>e. case edge_object e of Node t \<Rightarrow> Some t | _ \<Rightarrow> None) (gs_outgoing g n)"

definition in_nodes :: "graph_store \<Rightarrow> graph_node \<Rightarrow> graph_node list" where
  "in_nodes g n = map edge_subject (gs_incoming g n)"

definition hop :: "graph_store \<Rightarrow> string list \<times> graph_node list \<Rightarrow> string list \<times> graph_node list" where
  "hop g vf =
     fold (\<lambda>current vn. mark (in_nodes g current) (mark (out_nodes g current) vn)) (snd vf) (fst vf, [])"

definition gs_neighborhood :: "graph_store \<Rightarrow> graph_node \<Rightarrow> nat \<Rightarrow> graph_node list" where
  "gs_neighborhood g n hops = map graph_node_new (fst ((hop g ^^ hops) ([iri n], [n])))"

section \<open>The indices follow the edges\<close>

lemma keys_at_add [simp]:
  "keys_at (idx_add s k idx) t = (if t = s then List.insert k (keys_at idx s) else keys_at idx t)"
  by (simp add: keys_at_def idx_add_def split: option.split)

lemma keys_at_remove [simp]:
  "keys_at (idx_remove s k idx) t = (if t = s then removeAll k (keys_at idx s) else keys_at idx t)"
  by (auto simp: keys_at_def idx_remove_def Let_def split: option.split)

text \<open>
  The subject index is exact in every state. The object index is exact as long as no node is
  named like the key of a literal, which \<open>node_ok\<close> excludes.
\<close>

definition graph_wf :: "graph_store \<Rightarrow> bool" where
  "graph_wf g \<longleftrightarrow> (\<forall>k e. map_of (edges g) k = Some e \<longrightarrow> triple_key e = k)
     \<and> (\<forall>s. distinct (keys_at (subject_idx g) s)
          \<and> set (keys_at (subject_idx g) s) = {k. map_of (edges g) k \<noteq> None \<and> fst k = s})"

definition node_ok :: "graph_object \<Rightarrow> bool" where
  "node_ok ob \<longleftrightarrow> (case ob of Node n \<Rightarrow> \<not> starts_with (iri n) ''literal::'' | Literal _ _ \<Rightarrow> True)"

definition graph_wf_obj :: "graph_store \<Rightarrow> bool" where
  "graph_wf_obj g \<longleftrightarrow> graph_wf g \<and> (\<forall>k e. map_of (edges g) k = Some e \<longrightarrow> node_ok (edge_object e))
     \<and> (\<forall>s. distinct (keys_at (object_idx g) s)
          \<and> set (keys_at (object_idx g) s)
            = {k. \<exists>e n. map_of (edges g) k = Some e \<and> edge_object e = Node n \<and> iri n = s})"

lemma fst_triple_key [simp]: "fst (triple_key e) = iri (edge_subject e)"
  by (simp add: triple_key_def)

lemma graph_wf_insert: "graph_wf g \<Longrightarrow> graph_wf (gs_insert e g)"
  by (auto simp: graph_wf_def gs_insert_def Let_def)

lemma graph_wf_delete: "graph_wf g \<Longrightarrow> graph_wf (gs_delete e g)"
  by (auto simp: graph_wf_def gs_delete_def Let_def distinct_removeAll)

text \<open>The key of an edge tells whether its object is a node, and which, when nodes are not named as literals.\<close>

lemma triple_key_object:
  assumes "triple_key e = triple_key e'" "node_ok (edge_object e)" "node_ok (edge_object e')"
    and "edge_object e = Node n"
  shows "\<exists>n'. edge_object e' = Node n' \<and> iri n' = iri n"
  using assms by (cases "edge_object e'") (auto simp: triple_key_def object_key_def node_ok_def starts_with_def)

lemma graph_wf_key: "graph_wf g \<Longrightarrow> map_of (edges g) k = Some e \<Longrightarrow> triple_key e = k"
  unfolding graph_wf_def by blast

lemma graph_wf_obj_key: "graph_wf_obj g \<Longrightarrow> map_of (edges g) k = Some e \<Longrightarrow> triple_key e = k"
  unfolding graph_wf_obj_def by (blast intro: graph_wf_key)

lemma stored_object:
  assumes "graph_wf_obj g" "node_ok (edge_object e)"
    and "map_of (edges g) (triple_key e) = Some e'" "edge_object e' = Node n"
  shows "\<exists>n'. edge_object e = Node n' \<and> iri n' = iri n"
proof -
  have "node_ok (edge_object e')" using assms(1,3) unfolding graph_wf_obj_def by blast
  with triple_key_object [OF graph_wf_obj_key [OF assms(1,3)]] assms(2,4) show ?thesis by blast
qed

lemma graph_wf_obj_insert:
  assumes "graph_wf_obj g" "node_ok (edge_object e)"
  shows "graph_wf_obj (gs_insert e g)"
proof -
  let ?g = "gs_insert e g" and ?k = "triple_key e"
  have wf: "graph_wf g" and ok: "\<And>k e. map_of (edges g) k = Some e \<Longrightarrow> node_ok (edge_object e)"
    and idx: "\<And>s. distinct (keys_at (object_idx g) s)"
      "\<And>s. set (keys_at (object_idx g) s) = {k. \<exists>e n. map_of (edges g) k = Some e \<and> edge_object e = Node n \<and> iri n = s}"
    using assms(1) by (auto simp: graph_wf_obj_def)
  have same: "\<forall>e' n. map_of (edges g) ?k = Some e' \<longrightarrow> edge_object e' = Node n
      \<longrightarrow> (\<exists>n'. edge_object e = Node n' \<and> iri n' = iri n)"
    using stored_object [OF assms] by blast
  have "distinct (keys_at (object_idx ?g) s)
      \<and> set (keys_at (object_idx ?g) s) = {k. \<exists>e n. map_of (edges ?g) k = Some e \<and> edge_object e = Node n \<and> iri n = s}" for s
  proof (cases "edge_object e")
    case (Literal v dt)
    with idx [of s] same show ?thesis by (auto simp: gs_insert_def Let_def)
  next
    case (Node n)
    with idx [of s] idx [of "iri n"] same show ?thesis by (auto simp: gs_insert_def Let_def)
  qed
  moreover have "\<forall>k e. map_of (edges ?g) k = Some e \<longrightarrow> node_ok (edge_object e)"
    using assms(2) ok by (auto simp: gs_insert_def Let_def)
  ultimately show ?thesis using graph_wf_insert [OF wf, of e] by (simp add: graph_wf_obj_def)
qed

lemma graph_wf_obj_delete:
  assumes "graph_wf_obj g" "node_ok (edge_object e)"
  shows "graph_wf_obj (gs_delete e g)"
proof -
  let ?g = "gs_delete e g" and ?k = "triple_key e"
  have wf: "graph_wf g" and ok: "\<And>k e. map_of (edges g) k = Some e \<Longrightarrow> node_ok (edge_object e)"
    and idx: "\<And>s. distinct (keys_at (object_idx g) s)"
      "\<And>s. set (keys_at (object_idx g) s) = {k. \<exists>e n. map_of (edges g) k = Some e \<and> edge_object e = Node n \<and> iri n = s}"
    using assms(1) by (auto simp: graph_wf_obj_def)
  have same: "\<forall>e' n. map_of (edges g) ?k = Some e' \<longrightarrow> edge_object e' = Node n
      \<longrightarrow> (\<exists>n'. edge_object e = Node n' \<and> iri n' = iri n)"
    using stored_object [OF assms] by blast
  have "distinct (keys_at (object_idx ?g) s)
      \<and> set (keys_at (object_idx ?g) s) = {k. \<exists>e n. map_of (edges ?g) k = Some e \<and> edge_object e = Node n \<and> iri n = s}" for s
  proof (cases "edge_object e")
    case (Literal v dt)
    with idx [of s] same show ?thesis by (auto simp: gs_delete_def Let_def)
  next
    case (Node n)
    with idx [of s] idx [of "iri n"] same show ?thesis
      by (auto simp: gs_delete_def Let_def distinct_removeAll)
  qed
  moreover have "\<forall>k e. map_of (edges ?g) k = Some e \<longrightarrow> node_ok (edge_object e)"
    using ok by (auto simp: gs_delete_def Let_def)
  ultimately show ?thesis using graph_wf_delete [OF wf, of e] by (simp add: graph_wf_obj_def)
qed

section \<open>Runs\<close>

datatype graph_op = GInsert graph_edge | GDelete graph_edge

fun graph_step :: "graph_store \<Rightarrow> graph_op \<Rightarrow> graph_store" where
  "graph_step g (GInsert e) = gs_insert e g"
| "graph_step g (GDelete e) = gs_delete e g"

fun graph_op_ok :: "graph_op \<Rightarrow> bool" where
  "graph_op_ok (GInsert e) = node_ok (edge_object e)"
| "graph_op_ok (GDelete e) = node_ok (edge_object e)"

text \<open>The abstract store: one edge per key, the last inserted.\<close>

fun view_step :: "(edge_key \<Rightarrow> graph_edge option) \<Rightarrow> graph_op \<Rightarrow> (edge_key \<Rightarrow> graph_edge option)" where
  "view_step m (GInsert e) = m(triple_key e \<mapsto> e)"
| "view_step m (GDelete e) = m(triple_key e := None)"

interpretation graph: step_system graph_step "\<lambda>_ _. True" graph_wf
proof unfold_locales
  fix g op assume "graph_wf g"
  then show "graph_wf (graph_step g op)"
    by (cases op) (auto intro: graph_wf_insert graph_wf_delete)
qed

interpretation graph_obj: step_system graph_step "\<lambda>_ op. graph_op_ok op" graph_wf_obj
proof unfold_locales
  fix g op assume "graph_wf_obj g" "graph_op_ok op"
  then show "graph_wf_obj (graph_step g op)"
    by (cases op) (auto intro: graph_wf_obj_insert graph_wf_obj_delete)
qed

lemma graph_wf_new: "graph_wf graph_store_new" "graph_wf_obj graph_store_new"
  by (auto simp: graph_wf_def graph_wf_obj_def graph_store_new_def keys_at_def)

lemma edges_run: "map_of (edges (run graph_step g ops)) = run view_step (map_of (edges g)) ops"
proof (induction ops arbitrary: g)
  case (Cons op ops)
  have "map_of (edges (graph_step g op)) = view_step (map_of (edges g)) op"
    by (cases op) (auto simp: gs_insert_def gs_delete_def Let_def)
  with Cons show ?case by simp
qed simp

lemma edges_run_new: "map_of (edges (run graph_step graph_store_new ops)) = run view_step Map.empty ops"
  by (simp add: edges_run graph_store_new_def)

lemma run_ok_all: "run_ok step (\<lambda>_ op. P op) s ops \<longleftrightarrow> (\<forall>op \<in> set ops. P op)"
  by (induction ops arbitrary: s) auto

lemma set_map_filter_keys: "set (List.map_filter m ks) = {e. \<exists>k \<in> set ks. m k = Some e}"
  by (auto simp: in_set_map_filter)

lemma distinct_map_filter_keys:
  "distinct ks \<Longrightarrow> (\<And>j k e. m j = Some e \<Longrightarrow> m k = Some e \<Longrightarrow> j = k) \<Longrightarrow> distinct (List.map_filter m ks)"
  by (induction ks) (auto simp: List.map_filter_simps in_set_map_filter split: option.split)

lemma outgoing_wf:
  assumes "graph_wf g"
  shows "set (gs_outgoing g n) = {e. map_of (edges g) (triple_key e) = Some e \<and> iri (edge_subject e) = iri n}"
    and "distinct (gs_outgoing g n)"
proof -
  have key: "map_of (edges g) k = Some e \<Longrightarrow> triple_key e = k" for k e
    using assms by (rule graph_wf_key)
  have idx: "distinct (keys_at (subject_idx g) (iri n))"
    "set (keys_at (subject_idx g) (iri n)) = {k. map_of (edges g) k \<noteq> None \<and> fst k = iri n}"
    using assms by (simp_all add: graph_wf_def)
  show "set (gs_outgoing g n) = {e. map_of (edges g) (triple_key e) = Some e \<and> iri (edge_subject e) = iri n}"
    unfolding gs_outgoing_def set_map_filter_keys idx(2)
  proof (rule set_eqI, rule iffI)
    fix e assume "e \<in> {e. \<exists>k \<in> {k. map_of (edges g) k \<noteq> None \<and> fst k = iri n}. map_of (edges g) k = Some e}"
    then obtain k where "map_of (edges g) k = Some e" "fst k = iri n" by auto
    with key [OF this(1)] show "e \<in> {e. map_of (edges g) (triple_key e) = Some e \<and> iri (edge_subject e) = iri n}"
      by auto
  next
    fix e assume "e \<in> {e. map_of (edges g) (triple_key e) = Some e \<and> iri (edge_subject e) = iri n}"
    then show "e \<in> {e. \<exists>k \<in> {k. map_of (edges g) k \<noteq> None \<and> fst k = iri n}. map_of (edges g) k = Some e}"
      by (intro CollectI bexI [of _ "triple_key e"]) auto
  qed
  show "distinct (gs_outgoing g n)"
    unfolding gs_outgoing_def by (rule distinct_map_filter_keys [OF idx(1)]) (use key in metis)
qed

lemma incoming_wf:
  assumes "graph_wf_obj g"
  shows "set (gs_incoming g n) = {e. map_of (edges g) (triple_key e) = Some e
      \<and> (\<exists>t. edge_object e = Node t \<and> iri t = iri n)}"
    and "distinct (gs_incoming g n)"
proof -
  have key: "map_of (edges g) k = Some e \<Longrightarrow> triple_key e = k" for k e
    using assms by (rule graph_wf_obj_key)
  have idx: "distinct (keys_at (object_idx g) (iri n))"
    "set (keys_at (object_idx g) (iri n))
      = {k. \<exists>e t. map_of (edges g) k = Some e \<and> edge_object e = Node t \<and> iri t = iri n}"
    using assms by (simp_all add: graph_wf_obj_def)
  show "set (gs_incoming g n) = {e. map_of (edges g) (triple_key e) = Some e
      \<and> (\<exists>t. edge_object e = Node t \<and> iri t = iri n)}"
    unfolding gs_incoming_def set_map_filter_keys idx(2) using key by fastforce
  show "distinct (gs_incoming g n)"
    unfolding gs_incoming_def by (rule distinct_map_filter_keys [OF idx(1)]) (use key in metis)
qed

section \<open>The neighborhood\<close>

definition adjacent :: "(edge_key \<Rightarrow> graph_edge option) \<Rightarrow> (string \<times> string) set" where
  "adjacent m = {(a, b). \<exists>e t. m (triple_key e) = Some e \<and> edge_object e = Node t
     \<and> (a = iri (edge_subject e) \<and> b = iri t \<or> a = iri t \<and> b = iri (edge_subject e))}"

lemma mark_spec:
  "set (fst (mark ns vf)) = set (fst vf) \<union> iri ` set ns
   \<and> iri ` set (snd (mark ns vf)) = iri ` set (snd vf) \<union> (iri ` set ns - set (fst vf))
   \<and> (distinct (fst vf) \<longrightarrow> distinct (fst (mark ns vf)))"
  by (induction ns vf rule: mark.induct) auto

lemma object_node_iff: "(case ob of Node t \<Rightarrow> Some t | Literal _ _ \<Rightarrow> None) = Some t \<longleftrightarrow> ob = Node t"
  by (cases ob) auto

lemma next_nodes:
  assumes "graph_wf_obj g"
  shows "iri ` set (out_nodes g n) \<union> iri ` set (in_nodes g n) = adjacent (map_of (edges g)) `` {iri n}"
proof -
  have wf: "graph_wf g" using assms by (simp add: graph_wf_obj_def)
  have "set (out_nodes g n)
      = {t. \<exists>e. map_of (edges g) (triple_key e) = Some e \<and> iri (edge_subject e) = iri n \<and> edge_object e = Node t}"
    by (rule set_eqI) (simp add: out_nodes_def in_set_map_filter outgoing_wf(1) [OF wf] object_node_iff Bex_def)
  then have out: "iri ` set (out_nodes g n)
      = {iri t |e t. map_of (edges g) (triple_key e) = Some e \<and> iri (edge_subject e) = iri n \<and> edge_object e = Node t}"
    by auto
  have inn: "iri ` set (in_nodes g n)
      = {iri (edge_subject e) |e t. map_of (edges g) (triple_key e) = Some e \<and> edge_object e = Node t \<and> iri t = iri n}"
    unfolding in_nodes_def by (auto simp: incoming_wf(1) [OF assms] image_iff)
  show ?thesis unfolding out inn adjacent_def by auto
qed

lemma hop_fold:
  assumes "graph_wf_obj g"
  defines "F \<equiv> \<lambda>cs vf. fold (\<lambda>c vn. mark (in_nodes g c) (mark (out_nodes g c) vn)) cs vf"
  shows "set (fst (F cs vf)) = set (fst vf) \<union> adjacent (map_of (edges g)) `` (iri ` set cs)
    \<and> iri ` set (snd (F cs vf)) = iri ` set (snd vf) \<union> (adjacent (map_of (edges g)) `` (iri ` set cs) - set (fst vf))
    \<and> (distinct (fst vf) \<longrightarrow> distinct (fst (F cs vf)))"
proof (induction cs arbitrary: vf)
  case Nil
  then show ?case by (simp add: F_def)
next
  case (Cons c cs)
  let ?vf = "mark (in_nodes g c) (mark (out_nodes g c) vf)"
  have one: "set (fst ?vf) = set (fst vf) \<union> adjacent (map_of (edges g)) `` {iri c}"
    "iri ` set (snd ?vf) = iri ` set (snd vf) \<union> (adjacent (map_of (edges g)) `` {iri c} - set (fst vf))"
    "distinct (fst vf) \<longrightarrow> distinct (fst ?vf)"
    using mark_spec [of "in_nodes g c" "mark (out_nodes g c) vf"] mark_spec [of "out_nodes g c" vf]
      next_nodes [OF assms(1), of c] by auto
  have F: "F (c # cs) vf = F cs ?vf" by (simp add: F_def)
  have img: "adjacent (map_of (edges g)) `` (iri ` set (c # cs))
      = adjacent (map_of (edges g)) `` {iri c} \<union> adjacent (map_of (edges g)) `` (iri ` set cs)" by auto
  from Cons.IH [of ?vf] one show ?case unfolding F img by auto
qed

definition ball :: "('a \<times> 'a) set \<Rightarrow> 'a \<Rightarrow> nat \<Rightarrow> 'a set" where
  "ball R a k = {b. \<exists>j \<le> k. (a, b) \<in> R ^^ j}"

lemma ball_0: "ball R a 0 = {a}"
  by (auto simp: ball_def)

lemma ball_Suc: "ball R a (Suc k) = ball R a k \<union> R `` ball R a k"
proof (rule set_eqI, rule iffI)
  fix b assume "b \<in> ball R a (Suc k)"
  then obtain j where "j \<le> Suc k" "(a, b) \<in> R ^^ j" by (auto simp: ball_def)
  then show "b \<in> ball R a k \<union> R `` ball R a k"
    by (cases j) (auto simp: ball_def relcomp_unfold)
next
  fix b assume "b \<in> ball R a k \<union> R `` ball R a k"
  then consider "b \<in> ball R a k" | c where "c \<in> ball R a k" "(c, b) \<in> R" by auto
  then show "b \<in> ball R a (Suc k)"
  proof cases
    case 2
    then obtain j where "j \<le> k" "(a, c) \<in> R ^^ j" by (auto simp: ball_def)
    then have "Suc j \<le> Suc k" "(a, b) \<in> R ^^ Suc j" using 2(2) by auto
    then show ?thesis unfolding ball_def by blast
  qed (auto simp: ball_def le_Suc_eq)
qed

lemma hops_ball:
  assumes "graph_wf_obj g"
  defines "R \<equiv> adjacent (map_of (edges g))"
  shows "set (fst ((hop g ^^ k) ([iri n], [n]))) = ball R (iri n) k
    \<and> iri ` set (snd ((hop g ^^ k) ([iri n], [n]))) \<subseteq> set (fst ((hop g ^^ k) ([iri n], [n])))
    \<and> R `` (set (fst ((hop g ^^ k) ([iri n], [n]))) - iri ` set (snd ((hop g ^^ k) ([iri n], [n]))))
        \<subseteq> set (fst ((hop g ^^ k) ([iri n], [n])))
    \<and> distinct (fst ((hop g ^^ k) ([iri n], [n])))"
proof (induction k)
  case 0
  then show ?case by (simp add: ball_0)
next
  case (Suc k)
  obtain v f where vf: "(hop g ^^ k) ([iri n], [n]) = (v, f)" by force
  obtain v' f' where vf': "hop g (v, f) = (v', f')" by force
  have step: "set v' = set v \<union> R `` (iri ` set f)" "iri ` set f' = R `` (iri ` set f) - set v"
    "distinct v \<longrightarrow> distinct v'"
    using hop_fold [OF assms(1), of f "(v, [])"] vf' unfolding hop_def R_def by simp_all
  from Suc have IH: "set v = ball R (iri n) k" "iri ` set f \<subseteq> set v" "R `` (set v - iri ` set f) \<subseteq> set v" "distinct v"
    unfolding vf fst_conv snd_conv by blast+
  have all: "set v' = set v \<union> R `` set v" using step(1) IH(2,3) by blast
  show ?case
    unfolding funpow.simps o_def vf vf' fst_conv snd_conv
    using step IH(4) all ball_Suc [of R "iri n" k] by (auto simp: IH(1) [symmetric])
qed

section \<open>Properties\<close>

lemma graph_run_wf:
  assumes "\<forall>op \<in> set ops. graph_op_ok op"
  shows "graph_wf_obj (run graph_step graph_store_new ops)"
  using graph_obj.run_inv [OF graph_wf_new(2)] assms by (simp add: run_ok_all)

text \<open>
  C37: the indices of the graph store are exact. After any insertions and deletions of edges whose node
  objects are not named like a literal, the store refines a map with one edge per subject, predicate
  and object: the outgoing and the incoming edges of a node are exactly the stored edges that leave
  and reach it, each once, and an edge exists exactly when one with its key is stored.
\<close>

theorem graph_queries_exact:
  assumes "\<forall>op \<in> set ops. graph_op_ok op"
    and "g = run graph_step graph_store_new ops" and "m = run view_step Map.empty ops"
  shows "set (gs_outgoing g n) = {e. m (triple_key e) = Some e \<and> iri (edge_subject e) = iri n}
    \<and> set (gs_incoming g n) = {e. m (triple_key e) = Some e \<and> (\<exists>t. edge_object e = Node t \<and> iri t = iri n)}
    \<and> distinct (gs_outgoing g n) \<and> distinct (gs_incoming g n)
    \<and> (gs_exists g e \<longleftrightarrow> m (triple_key e) \<noteq> None)"
proof -
  have wf: "graph_wf_obj g" using graph_run_wf assms(1,2) by simp
  then have "graph_wf g" by (simp add: graph_wf_obj_def)
  moreover have "map_of (edges g) = m" unfolding assms(2,3) by (rule edges_run_new)
  ultimately show ?thesis
    using outgoing_wf [of g n] incoming_wf [OF wf, of n] by (simp add: gs_exists_def)
qed

definition ex_edge :: "string \<Rightarrow> string \<Rightarrow> graph_edge" where
  "ex_edge a b = \<lparr>edge_subject = graph_node_new a, edge_predicate = graph_node_new ''p'',
     edge_object = Node (graph_node_new b)\<rparr>"

theorem graph_queries_exact_witness:
  "gs_exists (run graph_step graph_store_new [GInsert (ex_edge ''a'' ''b''), GDelete (ex_edge ''a'' ''c'')]) (ex_edge ''a'' ''b'')"
proof -
  let ?ops = "[GInsert (ex_edge ''a'' ''b''), GDelete (ex_edge ''a'' ''c'')]"
  have "\<forall>op \<in> set ?ops. graph_op_ok op"
    by (simp add: ex_edge_def node_ok_def graph_node_new_def starts_with_def)
  from graph_queries_exact [OF this refl refl, of _ "ex_edge ''a'' ''b''"]
  show ?thesis by (simp add: ex_edge_def triple_key_def object_key_def graph_node_new_def)
qed



text \<open>
  a literal shares its key with a node named after it: inserting the literal replaces the edge to
  the node, which is still reported to exist but is no longer an outgoing edge, and the literal edge
  is reported as an edge that reaches the node.
\<close>

theorem literal_key_collision:
  assumes "edge_object e1 = Node n" "iri n = ''literal::'' @ v" "edge_object e2 = Literal v dt"
    and "edge_subject e2 = edge_subject e1" "edge_predicate e2 = edge_predicate e1"
    and "g = run graph_step graph_store_new (ops @ [GInsert e1, GInsert e2])"
  shows "gs_exists g e1 \<and> e1 \<notin> set (gs_outgoing g (edge_subject e1)) \<and> e2 \<in> set (gs_incoming g n)"
proof -
  have k: "triple_key e1 = triple_key e2" using assms(1-5) by (simp add: triple_key_def object_key_def)
  have ne: "e1 \<noteq> e2" using assms(1,3) by auto
  let ?g0 = "run graph_step graph_store_new ops"
  have g: "g = gs_insert e2 (gs_insert e1 ?g0)" using assms(6) by (simp add: run_append)
  have stored: "map_of (edges g) (triple_key e1) = Some e2" by (simp add: g k gs_insert_def Let_def)
  have "graph_wf g" unfolding assms(6) by (rule graph.run_inv [OF graph_wf_new(1)]) simp
  from outgoing_wf(1) [OF this] stored ne have "e1 \<notin> set (gs_outgoing g (edge_subject e1))" by auto
  moreover have "triple_key e1 \<in> set (keys_at (object_idx g) (iri n))"
    by (simp add: g gs_insert_def Let_def assms(1,3))
  then have "e2 \<in> set (gs_incoming g n)"
    using stored unfolding gs_incoming_def in_set_map_filter by blast
  ultimately show ?thesis using stored by (simp add: gs_exists_def)
qed

theorem literal_key_collision_witness:
  "ex_edge ''a'' ''literal::x'' \<notin> set (gs_outgoing (run graph_step graph_store_new ([] @ [GInsert (ex_edge ''a'' ''literal::x''),
     GInsert ((ex_edge ''a'' ''literal::x'')\<lparr>edge_object := Literal ''x'' None\<rparr>)])) (edge_subject (ex_edge ''a'' ''literal::x'')))"
  using literal_key_collision [of "ex_edge ''a'' ''literal::x''" "graph_node_new ''literal::x''" "''x''"
      "(ex_edge ''a'' ''literal::x'')\<lparr>edge_object := Literal ''x'' None\<rparr>" None, OF _ _ _ _ _ refl, of "[]"]
  by (simp add: ex_edge_def graph_node_new_def)

end
