(* ===== verification/Modality_Store.thy ===== *)
theory Modality_Store
  imports Prelude "HOL-Library.Multiset"
begin

text \<open>
  What the stores of the modalities share: the contract of a store with one value per entity, floating-point
  numbers, and ranked search results. HOL has no IEEE numbers, so \<open>f32\<close> and \<open>f64\<close> are type variables and
  the operations of the hardware on them a record that the functions of the model take as an argument;
  where a result depends on the order of the numbers, the property says what it needs of the comparison.
\<close>

section \<open>One value per entity\<close>

text \<open>
  A store whose write may fail: a successful write changes the value of its entity only, a failed one
  changes nothing, a deletion removes one value. \<open>fits\<close> says that a value is one for the entity.
\<close>

locale entity_store =
  fixes put :: "string \<Rightarrow> 'x \<Rightarrow> 's \<Rightarrow> ('e + unit) \<times> 's"
    and get :: "'s \<Rightarrow> string \<Rightarrow> 'x option"
    and del :: "string \<Rightarrow> 's \<Rightarrow> 's"
    and fits :: "string \<Rightarrow> 'x \<Rightarrow> bool"
  assumes get_put: "fits k x \<Longrightarrow> put k x s = (Inr (), s') \<Longrightarrow> get s' j = (if j = k then Some x else get s j)"
    and get_put_failed: "put k x s = (Inl err, s') \<Longrightarrow> get s' j = get s j"
    and get_del: "get (del k s) j = (if j = k then None else get s j)"
begin

lemma get_put_same: "fits k x \<Longrightarrow> put k x s = (Inr (), s') \<Longrightarrow> get s' k = Some x"
  by (simp add: get_put)

lemma get_put_other: "fits k x \<Longrightarrow> j \<noteq> k \<Longrightarrow> get (snd (put k x s)) j = get s j"
  by (cases "put k x s"; cases "fst (put k x s)") (auto simp: get_put get_put_failed)

text \<open>The compensation of a write of a new entity: deleting it restores what every lookup returns.\<close>

lemma del_undoes_put:
  "fits k x \<Longrightarrow> get s k = None \<Longrightarrow> put k x s = (r, s') \<Longrightarrow> get (del k s') j = get s j"
  by (cases r) (auto simp: get_del get_put get_put_failed)

lemma del_idempotent: "get (del k (del k s)) j = get (del k s) j"
  by (simp add: get_del)

end

section \<open>Floating-point operations\<close>

datatype ordering = Less | Equal | Greater

record 'f float_ops =
  f_add :: "'f \<Rightarrow> 'f \<Rightarrow> 'f"
  f_sub :: "'f \<Rightarrow> 'f \<Rightarrow> 'f"
  f_mul :: "'f \<Rightarrow> 'f \<Rightarrow> 'f"
  f_div :: "'f \<Rightarrow> 'f \<Rightarrow> 'f"
  f_powi :: "'f \<Rightarrow> int \<Rightarrow> 'f"
  f_sqrt :: "'f \<Rightarrow> 'f"
  f_sin :: "'f \<Rightarrow> 'f"
  f_cos :: "'f \<Rightarrow> 'f"
  f_asin :: "'f \<Rightarrow> 'f"
  f_to_radians :: "'f \<Rightarrow> 'f"
  f_literal :: "int \<Rightarrow> 'f" \<comment> \<open>\<open>0.0\<close>, \<open>90.0\<close>, \<open>-180.0\<close>\<close>
  f_sum_start :: 'f \<comment> \<open>the number \<open>Iterator::sum\<close> starts from\<close>
  partial_cmp :: "'f \<Rightarrow> 'f \<Rightarrow> ordering option"
  is_nan :: "'f \<Rightarrow> bool"
  f_display :: "'f \<Rightarrow> string"

definition f_less :: "'f float_ops \<Rightarrow> 'f \<Rightarrow> 'f \<Rightarrow> bool" where
  "f_less ops a b \<longleftrightarrow> partial_cmp ops a b = Some Less"

definition f_le :: "'f float_ops \<Rightarrow> 'f \<Rightarrow> 'f \<Rightarrow> bool" where
  "f_le ops a b \<longleftrightarrow> partial_cmp ops a b = Some Less \<or> partial_cmp ops a b = Some Equal"

definition f_sum :: "'f float_ops \<Rightarrow> 'f list \<Rightarrow> 'f" where
  "f_sum ops xs = foldl (f_add ops) (f_sum_start ops) xs"

text \<open>
  The comparison of numbers none of which is a NaN agrees with a linear order: \<open>f_ordered ops X v\<close>
  says that \<open>v\<close> gives the members of \<open>X\<close> integer ranks that \<open>partial_cmp\<close> compares.
\<close>

definition rank_cmp :: "int \<Rightarrow> int \<Rightarrow> ordering" where
  "rank_cmp i j = (if i < j then Less else if i = j then Equal else Greater)"

definition f_ordered :: "'f float_ops \<Rightarrow> 'f set \<Rightarrow> ('f \<Rightarrow> int) \<Rightarrow> bool" where
  "f_ordered ops X v \<longleftrightarrow> (\<forall>a \<in> X. \<forall>b \<in> X. partial_cmp ops a b = Some (rank_cmp (v a) (v b)))"

lemma f_ordered_less: "f_ordered ops X v \<Longrightarrow> a \<in> X \<Longrightarrow> b \<in> X \<Longrightarrow> f_less ops a b \<longleftrightarrow> v a < v b"
  by (auto simp: f_ordered_def f_less_def rank_cmp_def)

lemma f_ordered_le: "f_ordered ops X v \<Longrightarrow> a \<in> X \<Longrightarrow> b \<in> X \<Longrightarrow> f_le ops a b \<longleftrightarrow> v a \<le> v b"
  by (auto simp: f_ordered_def f_le_def rank_cmp_def)

text \<open>Integers, ranked by themselves, on which statements about searches can be evaluated.\<close>

definition ex_floats :: "int float_ops" where
  "ex_floats = \<lparr>f_add = (+), f_sub = (-), f_mul = (*), f_div = (div), f_powi = (\<lambda>a n. a ^ nat n),
     f_sqrt = (\<lambda>a. a), f_sin = (\<lambda>a. a), f_cos = (\<lambda>a. 1), f_asin = (\<lambda>a. a), f_to_radians = (\<lambda>a. a),
     f_literal = (\<lambda>n. n), f_sum_start = 0, partial_cmp = (\<lambda>a b. Some (rank_cmp a b)),
     is_nan = (\<lambda>_. False), f_display = (\<lambda>_. ''n'')\<rparr>"

lemma ex_floats_ordered: "f_ordered ex_floats X (\<lambda>n. n)"
  by (simp add: f_ordered_def ex_floats_def)

section \<open>Stable sorting and the first elements\<close>

text \<open>
  \<open>sort_by\<close> is stable: an element is inserted before the first later one that does not compare smaller.
\<close>

fun insert_by :: "('a \<Rightarrow> 'a \<Rightarrow> ordering) \<Rightarrow> 'a \<Rightarrow> 'a list \<Rightarrow> 'a list" where
  "insert_by cmp x [] = [x]"
| "insert_by cmp x (y # ys) = (if cmp x y = Greater then y # insert_by cmp x ys else x # y # ys)"

definition sort_by :: "('a \<Rightarrow> 'a \<Rightarrow> ordering) \<Rightarrow> 'a list \<Rightarrow> 'a list" where
  "sort_by cmp xs = foldr (insert_by cmp) xs []"

lemma mset_insert_by: "mset (insert_by cmp x ys) = add_mset x (mset ys)"
  by (induction ys) auto

lemma mset_sort_by [simp]: "mset (sort_by cmp xs) = mset xs"
  by (induction xs) (auto simp: sort_by_def mset_insert_by)

lemma set_sort_by [simp]: "set (sort_by cmp xs) = set xs"
  by (metis mset_sort_by set_mset_mset)

lemma length_sort_by [simp]: "length (sort_by cmp xs) = length xs"
  by (metis mset_sort_by size_mset)

lemma distinct_map_sort_by: "distinct (map f (sort_by cmp xs)) \<longleftrightarrow> distinct (map f xs)"
  by (rule mset_eq_imp_distinct_iff) simp

text \<open>The comparison of the stores, by a key with \<open>unwrap_or(Equal)\<close>, ascending or descending.\<close>

definition cmp_by :: "'f float_ops \<Rightarrow> ('a \<Rightarrow> 'f) \<Rightarrow> 'a \<Rightarrow> 'a \<Rightarrow> ordering" where
  "cmp_by ops key a b = (case partial_cmp ops (key a) (key b) of None \<Rightarrow> Equal | Some ord \<Rightarrow> ord)"

lemma cmp_by_ordered:
  "f_ordered ops X v \<Longrightarrow> key a \<in> X \<Longrightarrow> key b \<in> X \<Longrightarrow> cmp_by ops key a b = rank_cmp (v (key a)) (v (key b))"
  by (simp add: cmp_by_def f_ordered_def)

lemma sorted_insert_by:
  assumes "sorted (map r ys)" "\<forall>y \<in> set ys. cmp x y = rank_cmp (r x) (r y)"
  shows "sorted (map r (insert_by cmp x ys))"
  using assms
proof (induction ys)
  case (Cons y ys)
  have "set (map r (insert_by cmp x ys)) = insert (r x) (r ` set ys)"
    by (simp flip: set_mset_mset add: mset_insert_by)
  with Cons show ?case by (auto simp: rank_cmp_def split: if_splits)
qed simp

lemma sorted_sort_by:
  assumes "\<forall>x \<in> set xs. \<forall>y \<in> set xs. cmp x y = rank_cmp (r x) (r y)"
  shows "sorted (map r (sort_by cmp xs))"
  using assms
proof (induction xs)
  case (Cons x xs)
  have "\<forall>y \<in> set (sort_by cmp xs). cmp x y = rank_cmp (r x) (r y)" using Cons.prems by simp
  with Cons show ?case by (simp add: sort_by_def sorted_insert_by)
qed (simp add: sort_by_def)

text \<open>
  Sorting and truncating lists the best elements: nothing is made up or repeated, the ranks ascend, and
  what is left out ranks behind everything listed.
\<close>

lemma best_of_sort_by:
  assumes "\<forall>x \<in> set xs. \<forall>y \<in> set xs. cmp x y = rank_cmp (r x) (r y)" and "res = take k (sort_by cmp xs)"
  shows "set res \<subseteq> set xs" "length res = min k (length xs)" "sorted (map r res)"
    and "distinct (map f xs) \<Longrightarrow> distinct (map f res)"
    and "\<forall>x \<in> set xs - set res. \<forall>y \<in> set res. r y \<le> r x"
proof -
  have sorted: "sorted (map r (sort_by cmp xs))" by (rule sorted_sort_by [OF assms(1)])
  show "set res \<subseteq> set xs" unfolding assms(2) by (metis set_sort_by set_take_subset)
  show "length res = min k (length xs)" by (simp add: assms(2))
  show "sorted (map r res)" unfolding assms(2) take_map [symmetric] by (rule sorted_wrt_take [OF sorted])
  show "distinct (map f xs) \<Longrightarrow> distinct (map f res)"
    unfolding assms(2) take_map [symmetric] by (simp add: distinct_map_sort_by distinct_take)
  show "\<forall>x \<in> set xs - set res. \<forall>y \<in> set res. r y \<le> r x"
  proof (intro ballI)
    fix x y assume x: "x \<in> set xs - set res" and y: "y \<in> set res"
    have "set xs = set res \<union> set (drop k (sort_by cmp xs))"
      unfolding assms(2) by (metis append_take_drop_id set_append set_sort_by)
    with x have "x \<in> set (drop k (sort_by cmp xs))" by auto
    moreover have "sorted (map r (take k (sort_by cmp xs)) @ map r (drop k (sort_by cmp xs)))"
      using sorted by (metis append_take_drop_id map_append)
    ultimately show "r y \<le> r x" using y by (auto simp: assms(2) sorted_append)
  qed
qed

end
