(* ===== verification/Vector_Store.thy ===== *)
theory Vector_Store
  imports Modality_Store
begin

text \<open>
  The vector modality (\<open>verisim-vector/src/lib.rs\<close>): embeddings, the similarity metrics and the
  brute-force store with its search for the most similar vectors.
\<close>

datatype vector_error =
    DimensionMismatch nat nat \<comment> \<open>expected, actual\<close>
  | NotFound string
  | IndexError string
  | SerializationError string
  | LockPoisoned

fun vector_error_display :: "vector_error \<Rightarrow> string" where
  "vector_error_display (DimensionMismatch e a) =
     ''Dimension mismatch: expected '' @ dec_digits e @ '', got '' @ dec_digits a"
| "vector_error_display (NotFound e) = ''Vector not found: '' @ e"
| "vector_error_display (IndexError e) = ''Index error: '' @ e"
| "vector_error_display (SerializationError e) = ''Serialization error: '' @ e"
| "vector_error_display LockPoisoned = ''Lock poisoned: internal concurrency error''"

record 'f embedding =
  emb_id :: string
  emb_vector :: "'f list"
  emb_metadata :: "(string \<times> string) list"

definition embedding_new :: "string \<Rightarrow> 'f list \<Rightarrow> 'f embedding" where
  "embedding_new e v = \<lparr>emb_id = e, emb_vector = v, emb_metadata = []\<rparr>"

definition emb_with_metadata :: "string \<Rightarrow> string \<Rightarrow> 'f embedding \<Rightarrow> 'f embedding" where
  "emb_with_metadata k v emb = emb\<lparr>emb_metadata := AList.update k v (emb_metadata emb)\<rparr>"

definition emb_dim :: "'f embedding \<Rightarrow> nat" where
  "emb_dim emb = length (emb_vector emb)"

record 'f vec_result =
  hit_id :: string
  hit_score :: 'f

datatype distance_metric = Cosine | Euclidean | DotProduct

record 'f vector_store =
  vec_dimension :: nat
  vec_metric :: distance_metric
  embeddings :: "(string \<times> 'f embedding) list"

definition vector_store_new :: "nat \<Rightarrow> distance_metric \<Rightarrow> 'f vector_store" where
  "vector_store_new d m = \<lparr>vec_dimension = d, vec_metric = m, embeddings = []\<rparr>"

definition normalize :: "'f float_ops \<Rightarrow> 'f list \<Rightarrow> 'f list" where
  "normalize ops v =
     (let norm = f_sqrt ops (f_sum ops (map (\<lambda>x. f_mul ops x x) v))
      in if f_less ops (f_literal ops 0) norm then map (\<lambda>x. f_div ops x norm) v else v)"

definition dot :: "'f float_ops \<Rightarrow> 'f list \<Rightarrow> 'f list \<Rightarrow> 'f" where
  "dot ops a b = f_sum ops (map (\<lambda>(x, y). f_mul ops x y) (zip a b))"

definition similarity :: "'f float_ops \<Rightarrow> distance_metric \<Rightarrow> 'f list \<Rightarrow> 'f list \<Rightarrow> 'f" where
  "similarity ops m a b =
     (case m of
        Cosine \<Rightarrow> dot ops (normalize ops a) (normalize ops b)
      | DotProduct \<Rightarrow> dot ops a b
      | Euclidean \<Rightarrow>
          (let dist_sq = f_sum ops (map (\<lambda>(x, y). f_powi ops (f_sub ops x y) 2) (zip a b));
               one = f_literal ops 1
           in f_div ops one (f_add ops one (f_sqrt ops dist_sq))))"

definition vec_upsert :: "'f embedding \<Rightarrow> 'f vector_store \<Rightarrow> (vector_error + unit) \<times> 'f vector_store" where
  "vec_upsert emb st =
     (if emb_dim emb \<noteq> vec_dimension st then (Inl (DimensionMismatch (vec_dimension st) (emb_dim emb)), st)
      else (Inr (), st\<lparr>embeddings := AList.update (emb_id emb) emb (embeddings st)\<rparr>))"

text \<open>\<open>b.score.partial_cmp(&a.score)\<close>: the arguments are swapped, so the order is descending.\<close>

definition vec_search ::
  "'f float_ops \<Rightarrow> 'f list \<Rightarrow> nat \<Rightarrow> 'f vector_store \<Rightarrow> vector_error + 'f vec_result list" where
  "vec_search ops query k st =
     (if length query \<noteq> vec_dimension st then Inl (DimensionMismatch (vec_dimension st) (length query))
      else let scored = map (\<lambda>(e, emb). \<lparr>hit_id = e, hit_score = similarity ops (vec_metric st) query (emb_vector emb)\<rparr>)
                          (embeddings st)
           in Inr (take k (sort_by (\<lambda>a b. cmp_by ops hit_score b a) scored)))"

definition vec_get :: "'f vector_store \<Rightarrow> string \<Rightarrow> 'f embedding option" where
  "vec_get st e = map_of (embeddings st) e"

definition vec_delete :: "string \<Rightarrow> 'f vector_store \<Rightarrow> 'f vector_store" where
  "vec_delete e st = st\<lparr>embeddings := AList.delete e (embeddings st)\<rparr>"

definition cosine_similarity :: "'f float_ops \<Rightarrow> 'f list \<Rightarrow> 'f list \<Rightarrow> 'f" where
  "cosine_similarity ops a b =
     (let norm_a = f_sqrt ops (f_sum ops (map (\<lambda>x. f_mul ops x x) a));
          norm_b = f_sqrt ops (f_sum ops (map (\<lambda>x. f_mul ops x x) b));
          zero = f_literal ops 0
      in if f_less ops zero norm_a \<and> f_less ops zero norm_b then f_div ops (dot ops a b) (f_mul ops norm_a norm_b)
         else zero)"

section \<open>The store keeps one embedding of its dimension per entity\<close>

definition vec_wf :: "'f vector_store \<Rightarrow> bool" where
  "vec_wf st \<longleftrightarrow> hm_wf (embeddings st)
     \<and> (\<forall>e emb. vec_get st e = Some emb \<longrightarrow> emb_id emb = e \<and> emb_dim emb = vec_dimension st)"

interpretation vector: entity_store "\<lambda>_. vec_upsert" vec_get vec_delete "\<lambda>e emb. emb_id emb = e"
  by unfold_locales (auto simp: vec_upsert_def vec_get_def vec_delete_def split: if_splits)

lemma vec_wf_new: "vec_wf (vector_store_new d m)"
  by (simp add: vec_wf_def vector_store_new_def vec_get_def)

lemma vec_wf_upsert: "vec_wf st \<Longrightarrow> vec_wf (snd (vec_upsert emb st))"
  by (auto simp: vec_wf_def vec_upsert_def vec_get_def emb_dim_def)

lemma vec_wf_delete: "vec_wf st \<Longrightarrow> vec_wf (vec_delete e st)"
  by (auto simp: vec_wf_def vec_delete_def vec_get_def)

lemma vec_upsert_keeps [simp]:
  "vec_dimension (snd (vec_upsert emb st)) = vec_dimension st"
  "vec_metric (snd (vec_upsert emb st)) = vec_metric st"
  by (simp_all add: vec_upsert_def)

lemma vec_delete_keeps [simp]:
  "vec_dimension (vec_delete e st) = vec_dimension st" "vec_metric (vec_delete e st) = vec_metric st"
  by (simp_all add: vec_delete_def)

datatype 'f vec_op = VUpsert "'f embedding" | VDelete string

fun vec_step :: "'f vector_store \<Rightarrow> 'f vec_op \<Rightarrow> 'f vector_store" where
  "vec_step st (VUpsert emb) = snd (vec_upsert emb st)"
| "vec_step st (VDelete e) = vec_delete e st"

interpretation vec_run: step_system vec_step "\<lambda>_ _. True" vec_wf
proof unfold_locales
  fix st :: "'f vector_store" and op assume "vec_wf st"
  then show "vec_wf (vec_step st op)" by (cases op) (simp_all add: vec_wf_upsert vec_wf_delete)
qed

lemma vec_run_keeps [simp]:
  "vec_dimension (run vec_step st ops) = vec_dimension st" "vec_metric (run vec_step st ops) = vec_metric st"
proof (induction ops arbitrary: st)
  case (Cons op ops)
  { case 1 show ?case using Cons by (cases op) simp_all }
  { case 2 show ?case using Cons by (cases op) simp_all }
qed simp_all

section \<open>Properties\<close>

text \<open>
  C16: the search returns the most similar vectors. After any upserts and deletions, a query of the right
  dimension returns the given number of entities, or all when there are fewer: each once, with its
  similarity to the query, most similar first, and no entity left out is more similar than one
  returned. Similarities must be comparable, which excludes NaN.
\<close>

theorem vector_search_top_k:
  fixes query :: "'f list"
  assumes "st = run vec_step (vector_store_new d m) writes" "length query = d"
    and "\<And>e emb. vec_get st e = Some emb \<Longrightarrow> similarity ops m query (emb_vector emb) \<in> S" "f_ordered ops S v"
  shows "\<exists>res. vec_search ops query k st = Inr res
    \<and> length res = min k (length (embeddings st)) \<and> distinct (map hit_id res)
    \<and> (\<forall>h \<in> set res. \<exists>emb. vec_get st (hit_id h) = Some emb \<and> length (emb_vector emb) = d
         \<and> hit_score h = similarity ops m query (emb_vector emb))
    \<and> sorted (rev (map (v \<circ> hit_score) res))
    \<and> (\<forall>e emb. vec_get st e = Some emb \<longrightarrow> e \<notin> hit_id ` set res
         \<longrightarrow> (\<forall>h \<in> set res. v (similarity ops m query (emb_vector emb)) \<le> v (hit_score h)))"
proof -
  have wf: "vec_wf st" unfolding assms(1) by (rule vec_run.run_inv [OF vec_wf_new]) simp
  have dm: "vec_dimension st = d" "vec_metric st = m" by (simp_all add: assms(1) vector_store_new_def)
  define hit where "hit = (\<lambda>(e, emb :: 'f embedding). \<lparr>hit_id = e, hit_score = similarity ops m query (emb_vector emb)\<rparr>)"
  define scored where "scored = map hit (embeddings st)"
  define res where "res = take k (sort_by (\<lambda>a b. cmp_by ops hit_score b a) scored)"
  have get: "(e, emb) \<in> set (embeddings st) \<longleftrightarrow> vec_get st e = Some emb" for e emb
    using wf by (simp add: vec_get_def vec_wf_def hm_wf_def)
  have scored_iff: "h \<in> set scored \<longleftrightarrow> (\<exists>emb. vec_get st (hit_id h) = Some emb
      \<and> hit_score h = similarity ops m query (emb_vector emb))" for h
    unfolding scored_def hit_def by (cases h) (auto simp: image_iff get split: prod.splits intro!: bexI)
  have ids: "distinct (map hit_id scored)"
    using wf by (simp add: scored_def hit_def vec_wf_def hm_wf_def o_def split_def)
  have in_S: "\<forall>h \<in> set scored. hit_score h \<in> S" using scored_iff assms(3) by auto
  have cmp: "\<forall>x \<in> set scored. \<forall>y \<in> set scored.
      cmp_by ops hit_score y x = rank_cmp (- v (hit_score x)) (- v (hit_score y))"
    using in_S by (auto simp: cmp_by_ordered [OF assms(4)] rank_cmp_def)
  note best = best_of_sort_by [OF cmp res_def]
  have search: "vec_search ops query k st = Inr res"
    by (simp add: vec_search_def dm assms(2) res_def scored_def hit_def)
  have "sorted (rev (map (v \<circ> hit_score) res))"
    using best(3) by (simp add: sorted_wrt_rev sorted_wrt_map o_def)
  moreover have "v (similarity ops m query (emb_vector emb)) \<le> v (hit_score h)"
    if "vec_get st e = Some emb" "e \<notin> hit_id ` set res" "h \<in> set res" for e emb h
  proof -
    let ?h = "\<lparr>hit_id = e, hit_score = similarity ops m query (emb_vector emb)\<rparr>"
    have "?h \<in> set scored - set res" using that(1,2) scored_iff [of ?h] by force
    from bspec [OF bspec [OF best(5) this] that(3)] show ?thesis by simp
  qed
  moreover have "\<forall>h \<in> set res. \<exists>emb. vec_get st (hit_id h) = Some emb \<and> length (emb_vector emb) = d
      \<and> hit_score h = similarity ops m query (emb_vector emb)"
    using best(1) scored_iff wf unfolding vec_wf_def dm emb_dim_def by (metis subsetD)
  ultimately show ?thesis
    using best(2) best(4) [OF ids] by (intro exI [of _ res]) (simp add: search scored_def)
qed

theorem vector_search_top_k_witness:
  "\<exists>res. vec_search ex_floats [1, 0] 1 (run vec_step (vector_store_new 2 DotProduct)
      [VUpsert (embedding_new ''a'' [1, 2]), VUpsert (embedding_new ''b'' [3, 0])]) = Inr res
    \<and> length res = 1 \<and> map hit_id res = [''b'']"
proof -
  let ?st = "run vec_step (vector_store_new 2 DotProduct)
      [VUpsert (embedding_new ''a'' [1, 2 :: int]), VUpsert (embedding_new ''b'' [3, 0])]"
  have get: "vec_get ?st ''a'' = Some (embedding_new ''a'' [1, 2])" "length (embeddings ?st) = 2"
    by (simp_all add: vec_upsert_def vec_get_def vector_store_new_def embedding_new_def emb_dim_def)
  obtain res where res: "vec_search ex_floats [1, 0] 1 ?st = Inr res" "length res = min 1 2"
    "\<forall>h \<in> set res. \<exists>emb. vec_get ?st (hit_id h) = Some emb \<and> length (emb_vector emb) = 2
       \<and> hit_score h = similarity ex_floats DotProduct [1, 0] (emb_vector emb)"
    "\<forall>e emb. vec_get ?st e = Some emb \<longrightarrow> e \<notin> hit_id ` set res
       \<longrightarrow> (\<forall>h \<in> set res. similarity ex_floats DotProduct [1, 0] (emb_vector emb) \<le> hit_score h)"
    using vector_search_top_k [OF refl _ UNIV_I ex_floats_ordered, where query = "[1, 0]" and d = 2 and m = DotProduct
        and k = 1 and writes = "[VUpsert (embedding_new ''a'' [1, 2 :: int]), VUpsert (embedding_new ''b'' [3, 0])]"]
      get(2) by fastforce
  from res(2) obtain h where h: "res = [h]" by (cases res) auto
  with res(3) have "hit_id h \<in> {''a'', ''b''}"
    by (auto simp: vec_upsert_def vec_get_def vector_store_new_def embedding_new_def emb_dim_def split: if_splits)
  moreover have "hit_id h \<noteq> ''a''"
  proof
    assume a: "hit_id h = ''a''"
    have b: "vec_get ?st ''b'' = Some (embedding_new ''b'' [3, 0])"
      by (simp add: vec_upsert_def vec_get_def vector_store_new_def embedding_new_def emb_dim_def)
    from a get(1) res(3) have "hit_score h = 1"
      by (simp add: h similarity_def dot_def f_sum_def ex_floats_def embedding_new_def)
    moreover have "similarity ex_floats DotProduct [1, 0] [3, 0] \<le> hit_score h"
      using res(4) [rule_format, OF b] a by (simp add: h embedding_new_def)
    then have "3 \<le> hit_score h" by (simp add: similarity_def dot_def f_sum_def ex_floats_def)
    ultimately show False by simp
  qed
  ultimately show ?thesis using res(1) h by simp
qed

end
