(* ===== verification/Tensor_Store.thy ===== *)
theory Tensor_Store
  imports Modality_Store
begin

text \<open>
  The tensor modality (\<open>verisim-tensor/src/lib.rs\<close>): tensors with their shape check and the in-memory
  store. A dimension is a \<open>usize\<close>, so the product of a shape wraps around as in a release build. The
  conversions to \<open>ndarray\<close> and the reductions it computes are not modelled.
\<close>

datatype tensor_error =
    ShapeMismatch "u64 list" "u64 list"
  | NotFound string
  | InvalidOperation string
  | SerializationError string
  | LockPoisoned

text \<open>\<open>{:?}\<close> of a list of numbers.\<close>

definition debug_shape :: "u64 list \<Rightarrow> string" where
  "debug_shape ns = ''['' @ join '', '' (map (\<lambda>n. dec_digits (unat n)) ns) @ '']''"

fun tensor_error_display :: "tensor_error \<Rightarrow> string" where
  "tensor_error_display (ShapeMismatch e a) =
     ''Shape mismatch: expected '' @ debug_shape e @ '', got '' @ debug_shape a"
| "tensor_error_display (NotFound e) = ''Tensor not found: '' @ e"
| "tensor_error_display (InvalidOperation e) = ''Invalid operation: '' @ e"
| "tensor_error_display (SerializationError e) = ''Serialization error: '' @ e"
| "tensor_error_display LockPoisoned = ''Lock poisoned: internal concurrency error''"

datatype dtype = Float32 | Float64 | Int32 | Int64 | Bool

record 'd tensor =
  t_id :: string
  t_shape :: "u64 list"
  t_dtype :: dtype
  t_data :: "'d list"
  t_metadata :: "(string \<times> string) list"

definition shape_product :: "u64 list \<Rightarrow> u64" where
  "shape_product ns = foldl (*) 1 ns"

definition tensor_new :: "string \<Rightarrow> u64 list \<Rightarrow> 'd list \<Rightarrow> tensor_error + 'd tensor" where
  "tensor_new e shape data =
     (let expected_len = shape_product shape
      in if length data \<noteq> unat expected_len then
           Inl (InvalidOperation (''Data length '' @ dec_digits (length data) @ '' doesn't match shape ''
             @ debug_shape shape @ '' (expected '' @ dec_digits (unat expected_len) @ '')''))
         else Inr \<lparr>t_id = e, t_shape = shape, t_dtype = Float64, t_data = data, t_metadata = []\<rparr>)"

definition tensor_filled :: "'d \<Rightarrow> string \<Rightarrow> u64 list \<Rightarrow> 'd tensor" where
  "tensor_filled x e shape =
     \<lparr>t_id = e, t_shape = shape, t_dtype = Float64, t_data = replicate (unat (shape_product shape)) x,
      t_metadata = []\<rparr>"

definition tensor_zeros :: "'d float_ops \<Rightarrow> string \<Rightarrow> u64 list \<Rightarrow> 'd tensor" where
  "tensor_zeros fo = tensor_filled (f_literal fo 0)"

definition tensor_ones :: "'d float_ops \<Rightarrow> string \<Rightarrow> u64 list \<Rightarrow> 'd tensor" where
  "tensor_ones fo = tensor_filled (f_literal fo 1)"

definition tensor_ndim :: "'d tensor \<Rightarrow> nat" where
  "tensor_ndim t = length (t_shape t)"

definition tensor_numel :: "'d tensor \<Rightarrow> u64" where
  "tensor_numel t = shape_product (t_shape t)"

definition tensor_with_metadata :: "string \<Rightarrow> string \<Rightarrow> 'd tensor \<Rightarrow> 'd tensor" where
  "tensor_with_metadata k v t = t\<lparr>t_metadata := AList.update k v (t_metadata t)\<rparr>"

type_synonym 'd tensor_store = "(string \<times> 'd tensor) list"

definition tensor_put :: "'d tensor \<Rightarrow> 'd tensor_store \<Rightarrow> (tensor_error + unit) \<times> 'd tensor_store" where
  "tensor_put t st = (Inr (), AList.update (t_id t) t st)"

definition tensor_get :: "'d tensor_store \<Rightarrow> string \<Rightarrow> 'd tensor option" where
  "tensor_get st e = map_of st e"

definition tensor_delete :: "string \<Rightarrow> 'd tensor_store \<Rightarrow> 'd tensor_store" where
  "tensor_delete e st = AList.delete e st"

definition tensor_list :: "'d tensor_store \<Rightarrow> string list" where
  "tensor_list st = map fst st"

definition tensor_map :: "'d tensor_store \<Rightarrow> string \<Rightarrow> ('d \<Rightarrow> 'd) \<Rightarrow> tensor_error + 'd tensor" where
  "tensor_map st e f =
     (case map_of st e of
        None \<Rightarrow> Inl (NotFound e)
      | Some t \<Rightarrow> Inr (t\<lparr>t_id := t_id t @ ''_mapped'', t_data := map f (t_data t)\<rparr>))"

interpretation tensors: entity_store "\<lambda>_. tensor_put" tensor_get tensor_delete "\<lambda>e t. t_id t = e"
  by unfold_locales (auto simp: tensor_put_def tensor_get_def tensor_delete_def)

text \<open>A tensor is well-shaped when its data has as many elements as its shape says.\<close>

definition tensor_wf :: "'d tensor \<Rightarrow> bool" where
  "tensor_wf t \<longleftrightarrow> length (t_data t) = unat (tensor_numel t)"

lemma tensor_new_ok:
  "tensor_new e shape data = Inr t \<Longrightarrow> tensor_wf t \<and> t_id t = e \<and> t_shape t = shape \<and> t_data t = data"
  by (auto simp: tensor_new_def Let_def tensor_wf_def tensor_numel_def split: if_splits)

lemma tensor_map_wf: "tensor_get st e = Some t \<Longrightarrow> tensor_wf t \<Longrightarrow> tensor_map st e f = Inr t' \<Longrightarrow> tensor_wf t'"
  by (auto simp: tensor_map_def tensor_get_def tensor_wf_def tensor_numel_def)

text \<open>
  The product of the dimensions wraps around: a shape of more than \<open>2 ^ 64\<close> elements is accepted
  without data.
\<close>

theorem tensor_shape_wraps:
  "\<exists>t. tensor_new e [2 ^ 32, 2 ^ 32] [] = Inr t \<and> prod_list (map unat (t_shape t)) = 2 ^ 64 \<and> t_data t = []"
  by (simp add: tensor_new_def Let_def shape_product_def)

end
