(* ===== verification/Zkp.thy ===== *)
theory Zkp
  imports Prelude
begin

text \<open>
  The proof primitives of the semantic modality (\<open>verisim-semantic/src/zkp.rs\<close>): hash commitments, Merkle
  trees with inclusion proofs, and the verification of a proof against a claim. SHA-256 is a parameter
  \<open>sha\<close>; a \<open>[u8; 32]\<close> is a byte list, and statements that need its length say so.
\<close>

section \<open>Commitments\<close>

text \<open>The constant-time comparison: the differences of all byte pairs are collected before the test.\<close>

unbundle bit_operations_syntax

definition constant_time_eq :: "u8 list \<Rightarrow> u8 list \<Rightarrow> bool" where
  "constant_time_eq a b =
     (if length a \<noteq> length b then False
      else foldl (\<lambda>diff (x, y). diff OR (x XOR y)) 0 (zip a b) = 0)"

record hash_commitment =
  commitment :: "u8 list"

definition commit :: "(u8 list \<Rightarrow> u8 list) \<Rightarrow> u8 list \<Rightarrow> u8 list \<Rightarrow> hash_commitment" where
  "commit sha claim secret = \<lparr>commitment = sha (claim @ secret)\<rparr>"

definition verify_commitment ::
  "(u8 list \<Rightarrow> u8 list) \<Rightarrow> hash_commitment \<Rightarrow> u8 list \<Rightarrow> u8 list \<Rightarrow> bool" where
  "verify_commitment sha c claim secret = constant_time_eq (commitment c) (commitment (commit sha claim secret))"

section \<open>Merkle trees\<close>

record merkle_path_element =
  sibling :: "u8 list"
  is_left :: bool

record merkle_proof =
  leaf :: "u8 list"
  path :: "merkle_path_element list"
  root :: "u8 list"

definition hash_pair :: "(u8 list \<Rightarrow> u8 list) \<Rightarrow> u8 list \<Rightarrow> u8 list \<Rightarrow> u8 list" where
  "hash_pair sha l r = sha (l @ r)"

definition pad_even :: "'a list \<Rightarrow> 'a list" where
  "pad_even hs = (if odd (length hs) then hs @ [last hs] else hs)"

text \<open>A level is padded to an even length, so its chunks of two are all full.\<close>

fun hash_chunks :: "(u8 list \<Rightarrow> u8 list) \<Rightarrow> u8 list list \<Rightarrow> u8 list list" where
  "hash_chunks sha (x # y # hs) = hash_pair sha x y # hash_chunks sha hs"
| "hash_chunks sha _ = []"

lemma length_hash_chunks [simp]: "length (hash_chunks sha hs) = length hs div 2"
  by (induction sha hs rule: hash_chunks.induct) auto

lemma length_pad_even: "length (pad_even hs) = length hs + length hs mod 2"
  by (simp add: pad_even_def odd_iff_mod_2_eq_one)

function root_loop :: "(u8 list \<Rightarrow> u8 list) \<Rightarrow> u8 list list \<Rightarrow> u8 list" where
  "root_loop sha hs =
     (if 1 < length hs then root_loop sha (hash_chunks sha (pad_even hs)) else hs ! 0)"
  by pat_completeness auto
termination
  by (relation "measure (\<lambda>(sha, hs). length hs)") (auto simp: length_pad_even)

declare root_loop.simps [simp del]

definition merkle_root :: "(u8 list \<Rightarrow> u8 list) \<Rightarrow> u8 list list \<Rightarrow> u8 list" where
  "merkle_root sha leaves = (if leaves = [] then replicate 32 0 else root_loop sha (map sha leaves))"

function path_loop :: "(u8 list \<Rightarrow> u8 list) \<Rightarrow> u8 list list \<Rightarrow> nat \<Rightarrow> merkle_path_element list" where
  "path_loop sha hs idx =
     (if 1 < length hs then
        let padded = pad_even hs;
            sibling_idx = (if even idx then idx + 1 else idx - 1)
        in \<lparr>sibling = padded ! sibling_idx, is_left = odd idx\<rparr>
             # path_loop sha (hash_chunks sha padded) (idx div 2)
      else [])"
  by pat_completeness auto
termination
  by (relation "measure (\<lambda>(sha, hs, idx). length hs)") (auto simp: length_pad_even)

declare path_loop.simps [simp del]

definition merkle_proof_at :: "(u8 list \<Rightarrow> u8 list) \<Rightarrow> u8 list list \<Rightarrow> nat \<Rightarrow> merkle_proof option" where
  "merkle_proof_at sha leaves index =
     (if length leaves \<le> index \<or> leaves = [] then None
      else Some \<lparr>leaf = leaves ! index, path = path_loop sha (map sha leaves) index,
                 root = merkle_root sha leaves\<rparr>)"

fun climb :: "(u8 list \<Rightarrow> u8 list) \<Rightarrow> u8 list \<Rightarrow> merkle_path_element list \<Rightarrow> u8 list" where
  "climb sha current [] = current"
| "climb sha current (e # es) =
     climb sha (if is_left e then hash_pair sha (sibling e) current else hash_pair sha current (sibling e)) es"

definition verify_merkle_proof :: "(u8 list \<Rightarrow> u8 list) \<Rightarrow> merkle_proof \<Rightarrow> bool" where
  "verify_merkle_proof sha p = constant_time_eq (climb sha (sha (leaf p)) (path p)) (root p)"

section \<open>Proofs of claims\<close>

datatype verifiable_proof_data =
    Commitment "u8 list"
  | Reveal "u8 list" "u8 list"
  | MerkleInclusion merkle_proof
  | ContentIntegrity "u8 list"

definition verify_proof :: "(u8 list \<Rightarrow> u8 list) \<Rightarrow> verifiable_proof_data \<Rightarrow> u8 list \<Rightarrow> bool" where
  "verify_proof sha d claim =
     (case d of
        Commitment _ \<Rightarrow> True
      | Reveal c secret \<Rightarrow> constant_time_eq c (commitment (commit sha claim secret))
      | MerkleInclusion p \<Rightarrow> verify_merkle_proof sha p
      | ContentIntegrity h \<Rightarrow> constant_time_eq h (sha claim))"

section \<open>Comparison\<close>

lemma diff_zero: "foldl (\<lambda>diff (x, y). diff OR (x XOR y)) d ps = 0 \<longleftrightarrow> d = 0 \<and> list_all (\<lambda>(x, y). x = y) (ps :: (u8 \<times> u8) list)"
proof (induction ps arbitrary: d)
  case (Cons p ps)
  obtain x y where p: "p = (x, y)" by (cases p)
  have "d OR (x XOR y) = 0 \<longleftrightarrow> d = 0 \<and> x = y" by (metis bit.xor_self or_eq_0_iff word_bw_same(3) xor.assoc xor.left_neutral xor.right_neutral)
  with Cons show ?case by (simp add: p)
qed simp

lemma constant_time_eq_iff [simp]: "constant_time_eq a b \<longleftrightarrow> a = b"
proof -
  have "length a = length b \<Longrightarrow> list_all (\<lambda>(x, y). x = y) (zip a b) \<longleftrightarrow> a = b"
    by (induction a b rule: list_induct2) auto
  then show ?thesis by (auto simp: constant_time_eq_def diff_zero)
qed

section \<open>Trees and paths\<close>

lemma hash_chunks_nth:
  "k < length hs div 2 \<Longrightarrow> hash_chunks sha hs ! k = hash_pair sha (hs ! (2 * k)) (hs ! (2 * k + 1))"
proof (induction sha hs arbitrary: k rule: hash_chunks.induct)
  case (1 sha x y hs)
  then show ?case by (cases k) auto
qed auto

lemma nth_pad_even: "i < length hs \<Longrightarrow> pad_even hs ! i = hs ! i"
  by (simp add: pad_even_def nth_append)

lemma length_padded_div: "length (pad_even hs) div 2 = (length hs + 1) div 2"
  unfolding length_pad_even by presburger

lemma climb_path_loop: "idx < length hs \<Longrightarrow> climb sha (hs ! idx) (path_loop sha hs idx) = root_loop sha hs"
proof (induction sha hs idx rule: path_loop.induct)
  case (1 sha hs idx)
  show ?case
  proof (cases "1 < length hs")
    case True
    let ?p = "pad_even hs"
    have even: "even (length ?p)" by (simp add: length_pad_even)
    have lt: "idx div 2 < length ?p div 2"
      using 1(2) by (simp add: length_padded_div)
    have pair: "hash_chunks sha ?p ! (idx div 2) = hash_pair sha (?p ! (2 * (idx div 2))) (?p ! (2 * (idx div 2) + 1))"
      using lt by (rule hash_chunks_nth)
    have IH: "climb sha (hash_chunks sha ?p ! (idx div 2)) (path_loop sha (hash_chunks sha ?p) (idx div 2))
        = root_loop sha (hash_chunks sha ?p)"
      using 1(1) [OF True refl refl] lt by simp
    show ?thesis
      using True IH pair 1(2) by (cases "even idx")
        (auto simp: path_loop.simps [of sha hs] root_loop.simps [of sha hs] Let_def nth_pad_even elim!: evenE oddE)
  next
    case False
    then have "idx = 0" using 1(2) by simp
    with False show ?thesis by (simp add: path_loop.simps [of sha hs] root_loop.simps [of sha hs])
  qed
qed

text \<open>The number of levels above the leaves.\<close>

fun depth :: "nat \<Rightarrow> nat" where
  "depth n = (if 1 < n then Suc (depth ((n + 1) div 2)) else 0)"

declare depth.simps [simp del]

lemma length_path_loop: "length (path_loop sha hs idx) = depth (length hs)"
proof (induction sha hs idx rule: path_loop.induct)
  case (1 sha hs idx)
  then show ?case
    by (simp add: path_loop.simps [of sha hs] depth.simps [of "length hs"] Let_def length_padded_div)
qed

section \<open>Soundness up to collisions\<close>

text \<open>The byte strings hashed while a tree is built, and while a proof is checked.\<close>

fun chunk_inputs :: "u8 list list \<Rightarrow> u8 list list" where
  "chunk_inputs (x # y # hs) = (x @ y) # chunk_inputs hs"
| "chunk_inputs _ = []"

function level_inputs :: "(u8 list \<Rightarrow> u8 list) \<Rightarrow> u8 list list \<Rightarrow> u8 list list" where
  "level_inputs sha hs =
     (if 1 < length hs then chunk_inputs (pad_even hs) @ level_inputs sha (hash_chunks sha (pad_even hs)) else [])"
  by pat_completeness auto
termination
  by (relation "measure (\<lambda>(sha, hs). length hs)") (auto simp: length_pad_even)

declare level_inputs.simps [simp del]

fun climb_inputs :: "(u8 list \<Rightarrow> u8 list) \<Rightarrow> u8 list \<Rightarrow> merkle_path_element list \<Rightarrow> u8 list list" where
  "climb_inputs sha current [] = []"
| "climb_inputs sha current (e # es) =
     (let pair = (if is_left e then sibling e @ current else current @ sibling e)
      in pair # climb_inputs sha (sha pair) es)"

definition colliding :: "(u8 list \<Rightarrow> u8 list) \<Rightarrow> u8 list list \<Rightarrow> bool" where
  "colliding sha xs \<longleftrightarrow> list_ex (\<lambda>x. list_ex (\<lambda>y. x \<noteq> y \<and> sha x = sha y) xs) xs"

lemma collidingI: "x \<in> set xs \<Longrightarrow> y \<in> set xs \<Longrightarrow> sha x = sha y \<Longrightarrow> x \<noteq> y \<Longrightarrow> colliding sha xs"
  unfolding colliding_def list_ex_iff by blast

lemma colliding_mono: "colliding sha xs \<Longrightarrow> set xs \<subseteq> set ys \<Longrightarrow> colliding sha ys"
  unfolding colliding_def list_ex_iff by blast

lemma in_hash_chunks:
  "h \<in> set (hash_chunks sha hs) \<Longrightarrow>
     \<exists>x \<in> set hs. \<exists>y \<in> set hs. h = sha (x @ y) \<and> x @ y \<in> set (chunk_inputs hs)"
  by (induction sha hs rule: hash_chunks.induct) (auto simp: hash_pair_def)

lemma set_pad_even: "hs \<noteq> [] \<Longrightarrow> set (pad_even hs) = set hs"
  by (auto simp: pad_even_def)

lemma climb_sound:
  assumes "climb sha c es = root_loop sha hs" "length es = depth (length hs)" "hs \<noteq> []"
    and "\<forall>x. length (sha x) = 32" "\<forall>e \<in> set es. length (sibling e) = 32"
    and "length c = 32" "\<forall>h \<in> set hs. length h = 32"
  shows "c \<in> set hs \<or> colliding sha (climb_inputs sha c es @ level_inputs sha hs)"
  using assms
proof (induction sha hs arbitrary: c es rule: root_loop.induct)
  case (1 sha hs)
  show ?case
  proof (cases "1 < length hs")
    case False
    then have "es = []" "hs = [hs ! 0]"
      using 1(3,4) by (auto simp: depth.simps) (cases hs; simp)
    with 1(2) False have "c = hs ! 0" by (simp add: root_loop.simps)
    then show ?thesis using 1(4) by simp
  next
    case True
    let ?next = "hash_chunks sha (pad_even hs)"
    from 1(3) True obtain e es' where es: "es = e # es'" by (cases es) (auto simp: depth.simps)
    define pair where "pair = (if is_left e then sibling e @ c else c @ sibling e)"
    have climb: "climb sha c es = climb sha (sha pair) es'" by (simp add: es pair_def hash_pair_def)
    have lens: "\<forall>h \<in> set ?next. length h = 32" using in_hash_chunks 1(5) by blast
    have "sha pair \<in> set ?next \<or> colliding sha (climb_inputs sha (sha pair) es' @ level_inputs sha ?next)"
    proof (rule 1(1) [OF True])
      show "climb sha (sha pair) es' = root_loop sha ?next"
        using 1(2) True climb by (simp add: root_loop.simps [of sha hs])
      show "length es' = depth (length ?next)"
        using 1(3) True by (simp add: es depth.simps [of "length hs"] length_padded_div)
      have "2 \<le> length (pad_even hs)" using True by (simp add: length_pad_even)
      then have "0 < length ?next" by (simp add: div_greater_zero_iff)
      then show "?next \<noteq> []" by blast
    qed (use 1 es lens in auto)
    moreover have inputs: "set (climb_inputs sha (sha pair) es' @ level_inputs sha ?next)
        \<subseteq> set (climb_inputs sha c es @ level_inputs sha hs)"
      and pair_in: "pair \<in> set (climb_inputs sha c es)"
      and chunks_in: "set (chunk_inputs (pad_even hs)) \<subseteq> set (level_inputs sha hs)"
      using True by (auto simp: es pair_def Let_def level_inputs.simps [of sha hs])
    ultimately consider "sha pair \<in> set ?next"
      | "colliding sha (climb_inputs sha c es @ level_inputs sha hs)"
      using colliding_mono by blast
    then show ?thesis
    proof cases
      case 1
      then obtain x y where xy: "x \<in> set (pad_even hs)" "y \<in> set (pad_even hs)" "sha pair = sha (x @ y)"
        "x @ y \<in> set (chunk_inputs (pad_even hs))"
        using in_hash_chunks by blast
      moreover have "set (pad_even hs) = set hs" using True by (intro set_pad_even) auto
      ultimately have mem: "x \<in> set hs" "y \<in> set hs" by simp_all
      show ?thesis
      proof (cases "pair = x @ y")
        case True
        have "length x = 32" "length (sibling e) = 32" "length c = 32"
          using mem \<open>\<forall>h \<in> set hs. length h = 32\<close> \<open>\<forall>e \<in> set es. length (sibling e) = 32\<close> es \<open>length c = 32\<close> by auto
        with True have "c = x \<or> c = y" by (auto simp: pair_def split: if_splits)
        with mem show ?thesis by auto
      next
        case False
        have "colliding sha (climb_inputs sha c es @ level_inputs sha hs)"
          by (rule collidingI [OF _ _ xy(3) False]) (use pair_in chunks_in xy(4) in auto)
        then show ?thesis ..
      qed
    qed simp
  qed
qed

section \<open>Properties\<close>

lemma merkle_proof_at_cases:
  "case merkle_proof_at sha leaves index of
     None \<Rightarrow> length leaves \<le> index
   | Some p \<Rightarrow> index < length leaves \<and> leaf p = leaves ! index \<and> root p = merkle_root sha leaves
       \<and> verify_merkle_proof sha p"
  using climb_path_loop [of index "map sha leaves" sha]
  by (auto simp: merkle_proof_at_def verify_merkle_proof_def merkle_root_def)

text \<open>
  C12: a Merkle proof is made for exactly the indices of the list, names the leaf at the index and the root
  of the tree, and verifies, whatever the length of the list.
\<close>

theorem merkle_proof_verifies:
  "case merkle_proof_at sha leaves index of
     None \<Rightarrow> length leaves \<le> index
   | Some p \<Rightarrow> index < length leaves \<and> leaf p = leaves ! index \<and> root p = merkle_root sha leaves
       \<and> verify_merkle_proof sha p"
  by (rule merkle_proof_at_cases)

text \<open>
  C13: a proof that verifies against the root of a list and whose path has the height of its tree proves
  membership: its leaf is in the list, or the check and the tree hashed two different byte strings to the
  same value.
\<close>

theorem merkle_proof_sound:
  assumes "verify_merkle_proof sha p" "root p = merkle_root sha leaves"
    and "leaves \<noteq> []" "length (path p) = depth (length leaves)"
    and "\<forall>x. length (sha x) = 32" "\<forall>e \<in> set (path p). length (sibling e) = 32"
  shows "leaf p \<in> set leaves
    \<or> colliding sha (leaf p # leaves @ climb_inputs sha (sha (leaf p)) (path p) @ level_inputs sha (map sha leaves))"
    (is "_ \<or> colliding sha ?inputs")
proof -
  have "sha (leaf p) \<in> set (map sha leaves)
      \<or> colliding sha (climb_inputs sha (sha (leaf p)) (path p) @ level_inputs sha (map sha leaves))"
    by (rule climb_sound) (use assms in \<open>auto simp: verify_merkle_proof_def merkle_root_def\<close>)
  moreover have "leaf p \<in> set leaves \<or> colliding sha ?inputs" if "l \<in> set leaves" "sha (leaf p) = sha l" for l
    using that collidingI [of "leaf p" ?inputs l sha] by (cases "leaf p = l") auto
  ultimately show ?thesis using colliding_mono [of sha _ ?inputs] by fastforce
qed

text \<open>A toy hash with 32 bytes of output, on which the statements can be evaluated.\<close>

definition ex_sha :: "u8 list \<Rightarrow> u8 list" where
  "ex_sha xs = (sum_list xs + of_nat (length xs)) # replicate 31 0"

theorem merkle_proof_sound_witness:
  "[1] \<in> set [[1], [2 :: u8]]
    \<or> colliding ex_sha ([1] # [[1], [2]] @ climb_inputs ex_sha (ex_sha [1]) [\<lparr>sibling = ex_sha [2], is_left = False\<rparr>]
        @ level_inputs ex_sha (map ex_sha [[1], [2]]))"
proof -
  let ?p = "\<lparr>leaf = [1], path = [\<lparr>sibling = ex_sha [2], is_left = False\<rparr>], root = merkle_root ex_sha [[1], [2]]\<rparr>"
  have "verify_merkle_proof ex_sha ?p"
    by (simp add: verify_merkle_proof_def merkle_root_def root_loop.simps pad_even_def)
  from merkle_proof_sound [OF this, of "[[1], [2]]"] show ?thesis
    by (simp add: depth.simps ex_sha_def)
qed

text \<open>
  an inner node passes for a leaf: for every list with at least two elements there is a proof that
  verifies against its root, whose leaf is the concatenation of two hashes of the tree and not an
  element of the list, since leaves and inner nodes are hashed alike.
\<close>

theorem inner_node_accepted_as_leaf:
  assumes "merkle_proof_at sha leaves index = Some p" "path p = e # es"
  shows "\<exists>q. verify_merkle_proof sha q \<and> root q = merkle_root sha leaves \<and> path q = es
    \<and> leaf q = (if is_left e then sibling e @ sha (leaf p) else sha (leaf p) @ sibling e)"
proof -
  have "verify_merkle_proof sha p" "root p = merkle_root sha leaves"
    using merkle_proof_at_cases [of leaves index sha] assms(1) by auto
  then show ?thesis
    by (intro exI [of _ "\<lparr>leaf = (if is_left e then sibling e @ sha (leaf p) else sha (leaf p) @ sibling e),
        path = es, root = merkle_root sha leaves\<rparr>"])
      (auto simp: verify_merkle_proof_def assms(2) hash_pair_def)
qed

theorem inner_node_accepted_as_leaf_witness:
  "\<exists>q. verify_merkle_proof ex_sha q \<and> root q = merkle_root ex_sha [[1], [2]] \<and> path q = []
    \<and> leaf q \<notin> set [[1], [2]]"
proof -
  have "merkle_proof_at ex_sha [[1], [2]] 0
      = Some \<lparr>leaf = [1], path = [\<lparr>sibling = ex_sha [2], is_left = False\<rparr>], root = merkle_root ex_sha [[1], [2]]\<rparr>"
    by (simp add: merkle_proof_at_def path_loop.simps pad_even_def)
  from inner_node_accepted_as_leaf [OF this] obtain q where
    "verify_merkle_proof ex_sha q" "root q = merkle_root ex_sha [[1], [2]]" "path q = []"
    "leaf q = ex_sha [1] @ ex_sha [2]" by auto
  moreover from this(4) have "leaf q \<notin> set [[1], [2]]" by (simp add: ex_sha_def)
  ultimately show ?thesis by blast
qed

text \<open>
  a tree does not bind its list: appending a copy of its last element to a list of odd length above
  one gives another list with the same root.
\<close>

theorem odd_lists_share_root:
  assumes "odd (length leaves)" "1 < length leaves"
  shows "merkle_root sha (leaves @ [last leaves]) = merkle_root sha leaves"
proof -
  have ne: "leaves \<noteq> []" using assms(2) by auto
  then have "pad_even (map sha leaves) = pad_even (map sha (leaves @ [last leaves]))"
    using assms(1) by (simp add: pad_even_def last_map)
  then show ?thesis
    using assms(2) ne by (simp add: merkle_root_def root_loop.simps)
qed

theorem odd_lists_share_root_witness:
  "merkle_root ex_sha [[1], [2], [3], [3]] = merkle_root ex_sha [[1], [2], [3]]"
  using odd_lists_share_root [of "[[1], [2], [3]]" ex_sha] by simp

text \<open>
  An inclusion proof carries its own root, so it is accepted for every claim.
\<close>

theorem inclusion_proof_for_any_claim:
  "\<exists>p. verify_proof sha (MerkleInclusion p) claim \<and> leaf p = value"
  by (intro exI [of _ "\<lparr>leaf = value, path = [], root = sha value\<rparr>"])
    (simp add: verify_proof_def verify_merkle_proof_def)

end
