(* ===== verification/Semantic_Store.thy ===== *)
theory Semantic_Store
  imports Modality_Store Zkp
begin

text \<open>
  The semantic modality (\<open>verisim-semantic/src/lib.rs\<close>): types with constraints, annotations that are
  validated against the types registered when they are made, and proof blobs. The regular expressions,
  the CBOR encoding and the clock are parameters.
\<close>

datatype semantic_error =
    TypeNotFound string
  | ConstraintViolation string
  | InvalidProof string
  | SerializationError string
  | LockPoisoned

fun semantic_error_display :: "semantic_error \<Rightarrow> string" where
  "semantic_error_display (TypeNotFound e) = ''Type not found: '' @ e"
| "semantic_error_display (ConstraintViolation e) = ''Constraint violation: '' @ e"
| "semantic_error_display (InvalidProof e) = ''Invalid proof: '' @ e"
| "semantic_error_display (SerializationError e) = ''Serialization error: '' @ e"
| "semantic_error_display LockPoisoned = ''Lock poisoned: internal concurrency error''"

datatype constraint_kind =
    Required string
  | Pattern string string \<comment> \<open>property, regular expression\<close>
  | Range string "int option" "int option"
  | Custom string

record type_constraint =
  c_name :: string
  c_kind :: constraint_kind
  c_message :: string

record semantic_type =
  st_iri :: string
  st_label :: string
  supertypes :: "string list"
  constraints :: "type_constraint list"

definition semantic_type_new :: "string \<Rightarrow> string \<Rightarrow> semantic_type" where
  "semantic_type_new i l = \<lparr>st_iri = i, st_label = l, supertypes = [], constraints = []\<rparr>"

definition with_supertype :: "string \<Rightarrow> semantic_type \<Rightarrow> semantic_type" where
  "with_supertype s t = t\<lparr>supertypes := supertypes t @ [s]\<rparr>"

definition with_constraint :: "type_constraint \<Rightarrow> semantic_type \<Rightarrow> semantic_type" where
  "with_constraint c t = t\<lparr>constraints := constraints t @ [c]\<rparr>"

datatype semantic_value =
    LangString string string
  | TypedLiteral string string
  | Reference string
  | Collection "semantic_value list"

record 'd annotation_source =
  created_at :: string
  created_by :: string
  origin :: "string option"
  confidence :: 'd

definition annotation_source_default :: "'d float_ops \<Rightarrow> string \<Rightarrow> 'd annotation_source" where
  "annotation_source_default fo now = \<lparr>created_at = now, created_by = ''system'', origin = None, confidence = f_literal fo 1\<rparr>"

record 'd annotation =
  an_entity :: string
  an_types :: "string list"
  an_properties :: "(string \<times> semantic_value) list"
  an_source :: "'d annotation_source"

datatype proof_type = TypeAssignment | ConstraintSatisfaction | Derivation | Attestation

record proof_blob =
  pb_claim :: string
  pb_type :: proof_type
  pb_data :: "u8 list"
  pb_timestamp :: string

definition proof_blob_new :: "string \<Rightarrow> string \<Rightarrow> proof_type \<Rightarrow> u8 list \<Rightarrow> proof_blob" where
  "proof_blob_new now claim pt data = \<lparr>pb_claim = claim, pb_type = pt, pb_data = data, pb_timestamp = now\<rparr>"

record sem_env =
  regex_new :: "string \<Rightarrow> (string \<Rightarrow> bool) option"
  cbor_decode :: "u8 list \<Rightarrow> verifiable_proof_data option"
  sem_sha256 :: "u8 list \<Rightarrow> u8 list"

definition blob_verify :: "sem_env \<Rightarrow> proof_blob \<Rightarrow> semantic_error + bool" where
  "blob_verify env b =
     (case cbor_decode env (pb_data b) of
        Some d \<Rightarrow> Inr (verify_proof (sem_sha256 env) d (str_bytes (pb_claim b)))
      | None \<Rightarrow>
          (case pb_type b of
             Attestation \<Rightarrow> Inr True
           | ConstraintSatisfaction \<Rightarrow> Inr (pb_data b \<noteq> [])
           | Derivation \<Rightarrow> Inr (pb_data b \<noteq> [])
           | TypeAssignment \<Rightarrow> Inr (pb_data b \<noteq> [])))"

record 'd semantic_store =
  sem_types :: "(string \<times> semantic_type) list"
  sem_annotations :: "(string \<times> 'd annotation) list"
  sem_proofs :: "(string \<times> proof_blob list) list"

definition semantic_store_new :: "'d semantic_store" where
  "semantic_store_new = \<lparr>sem_types = [], sem_annotations = [], sem_proofs = []\<rparr>"

definition register_type :: "semantic_type \<Rightarrow> 'd semantic_store \<Rightarrow> 'd semantic_store" where
  "register_type t st = st\<lparr>sem_types := AList.update (st_iri t) t (sem_types st)\<rparr>"

definition get_type :: "'d semantic_store \<Rightarrow> string \<Rightarrow> semantic_type option" where
  "get_type st i = map_of (sem_types st) i"

definition check_constraint :: "sem_env \<Rightarrow> 'd annotation \<Rightarrow> type_constraint \<Rightarrow> string list" where
  "check_constraint env ann c =
     (let violation = c_name c @ '': '' @ c_message c in
      case c_kind c of
        Required prop \<Rightarrow> if map_of (an_properties ann) prop = None then [violation] else []
      | Pattern prop regex \<Rightarrow>
          (case map_of (an_properties ann) prop of
             Some (TypedLiteral v _) \<Rightarrow>
               (case regex_new env regex of
                  Some re \<Rightarrow> if \<not> re v then [violation] else []
                | None \<Rightarrow> [])
           | _ \<Rightarrow> [])
      | _ \<Rightarrow> [])"

definition sem_validate :: "sem_env \<Rightarrow> 'd semantic_store \<Rightarrow> 'd annotation \<Rightarrow> string list" where
  "sem_validate env st ann =
     concat (map (\<lambda>i. case map_of (sem_types st) i of
       None \<Rightarrow> []
     | Some t \<Rightarrow> concat (map (check_constraint env ann) (constraints t))) (an_types ann))"

definition annotate ::
  "sem_env \<Rightarrow> 'd annotation \<Rightarrow> 'd semantic_store \<Rightarrow> (semantic_error + unit) \<times> 'd semantic_store" where
  "annotate env ann st =
     (let violations = sem_validate env st ann
      in if violations \<noteq> [] then (Inl (ConstraintViolation (join ''; '' violations)), st)
         else (Inr (), st\<lparr>sem_annotations := AList.update (an_entity ann) ann (sem_annotations st)\<rparr>))"

definition get_annotations :: "'d semantic_store \<Rightarrow> string \<Rightarrow> 'd annotation option" where
  "get_annotations st e = map_of (sem_annotations st) e"

definition store_proof :: "proof_blob \<Rightarrow> 'd semantic_store \<Rightarrow> 'd semantic_store" where
  "store_proof b st = st\<lparr>sem_proofs := hm_entry [] (pb_claim b) (\<lambda>bs. bs @ [b]) (sem_proofs st)\<rparr>"

definition get_proofs :: "'d semantic_store \<Rightarrow> string \<Rightarrow> proof_blob list" where
  "get_proofs st claim = (case map_of (sem_proofs st) claim of None \<Rightarrow> [] | Some bs \<Rightarrow> bs)"

definition verify_proofs :: "sem_env \<Rightarrow> 'd semantic_store \<Rightarrow> string \<Rightarrow> nat \<times> nat" where
  "verify_proofs env st claim =
     (let proofs = get_proofs st claim
      in (length (filter (\<lambda>b. case blob_verify env b of Inr ok \<Rightarrow> ok | Inl _ \<Rightarrow> False) proofs), length proofs))"

section \<open>Validation\<close>

text \<open>
  The modality has no deletion of annotations; the octad store relies on the laws of writes only, so
  the contract is stated with the removal from the map.
\<close>

definition sem_forget :: "string \<Rightarrow> 'd semantic_store \<Rightarrow> 'd semantic_store" where
  "sem_forget e st = st\<lparr>sem_annotations := AList.delete e (sem_annotations st)\<rparr>"

interpretation semantic: entity_store "\<lambda>_. annotate env" get_annotations sem_forget "\<lambda>e ann. an_entity ann = e"
  by unfold_locales (auto simp: annotate_def get_annotations_def sem_forget_def Let_def split: if_splits)

text \<open>What the constraints that are checked mean.\<close>

fun meets :: "sem_env \<Rightarrow> (string \<Rightarrow> semantic_value option) \<Rightarrow> constraint_kind \<Rightarrow> bool" where
  "meets env props (Required p) \<longleftrightarrow> props p \<noteq> None"
| "meets env props (Pattern p rx) \<longleftrightarrow>
     (\<forall>v dt re. props p = Some (TypedLiteral v dt) \<longrightarrow> regex_new env rx = Some re \<longrightarrow> re v)"
| "meets env props (Range p lo hi) \<longleftrightarrow> True"
| "meets env props (Custom f) \<longleftrightarrow> True"

lemma check_constraint_Nil: "check_constraint env ann c = [] \<longleftrightarrow> meets env (map_of (an_properties ann)) (c_kind c)"
  by (cases "c_kind c")
    (auto simp: check_constraint_def Let_def split: option.splits semantic_value.splits)

definition valid_annotation :: "sem_env \<Rightarrow> 'd semantic_store \<Rightarrow> 'd annotation \<Rightarrow> bool" where
  "valid_annotation env st ann \<longleftrightarrow> (\<forall>i \<in> set (an_types ann). \<forall>t. get_type st i = Some t
     \<longrightarrow> (\<forall>c \<in> set (constraints t). meets env (map_of (an_properties ann)) (c_kind c)))"

lemma sem_validate_Nil: "sem_validate env st ann = [] \<longleftrightarrow> valid_annotation env st ann"
  by (auto simp: sem_validate_def valid_annotation_def get_type_def check_constraint_Nil split: option.splits)

datatype 'd sem_op = SemType semantic_type | SemAnnotate "'d annotation" | SemProof proof_blob

fun sem_step :: "sem_env \<Rightarrow> 'd semantic_store \<Rightarrow> 'd sem_op \<Rightarrow> 'd semantic_store" where
  "sem_step env st (SemType t) = register_type t st"
| "sem_step env st (SemAnnotate ann) = snd (annotate env ann st)"
| "sem_step env st (SemProof b) = store_proof b st"

lemma sem_step_annotations:
  "get_annotations (sem_step env st op) e =
     (case op of
        SemAnnotate ann \<Rightarrow> if an_entity ann = e \<and> valid_annotation env st ann then Some ann else get_annotations st e
      | _ \<Rightarrow> get_annotations st e)"
  by (cases op) (auto simp: get_annotations_def register_type_def store_proof_def annotate_def Let_def sem_validate_Nil)

section \<open>Properties\<close>

text \<open>
  C18: an annotation that is stored was valid when it was made, and is the last valid one. Whatever types
  are registered and annotations and proofs stored, the annotation of an entity met the required
  properties and patterns of every type it names that was registered when it was made, and every later
  annotation of that entity violated one of those that were registered when that later one was made.
\<close>

theorem annotations_were_valid:
  assumes "get_annotations (run (sem_step env) semantic_store_new ops) e = Some ann"
  shows "\<exists>before later. ops = before @ SemAnnotate ann # later \<and> an_entity ann = e
    \<and> valid_annotation env (run (sem_step env) semantic_store_new before) ann
    \<and> (\<forall>mid other rest. later = mid @ SemAnnotate other # rest \<longrightarrow> an_entity other = e
         \<longrightarrow> \<not> valid_annotation env (run (sem_step env) semantic_store_new (before @ SemAnnotate ann # mid)) other)"
  using assms
proof (induction ops rule: rev_induct)
  case Nil
  then show ?case by (simp add: semantic_store_new_def get_annotations_def)
next
  case (snoc op ops)
  let ?st = "run (sem_step env) semantic_store_new ops"
  have get: "get_annotations (sem_step env ?st op) e = Some ann" using snoc.prems by (simp add: run_append)
  show ?case
  proof (cases "\<exists>other. op = SemAnnotate other \<and> an_entity other = e \<and> valid_annotation env ?st other")
    case True
    with get have "op = SemAnnotate ann" "an_entity ann = e" "valid_annotation env ?st ann"
      by (auto simp: sem_step_annotations)
    then show ?thesis by (intro exI [of _ ops] exI [of _ "[]"]) simp
  next
    case False
    with get have "get_annotations ?st e = Some ann"
      by (auto simp: sem_step_annotations split: sem_op.splits if_splits)
    from snoc.IH [OF this] obtain before later where ops: "ops = before @ SemAnnotate ann # later" "an_entity ann = e"
      "valid_annotation env (run (sem_step env) semantic_store_new before) ann"
      and others: "\<And>mid other rest. later = mid @ SemAnnotate other # rest \<Longrightarrow> an_entity other = e
        \<Longrightarrow> \<not> valid_annotation env (run (sem_step env) semantic_store_new (before @ SemAnnotate ann # mid)) other"
      by blast
    have "\<not> valid_annotation env (run (sem_step env) semantic_store_new (before @ SemAnnotate ann # mid)) other"
      if "later @ [op] = mid @ SemAnnotate other # rest" "an_entity other = e" for mid other rest
    proof (cases rest rule: rev_cases)
      case Nil
      with that(1) have "op = SemAnnotate other" "mid = later" by auto
      with False that(2) ops(1) show ?thesis by auto
    next
      case (snoc rest' op')
      with that(1) have "later = mid @ SemAnnotate other # rest'" by simp
      then show ?thesis using that(2) by (rule others)
    qed
    with ops show ?thesis by (intro exI [of _ before] exI [of _ "later @ [op]"]) simp
  qed
qed

definition ex_sem :: sem_env where
  "ex_sem = \<lparr>regex_new = (\<lambda>rx. Some (\<lambda>v. v = rx)), cbor_decode = (\<lambda>_. None), sem_sha256 = ex_sha\<rparr>"

definition ex_type :: "constraint_kind \<Rightarrow> semantic_type" where
  "ex_type k = with_constraint \<lparr>c_name = ''c'', c_kind = k, c_message = ''m''\<rparr> (semantic_type_new ''T'' ''T'')"

definition ex_annotation :: "(string \<times> semantic_value) list \<Rightarrow> int annotation" where
  "ex_annotation props = \<lparr>an_entity = ''e'', an_types = [''T''], an_properties = props,
     an_source = \<lparr>created_at = ''t'', created_by = ''system'', origin = None, confidence = 1\<rparr>\<rparr>"

lemmas ex_sem_simps = ex_sem_def ex_type_def ex_annotation_def with_constraint_def semantic_type_new_def
  register_type_def annotate_def sem_validate_def check_constraint_def semantic_store_new_def get_annotations_def

theorem annotations_were_valid_witness:
  "\<exists>before later. [SemType (ex_type (Required ''p'')), SemAnnotate (ex_annotation [(''p'', Reference ''x'')]), SemAnnotate (ex_annotation [])]
      = before @ SemAnnotate (ex_annotation [(''p'', Reference ''x'')]) # later
    \<and> valid_annotation ex_sem (run (sem_step ex_sem) semantic_store_new before) (ex_annotation [(''p'', Reference ''x'')])"
proof -
  have "get_annotations (run (sem_step ex_sem) semantic_store_new
      [SemType (ex_type (Required ''p'')), SemAnnotate (ex_annotation [(''p'', Reference ''x'')]), SemAnnotate (ex_annotation [])]) ''e''
    = Some (ex_annotation [(''p'', Reference ''x'')])"
    by (simp add: ex_sem_simps)
  from annotations_were_valid [OF this] show ?thesis by blast
qed

text \<open>
  ranges, custom validators and the constraints of supertypes are never checked: when the registered
  types that an annotation names have only range and custom constraints, every annotation is accepted
  and returned, whatever its properties and whatever the supertypes require.
\<close>

theorem range_constraints_unchecked:
  assumes "\<forall>i \<in> set (an_types ann). \<forall>t. get_type st i = Some t
      \<longrightarrow> (\<forall>c \<in> set (constraints t). \<exists>p lo hi f. c_kind c = Range p lo hi \<or> c_kind c = Custom f)"
    and "annotate env ann st = (r, st')"
  shows "r = Inr () \<and> get_annotations st' (an_entity ann) = Some ann"
proof -
  have "valid_annotation env st ann" unfolding valid_annotation_def using assms(1) by fastforce
  then show ?thesis using assms(2) by (auto simp: annotate_def sem_validate_Nil get_annotations_def)
qed

theorem range_constraints_unchecked_witness:
  "get_annotations (snd (annotate ex_sem (ex_annotation [(''p'', TypedLiteral ''7'' ''int'')])
      (register_type (ex_type (Range ''p'' (Some 0) (Some 3))) semantic_store_new))) ''e''
    = Some (ex_annotation [(''p'', TypedLiteral ''7'' ''int'')])"
proof -
  let ?st = "register_type (ex_type (Range ''p'' (Some 0) (Some 3))) semantic_store_new :: int semantic_store"
  let ?ann = "ex_annotation [(''p'', TypedLiteral ''7'' ''int'')]"
  have "\<forall>i \<in> set (an_types ?ann). \<forall>t. get_type ?st i = Some t
      \<longrightarrow> (\<forall>c \<in> set (constraints t). \<exists>p lo hi f. c_kind c = Range p lo hi \<or> c_kind c = Custom f)"
    by (simp add: ex_sem_simps get_type_def)
  from range_constraints_unchecked [OF this] show ?thesis by (metis ex_annotation_def annotation.select_convs(1) prod.collapse)
qed

text \<open>
  Every claim can be proved: an attestation whose data does not decode counts as a valid proof, and so
  does an inclusion proof of any value in the tree of that value alone.
\<close>

theorem any_claim_verifies:
  assumes "cbor_decode env data = None \<or> cbor_decode env data = Some (MerkleInclusion
      \<lparr>leaf = value, path = [], root = sem_sha256 env value\<rparr>)"
    and "st' = store_proof (proof_blob_new now claim Attestation data) st"
  shows "fst (verify_proofs env st' claim) = Suc (fst (verify_proofs env st claim))"
proof -
  have "blob_verify env (proof_blob_new now claim Attestation data) = Inr True"
    using assms(1) by (auto simp: blob_verify_def proof_blob_new_def verify_proof_def verify_merkle_proof_def)
  then show ?thesis
    by (simp add: assms(2) verify_proofs_def get_proofs_def store_proof_def proof_blob_new_def Let_def split: option.split)
qed

end
