(* ===== verification/Document_Store.thy ===== *)
theory Document_Store
  imports Modality_Store
begin

text \<open>
  The document modality (\<open>verisim-document/src/lib.rs\<close>): documents and the store that keeps them in a map
  beside a full-text index. The index is that of the library \<open>tantivy\<close>; its calls are a record of
  functions on an abstract state of the index writer and reader. Snippets are part of its search.
\<close>

datatype document_error =
    IndexError string
  | NotFound string
  | QueryError string
  | SchemaError string
  | IoError string

fun document_error_display :: "document_error \<Rightarrow> string" where
  "document_error_display (IndexError e) = ''Index error: '' @ e"
| "document_error_display (NotFound e) = ''Document not found: '' @ e"
| "document_error_display (QueryError e) = ''Query parse error: '' @ e"
| "document_error_display (SchemaError e) = ''Schema error: '' @ e"
| "document_error_display (IoError e) = ''IO error: '' @ e"

record document =
  doc_id :: string
  doc_title :: string
  doc_body :: string
  doc_fields :: "(string \<times> string) list"
  doc_metadata :: "(string \<times> string) list"

definition document_new :: "string \<Rightarrow> string \<Rightarrow> string \<Rightarrow> document" where
  "document_new e title body = \<lparr>doc_id = e, doc_title = title, doc_body = body, doc_fields = [], doc_metadata = []\<rparr>"

definition with_field :: "string \<Rightarrow> string \<Rightarrow> document \<Rightarrow> document" where
  "with_field k v d = d\<lparr>doc_fields := AList.update k v (doc_fields d)\<rparr>"

definition doc_with_metadata :: "string \<Rightarrow> string \<Rightarrow> document \<Rightarrow> document" where
  "doc_with_metadata k v d = d\<lparr>doc_metadata := AList.update k v (doc_metadata d)\<rparr>"

record 'f doc_result =
  dr_id :: string
  dr_score :: 'f
  dr_title :: string
  dr_snippet :: "string option"

text \<open>
  The index: deletion by identifier, addition, commit and reload; \<open>ft_query\<close> parses and runs a query on
  what the reader sees and returns, best first, the stored fields, the score and the snippet.
\<close>

record ('ix, 'f) full_text =
  ft_delete_term :: "string \<Rightarrow> 'ix \<Rightarrow> 'ix"
  ft_add_document :: "string \<Rightarrow> string \<Rightarrow> string \<Rightarrow> 'ix \<Rightarrow> (document_error + unit) \<times> 'ix"
  ft_commit :: "'ix \<Rightarrow> (document_error + unit) \<times> 'ix"
  ft_reload :: "'ix \<Rightarrow> (document_error + unit) \<times> 'ix"
  ft_query :: "string \<Rightarrow> nat \<Rightarrow> 'ix \<Rightarrow> document_error + (string option \<times> string option \<times> 'f \<times> string) list"

record 'ix document_store =
  doc_index_state :: 'ix
  documents :: "(string \<times> document) list"

definition document_store_new :: "'ix \<Rightarrow> 'ix document_store" where
  "document_store_new ix = \<lparr>doc_index_state = ix, documents = []\<rparr>"

definition doc_index ::
  "('ix, 'f) full_text \<Rightarrow> document \<Rightarrow> 'ix document_store \<Rightarrow> (document_error + unit) \<times> 'ix document_store" where
  "doc_index ft d st =
     (case ft_add_document ft (doc_id d) (doc_title d) (doc_body d) (ft_delete_term ft (doc_id d) (doc_index_state st)) of
        (Inl err, ix) \<Rightarrow> (Inl err, st\<lparr>doc_index_state := ix\<rparr>)
      | (Inr _, ix) \<Rightarrow> (Inr (), st\<lparr>doc_index_state := ix, documents := AList.update (doc_id d) d (documents st)\<rparr>))"

definition doc_search ::
  "('ix, 'f) full_text \<Rightarrow> string \<Rightarrow> nat \<Rightarrow> 'ix document_store \<Rightarrow> document_error + 'f doc_result list" where
  "doc_search ft query limit st =
     (case ft_query ft query limit (doc_index_state st) of
        Inl err \<Rightarrow> Inl err
      | Inr hits \<Rightarrow> Inr (map (\<lambda>(i, t, score, html).
          \<lparr>dr_id = (case i of None \<Rightarrow> [] | Some s \<Rightarrow> s), dr_score = score, dr_title = (case t of None \<Rightarrow> [] | Some s \<Rightarrow> s),
           dr_snippet = (if html = [] then None else Some html)\<rparr>) hits))"

definition doc_get :: "'ix document_store \<Rightarrow> string \<Rightarrow> document option" where
  "doc_get st e = map_of (documents st) e"

definition doc_delete :: "('ix, 'f) full_text \<Rightarrow> string \<Rightarrow> 'ix document_store \<Rightarrow> 'ix document_store" where
  "doc_delete ft e st =
     st\<lparr>doc_index_state := ft_delete_term ft e (doc_index_state st), documents := AList.delete e (documents st)\<rparr>"

definition doc_commit ::
  "('ix, 'f) full_text \<Rightarrow> 'ix document_store \<Rightarrow> (document_error + unit) \<times> 'ix document_store" where
  "doc_commit ft st =
     (case ft_commit ft (doc_index_state st) of
        (Inl err, ix) \<Rightarrow> (Inl err, st\<lparr>doc_index_state := ix\<rparr>)
      | (Inr _, ix) \<Rightarrow> (case ft_reload ft ix of (r, ix) \<Rightarrow> (r, st\<lparr>doc_index_state := ix\<rparr>)))"

interpretation document: entity_store "\<lambda>_. doc_index ft" doc_get "doc_delete ft" "\<lambda>e d. doc_id d = e"
  by unfold_locales (auto simp: doc_index_def doc_get_def doc_delete_def split: prod.splits sum.splits)

lemma doc_commit_keeps [simp]: "documents (snd (doc_commit ft st)) = documents st"
  by (simp add: doc_commit_def split: prod.split sum.split)

lemma doc_get_commit [simp]: "doc_get (snd (doc_commit ft st)) = doc_get st"
  by (simp add: doc_get_def fun_eq_iff)

end
