(* ===== verification/Spatial_Store.thy ===== *)
theory Spatial_Store
  imports Modality_Store
begin

text \<open>
  The spatial modality (\<open>verisim-spatial/src/lib.rs\<close>): coordinates with their range check, geometries, the
  haversine distance and the in-memory store with its searches by radius, by bounding box and by
  nearness. Floating-point numbers and their functions are those of \<open>float_ops\<close>.
\<close>

datatype spatial_error =
    NotFound string
  | InvalidCoordinates string
  | IndexError string
  | IoError string

fun spatial_error_display :: "spatial_error \<Rightarrow> string" where
  "spatial_error_display (NotFound e) = ''Spatial data not found for entity: '' @ e"
| "spatial_error_display (InvalidCoordinates e) = ''Invalid coordinates: '' @ e"
| "spatial_error_display (IndexError e) = ''Spatial index error: '' @ e"
| "spatial_error_display (IoError e) = ''Spatial I/O error: '' @ e"

record 'd coordinates =
  latitude :: 'd
  longitude :: 'd
  altitude :: "'d option"

definition in_range :: "'d float_ops \<Rightarrow> int \<Rightarrow> 'd \<Rightarrow> bool" where
  "in_range fo b x \<longleftrightarrow> f_le fo (f_literal fo (- b)) x \<and> f_le fo x (f_literal fo b)"

definition coordinates_new :: "'d float_ops \<Rightarrow> 'd \<Rightarrow> 'd \<Rightarrow> 'd option \<Rightarrow> spatial_error + 'd coordinates" where
  "coordinates_new fo lat lon alt =
     (if \<not> in_range fo 90 lat then
        Inl (InvalidCoordinates (''Latitude '' @ f_display fo lat @ '' out of range [-90, 90]''))
      else if \<not> in_range fo 180 lon then
        Inl (InvalidCoordinates (''Longitude '' @ f_display fo lon @ '' out of range [-180, 180]''))
      else if is_nan fo lat \<or> is_nan fo lon then Inl (InvalidCoordinates ''Coordinates must not be NaN'')
      else Inr \<lparr>latitude = lat, longitude = lon, altitude = alt\<rparr>)"

definition coordinates_new_unchecked :: "'d \<Rightarrow> 'd \<Rightarrow> 'd option \<Rightarrow> 'd coordinates" where
  "coordinates_new_unchecked lat lon alt = \<lparr>latitude = lat, longitude = lon, altitude = alt\<rparr>"

datatype geometry_type = Point | LineString | Polygon | MultiPoint | MultiPolygon

record 'd spatial_data =
  coordinates :: "'d coordinates"
  geometry_type :: geometry_type
  srid :: u32
  sp_properties :: "(string \<times> string) list"

definition spatial_point :: "'d float_ops \<Rightarrow> 'd \<Rightarrow> 'd \<Rightarrow> 'd option \<Rightarrow> spatial_error + 'd spatial_data" where
  "spatial_point fo lat lon alt =
     (case coordinates_new fo lat lon alt of
        Inl err \<Rightarrow> Inl err
      | Inr c \<Rightarrow> Inr \<lparr>coordinates = c, geometry_type = Point, srid = 4326, sp_properties = []\<rparr>)"

definition with_geometry :: "'d coordinates \<Rightarrow> geometry_type \<Rightarrow> u32 \<Rightarrow> 'd spatial_data" where
  "with_geometry c g s = \<lparr>coordinates = c, geometry_type = g, srid = s, sp_properties = []\<rparr>"

definition with_property :: "string \<Rightarrow> string \<Rightarrow> 'd spatial_data \<Rightarrow> 'd spatial_data" where
  "with_property k v d = d\<lparr>sp_properties := AList.update k v (sp_properties d)\<rparr>"

record 'd bounding_box =
  min_lat :: 'd
  min_lon :: 'd
  max_lat :: 'd
  max_lon :: 'd

record 'd spatial_result =
  sr_entity :: string
  sr_data :: "'d spatial_data"
  distance_km :: 'd

definition haversine_distance :: "'d float_ops \<Rightarrow> 'd coordinates \<Rightarrow> 'd coordinates \<Rightarrow> 'd" where
  "haversine_distance fo a b =
     (let lat1 = f_to_radians fo (latitude a);
          lat2 = f_to_radians fo (latitude b);
          dlat = f_to_radians fo (f_sub fo (latitude b) (latitude a));
          dlon = f_to_radians fo (f_sub fo (longitude b) (longitude a));
          half = (\<lambda>x. f_powi fo (f_sin fo (f_div fo x (f_literal fo 2))) 2);
          h = f_add fo (half dlat) (f_mul fo (f_mul fo (f_cos fo lat1) (f_cos fo lat2)) (half dlon));
          c = f_mul fo (f_literal fo 2) (f_asin fo (f_sqrt fo h))
      in f_mul fo (f_literal fo 6371) c)"

type_synonym 'd spatial_store = "(string \<times> 'd spatial_data) list"

definition sp_index ::
  "'d float_ops \<Rightarrow> string \<Rightarrow> 'd spatial_data \<Rightarrow> 'd spatial_store \<Rightarrow> (spatial_error + unit) \<times> 'd spatial_store" where
  "sp_index fo e d st =
     (if \<not> in_range fo 90 (latitude (coordinates d)) \<or> \<not> in_range fo 180 (longitude (coordinates d)) then
        (Inl (InvalidCoordinates (''lat='' @ f_display fo (latitude (coordinates d)) @ '', lon=''
           @ f_display fo (longitude (coordinates d)) @ '' out of WGS84 range'')), st)
      else (Inr (), AList.update e d st))"

definition sp_get :: "'d spatial_store \<Rightarrow> string \<Rightarrow> 'd spatial_data option" where
  "sp_get st e = map_of st e"

definition sp_delete :: "string \<Rightarrow> 'd spatial_store \<Rightarrow> 'd spatial_store" where
  "sp_delete e st = AList.delete e st"

text \<open>The end of every search: sort by distance, truncate.\<close>

definition nearest_first :: "'d float_ops \<Rightarrow> nat \<Rightarrow> 'd spatial_result list \<Rightarrow> 'd spatial_result list" where
  "nearest_first fo limit rs = take limit (sort_by (cmp_by fo distance_km) rs)"

definition search_radius ::
  "'d float_ops \<Rightarrow> 'd coordinates \<Rightarrow> 'd \<Rightarrow> nat \<Rightarrow> 'd spatial_store \<Rightarrow> 'd spatial_result list" where
  "search_radius fo center radius limit st =
     nearest_first fo limit
       (List.map_filter (\<lambda>(e, d). let dist = haversine_distance fo center (coordinates d)
          in if f_le fo dist radius then Some \<lparr>sr_entity = e, sr_data = d, distance_km = dist\<rparr> else None) st)"

definition search_within ::
  "'d float_ops \<Rightarrow> 'd bounding_box \<Rightarrow> nat \<Rightarrow> 'd spatial_store \<Rightarrow> 'd spatial_result list" where
  "search_within fo bounds limit st =
     (let two = f_literal fo 2;
          center = coordinates_new_unchecked (f_div fo (f_add fo (min_lat bounds) (max_lat bounds)) two)
            (f_div fo (f_add fo (min_lon bounds) (max_lon bounds)) two) None
      in nearest_first fo limit
           (List.map_filter (\<lambda>(e, d). let lat = latitude (coordinates d); lon = longitude (coordinates d)
              in if f_le fo (min_lat bounds) lat \<and> f_le fo lat (max_lat bounds)
                   \<and> f_le fo (min_lon bounds) lon \<and> f_le fo lon (max_lon bounds)
                 then Some \<lparr>sr_entity = e, sr_data = d,
                        distance_km = haversine_distance fo center (coordinates d)\<rparr>
                 else None) st))"

definition nearest :: "'d float_ops \<Rightarrow> 'd coordinates \<Rightarrow> nat \<Rightarrow> 'd spatial_store \<Rightarrow> 'd spatial_result list" where
  "nearest fo point k st =
     nearest_first fo k
       (map (\<lambda>(e, d). \<lparr>sr_entity = e, sr_data = d, distance_km = haversine_distance fo point (coordinates d)\<rparr>) st)"

section \<open>The store\<close>

interpretation spatial: entity_store "sp_index fo" sp_get sp_delete "\<lambda>_ _. True"
  by unfold_locales (auto simp: sp_index_def sp_get_def sp_delete_def split: if_splits)

text \<open>Only coordinates in range are ever stored.\<close>

definition sp_wf :: "'d float_ops \<Rightarrow> 'd spatial_store \<Rightarrow> bool" where
  "sp_wf fo st \<longleftrightarrow> hm_wf st \<and> (\<forall>e d. sp_get st e = Some d
     \<longrightarrow> in_range fo 90 (latitude (coordinates d)) \<and> in_range fo 180 (longitude (coordinates d)))"

lemma sp_wf_Nil: "sp_wf fo []"
  by (simp add: sp_wf_def sp_get_def)

lemma sp_wf_index: "sp_wf fo st \<Longrightarrow> sp_wf fo (snd (sp_index fo e d st))"
  by (auto simp: sp_wf_def sp_index_def sp_get_def)

lemma sp_wf_delete: "sp_wf fo st \<Longrightarrow> sp_wf fo (sp_delete e st)"
  by (auto simp: sp_wf_def sp_delete_def sp_get_def)

datatype 'd sp_op = SIndex string "'d spatial_data" | SDelete string

fun sp_step :: "'d float_ops \<Rightarrow> 'd spatial_store \<Rightarrow> 'd sp_op \<Rightarrow> 'd spatial_store" where
  "sp_step fo st (SIndex e d) = snd (sp_index fo e d st)"
| "sp_step fo st (SDelete e) = sp_delete e st"

interpretation sp_run: step_system "sp_step fo" "\<lambda>_ _. True" "sp_wf fo"
proof unfold_locales
  fix st op assume "sp_wf fo st"
  then show "sp_wf fo (sp_step fo st op)" by (cases op) (simp_all add: sp_wf_index sp_wf_delete)
qed

text \<open>What the searches share: they rank the entities that satisfy a condition by a distance.\<close>

lemma ranked_search:
  assumes "hm_wf st" "f_ordered fo D v" "\<forall>e d. sp_get st e = Some d \<longrightarrow> P d \<longrightarrow> dist d \<in> D"
    and "res = nearest_first fo limit
      (List.map_filter (\<lambda>(e, d). if P d then Some \<lparr>sr_entity = e, sr_data = d, distance_km = dist d\<rparr> else None) st)"
  shows "\<forall>r \<in> set res. sp_get st (sr_entity r) = Some (sr_data r) \<and> P (sr_data r) \<and> distance_km r = dist (sr_data r)"
    and "distinct (map sr_entity res)" "sorted (map (v \<circ> distance_km) res)"
    and "length res = min limit (length (filter (P \<circ> snd) st))"
    and "\<forall>e d. sp_get st e = Some d \<longrightarrow> P d \<longrightarrow> e \<notin> sr_entity ` set res
      \<longrightarrow> (\<forall>r \<in> set res. v (distance_km r) \<le> v (dist d))"
    and "length st \<le> limit \<Longrightarrow> e \<in> sr_entity ` set res \<longleftrightarrow> (\<exists>d. sp_get st e = Some d \<and> P d)"
proof -
  define hit where "hit = (\<lambda>(e, d). \<lparr>sr_entity = e, sr_data = d, distance_km = dist d\<rparr>)"
  define xs where "xs = map hit (filter (P \<circ> snd) st)"
  have xs: "List.map_filter (\<lambda>(e, d). if P d then Some \<lparr>sr_entity = e, sr_data = d, distance_km = dist d\<rparr> else None) st = xs"
    unfolding xs_def hit_def by (induction st) (auto simp: List.map_filter_simps)
  have res: "res = take limit (sort_by (cmp_by fo distance_km) xs)"
    by (simp add: assms(4) xs nearest_first_def)
  have xs_iff: "r \<in> set xs \<longleftrightarrow> sp_get st (sr_entity r) = Some (sr_data r) \<and> P (sr_data r) \<and> distance_km r = dist (sr_data r)" for r
    using assms(1) unfolding xs_def hit_def sp_get_def hm_wf_def by (cases r) (auto simp: image_iff)
  have "map sr_entity xs = map fst (filter (P \<circ> snd) st)"
    by (simp add: xs_def hit_def o_def split_def)
  then have ids: "distinct (map sr_entity xs)" using assms(1) by (simp add: hm_wf_def distinct_map_filter)
  have in_D: "\<forall>x \<in> set xs. distance_km x \<in> D"
  proof
    fix x assume "x \<in> set xs"
    with xs_iff have "sp_get st (sr_entity x) = Some (sr_data x)" "P (sr_data x)" "distance_km x = dist (sr_data x)" by blast+
    with assms(3) show "distance_km x \<in> D" by simp
  qed
  have cmp: "\<forall>x \<in> set xs. \<forall>y \<in> set xs. cmp_by fo distance_km x y = rank_cmp ((v \<circ> distance_km) x) ((v \<circ> distance_km) y)"
    using in_D by (simp add: cmp_by_ordered [OF assms(2)])
  note best = best_of_sort_by [OF cmp res]
  show "\<forall>r \<in> set res. sp_get st (sr_entity r) = Some (sr_data r) \<and> P (sr_data r) \<and> distance_km r = dist (sr_data r)"
    using best(1) xs_iff by blast
  show "distinct (map sr_entity res)" by (rule best(4) [OF ids])
  show "sorted (map (v \<circ> distance_km) res)" by (rule best(3))
  show "length res = min limit (length (filter (P \<circ> snd) st))" using best(2) by (simp add: xs_def)
  show "\<forall>e d. sp_get st e = Some d \<longrightarrow> P d \<longrightarrow> e \<notin> sr_entity ` set res
      \<longrightarrow> (\<forall>r \<in> set res. v (distance_km r) \<le> v (dist d))"
  proof (intro allI impI ballI)
    fix e d r assume *: "sp_get st e = Some d" "P d" "e \<notin> sr_entity ` set res" "r \<in> set res"
    let ?h = "\<lparr>sr_entity = e, sr_data = d, distance_km = dist d\<rparr>"
    have "?h \<in> set xs - set res" using * xs_iff [of ?h] by force
    from bspec [OF bspec [OF best(5) this] *(4)] show "v (distance_km r) \<le> v (dist d)" by simp
  qed
  assume "length st \<le> limit"
  then have "length xs \<le> limit" by (simp add: xs_def le_trans [OF length_filter_le])
  then have all: "set res = set xs" by (simp add: res)
  show "e \<in> sr_entity ` set res \<longleftrightarrow> (\<exists>d. sp_get st e = Some d \<and> P d)"
  proof
    assume "\<exists>d. sp_get st e = Some d \<and> P d"
    then obtain d where "sp_get st e = Some d" "P d" by blast
    then have "\<lparr>sr_entity = e, sr_data = d, distance_km = dist d\<rparr> \<in> set xs" by (simp add: xs_iff)
    then show "e \<in> sr_entity ` set res" unfolding all by force
  qed (use all xs_iff in auto)
qed

section \<open>Properties\<close>

text \<open>
  C17: the radius search is exact. After any indexing and deletions it returns the entities whose distance
  from the center is at most the radius, each once with its distance, nearest first, up to the limit;
  what the limit leaves out is not nearer than what is returned, and every returned coordinate is in
  range. Distances and the radius must be comparable, which excludes NaN.
\<close>

theorem radius_search_exact:
  assumes "st = run (sp_step fo) [] writes"
    and "f_ordered fo D v" "radius \<in> D" "\<And>e d. sp_get st e = Some d \<Longrightarrow> haversine_distance fo center (coordinates d) \<in> D"
    and "near = {e. \<exists>d. sp_get st e = Some d \<and> v (haversine_distance fo center (coordinates d)) \<le> v radius}"
    and "res = search_radius fo center radius limit st"
  shows "sr_entity ` set res \<subseteq> near \<and> length res = min limit (card near) \<and> distinct (map sr_entity res)
    \<and> sorted (map (v \<circ> distance_km) res)
    \<and> (\<forall>r \<in> set res. sp_get st (sr_entity r) = Some (sr_data r)
         \<and> distance_km r = haversine_distance fo center (coordinates (sr_data r))
         \<and> in_range fo 90 (latitude (coordinates (sr_data r))) \<and> in_range fo 180 (longitude (coordinates (sr_data r))))
    \<and> (\<forall>e \<in> near - sr_entity ` set res. \<forall>r \<in> set res.
         v (distance_km r) \<le> v (haversine_distance fo center (coordinates (the (sp_get st e)))))"
proof -
  have wf: "sp_wf fo st" unfolding assms(1) by (rule sp_run.run_inv [OF sp_wf_Nil]) simp
  then have hm: "hm_wf st" by (simp add: sp_wf_def)
  let ?dist = "\<lambda>d. haversine_distance fo center (coordinates d)"
  let ?P = "\<lambda>d. f_le fo (?dist d) radius"
  have P: "?P d \<longleftrightarrow> v (?dist d) \<le> v radius" if "sp_get st e = Some d" for e d
    using f_ordered_le [OF assms(2) assms(4) [OF that] assms(3)] .
  have in_D: "\<forall>e d. sp_get st e = Some d \<longrightarrow> ?P d \<longrightarrow> ?dist d \<in> D" using assms(4) by blast
  note r = ranked_search [OF hm assms(2) in_D assms(6) [unfolded search_radius_def Let_def]]
  have near: "near = fst ` set (filter (?P \<circ> snd) st)"
    using P hm unfolding assms(5) sp_get_def by (force simp: hm_wf_def)
  moreover have "distinct (map fst (filter (?P \<circ> snd) st))"
    using hm by (simp add: hm_wf_def distinct_map_filter)
  ultimately have card: "card near = length (filter (?P \<circ> snd) st)"
    by (metis distinct_card length_map set_map)
  have near_get: "\<exists>d. sp_get st e = Some d \<and> ?P d" if "e \<in> near" for e
    using that P unfolding assms(5) by blast
  have sub: "sr_entity ` set res \<subseteq> near"
  proof
    fix e assume "e \<in> sr_entity ` set res"
    then obtain x where "x \<in> set res" "e = sr_entity x" by blast
    with r(1) P show "e \<in> near" unfolding assms(5) by blast
  qed
  have "in_range fo 90 (latitude (coordinates (sr_data x))) \<and> in_range fo 180 (longitude (coordinates (sr_data x)))"
    if "x \<in> set res" for x
    using that r(1) wf unfolding sp_wf_def by blast
  moreover have "v (distance_km x) \<le> v (?dist (the (sp_get st e)))"
    if "e \<in> near - sr_entity ` set res" "x \<in> set res" for e x
    using near_get [of e] that r(5) by fastforce
  ultimately show ?thesis using sub r card by simp
qed

text \<open>A place on the equator of the integers.\<close>

definition ex_place :: "int \<Rightarrow> int spatial_data" where
  "ex_place lat = with_geometry (coordinates_new_unchecked lat 0 None) Point 4326"

theorem radius_search_exact_witness:
  "map sr_entity (search_radius ex_floats (coordinates_new_unchecked 0 0 None) 13000 5
     (run (sp_step ex_floats) [] [SIndex ''far'' (ex_place 80), SIndex ''near'' (ex_place 2), SIndex ''out'' (ex_place 100)]))
   = [''near'']"
proof -
  let ?st = "run (sp_step ex_floats) [] [SIndex ''far'' (ex_place 80), SIndex ''near'' (ex_place 2), SIndex ''out'' (ex_place 100)]"
  let ?res = "search_radius ex_floats (coordinates_new_unchecked 0 0 None) 13000 5 ?st"
  let ?near = "{e. \<exists>d. sp_get ?st e = Some d \<and> haversine_distance ex_floats (coordinates_new_unchecked 0 0 None) (coordinates d) \<le> 13000}"
  have st: "?st = [(''far'', ex_place 80), (''near'', ex_place 2)]"
    by (simp add: sp_index_def in_range_def ex_place_def with_geometry_def coordinates_new_unchecked_def
        ex_floats_def f_le_def rank_cmp_def)
  have near: "?near = {''near''}"
    unfolding st by (auto simp: sp_get_def ex_place_def with_geometry_def coordinates_new_unchecked_def
        haversine_distance_def Let_def ex_floats_def split: if_splits)
  have "f_ordered ex_floats UNIV (\<lambda>n. n)" by (simp add: f_ordered_def ex_floats_def)
  from radius_search_exact [OF refl this UNIV_I UNIV_I refl refl,
      where writes = "[SIndex ''far'' (ex_place 80), SIndex ''near'' (ex_place 2), SIndex ''out'' (ex_place 100)]"
        and center = "coordinates_new_unchecked 0 0 None" and radius = 13000 and limit = 5]
  have "sr_entity ` set ?res \<subseteq> {''near''}" "length ?res = 1"
    unfolding near by simp_all
  then show ?thesis by (cases ?res) auto
qed

text \<open>The bounding-box search returns exactly the entities whose coordinates are within the bounds.\<close>

lemma within_search_exact:
  assumes "hm_wf st" "f_ordered fo D v"
    and "\<And>e d. sp_get st e = Some d \<Longrightarrow> haversine_distance fo c (coordinates d) \<in> D"
    and "c = coordinates_new_unchecked (f_div fo (f_add fo (min_lat b) (max_lat b)) (f_literal fo 2))
      (f_div fo (f_add fo (min_lon b) (max_lon b)) (f_literal fo 2)) None"
    and "length st \<le> limit"
  shows "sr_entity ` set (search_within fo b limit st) = {e. \<exists>d. sp_get st e = Some d
    \<and> f_le fo (min_lat b) (latitude (coordinates d)) \<and> f_le fo (latitude (coordinates d)) (max_lat b)
    \<and> f_le fo (min_lon b) (longitude (coordinates d)) \<and> f_le fo (longitude (coordinates d)) (max_lon b)}"
    (is "_ = {e. \<exists>d. _ \<and> ?P d}")
proof -
  let ?res = "search_within fo b limit st"
  have in_D: "\<forall>e d. sp_get st e = Some d \<longrightarrow> ?P d \<longrightarrow> haversine_distance fo c (coordinates d) \<in> D"
    using assms(3) by blast
  have res: "?res = nearest_first fo limit
      (List.map_filter (\<lambda>(e, d). if ?P d
        then Some \<lparr>sr_entity = e, sr_data = d, distance_km = haversine_distance fo c (coordinates d)\<rparr> else None) st)"
    unfolding search_within_def Let_def assms(4) ..
  show ?thesis
    by (rule set_eqI, unfold mem_Collect_eq) (rule ranked_search(6) [OF assms(1,2) in_D res assms(5)])
qed

end
