(* ===== verification/Octad.thy ===== *)
theory Octad
  imports Graph_Store Vector_Store Tensor_Store Semantic_Store Document_Store Spatial_Store
    Temporal Provenance Txn_Manager Wal_Writer
begin

text \<open>
  The octad (\<open>verisim-octad/src/lib.rs\<close>): identifiers, the status of an entity across its modalities, the
  inputs of a write with their builder, the loaded entity, and the messages of the errors that the
  stores hand to their caller. \<open>'f\<close> stands for \<open>f32\<close>, \<open>'d\<close> for \<open>f64\<close>.
\<close>

section \<open>Errors and identifiers\<close>

datatype octad_error =
    NotFound string
  | ModalityError string string \<comment> \<open>modality, message\<close>
  | ConsistencyViolation string
  | ValidationError string

type_synonym octad_id = string

text \<open>\<open>trim_end_matches\<close> of one character.\<close>

definition trim_end :: "char \<Rightarrow> string \<Rightarrow> string" where
  "trim_end c s = rev (dropWhile (\<lambda>x. x = c) (rev s))"

definition to_iri :: "octad_id \<Rightarrow> string \<Rightarrow> string" where
  "to_iri e base = trim_end (CHR ''/'') base @ ''/'' @ e"

text \<open>The messages of the errors of the modalities; the text of a UUID is a parameter.\<close>

fun state_debug :: "transaction_state \<Rightarrow> string" where
  "state_debug Active = ''Active''"
| "state_debug Committed = ''Committed''"
| "state_debug RolledBack = ''RolledBack''"

fun txn_error_display :: "(uuid \<Rightarrow> string) \<Rightarrow> transaction_error \<Rightarrow> string" where
  "txn_error_display show_id (InvalidState t s expected) =
     ''Transaction '' @ show_id t @ '': state is '' @ state_debug s @ '', expected '' @ expected"
| "txn_error_display show_id (LockConflict e m t) =
     ''Lock conflict on '' @ e @ ''/'' @ m @ '' held by '' @ show_id t"
| "txn_error_display show_id (DeadlockDetected t cycle) =
     ''Deadlock detected for '' @ show_id t @ '': cycle ['' @ join '', '' (map show_id cycle) @ '']''"
| "txn_error_display show_id (TransactionNotFound t) = ''Transaction not found: '' @ show_id t"
| "txn_error_display show_id (Lock_Table.InvalidModality m) = ''Invalid modality: '' @ m"
| "txn_error_display show_id (VersionConflict e v w) =
     ''Version conflict on '' @ e @ '': expected v'' @ dec_digits (unat v) @ '', found v'' @ dec_digits (unat w)"

fun temporal_error_display :: "temporal_error \<Rightarrow> string" where
  "temporal_error_display (Temporal.NotFound e) = ''Entity not found: '' @ e"
| "temporal_error_display (VersionNotFound e v) = ''Version not found: '' @ e @ '' @ '' @ dec_digits (unat v)"
| "temporal_error_display (InvalidTimeRange m) = ''Invalid time range: '' @ m"
| "temporal_error_display (TemporalConflict m) = ''Conflict: '' @ m"
| "temporal_error_display Temporal.LockPoisoned = ''Lock poisoned: internal concurrency error''"

fun provenance_error_display :: "provenance_error \<Rightarrow> string" where
  "provenance_error_display (Provenance.NotFound e) = ''Provenance chain not found for entity: '' @ e"
| "provenance_error_display (ChainCorrupted e r) = ''Provenance chain corrupted for entity '' @ e @ '': '' @ r"
| "provenance_error_display (HashMismatch e i) = ''Hash mismatch at index '' @ dec_digits i @ '' for entity '' @ e"
| "provenance_error_display (Provenance.IoError m) = ''Provenance I/O error: '' @ m"

section \<open>Status\<close>

record modality_status =
  ms_graph :: bool
  ms_vector :: bool
  ms_tensor :: bool
  ms_semantic :: bool
  ms_document :: bool
  ms_temporal :: bool
  ms_provenance :: bool
  ms_spatial :: bool

definition modality_status_default :: modality_status where
  "modality_status_default = \<lparr>ms_graph = False, ms_vector = False, ms_tensor = False, ms_semantic = False,
     ms_document = False, ms_temporal = False, ms_provenance = False, ms_spatial = False\<rparr>"

definition is_complete :: "modality_status \<Rightarrow> bool" where
  "is_complete m \<longleftrightarrow> ms_graph m \<and> ms_vector m \<and> ms_tensor m \<and> ms_semantic m \<and> ms_document m
     \<and> ms_temporal m \<and> ms_provenance m \<and> ms_spatial m"

definition missing :: "modality_status \<Rightarrow> string list" where
  "missing m =
     (if ms_graph m then [] else [''graph'']) @ (if ms_vector m then [] else [''vector''])
     @ (if ms_tensor m then [] else [''tensor'']) @ (if ms_semantic m then [] else [''semantic''])
     @ (if ms_document m then [] else [''document'']) @ (if ms_temporal m then [] else [''temporal''])
     @ (if ms_provenance m then [] else [''provenance'']) @ (if ms_spatial m then [] else [''spatial''])"

lemma missing_complete: "missing m = [] \<longleftrightarrow> is_complete m"
  by (simp add: missing_def is_complete_def)

record octad_status =
  os_id :: octad_id
  os_created_at :: datetime
  os_modified_at :: datetime
  os_observed_at :: "datetime option"
  os_version :: u64
  os_modalities :: modality_status

section \<open>Inputs\<close>

record 'f vector_input =
  vi_embedding :: "'f list"
  vi_model :: "string option"

record 'd tensor_input =
  ti_shape :: "u64 list"
  ti_data :: "'d list"

record semantic_input =
  si_types :: "string list"
  si_properties :: "(string \<times> string) list"

record document_input =
  di_title :: string
  di_body :: string
  di_fields :: "(string \<times> string) list"

record provenance_input =
  pi_event_type :: string
  pi_actor :: string
  pi_source :: "string option"
  pi_description :: string

record 'd spatial_input =
  li_latitude :: 'd
  li_longitude :: 'd
  li_altitude :: "'d option"
  li_geometry_type :: "string option"
  li_srid :: "u32 option"
  li_properties :: "(string \<times> string) list"

text \<open>The graph input is its list of relationships, the temporal input its \<open>observed_at\<close>.\<close>

record ('f, 'd) octad_input =
  in_graph :: "(string \<times> string) list option"
  in_vector :: "'f vector_input option"
  in_tensor :: "'d tensor_input option"
  in_semantic :: "semantic_input option"
  in_document :: "document_input option"
  in_temporal :: "datetime option"
  in_provenance :: "provenance_input option"
  in_spatial :: "'d spatial_input option"
  in_metadata :: "(string \<times> string) list"

definition octad_input_default :: "('f, 'd) octad_input" where
  "octad_input_default = \<lparr>in_graph = None, in_vector = None, in_tensor = None, in_semantic = None, in_document = None,
     in_temporal = None, in_provenance = None, in_spatial = None, in_metadata = []\<rparr>"

definition with_relationships :: "(string \<times> string) list \<Rightarrow> ('f, 'd) octad_input \<Rightarrow> ('f, 'd) octad_input" where
  "with_relationships rs i = i\<lparr>in_graph := Some rs\<rparr>"

definition with_embedding :: "'f list \<Rightarrow> ('f, 'd) octad_input \<Rightarrow> ('f, 'd) octad_input" where
  "with_embedding v i = i\<lparr>in_vector := Some \<lparr>vi_embedding = v, vi_model = None\<rparr>\<rparr>"

definition with_tensor :: "u64 list \<Rightarrow> 'd list \<Rightarrow> ('f, 'd) octad_input \<Rightarrow> ('f, 'd) octad_input" where
  "with_tensor shape data i = i\<lparr>in_tensor := Some \<lparr>ti_shape = shape, ti_data = data\<rparr>\<rparr>"

definition with_types :: "string list \<Rightarrow> ('f, 'd) octad_input \<Rightarrow> ('f, 'd) octad_input" where
  "with_types ts i =
     (let existing = (case in_semantic i of None \<Rightarrow> \<lparr>si_types = [], si_properties = []\<rparr> | Some s \<Rightarrow> s)
      in i\<lparr>in_semantic := Some \<lparr>si_types = ts, si_properties = si_properties existing\<rparr>\<rparr>)"

definition with_document :: "string \<Rightarrow> string \<Rightarrow> ('f, 'd) octad_input \<Rightarrow> ('f, 'd) octad_input" where
  "with_document title body i = i\<lparr>in_document := Some \<lparr>di_title = title, di_body = body, di_fields = []\<rparr>\<rparr>"

definition with_provenance :: "string \<Rightarrow> string \<Rightarrow> string \<Rightarrow> ('f, 'd) octad_input \<Rightarrow> ('f, 'd) octad_input" where
  "with_provenance et act descr i =
     i\<lparr>in_provenance := Some \<lparr>pi_event_type = et, pi_actor = act, pi_source = None, pi_description = descr\<rparr>\<rparr>"

definition with_spatial :: "'d \<Rightarrow> 'd \<Rightarrow> ('f, 'd) octad_input \<Rightarrow> ('f, 'd) octad_input" where
  "with_spatial lat lon i =
     i\<lparr>in_spatial := Some \<lparr>li_latitude = lat, li_longitude = lon, li_altitude = None, li_geometry_type = None,
        li_srid = None, li_properties = []\<rparr>\<rparr>"

definition with_observed_at :: "datetime \<Rightarrow> ('f, 'd) octad_input \<Rightarrow> ('f, 'd) octad_input" where
  "with_observed_at t i = i\<lparr>in_temporal := Some t\<rparr>"

definition input_with_metadata :: "string \<Rightarrow> string \<Rightarrow> ('f, 'd) octad_input \<Rightarrow> ('f, 'd) octad_input" where
  "input_with_metadata k v i = i\<lparr>in_metadata := AList.update k v (in_metadata i)\<rparr>"

section \<open>The loaded entity and the configuration\<close>

record ('f, 'd) octad =
  oc_id :: octad_id
  oc_status :: octad_status
  oc_graph_node :: "graph_node option"
  oc_embedding :: "'f embedding option"
  oc_tensor :: "'d tensor option"
  oc_semantic :: "'d annotation option"
  oc_document :: "document option"
  oc_version_count :: u64
  oc_chain_length :: u64
  oc_spatial :: "'d spatial_data option"

record octad_config =
  base_iri :: string
  vector_dimension :: nat
  require_complete :: bool

definition octad_config_default :: octad_config where
  "octad_config_default =
     \<lparr>base_iri = ''https://verisim.db/entity'', vector_dimension = 384, require_complete = False\<rparr>"

end
