(* ===== verification/Octad_Store.thy ===== *)
theory Octad_Store
  imports Octad
begin

text \<open>
  \<open>InMemoryOctadStore\<close> (\<open>verisim-octad/src/store.rs\<close>), the store of entities over the eight modality
  stores, the transaction manager and the write-ahead log, at the modality stores that the server
  uses. The operations are functions on the whole store; a write that reads the registry before it
  takes its locks is split there, so that the interleavings of two writes can be studied. Identifiers,
  clock readings (\<open>now\<close>, numbered in the order of the code) and instants (\<open>inst\<close>, per call of the
  log) are arguments. Writes of the log do not fail, since its I/O errors are not modelled.
\<close>

section \<open>State\<close>

record ('f, 'd) octad_snapshot =
  sn_id :: octad_id
  sn_input :: "('f, 'd) octad_input"
  sn_modalities :: modality_status
  sn_timestamp :: datetime

record ('f, 'd, 'ix) octad_store =
  config :: octad_config
  octads :: "(string \<times> octad_status) list"
  txns :: txn_manager
  wal :: "wal_writer option"
  graph_st :: graph_store
  vector_st :: "'f vector_store"
  document_st :: "'ix document_store"
  tensor_st :: "'d tensor_store"
  semantic_st :: "'d semantic_store"
  temporal_st :: "('f, 'd) octad_snapshot version_store"
  prov_st :: prov_store
  spatial_st :: "'d spatial_store"

record ('f, 'd, 'ix) octad_env =
  e_wal :: wal_env
  e_prov :: prov_env
  e_sem :: sem_env
  e_ft :: "('ix, 'f) full_text"
  e_f32 :: "'f float_ops"
  e_f64 :: "'d float_ops"
  e_to_json :: "('f, 'd) octad_input \<Rightarrow> u8 list option"
  e_from_json :: "u8 list \<Rightarrow> ('f, 'd) octad_input option"
  e_lowercase :: "string \<Rightarrow> string"
  e_rfc3339 :: "datetime \<Rightarrow> string"
  e_show_uuid :: "uuid \<Rightarrow> string"
  e_show_wal :: "wal_error \<Rightarrow> string"

definition octad_store_new ::
  "octad_config \<Rightarrow> graph_store \<Rightarrow> 'f vector_store \<Rightarrow> 'ix document_store \<Rightarrow> 'd tensor_store
     \<Rightarrow> 'd semantic_store \<Rightarrow> ('f, 'd) octad_snapshot version_store \<Rightarrow> prov_store \<Rightarrow> 'd spatial_store
     \<Rightarrow> ('f, 'd, 'ix) octad_store" where
  "octad_store_new cfg g v d t s r p l =
     \<lparr>config = cfg, octads = [], txns = tm_new, wal = None, graph_st = g, vector_st = v, document_st = d,
      tensor_st = t, semantic_st = s, temporal_st = r, prov_st = p, spatial_st = l\<rparr>"

definition with_wal ::
  "('f, 'd, 'ix) octad_env \<Rightarrow> string \<Rightarrow> wal_dir option \<Rightarrow> sync_mode \<Rightarrow> nat \<Rightarrow> ('f, 'd, 'ix) octad_store
     \<Rightarrow> octad_error + ('f, 'd, 'ix) octad_store" where
  "with_wal env name dir mode t st =
     (case wal_open name dir mode t of
        Inl err \<Rightarrow> Inl (ModalityError ''wal'' (''Failed to open WAL: '' @ e_show_wal env err))
      | Inr w \<Rightarrow> Inr (st\<lparr>wal := Some w\<rparr>))"

definition os_wal_append ::
  "wal_env \<Rightarrow> wal_operation \<Rightarrow> string \<Rightarrow> u8 list \<Rightarrow> datetime \<Rightarrow> (nat \<Rightarrow> nat) \<Rightarrow> ('f, 'd, 'ix) octad_store
     \<Rightarrow> ('f, 'd, 'ix) octad_store" where
  "os_wal_append env op e bytes now clk st =
     (case wal st of
        None \<Rightarrow> st
      | Some w \<Rightarrow> st\<lparr>wal := Some (snd (append_entry env clk \<lparr>sequence = 0, timestamp = now, operation = op,
          modality = AllModalities, entity_id = str_bytes e, payload = bytes\<rparr> w))\<rparr>)"

definition os_wal_checkpoint ::
  "wal_env \<Rightarrow> datetime \<Rightarrow> (nat \<Rightarrow> nat) \<Rightarrow> ('f, 'd, 'ix) octad_store \<Rightarrow> ('f, 'd, 'ix) octad_store" where
  "os_wal_checkpoint env now clk st =
     (case wal st of None \<Rightarrow> st | Some w \<Rightarrow> st\<lparr>wal := Some (snd (checkpoint env clk now w))\<rparr>)"

definition graceful_shutdown ::
  "wal_env \<Rightarrow> datetime \<Rightarrow> (nat \<Rightarrow> nat) \<Rightarrow> ('f, 'd, 'ix) octad_store \<Rightarrow> ('f, 'd, 'ix) octad_store" where
  "graceful_shutdown env now clk st = os_wal_checkpoint env now clk st"

section \<open>Writing one modality\<close>

definition process_graph ::
  "octad_id \<Rightarrow> (string \<times> string) list \<Rightarrow> ('f, 'd, 'ix) octad_store
     \<Rightarrow> (octad_error + graph_node) \<times> ('f, 'd, 'ix) octad_store" where
  "process_graph e relationships st =
     (let base = base_iri (config st);
          node = graph_node_new (to_iri e base);
          edge = (\<lambda>(predicate, target). \<lparr>edge_subject = node, edge_predicate = graph_node_new (base @ ''/'' @ predicate),
                    edge_object = Node (graph_node_new (base @ ''/'' @ target))\<rparr>)
      in (Inr node, st\<lparr>graph_st := fold (\<lambda>r. gs_insert (edge r)) relationships (graph_st st)\<rparr>))"

definition process_vector ::
  "octad_id \<Rightarrow> 'f vector_input \<Rightarrow> ('f, 'd, 'ix) octad_store
     \<Rightarrow> (octad_error + 'f embedding) \<times> ('f, 'd, 'ix) octad_store" where
  "process_vector e i st =
     (if length (vi_embedding i) \<noteq> vector_dimension (config st) then
        (Inl (ValidationError (''Vector dimension mismatch: expected '' @ dec_digits (vector_dimension (config st))
           @ '', got '' @ dec_digits (length (vi_embedding i)))), st)
      else let emb = embedding_new e (vi_embedding i) in
        (case vec_upsert emb (vector_st st) of
           (Inl err, v) \<Rightarrow> (Inl (ModalityError ''vector'' (vector_error_display err)), st\<lparr>vector_st := v\<rparr>)
         | (Inr _, v) \<Rightarrow> (Inr emb, st\<lparr>vector_st := v\<rparr>)))"

definition process_document ::
  "('f, 'd, 'ix) octad_env \<Rightarrow> octad_id \<Rightarrow> document_input \<Rightarrow> ('f, 'd, 'ix) octad_store
     \<Rightarrow> (octad_error + document) \<times> ('f, 'd, 'ix) octad_store" where
  "process_document env e i st =
     (let doc = fold (\<lambda>(k, v). with_field k v) (di_fields i) (document_new e (di_title i) (di_body i));
          failed = (\<lambda>err. Inl (ModalityError ''document'' (document_error_display err)))
      in case doc_index (e_ft env) doc (document_st st) of
           (Inl err, d) \<Rightarrow> (failed err, st\<lparr>document_st := d\<rparr>)
         | (Inr _, d) \<Rightarrow>
             (case doc_commit (e_ft env) d of
                (Inl err, d) \<Rightarrow> (failed err, st\<lparr>document_st := d\<rparr>)
              | (Inr _, d) \<Rightarrow> (Inr doc, st\<lparr>document_st := d\<rparr>)))"

definition process_tensor ::
  "octad_id \<Rightarrow> 'd tensor_input \<Rightarrow> ('f, 'd, 'ix) octad_store
     \<Rightarrow> (octad_error + 'd tensor) \<times> ('f, 'd, 'ix) octad_store" where
  "process_tensor e i st =
     (let failed = (\<lambda>err. Inl (ModalityError ''tensor'' (tensor_error_display err)))
      in case tensor_new e (ti_shape i) (ti_data i) of
           Inl err \<Rightarrow> (failed err, st)
         | Inr t \<Rightarrow>
             (case tensor_put t (tensor_st st) of
                (Inl err, ts) \<Rightarrow> (failed err, st\<lparr>tensor_st := ts\<rparr>)
              | (Inr _, ts) \<Rightarrow> (Inr t, st\<lparr>tensor_st := ts\<rparr>)))"

definition xsd_string :: string where
  "xsd_string = ''https://www.w3.org/2001/XMLSchema#string''"

definition process_semantic ::
  "('f, 'd, 'ix) octad_env \<Rightarrow> datetime \<Rightarrow> octad_id \<Rightarrow> semantic_input \<Rightarrow> ('f, 'd, 'ix) octad_store
     \<Rightarrow> (octad_error + 'd annotation) \<times> ('f, 'd, 'ix) octad_store" where
  "process_semantic env now e i st =
     (let properties = fold (\<lambda>(k, v). AList.update k (TypedLiteral v xsd_string)) (si_properties i) [];
          ann = \<lparr>an_entity = e, an_types = si_types i, an_properties = properties,
                 an_source = annotation_source_default (e_f64 env) (e_rfc3339 env now)\<rparr>
      in case annotate (e_sem env) ann (semantic_st st) of
           (Inl err, s) \<Rightarrow> (Inl (ModalityError ''semantic'' (semantic_error_display err)), st\<lparr>semantic_st := s\<rparr>)
         | (Inr _, s) \<Rightarrow> (Inr ann, st\<lparr>semantic_st := s\<rparr>))"

definition event_type_of :: "string \<Rightarrow> provenance_event_type" where
  "event_type_of s =
     (if s = ''created'' then Created else if s = ''modified'' then Modified
      else if s = ''imported'' then Imported else if s = ''normalized'' then Normalized
      else if s = ''drift_repaired'' then DriftRepaired else if s = ''deleted'' then Deleted
      else if s = ''merged'' then Merged else provenance_event_type.Custom s)"

definition process_provenance ::
  "('f, 'd, 'ix) octad_env \<Rightarrow> datetime \<Rightarrow> octad_id \<Rightarrow> provenance_input \<Rightarrow> ('f, 'd, 'ix) octad_store
     \<Rightarrow> (octad_error + u64) \<times> ('f, 'd, 'ix) octad_store" where
  "process_provenance env now e i st =
     (let failed = (\<lambda>err. Inl (ModalityError ''provenance'' (provenance_error_display err)))
      in case record_event (e_prov env) now e (event_type_of (e_lowercase env (pi_event_type i))) (pi_actor i)
                (pi_source i) (pi_description i) (prov_st st) of
           (Inl err, p) \<Rightarrow> (failed err, st\<lparr>prov_st := p\<rparr>)
         | (Inr _, p) \<Rightarrow>
             (case get_chain p e of
                Inl err \<Rightarrow> (failed err, st\<lparr>prov_st := p\<rparr>)
              | Inr c \<Rightarrow> (Inr (of_nat (chain_len c)), st\<lparr>prov_st := p\<rparr>)))"

definition geometry_type_of :: "string option \<Rightarrow> geometry_type" where
  "geometry_type_of g =
     (if g = Some ''LineString'' then LineString else if g = Some ''Polygon'' then Polygon
      else if g = Some ''MultiPoint'' then MultiPoint else if g = Some ''MultiPolygon'' then MultiPolygon
      else Point)"

definition process_spatial ::
  "('f, 'd, 'ix) octad_env \<Rightarrow> octad_id \<Rightarrow> 'd spatial_input \<Rightarrow> ('f, 'd, 'ix) octad_store
     \<Rightarrow> (octad_error + 'd spatial_data) \<times> ('f, 'd, 'ix) octad_store" where
  "process_spatial env e i st =
     (case coordinates_new (e_f64 env) (li_latitude i) (li_longitude i) (li_altitude i) of
        Inl err \<Rightarrow> (Inl (ValidationError (spatial_error_display err)), st)
      | Inr c \<Rightarrow>
          (let srid = (case li_srid i of None \<Rightarrow> 4326 | Some n \<Rightarrow> n);
               data = (with_geometry c (geometry_type_of (li_geometry_type i)) srid)\<lparr>sp_properties := li_properties i\<rparr>
           in case sp_index (e_f64 env) e data (spatial_st st) of
                (Inl err, l) \<Rightarrow> (Inl (ModalityError ''spatial'' (spatial_error_display err)), st\<lparr>spatial_st := l\<rparr>)
              | (Inr _, l) \<Rightarrow> (Inr data, st\<lparr>spatial_st := l\<rparr>)))"

definition rollback_create ::
  "('f, 'd, 'ix) octad_env \<Rightarrow> octad_id \<Rightarrow> modality_status \<Rightarrow> ('f, 'd, 'ix) octad_store
     \<Rightarrow> ('f, 'd, 'ix) octad_store" where
  "rollback_create env e written st =
     (let st = (if ms_vector written then st\<lparr>vector_st := vec_delete e (vector_st st)\<rparr> else st);
          st = (if ms_document written then st\<lparr>document_st := doc_delete (e_ft env) e (document_st st)\<rparr> else st)
      in if ms_tensor written then st\<lparr>tensor_st := tensor_delete e (tensor_st st)\<rparr> else st)"

definition create_snapshot ::
  "octad_id \<Rightarrow> ('f, 'd) octad_input \<Rightarrow> modality_status \<Rightarrow> datetime \<Rightarrow> ('f, 'd) octad_snapshot" where
  "create_snapshot e i ms now = \<lparr>sn_id = e, sn_input = i, sn_modalities = ms, sn_timestamp = now\<rparr>"

section \<open>Writing all modalities\<close>

text \<open>
  A write runs under a transaction: its locks are acquired first, every modality written is recorded,
  and the first failure rolls the transaction back. The code repeats these steps for each modality and
  in \<open>create\<close> and \<open>update\<close>, which differ in the compensation \<open>undo\<close> of a failure and in the version that is
  recorded.
\<close>

definition os_begin :: "uuid \<Rightarrow> datetime \<Rightarrow> ('f, 'd, 'ix) octad_store \<Rightarrow> ('f, 'd, 'ix) octad_store" where
  "os_begin t now st = st\<lparr>txns := snd (tm_begin ReadCommitted t now (txns st))\<rparr>"

definition os_rollback :: "uuid \<Rightarrow> datetime \<Rightarrow> ('f, 'd, 'ix) octad_store \<Rightarrow> ('f, 'd, 'ix) octad_store" where
  "os_rollback t now st = st\<lparr>txns := snd (tm_rollback t now (txns st))\<rparr>"

definition os_record_undo ::
  "uuid \<Rightarrow> octad_id \<Rightarrow> string \<Rightarrow> u64 \<Rightarrow> datetime \<Rightarrow> ('f, 'd, 'ix) octad_store \<Rightarrow> ('f, 'd, 'ix) octad_store" where
  "os_record_undo t e m version now st = st\<lparr>txns := snd (tm_record_undo t e m None version now (txns st))\<rparr>"

definition os_commit ::
  "('f, 'd, 'ix) octad_env \<Rightarrow> string \<Rightarrow> uuid \<Rightarrow> datetime \<Rightarrow> ('f, 'd, 'ix) octad_store
     \<Rightarrow> (octad_error + unit) \<times> ('f, 'd, 'ix) octad_store" where
  "os_commit env what t now st =
     (case tm_commit t now (txns st) of
        (Inl err, tm) \<Rightarrow>
          (Inl (ConsistencyViolation (''Transaction commit failed'' @ what @ '': '' @ txn_error_display (e_show_uuid env) err)),
           st\<lparr>txns := tm\<rparr>)
      | (Inr _, tm) \<Rightarrow> (Inr (), st\<lparr>txns := tm\<rparr>))"

fun acquire_all ::
  "('f, 'd, 'ix) octad_env \<Rightarrow> string \<Rightarrow> uuid \<Rightarrow> octad_id \<Rightarrow> datetime \<Rightarrow> string list \<Rightarrow> ('f, 'd, 'ix) octad_store
     \<Rightarrow> (octad_error + unit) \<times> ('f, 'd, 'ix) octad_store" where
  "acquire_all env what t e now [] st = (Inr (), st)"
| "acquire_all env what t e now (m # ms) st =
     (case tm_acquire_lock t e m Exclusive (txns st) of
        (Inl err, tm) \<Rightarrow>
          (Inl (ConsistencyViolation (''Failed to acquire lock on '' @ m @ what @ '': ''
             @ txn_error_display (e_show_uuid env) err)), os_rollback t now (st\<lparr>txns := tm\<rparr>))
      | (Inr _, tm) \<Rightarrow> acquire_all env what t e now ms (st\<lparr>txns := tm\<rparr>))"

definition requested :: "('f, 'd) octad_input \<Rightarrow> string list" where
  "requested i =
     (if in_graph i = None then [] else [''graph'']) @ (if in_vector i = None then [] else [''vector''])
     @ (if in_document i = None then [] else [''document'']) @ (if in_tensor i = None then [] else [''tensor''])
     @ (if in_semantic i = None then [] else [''semantic'']) @ (if in_provenance i = None then [] else [''provenance''])
     @ (if in_spatial i = None then [] else [''spatial'']) @ [''temporal'']"

definition write_one ::
  "(modality_status \<Rightarrow> ('f, 'd, 'ix) octad_store \<Rightarrow> ('f, 'd, 'ix) octad_store) \<Rightarrow> uuid \<Rightarrow> octad_id \<Rightarrow> u64 \<Rightarrow> datetime
     \<Rightarrow> string \<Rightarrow> (modality_status \<Rightarrow> modality_status)
     \<Rightarrow> ('i \<Rightarrow> ('f, 'd, 'ix) octad_store \<Rightarrow> (octad_error + 'o) \<times> ('f, 'd, 'ix) octad_store) \<Rightarrow> 'i option
     \<Rightarrow> modality_status \<times> ('f, 'd, 'ix) octad_store
     \<Rightarrow> (octad_error + 'o option) \<times> modality_status \<times> ('f, 'd, 'ix) octad_store" where
  "write_one undo t e version now m flag proc inp ms_st =
     (case (inp, ms_st) of
        (None, ms_st) \<Rightarrow> (Inr None, ms_st)
      | (Some i, (ms, st)) \<Rightarrow>
          (case proc i st of
             (Inl err, st) \<Rightarrow> (Inl err, ms, undo ms st)
           | (Inr x, st) \<Rightarrow> (Inr (Some x), flag ms, os_record_undo t e m version now st)))"

record ('f, 'd) written =
  w_graph :: "graph_node option"
  w_vector :: "'f embedding option"
  w_document :: "document option"
  w_tensor :: "'d tensor option"
  w_semantic :: "'d annotation option"
  w_chain_length :: "u64 option"
  w_spatial :: "'d spatial_data option"

definition write_modalities ::
  "('f, 'd, 'ix) octad_env \<Rightarrow> (modality_status \<Rightarrow> ('f, 'd, 'ix) octad_store \<Rightarrow> ('f, 'd, 'ix) octad_store) \<Rightarrow> uuid
     \<Rightarrow> octad_id \<Rightarrow> u64 \<Rightarrow> (nat \<Rightarrow> datetime) \<Rightarrow> ('f, 'd) octad_input \<Rightarrow> modality_status \<times> ('f, 'd, 'ix) octad_store
     \<Rightarrow> (octad_error + ('f, 'd) written) \<times> modality_status \<times> ('f, 'd, 'ix) octad_store" where
  "write_modalities env undo t e version now i =
     rs_bind (write_one undo t e version (now 4) ''graph'' (ms_graph_update (\<lambda>_. True)) (process_graph e) (in_graph i)) (\<lambda>g.
     rs_bind (write_one undo t e version (now 5) ''vector'' (ms_vector_update (\<lambda>_. True)) (process_vector e) (in_vector i)) (\<lambda>v.
     rs_bind (write_one undo t e version (now 6) ''document'' (ms_document_update (\<lambda>_. True)) (process_document env e) (in_document i)) (\<lambda>d.
     rs_bind (write_one undo t e version (now 7) ''tensor'' (ms_tensor_update (\<lambda>_. True)) (process_tensor e) (in_tensor i)) (\<lambda>ts.
     rs_bind (write_one undo t e version (now 9) ''semantic'' (ms_semantic_update (\<lambda>_. True)) (process_semantic env (now 8) e) (in_semantic i)) (\<lambda>s.
     rs_bind (write_one undo t e version (now 11) ''provenance'' (ms_provenance_update (\<lambda>_. True)) (process_provenance env (now 10) e) (in_provenance i)) (\<lambda>p.
     rs_bind (write_one undo t e version (now 12) ''spatial'' (ms_spatial_update (\<lambda>_. True)) (process_spatial env e) (in_spatial i)) (\<lambda>l.
     \<lambda>ms_st. (Inr \<lparr>w_graph = g, w_vector = v, w_document = d, w_tensor = ts, w_semantic = s, w_chain_length = p,
                    w_spatial = l\<rparr>, ms_st))))))))"

definition wal_intent ::
  "('f, 'd, 'ix) octad_env \<Rightarrow> wal_operation \<Rightarrow> octad_id \<Rightarrow> ('f, 'd) octad_input \<Rightarrow> datetime \<Rightarrow> (nat \<Rightarrow> nat)
     \<Rightarrow> ('f, 'd, 'ix) octad_store \<Rightarrow> ('f, 'd, 'ix) octad_store" where
  "wal_intent env op e i now clk st =
     os_wal_append (e_wal env) op e (case e_to_json env i of None \<Rightarrow> [] | Some bs \<Rightarrow> bs) now clk st"

definition committed_mark :: "u8 list" where
  "committed_mark = str_bytes ''COMMITTED''"

definition wal_committed ::
  "('f, 'd, 'ix) octad_env \<Rightarrow> octad_id \<Rightarrow> (nat \<Rightarrow> datetime) \<Rightarrow> (nat \<Rightarrow> nat \<Rightarrow> nat) \<Rightarrow> ('f, 'd, 'ix) octad_store
     \<Rightarrow> ('f, 'd, 'ix) octad_store" where
  "wal_committed env e now inst st =
     os_wal_checkpoint (e_wal env) (now 17) (inst 2)
       (os_wal_append (e_wal env) Checkpoint e committed_mark (now 16) (inst 1) st)"

section \<open>The operations\<close>

definition os_create ::
  "('f, 'd, 'ix) octad_env \<Rightarrow> octad_id \<Rightarrow> uuid \<Rightarrow> (nat \<Rightarrow> datetime) \<Rightarrow> (nat \<Rightarrow> nat \<Rightarrow> nat) \<Rightarrow> ('f, 'd) octad_input
     \<Rightarrow> ('f, 'd, 'ix) octad_store \<Rightarrow> (octad_error + ('f, 'd) octad) \<times> ('f, 'd, 'ix) octad_store" where
  "os_create env e t now inst i st =
     (let st = os_begin t (now 2) (wal_intent env Insert e i (now 1) (inst 0) st);
          undo = (\<lambda>ms st. os_rollback t (now 3) (rollback_create env e ms st))
      in case acquire_all env [] t e (now 3) (requested i) st of
           (Inl err, st) \<Rightarrow> (Inl err, st)
         | (Inr _, st) \<Rightarrow>
         (case write_modalities env undo t e 0 now i (modality_status_default, st) of
            (Inl err, _, st) \<Rightarrow> (Inl err, st)
          | (Inr w, ms, st) \<Rightarrow>
          (case vs_append (now 14) e (create_snapshot e i ms (now 13)) ''system'' (Some ''Initial creation'') (temporal_st st) of
             (Inl err, tp) \<Rightarrow>
               (Inl (ModalityError ''temporal'' (temporal_error_display err)), undo ms (st\<lparr>temporal_st := tp\<rparr>))
           | (Inr version, tp) \<Rightarrow>
               (let ms = ms\<lparr>ms_temporal := True\<rparr> in
                case os_commit env [] t (now 15) (st\<lparr>temporal_st := tp\<rparr>) of
                  (Inl err, st) \<Rightarrow> (Inl err, rollback_create env e ms st)
                | (Inr _, st) \<Rightarrow>
                    (let status = \<lparr>os_id = e, os_created_at = now 0, os_modified_at = now 0,
                           os_observed_at = in_temporal i, os_version = version, os_modalities = ms\<rparr>
                     in (Inr \<lparr>oc_id = e, oc_status = status, oc_graph_node = w_graph w, oc_embedding = w_vector w,
                           oc_tensor = w_tensor w, oc_semantic = w_semantic w, oc_document = w_document w,
                           oc_version_count = 1,
                           oc_chain_length = (case w_chain_length w of None \<Rightarrow> 0 | Some n \<Rightarrow> n),
                           oc_spatial = w_spatial w\<rparr>,
                         wal_committed env e now inst (st\<lparr>octads := AList.update e status (octads st)\<rparr>)))))))"

definition update_existing ::
  "('f, 'd, 'ix) octad_env \<Rightarrow> octad_status \<Rightarrow> octad_id \<Rightarrow> uuid \<Rightarrow> (nat \<Rightarrow> datetime) \<Rightarrow> (nat \<Rightarrow> nat \<Rightarrow> nat)
     \<Rightarrow> ('f, 'd) octad_input \<Rightarrow> ('f, 'd, 'ix) octad_store
     \<Rightarrow> (octad_error + ('f, 'd) octad) \<times> ('f, 'd, 'ix) octad_store" where
  "update_existing env existing e t now inst i st =
     (let st = os_begin t (now 2) (wal_intent env Update e i (now 1) (inst 0) st);
          undo = (\<lambda>ms st. os_rollback t (now 3) st)
      in case acquire_all env [] t e (now 3) (requested i) st of
           (Inl err, st) \<Rightarrow> (Inl err, st)
         | (Inr _, st) \<Rightarrow>
         (case write_modalities env undo t e (os_version existing) now i (os_modalities existing, st) of
            (Inl err, _, st) \<Rightarrow> (Inl err, st)
          | (Inr w, ms, st) \<Rightarrow>
          (case vs_append (now 14) e (create_snapshot e i ms (now 13)) ''system'' (Some ''Update'') (temporal_st st) of
             (Inl err, tp) \<Rightarrow>
               (Inl (ModalityError ''temporal'' (temporal_error_display err)), undo ms (st\<lparr>temporal_st := tp\<rparr>))
           | (Inr version, tp) \<Rightarrow>
               (case os_commit env [] t (now 15) (st\<lparr>temporal_st := tp\<rparr>) of
                  (Inl err, st) \<Rightarrow> (Inl err, st)
                | (Inr _, st) \<Rightarrow>
                    (let status = \<lparr>os_id = e, os_created_at = os_created_at existing, os_modified_at = now 0,
                           os_observed_at = (case in_temporal i of Some o' \<Rightarrow> Some o' | None \<Rightarrow> os_observed_at existing),
                           os_version = version, os_modalities = ms\<rparr>
                     in (Inr \<lparr>oc_id = e, oc_status = status, oc_graph_node = w_graph w, oc_embedding = w_vector w,
                           oc_tensor = w_tensor w, oc_semantic = w_semantic w, oc_document = w_document w,
                           oc_version_count = version,
                           oc_chain_length = (case w_chain_length w of None \<Rightarrow> 0 | Some n \<Rightarrow> n),
                           oc_spatial = w_spatial w\<rparr>,
                         wal_committed env e now inst (st\<lparr>octads := AList.update e status (octads st)\<rparr>)))))))"

definition os_update ::
  "('f, 'd, 'ix) octad_env \<Rightarrow> octad_id \<Rightarrow> uuid \<Rightarrow> (nat \<Rightarrow> datetime) \<Rightarrow> (nat \<Rightarrow> nat \<Rightarrow> nat) \<Rightarrow> ('f, 'd) octad_input
     \<Rightarrow> ('f, 'd, 'ix) octad_store \<Rightarrow> (octad_error + ('f, 'd) octad) \<times> ('f, 'd, 'ix) octad_store" where
  "os_update env e t now inst i st =
     (case map_of (octads st) e of
        None \<Rightarrow> (Inl (NotFound e), st)
      | Some existing \<Rightarrow> update_existing env existing e t now inst i st)"

definition populated :: "modality_status \<Rightarrow> string list" where
  "populated ms =
     (if ms_graph ms then [''graph''] else []) @ (if ms_vector ms then [''vector''] else [])
     @ (if ms_document ms then [''document''] else []) @ (if ms_tensor ms then [''tensor''] else [])
     @ (if ms_semantic ms then [''semantic''] else []) @ (if ms_provenance ms then [''provenance''] else [])
     @ (if ms_spatial ms then [''spatial''] else []) @ [''temporal'']"

definition delete_existing ::
  "('f, 'd, 'ix) octad_env \<Rightarrow> octad_status \<Rightarrow> octad_id \<Rightarrow> uuid \<Rightarrow> (nat \<Rightarrow> datetime) \<Rightarrow> (nat \<Rightarrow> nat \<Rightarrow> nat)
     \<Rightarrow> ('f, 'd, 'ix) octad_store \<Rightarrow> (octad_error + unit) \<times> ('f, 'd, 'ix) octad_store" where
  "delete_existing env existing e t now inst st =
     (let st = os_begin t (now 2) (os_wal_append (e_wal env) Delete e [] (now 1) (inst 0) st);
          ms = populated (os_modalities existing)
      in case acquire_all env '' for delete'' t e (now 3) ms st of
           (Inl err, st) \<Rightarrow> (Inl err, st)
         | (Inr _, st) \<Rightarrow>
             (let st = fold (\<lambda>m. os_record_undo t e m (os_version existing) (now 4)) ms st;
                  st = st\<lparr>vector_st := vec_delete e (vector_st st),
                          document_st := doc_delete (e_ft env) e (document_st st),
                          tensor_st := tensor_delete e (tensor_st st)\<rparr>
              in case os_commit env '' during delete'' t (now 15) st of
                   (Inl err, st) \<Rightarrow> (Inl err, st)
                 | (Inr _, st) \<Rightarrow> (Inr (), wal_committed env e now inst (st\<lparr>octads := AList.delete e (octads st)\<rparr>))))"

definition os_delete ::
  "('f, 'd, 'ix) octad_env \<Rightarrow> octad_id \<Rightarrow> uuid \<Rightarrow> (nat \<Rightarrow> datetime) \<Rightarrow> (nat \<Rightarrow> nat \<Rightarrow> nat)
     \<Rightarrow> ('f, 'd, 'ix) octad_store \<Rightarrow> (octad_error + unit) \<times> ('f, 'd, 'ix) octad_store" where
  "os_delete env e t now inst st =
     (case map_of (octads st) e of
        None \<Rightarrow> (Inl (NotFound e), st)
      | Some existing \<Rightarrow> delete_existing env existing e t now inst st)"

text \<open>Reads: the modalities of a store are read only when the status says that they are there.\<close>

definition load_octad :: "octad_id \<Rightarrow> ('f, 'd, 'ix) octad_store \<Rightarrow> ('f, 'd) octad option" where
  "load_octad e st =
     (case map_of (octads st) e of
        None \<Rightarrow> None
      | Some status \<Rightarrow>
          (let ms = os_modalities status
           in Some \<lparr>oc_id = e, oc_status = status,
                oc_graph_node = (if ms_graph ms then Some (graph_node_new (to_iri e (base_iri (config st)))) else None),
                oc_embedding = (if ms_vector ms then vec_get (vector_st st) e else None),
                oc_tensor = (if ms_tensor ms then tensor_get (tensor_st st) e else None),
                oc_semantic = (if ms_semantic ms then get_annotations (semantic_st st) e else None),
                oc_document = (if ms_document ms then doc_get (document_st st) e else None),
                oc_version_count = (case vs_history (temporal_st st) e 1000 of Inr h \<Rightarrow> of_nat (length h) | Inl _ \<Rightarrow> 0),
                oc_chain_length = (if ms_provenance ms
                  then (case get_chain (prov_st st) e of Inr c \<Rightarrow> of_nat (chain_len c) | Inl _ \<Rightarrow> 0) else 0),
                oc_spatial = (if ms_spatial ms then sp_get (spatial_st st) e else None)\<rparr>))"

definition os_get :: "octad_id \<Rightarrow> ('f, 'd, 'ix) octad_store \<Rightarrow> ('f, 'd) octad option" where
  "os_get e st = load_octad e st"

definition os_status :: "octad_id \<Rightarrow> ('f, 'd, 'ix) octad_store \<Rightarrow> octad_status option" where
  "os_status e st = map_of (octads st) e"

definition load_all :: "octad_id list \<Rightarrow> ('f, 'd, 'ix) octad_store \<Rightarrow> ('f, 'd) octad list" where
  "load_all es st = List.map_filter (\<lambda>e. load_octad e st) es"

definition search_similar ::
  "('f, 'd, 'ix) octad_env \<Rightarrow> 'f list \<Rightarrow> nat \<Rightarrow> ('f, 'd, 'ix) octad_store \<Rightarrow> octad_error + ('f, 'd) octad list" where
  "search_similar env query k st =
     (case vec_search (e_f32 env) query k (vector_st st) of
        Inl err \<Rightarrow> Inl (ModalityError ''vector'' (vector_error_display err))
      | Inr hits \<Rightarrow> Inr (load_all (map hit_id hits) st))"

definition search_text ::
  "('f, 'd, 'ix) octad_env \<Rightarrow> string \<Rightarrow> nat \<Rightarrow> ('f, 'd, 'ix) octad_store \<Rightarrow> octad_error + ('f, 'd) octad list" where
  "search_text env query limit st =
     (case doc_search (e_ft env) query limit (document_st st) of
        Inl err \<Rightarrow> Inl (ModalityError ''document'' (document_error_display err))
      | Inr hits \<Rightarrow> Inr (load_all (map dr_id hits) st))"

definition related_ids :: "string \<Rightarrow> string \<Rightarrow> graph_edge list \<Rightarrow> octad_id list" where
  "related_ids base predicate es =
     List.map_filter (\<lambda>ed.
       if iri (edge_predicate ed) = base @ ''/'' @ predicate then
         (case edge_object ed of
            Node target \<Rightarrow> Some (case strip_prefix (iri target) (base @ ''/'') of None \<Rightarrow> iri target | Some s \<Rightarrow> s)
          | Literal _ _ \<Rightarrow> None)
       else None) es"

definition query_related :: "octad_id \<Rightarrow> string \<Rightarrow> ('f, 'd, 'ix) octad_store \<Rightarrow> ('f, 'd) octad list" where
  "query_related e predicate st =
     (let base = base_iri (config st);
          es = gs_outgoing (graph_st st) (graph_node_new (to_iri e base))
      in load_all (related_ids base predicate es) st)"

definition os_list :: "nat \<Rightarrow> nat \<Rightarrow> ('f, 'd, 'ix) octad_store \<Rightarrow> ('f, 'd) octad list" where
  "os_list limit offset st = load_all (take limit (drop offset (map fst (octads st)))) st"

definition os_at_time ::
  "octad_id \<Rightarrow> datetime \<Rightarrow> ('f, 'd, 'ix) octad_store \<Rightarrow> octad_error + ('f, 'd) octad option" where
  "os_at_time e time st =
     (case vs_at_time (temporal_st st) e time of
        Inl err \<Rightarrow> Inl (ModalityError ''temporal'' (temporal_error_display err))
      | Inr None \<Rightarrow> Inr None
      | Inr (Some v) \<Rightarrow> Inr (map_option
          (\<lambda>h. h\<lparr>oc_status := (oc_status h)\<lparr>os_version := version_no v, os_modified_at := v_timestamp v\<rparr>\<rparr>)
          (load_octad e st)))"

end
