(* ===== verification/Write_Txn.thy ===== *)
theory Write_Txn
  imports Txn_Manager
begin

text \<open>
  What a write of the octad store relies on when it is the only one that runs: the transaction it begins
  gets every lock it asks for, can record undo entries, and commits. The contract is a locale over the
  operations of the manager, interpreted on the model of \<open>TransactionManager\<close>.
\<close>

locale write_transactions =
  fixes open_txn :: "uuid \<Rightarrow> datetime \<Rightarrow> 'tm \<Rightarrow> 'tm"
    and acquire :: "uuid \<Rightarrow> string \<Rightarrow> string \<Rightarrow> 'tm \<Rightarrow> (transaction_error + unit) \<times> 'tm"
    and record_undo :: "uuid \<Rightarrow> string \<Rightarrow> string \<Rightarrow> u64 \<Rightarrow> datetime \<Rightarrow> 'tm \<Rightarrow> 'tm"
    and close :: "uuid \<Rightarrow> datetime \<Rightarrow> 'tm \<Rightarrow> (transaction_error + unit) \<times> 'tm"
    and abandon :: "uuid \<Rightarrow> datetime \<Rightarrow> 'tm \<Rightarrow> 'tm"
    and idle :: "'tm \<Rightarrow> bool"
    and unused :: "uuid \<Rightarrow> 'tm \<Rightarrow> bool"
    and running :: "uuid \<Rightarrow> 'tm \<Rightarrow> bool"
  assumes running_open: "idle tm \<Longrightarrow> unused t tm \<Longrightarrow> running t (open_txn t now tm)"
    and acquire_running: "running t tm \<Longrightarrow> m \<in> set modalities \<Longrightarrow>
      \<exists>tm'. acquire t e m tm = (Inr (), tm') \<and> running t tm'"
    and record_running: "running t tm \<Longrightarrow> running t (record_undo t e m v now tm)"
    and close_running: "running t tm \<Longrightarrow> \<exists>tm'. close t now tm = (Inr (), tm') \<and> idle tm'"
    and abandon_running: "running t tm \<Longrightarrow> idle (abandon t now tm)"
begin

lemma running_record_all: "running t tm \<Longrightarrow> running t (fold (\<lambda>m. record_undo t e m v now) ms tm)"
  by (induction ms arbitrary: tm) (auto intro: record_running)

text \<open>Acquiring the locks of several modalities, one after the other.\<close>

fun acquire_each :: "uuid \<Rightarrow> string \<Rightarrow> string list \<Rightarrow> 'tm \<Rightarrow> (transaction_error + unit) \<times> 'tm" where
  "acquire_each t e [] tm = (Inr (), tm)"
| "acquire_each t e (m # ms) tm = rs_bind (acquire t e m) (\<lambda>_. acquire_each t e ms) tm"

lemma acquire_each_running:
  "running t tm \<Longrightarrow> set ms \<subseteq> set modalities \<Longrightarrow> \<exists>tm'. acquire_each t e ms tm = (Inr (), tm') \<and> running t tm'"
proof (induction ms arbitrary: tm)
  case (Cons m ms)
  from Cons.prems obtain tm1 where "acquire t e m tm = (Inr (), tm1)" "running t tm1"
    using acquire_running [of t tm m e] by auto
  with Cons show ?case by (simp add: rs_bind_def)
qed simp

end

section \<open>The manager between and during writes\<close>

definition tm_idle :: "txn_manager \<Rightarrow> bool" where
  "tm_idle tm \<longleftrightarrow> tm_inv tm \<and> (\<forall>t. \<not> is_live tm t)"

definition tm_unused :: "uuid \<Rightarrow> txn_manager \<Rightarrow> bool" where
  "tm_unused t tm \<longleftrightarrow> map_of (active_transactions tm) t = None"

definition tm_running :: "uuid \<Rightarrow> txn_manager \<Rightarrow> bool" where
  "tm_running t tm \<longleftrightarrow> tm_inv tm \<and> (\<forall>s. is_live tm s \<longleftrightarrow> s = t)
     \<and> (\<forall>txn. get_active tm t = Inr txn \<longrightarrow> isolation txn = ReadCommitted)"

lemma tm_idle_new: "tm_idle tm_new"
  by (simp add: tm_idle_def is_live_iff) (simp add: tm_new_def)

lemma tm_idle_no_locks: "tm_idle tm \<Longrightarrow> tm_lock_holders tm e m = []"
proof -
  assume "tm_idle tm"
  then have "\<not> holds_lock (lock_tbl tm) t e m" for t
    by (auto simp: tm_idle_def tm_inv_def owns_lock_iff is_live_iff)
  then have "holders_of (lock_tbl tm) (e, m) = []" by (cases "holders_of (lock_tbl tm) (e, m)") (auto simp: holds_lock_def)
  then show ?thesis by (simp add: tm_lock_holders_def lt_holders_of)
qed

lemma tm_running_txn:
  assumes "tm_running t tm"
  obtains txn where "get_active tm t = Inr txn" "isolation txn = ReadCommitted"
  using assms unfolding tm_running_def is_live_get_active by blast

lemma holder_is_live: "holds_lock (lock_tbl tm) s e m \<Longrightarrow> tm_inv tm \<Longrightarrow> is_live tm s"
  unfolding tm_inv_def owns_lock_iff is_live_iff by blast

text \<open>Only the running transaction holds locks, so a lock it asks for is free or its own.\<close>

lemma tm_running_holders:
  assumes "tm_running t tm"
  shows "holders_of (lock_tbl tm) (e, m) = []
    \<or> (\<exists>k. holders_of (lock_tbl tm) (e, m) = [\<lparr>holder = t, lock_kind = k\<rparr>])"
proof (cases "holders_of (lock_tbl tm) (e, m)")
  case (Cons h hs)
  have holder: "holder i = t" if "i \<in> set (h # hs)" for i
  proof -
    have "i \<in> set (holders_of (lock_tbl tm) (e, m))" by (simp only: Cons that)
    then have "holds_lock (lock_tbl tm) (holder i) e m" unfolding holds_lock_def by (rule imageI)
    moreover have "tm_inv tm" using assms by (simp add: tm_running_def)
    ultimately have "is_live tm (holder i)" by (rule holder_is_live)
    with assms show ?thesis by (simp add: tm_running_def)
  qed
  have "compatible (h # hs)"
    using assms Cons holders_of_compatible [of "lock_tbl tm" "(e, m)"] by (simp add: tm_running_def tm_inv_def)
  then have "distinct (map holder (h # hs))" by (simp add: compatible_def)
  then have "holder h \<notin> holder ` set hs" by simp
  have "set hs = {}"
  proof (rule equals0I)
    fix a assume a: "a \<in> set hs"
    have "holder a = holder h" using holder [of a] holder [of h] a by (simp only: list.set_intros)
    with a \<open>holder h \<notin> holder ` set hs\<close> show False by (metis imageI)
  qed
  then have "hs = []" by (simp only: set_empty)
  have "holder h = t" by (rule holder) simp
  then have "[h] = [\<lparr>holder = t, lock_kind = lock_kind h\<rparr>]" by simp
  then have "holders_of (lock_tbl tm) (e, m) = [\<lparr>holder = t, lock_kind = lock_kind h\<rparr>]"
    by (simp only: Cons \<open>hs = []\<close>)
  then show ?thesis by blast
qed simp

lemma tm_running_acquire:
  assumes "tm_running t tm" "m \<in> set modalities"
  shows "\<exists>tm'. tm_acquire_lock t e m Exclusive tm = (Inr (), tm') \<and> tm_running t tm'"
proof -
  obtain txn where act: "get_active tm t = Inr txn" "isolation txn = ReadCommitted"
    by (rule tm_running_txn [OF assms(1)])
  have "fst (lt_acquire (lock_tbl tm) t e m Exclusive) = Inr ()"
    using tm_running_holders [OF assms(1), of e m]
    by (auto simp: lt_acquire_def Let_def split: lock_type.split)
  then obtain lt where lt: "lt_acquire (lock_tbl tm) t e m Exclusive = (Inr (), lt)"
    by (cases "lt_acquire (lock_tbl tm) t e m Exclusive") auto
  define tm' where "tm' = acquire_record t e m Exclusive (tm\<lparr>lock_tbl := lt\<rparr>)"
  have ok: "tm_acquire_lock t e m Exclusive tm = (Inr (), tm')"
    by (simp add: tm_acquire_lock_def acquire_check_def assms(2) act lt tm'_def)
  have "tm_inv tm'" using tm_inv_acquire [of tm t e m Exclusive] assms(1) ok by (simp add: tm_running_def)
  moreover have "is_live tm' s \<longleftrightarrow> is_live tm s" for s
    using act by (auto simp: tm'_def acquire_record_def is_live_iff get_active_eq_Inr)
  moreover have "\<forall>x. get_active tm' t = Inr x \<longrightarrow> isolation x = ReadCommitted"
    using act by (auto simp: tm'_def acquire_record_def get_active_eq_Inr)
  ultimately show ?thesis using ok assms(1) by (simp add: tm_running_def)
qed

lemma tm_running_record:
  assumes "tm_running t tm"
  shows "tm_running t (snd (tm_record_undo t e m d v now tm))"
proof -
  obtain txn where act: "get_active tm t = Inr txn" "isolation txn = ReadCommitted"
    by (rule tm_running_txn [OF assms])
  have "tm_inv (snd (tm_record_undo t e m d v now tm))"
    using tm_step_inv [of tm "TUndo t e m d v now"] assms by (simp add: tm_running_def)
  moreover have "snd (tm_record_undo t e m d v now tm) = (if m \<notin> set modalities then tm
      else put_txn t (txn\<lparr>undo_log := undo_log txn @ [\<lparr>ue_entity = e, ue_modality = m,
        previous_data = d, previous_version = v, recorded_at = now\<rparr>]\<rparr>) tm)"
    by (simp add: tm_record_undo_def act(1))
  moreover have "map_of (active_transactions tm) t = Some txn" "txn_state txn = Active"
    using act(1) by (simp_all add: get_active_eq_Inr)
  ultimately show ?thesis
    using assms act by (auto simp: tm_running_def is_live_iff get_active_eq_Inr)
qed

lemma tm_running_commit:
  assumes "tm_running t tm"
  shows "\<exists>tm'. tm_commit t now tm = (Inr (), tm') \<and> tm_idle tm'"
proof -
  obtain txn where act: "get_active tm t = Inr txn" "isolation txn = ReadCommitted"
    by (rule tm_running_txn [OF assms])
  have "tm_inv (snd (tm_commit t now tm))"
    using tm_step_inv [of tm "TCommit t now"] assms by (simp add: tm_running_def)
  moreover have "\<not> is_live (snd (tm_commit t now tm)) s" for s
    using assms act by (auto simp: tm_commit_def tm_running_def is_live_iff)
  ultimately show ?thesis using act by (simp add: tm_commit_def tm_idle_def)
qed

lemma tm_running_rollback:
  assumes "tm_running t tm"
  shows "tm_idle (snd (tm_rollback t now tm))"
proof -
  obtain txn where act: "get_active tm t = Inr txn" "isolation txn = ReadCommitted"
    by (rule tm_running_txn [OF assms])
  have "tm_inv (snd (tm_rollback t now tm))"
    using tm_step_inv [of tm "TRollback t now"] assms by (simp add: tm_running_def)
  moreover have "\<not> is_live (snd (tm_rollback t now tm)) s" for s
    using assms act by (auto simp: tm_rollback_def tm_running_def is_live_iff)
  ultimately show ?thesis by (simp add: tm_idle_def)
qed

interpretation write_txn: write_transactions
  "\<lambda>t now tm. snd (tm_begin ReadCommitted t now tm)" "\<lambda>t e m. tm_acquire_lock t e m Exclusive"
  "\<lambda>t e m v now tm. snd (tm_record_undo t e m None v now tm)" tm_commit
  "\<lambda>t now tm. snd (tm_rollback t now tm)" tm_idle tm_unused tm_running
proof unfold_locales
  fix tm t now assume "tm_idle tm" "tm_unused t tm"
  moreover from this have "tm_inv (snd (tm_begin ReadCommitted t now tm))"
    by (intro tm_inv_begin) (simp_all add: tm_idle_def tm_unused_def)
  ultimately show "tm_running t (snd (tm_begin ReadCommitted t now tm))"
    by (auto simp: tm_running_def tm_idle_def tm_begin_def is_live_iff get_active_eq_Inr transaction_new_def)
qed (rule tm_running_acquire tm_running_record tm_running_commit tm_running_rollback; assumption)+

end
