(* ===== verification/Octad_Spec.thy ===== *)
theory Octad_Spec
  imports Octad_Store Write_Txn
begin

text \<open>
  The abstract specification of the octad store: what the stores of the modalities hold for one entity is
  a record, a write of the store is a function on that record, and everything the store returns is read
  from it. The theory proves that the writes of the modalities implement these functions and touch no
  other entity.
\<close>

section \<open>The view of an entity\<close>

record ('f, 'd) entity_view =
  ev_status :: "octad_status option"
  ev_vector :: "'f embedding option"
  ev_document :: "document option"
  ev_tensor :: "'d tensor option"
  ev_semantic :: "'d annotation option"
  ev_versions :: "('f, 'd) octad_snapshot version list"
  ev_chain :: "provenance_chain option"
  ev_spatial :: "'d spatial_data option"

definition entity_of :: "octad_id \<Rightarrow> ('f, 'd, 'ix) octad_store \<Rightarrow> ('f, 'd) entity_view" where
  "entity_of e st = \<lparr>ev_status = map_of (octads st) e, ev_vector = vec_get (vector_st st) e,
     ev_document = doc_get (document_st st) e, ev_tensor = tensor_get (tensor_st st) e,
     ev_semantic = get_annotations (semantic_st st) e, ev_versions = vs_hist (temporal_st st) e,
     ev_chain = map_of (prov_st st) e, ev_spatial = sp_get (spatial_st st) e\<rparr>"

definition chain_count :: "provenance_chain option \<Rightarrow> u64" where
  "chain_count c = (case c of None \<Rightarrow> 0 | Some c \<Rightarrow> of_nat (chain_len c))"

definition load_view :: "string \<Rightarrow> octad_id \<Rightarrow> ('f, 'd) entity_view \<Rightarrow> ('f, 'd) octad option" where
  "load_view base e v =
     map_option (\<lambda>status. let ms = os_modalities status in
       \<lparr>oc_id = e, oc_status = status,
        oc_graph_node = (if ms_graph ms then Some (graph_node_new (to_iri e base)) else None),
        oc_embedding = (if ms_vector ms then ev_vector v else None),
        oc_tensor = (if ms_tensor ms then ev_tensor v else None),
        oc_semantic = (if ms_semantic ms then ev_semantic v else None),
        oc_document = (if ms_document ms then ev_document v else None),
        oc_version_count = of_nat (min 1000 (length (ev_versions v))),
        oc_chain_length = (if ms_provenance ms then chain_count (ev_chain v) else 0),
        oc_spatial = (if ms_spatial ms then ev_spatial v else None)\<rparr>) (ev_status v)"

lemma load_octad_view: "load_octad e st = load_view (base_iri (config st)) e (entity_of e st)"
  by (simp add: load_octad_def load_view_def entity_of_def Let_def vs_history_hist get_chain_def
      chain_count_def min.commute split: option.split)

section \<open>What a write means\<close>

definition put_vector :: "octad_id \<Rightarrow> 'f vector_input \<Rightarrow> ('f, 'd) entity_view \<Rightarrow> ('f, 'd) entity_view" where
  "put_vector e i v = v\<lparr>ev_vector := Some (embedding_new e (vi_embedding i))\<rparr>"

definition document_of :: "octad_id \<Rightarrow> document_input \<Rightarrow> document" where
  "document_of e i = fold (\<lambda>(k, v). with_field k v) (di_fields i) (document_new e (di_title i) (di_body i))"

definition put_document :: "octad_id \<Rightarrow> document_input \<Rightarrow> ('f, 'd) entity_view \<Rightarrow> ('f, 'd) entity_view" where
  "put_document e i v = v\<lparr>ev_document := Some (document_of e i)\<rparr>"

definition put_tensor :: "octad_id \<Rightarrow> 'd tensor_input \<Rightarrow> ('f, 'd) entity_view \<Rightarrow> ('f, 'd) entity_view" where
  "put_tensor e i v = v\<lparr>ev_tensor := Some \<lparr>t_id = e, t_shape = ti_shape i, t_dtype = Float64, t_data = ti_data i,
     t_metadata = []\<rparr>\<rparr>"

definition annotation_of ::
  "('f, 'd, 'ix) octad_env \<Rightarrow> datetime \<Rightarrow> octad_id \<Rightarrow> semantic_input \<Rightarrow> 'd annotation" where
  "annotation_of env now e i = \<lparr>an_entity = e, an_types = si_types i,
     an_properties = fold (\<lambda>(k, v). AList.update k (TypedLiteral v xsd_string)) (si_properties i) [],
     an_source = annotation_source_default (e_f64 env) (e_rfc3339 env now)\<rparr>"

definition put_semantic ::
  "('f, 'd, 'ix) octad_env \<Rightarrow> datetime \<Rightarrow> octad_id \<Rightarrow> semantic_input \<Rightarrow> ('f, 'd) entity_view \<Rightarrow> ('f, 'd) entity_view" where
  "put_semantic env now e i v = v\<lparr>ev_semantic := Some (annotation_of env now e i)\<rparr>"

definition put_event ::
  "('f, 'd, 'ix) octad_env \<Rightarrow> datetime \<Rightarrow> octad_id \<Rightarrow> provenance_input \<Rightarrow> ('f, 'd) entity_view
     \<Rightarrow> ('f, 'd) entity_view" where
  "put_event env now e i v = v\<lparr>ev_chain := Some (chain_append (e_prov env) now
     (event_type_of (e_lowercase env (pi_event_type i))) (pi_actor i) (pi_source i) (pi_description i)
     (case ev_chain v of None \<Rightarrow> chain_new e | Some c \<Rightarrow> c))\<rparr>"

definition spatial_of :: "'d spatial_input \<Rightarrow> 'd spatial_data" where
  "spatial_of i = \<lparr>coordinates = \<lparr>latitude = li_latitude i, longitude = li_longitude i, altitude = li_altitude i\<rparr>,
     geometry_type = geometry_type_of (li_geometry_type i), srid = (case li_srid i of None \<Rightarrow> 4326 | Some n \<Rightarrow> n),
     sp_properties = li_properties i\<rparr>"

definition put_spatial :: "'d spatial_input \<Rightarrow> ('f, 'd) entity_view \<Rightarrow> ('f, 'd) entity_view" where
  "put_spatial i v = v\<lparr>ev_spatial := Some (spatial_of i)\<rparr>"

definition opt_effect :: "('i \<Rightarrow> 'v \<Rightarrow> 'v) \<Rightarrow> 'i option \<Rightarrow> 'v \<Rightarrow> 'v" where
  "opt_effect f inp v = (case inp of None \<Rightarrow> v | Some i \<Rightarrow> f i v)"

definition apply_input ::
  "('f, 'd, 'ix) octad_env \<Rightarrow> octad_id \<Rightarrow> (nat \<Rightarrow> datetime) \<Rightarrow> ('f, 'd) octad_input \<Rightarrow> ('f, 'd) entity_view
     \<Rightarrow> ('f, 'd) entity_view" where
  "apply_input env e now i v =
     opt_effect put_spatial (in_spatial i)
     (opt_effect (put_event env (now 10) e) (in_provenance i)
     (opt_effect (put_semantic env (now 8) e) (in_semantic i)
     (opt_effect (put_tensor e) (in_tensor i)
     (opt_effect (put_document e) (in_document i)
     (opt_effect (put_vector e) (in_vector i) v)))))"

text \<open>The modalities that a write of the input leaves populated.\<close>

definition add_modalities :: "('f, 'd) octad_input \<Rightarrow> modality_status \<Rightarrow> modality_status" where
  "add_modalities i ms = ms\<lparr>ms_graph := ms_graph ms \<or> in_graph i \<noteq> None, ms_vector := ms_vector ms \<or> in_vector i \<noteq> None,
     ms_tensor := ms_tensor ms \<or> in_tensor i \<noteq> None, ms_semantic := ms_semantic ms \<or> in_semantic i \<noteq> None,
     ms_document := ms_document ms \<or> in_document i \<noteq> None, ms_provenance := ms_provenance ms \<or> in_provenance i \<noteq> None,
     ms_spatial := ms_spatial ms \<or> in_spatial i \<noteq> None\<rparr>"

section \<open>Writes touch one entity\<close>

text \<open>\<open>only_at e st st'\<close>: the two states agree on everything that is read of other entities.\<close>

definition only_at :: "octad_id \<Rightarrow> ('f, 'd, 'ix) octad_store \<Rightarrow> ('f, 'd, 'ix) octad_store \<Rightarrow> bool" where
  "only_at e st st' \<longleftrightarrow> config st' = config st \<and> (\<forall>j. j \<noteq> e \<longrightarrow> entity_of j st' = entity_of j st)"

lemma only_at_refl [simp]: "only_at e st st"
  by (simp add: only_at_def)

lemma only_at_trans: "only_at e st st1 \<Longrightarrow> only_at e st1 st2 \<Longrightarrow> only_at e st st2"
  by (simp add: only_at_def)

text \<open>The transactions, the log and the graph are not part of the view.\<close>

lemma entity_of_upd [simp]:
  "entity_of e (st\<lparr>txns := tm\<rparr>) = entity_of e st" "entity_of e (st\<lparr>wal := w\<rparr>) = entity_of e st"
  "entity_of e (st\<lparr>graph_st := g\<rparr>) = entity_of e st"
  by (simp_all add: entity_of_def)

lemma os_begin_sel [simp]:
  "entity_of j (os_begin t now st) = entity_of j st" "config (os_begin t now st) = config st"
  "octads (os_begin t now st) = octads st" "wal (os_begin t now st) = wal st"
  "temporal_st (os_begin t now st) = temporal_st st"
  by (simp_all add: os_begin_def)

lemma os_rollback_sel [simp]:
  "entity_of j (os_rollback t now st) = entity_of j st" "config (os_rollback t now st) = config st"
  "octads (os_rollback t now st) = octads st" "wal (os_rollback t now st) = wal st"
  by (simp_all add: os_rollback_def)

lemma os_record_undo_sel [simp]:
  "entity_of j (os_record_undo t e m v now st) = entity_of j st" "config (os_record_undo t e m v now st) = config st"
  "octads (os_record_undo t e m v now st) = octads st" "wal (os_record_undo t e m v now st) = wal st"
  "temporal_st (os_record_undo t e m v now st) = temporal_st st"
  by (simp_all add: os_record_undo_def)

lemma os_wal_append_sel [simp]:
  "entity_of j (os_wal_append env op e bs now clk st) = entity_of j st"
  "config (os_wal_append env op e bs now clk st) = config st" "octads (os_wal_append env op e bs now clk st) = octads st"
  "txns (os_wal_append env op e bs now clk st) = txns st"
  "temporal_st (os_wal_append env op e bs now clk st) = temporal_st st"
  by (simp_all add: os_wal_append_def split: option.split)

lemma os_wal_checkpoint_sel [simp]:
  "entity_of j (os_wal_checkpoint env now clk st) = entity_of j st"
  "config (os_wal_checkpoint env now clk st) = config st" "octads (os_wal_checkpoint env now clk st) = octads st"
  "txns (os_wal_checkpoint env now clk st) = txns st" "temporal_st (os_wal_checkpoint env now clk st) = temporal_st st"
  by (simp_all add: os_wal_checkpoint_def split: option.split)

lemma wal_intent_sel [simp]:
  "entity_of j (wal_intent env op e i now clk st) = entity_of j st" "config (wal_intent env op e i now clk st) = config st"
  "octads (wal_intent env op e i now clk st) = octads st" "txns (wal_intent env op e i now clk st) = txns st"
  "temporal_st (wal_intent env op e i now clk st) = temporal_st st"
  by (simp_all add: wal_intent_def)

lemma wal_committed_sel [simp]:
  "entity_of j (wal_committed env e now inst st) = entity_of j st" "config (wal_committed env e now inst st) = config st"
  "octads (wal_committed env e now inst st) = octads st" "txns (wal_committed env e now inst st) = txns st"
  by (simp_all add: wal_committed_def)

section \<open>The writes of the modalities\<close>

text \<open>
  \<open>implements e eff out proc\<close>: the write \<open>proc\<close> changes the view of \<open>e\<close> by \<open>eff\<close> when it succeeds, and then
  returns what \<open>out\<close> reads from the new view; in any case it leaves alone the other entities, the
  registry, the transactions, the log and the versions.
\<close>

definition beside :: "octad_id \<Rightarrow> ('f, 'd, 'ix) octad_store \<Rightarrow> ('f, 'd, 'ix) octad_store \<Rightarrow> bool" where
  "beside e st st' \<longleftrightarrow> only_at e st st' \<and> octads st' = octads st \<and> txns st' = txns st \<and> wal st' = wal st
     \<and> temporal_st st' = temporal_st st"

definition implements ::
  "octad_id \<Rightarrow> ('i \<Rightarrow> ('f, 'd) entity_view \<Rightarrow> ('f, 'd) entity_view) \<Rightarrow> (string \<Rightarrow> ('f, 'd) entity_view \<Rightarrow> 'o option)
     \<Rightarrow> ('i \<Rightarrow> ('f, 'd, 'ix) octad_store \<Rightarrow> (octad_error + 'o) \<times> ('f, 'd, 'ix) octad_store) \<Rightarrow> bool" where
  "implements e eff out proc \<longleftrightarrow> (\<forall>i st r st'. proc i st = (r, st') \<longrightarrow> beside e st st'
     \<and> (\<forall>x. r = Inr x \<longrightarrow> entity_of e st' = eff i (entity_of e st) \<and> out (base_iri (config st')) (entity_of e st') = Some x))"

lemma implementsI:
  assumes "\<And>i st r st'. proc i st = (r, st') \<Longrightarrow> beside e st st'"
    and "\<And>i st x st'. proc i st = (Inr x, st') \<Longrightarrow>
      entity_of e st' = eff i (entity_of e st) \<and> out (base_iri (config st')) (entity_of e st') = Some x"
  shows "implements e eff out proc"
  unfolding implements_def using assms by blast

lemma implementsD:
  assumes "implements e eff out proc" "proc i st = (r, st')"
  shows "beside e st st'"
    and "r = Inr x \<Longrightarrow> entity_of e st' = eff i (entity_of e st) \<and> out (base_iri (config st')) (entity_of e st') = Some x"
  using assms unfolding implements_def by blast+

lemma process_vector_implements: "implements e (put_vector e) (\<lambda>_. ev_vector) (process_vector e)"
proof (rule implementsI)
  fix i st r st' assume p: "process_vector e i st = (r, st')"
  then obtain v where st': "st' = st\<lparr>vector_st := v\<rparr>"
    "v = vector_st st \<or> v = snd (vec_upsert (embedding_new e (vi_embedding i)) (vector_st st))"
    by (cases "vec_upsert (embedding_new e (vi_embedding i)) (vector_st st)")
      (force simp: process_vector_def Let_def split: if_splits sum.splits)
  have "vec_get v j = vec_get (vector_st st) j" if "j \<noteq> e" for j
    using st'(2) that vector.get_put_other [OF refl, of j "embedding_new e (vi_embedding i)" "vector_st st"]
    by (auto simp: embedding_new_def)
  with st'(1) show "beside e st st'" by (simp add: beside_def only_at_def entity_of_def)
next
  fix i st x st' assume "process_vector e i st = (Inr x, st')"
  then obtain v where up: "vec_upsert (embedding_new e (vi_embedding i)) (vector_st st) = (Inr (), v)"
    and x: "x = embedding_new e (vi_embedding i)" "st' = st\<lparr>vector_st := v\<rparr>"
    by (auto simp: process_vector_def Let_def split: if_splits prod.splits sum.splits)
  from vector.get_put_same [OF refl up] have "vec_get v e = Some x" by (simp add: x embedding_new_def)
  with x show "entity_of e st' = put_vector e i (entity_of e st) \<and> ev_vector (entity_of e st') = Some x"
    by (simp add: entity_of_def put_vector_def)
qed

lemma fold_with_field_id [simp]: "doc_id (fold (\<lambda>(k, v). with_field k v) fs d) = doc_id d"
  by (induction fs arbitrary: d) (auto simp: with_field_def)

lemma doc_id_document_of [simp]: "doc_id (document_of e i) = e"
  by (simp add: document_of_def document_new_def)

lemma process_document_implements: "implements e (put_document e) (\<lambda>_. ev_document) (process_document env e)"
proof (rule implementsI)
  fix i st r st' assume p: "process_document env e i st = (r, st')"
  let ?d = "snd (doc_index (e_ft env) (document_of e i) (document_st st))"
  from p obtain d where st': "st' = st\<lparr>document_st := d\<rparr>" "d = ?d \<or> d = snd (doc_commit (e_ft env) ?d)"
    unfolding process_document_def Let_def document_of_def [symmetric]
    by (cases "doc_index (e_ft env) (document_of e i) (document_st st)")
      (force split: sum.splits prod.splits)
  have "doc_get d j = doc_get (document_st st) j" if "j \<noteq> e" for j
    using st'(2) that document.get_put_other [OF refl, of j "document_of e i" "e_ft env" "document_st st"] by auto
  with st'(1) show "beside e st st'" by (simp add: beside_def only_at_def entity_of_def)
next
  fix i st x st' assume "process_document env e i st = (Inr x, st')"
  then obtain d d' where up: "doc_index (e_ft env) (document_of e i) (document_st st) = (Inr (), d)"
    and x: "x = document_of e i" "st' = st\<lparr>document_st := d'\<rparr>" "doc_commit (e_ft env) d = (Inr (), d')"
    unfolding process_document_def Let_def document_of_def [symmetric]
    by (auto split: prod.splits sum.splits)
  from document.get_put_same [OF refl up] have "doc_get d e = Some x" by (simp add: x)
  moreover have "doc_get d' = doc_get d" using doc_get_commit [of "e_ft env" d] x(3) by simp
  ultimately show "entity_of e st' = put_document e i (entity_of e st) \<and> ev_document (entity_of e st') = Some x"
    using x by (simp add: entity_of_def put_document_def)
qed

lemma process_tensor_implements: "implements e (put_tensor e) (\<lambda>_. ev_tensor) (process_tensor e)"
  by (rule implementsI)
    (auto simp: process_tensor_def tensor_new_def tensor_put_def tensor_get_def Let_def beside_def only_at_def
      entity_of_def put_tensor_def split: if_splits)

lemma process_semantic_implements: "implements e (put_semantic env now e) (\<lambda>_. ev_semantic) (process_semantic env now e)"
proof (rule implementsI)
  fix i st r st' assume p: "process_semantic env now e i st = (r, st')"
  then obtain s where st': "st' = st\<lparr>semantic_st := s\<rparr>" "s = snd (annotate (e_sem env) (annotation_of env now e i) (semantic_st st))"
    unfolding process_semantic_def Let_def annotation_of_def [symmetric]
    by (cases "annotate (e_sem env) (annotation_of env now e i) (semantic_st st)") (force split: sum.splits)
  have "get_annotations s j = get_annotations (semantic_st st) j" if "j \<noteq> e" for j
    unfolding st'(2) by (rule semantic.get_put_other [OF refl]) (simp add: that annotation_of_def)
  with st'(1) show "beside e st st'" by (simp add: beside_def only_at_def entity_of_def)
next
  fix i st x st' assume "process_semantic env now e i st = (Inr x, st')"
  then obtain s where up: "annotate (e_sem env) (annotation_of env now e i) (semantic_st st) = (Inr (), s)"
    and x: "x = annotation_of env now e i" "st' = st\<lparr>semantic_st := s\<rparr>"
    unfolding process_semantic_def Let_def annotation_of_def [symmetric]
    by (auto split: prod.splits sum.splits)
  from semantic.get_put_same [OF refl up] have "get_annotations s e = Some x" by (simp add: x annotation_of_def)
  with x show "entity_of e st' = put_semantic env now e i (entity_of e st) \<and> ev_semantic (entity_of e st') = Some x"
    by (simp add: entity_of_def put_semantic_def)
qed

lemma process_provenance_implements:
  "implements e (put_event env now e) (\<lambda>_ v. Some (chain_count (ev_chain v))) (process_provenance env now e)"
  by (rule implementsI)
    (auto simp: process_provenance_def record_event_def get_chain_def Let_def beside_def only_at_def entity_of_def
      put_event_def chain_count_def split: option.splits)

lemma process_spatial_implements: "implements e put_spatial (\<lambda>_. ev_spatial) (process_spatial env e)"
proof (rule implementsI)
  fix i st r st' assume "process_spatial env e i st = (r, st')"
  then show "beside e st st'"
    by (auto simp: process_spatial_def sp_index_def Let_def beside_def only_at_def entity_of_def sp_get_def
        split: sum.splits if_splits)
next
  fix i st x st' assume p: "process_spatial env e i st = (Inr x, st')"
  then obtain l where "x = spatial_of i" "l = AList.update e x (spatial_st st)" "st' = st\<lparr>spatial_st := l\<rparr>"
    by (auto simp: process_spatial_def sp_index_def coordinates_new_def with_geometry_def spatial_of_def Let_def
        split: sum.splits if_splits)
  then show "entity_of e st' = put_spatial i (entity_of e st) \<and> ev_spatial (entity_of e st') = Some x"
    by (simp add: entity_of_def put_spatial_def sp_get_def)
qed

lemma process_graph_implements:
  "implements e (\<lambda>_ v. v) (\<lambda>base _. Some (graph_node_new (to_iri e base))) (process_graph e)"
  by (rule implementsI) (auto simp: process_graph_def Let_def beside_def only_at_def)

lemmas processes_implement = process_graph_implements process_vector_implements process_document_implements
  process_tensor_implements process_semantic_implements process_provenance_implements process_spatial_implements

section \<open>The write of all modalities\<close>

text \<open>Between the steps of a write: other entities, registry, log and versions stay, the transaction runs.\<close>

definition along :: "octad_id \<Rightarrow> uuid \<Rightarrow> ('f, 'd, 'ix) octad_store \<Rightarrow> ('f, 'd, 'ix) octad_store \<Rightarrow> bool" where
  "along e t st st' \<longleftrightarrow> only_at e st st' \<and> octads st' = octads st \<and> wal st' = wal st
     \<and> temporal_st st' = temporal_st st \<and> (tm_running t (txns st) \<longrightarrow> tm_running t (txns st'))"

lemma along_refl [simp]: "along e t st st"
  by (simp add: along_def)

lemma along_trans: "along e t st st1 \<Longrightarrow> along e t st1 st2 \<Longrightarrow> along e t st st2"
  by (auto simp: along_def intro: only_at_trans)

lemma along_config: "along e t st st' \<Longrightarrow> config st' = config st"
  by (simp add: along_def only_at_def)

lemma beside_along: "beside e st st' \<Longrightarrow> along e t st st'"
  by (simp add: beside_def along_def)

lemma along_record_undo: "along e t st (os_record_undo t e m v now st)"
  by (simp add: along_def only_at_def) (simp add: os_record_undo_def write_txn.record_running)

lemma write_one_ok:
  assumes "implements e eff out proc" "write_one undo t e v now m flag proc inp (ms, st) = (Inr o', ms', st')"
  shows "along e t st st'" "ms' = (if inp = None then ms else flag ms)"
    and "entity_of e st' = opt_effect eff inp (entity_of e st)"
    and "o' = (if inp = None then None else out (base_iri (config st)) (entity_of e st'))"
proof -
  have "along e t st st' \<and> ms' = (if inp = None then ms else flag ms)
    \<and> entity_of e st' = opt_effect eff inp (entity_of e st)
    \<and> o' = (if inp = None then None else out (base_iri (config st)) (entity_of e st'))"
  proof (cases inp)
    case None
    with assms(2) show ?thesis by (simp add: write_one_def opt_effect_def)
  next
    case (Some i)
    with assms(2) obtain x st1 where x: "proc i st = (Inr x, st1)" "o' = Some x" "ms' = flag ms"
      "st' = os_record_undo t e m v now st1"
      by (auto simp: write_one_def split: prod.splits sum.splits)
    note proc = implementsD [OF assms(1) x(1)]
    have "along e t st st1" by (rule beside_along [OF proc(1)])
    then have "along e t st st'" "config st1 = config st"
      unfolding x(4) by (rule along_trans [OF _ along_record_undo], rule along_config)
    with x proc(2) show ?thesis by (auto simp: Some opt_effect_def)
  qed
  then show "along e t st st'" "ms' = (if inp = None then ms else flag ms)"
    "entity_of e st' = opt_effect eff inp (entity_of e st)"
    "o' = (if inp = None then None else out (base_iri (config st)) (entity_of e st'))" by blast+
qed

lemma write_one_failed:
  assumes "implements e eff out proc" "write_one undo t e v now m flag proc inp (ms, st) = (Inl err, ms', st')"
  shows "ms' = ms \<and> (\<exists>i st1. inp = Some i \<and> proc i st = (Inl err, st1) \<and> st' = undo ms st1 \<and> beside e st st1)"
  using assms by (auto simp: write_one_def dest: implementsD(1) split: prod.splits sum.splits option.splits)

text \<open>What the write returns is read off the new view.\<close>

definition written_of ::
  "string \<Rightarrow> octad_id \<Rightarrow> ('f, 'd) octad_input \<Rightarrow> ('f, 'd) entity_view \<Rightarrow> ('f, 'd) written" where
  "written_of base e i v =
     \<lparr>w_graph = (if in_graph i = None then None else Some (graph_node_new (to_iri e base))),
      w_vector = (if in_vector i = None then None else ev_vector v),
      w_document = (if in_document i = None then None else ev_document v),
      w_tensor = (if in_tensor i = None then None else ev_tensor v),
      w_semantic = (if in_semantic i = None then None else ev_semantic v),
      w_chain_length = (if in_provenance i = None then None else Some (chain_count (ev_chain v))),
      w_spatial = (if in_spatial i = None then None else ev_spatial v)\<rparr>"

lemma opt_effect_keeps: "(\<And>i v. f (eff i v) = f v) \<Longrightarrow> f (opt_effect eff inp v) = f v"
  by (simp add: opt_effect_def split: option.split)

lemmas put_defs = put_vector_def put_document_def put_tensor_def put_semantic_def put_event_def put_spatial_def

lemma opt_effect_fields [simp]:
  "ev_vector (opt_effect (put_document e) i v) = ev_vector v"
  "ev_vector (opt_effect (put_tensor e) j v) = ev_vector v"
  "ev_vector (opt_effect (put_semantic env now e) k v) = ev_vector v"
  "ev_vector (opt_effect (put_event env now e) l v) = ev_vector v"
  "ev_vector (opt_effect put_spatial m v) = ev_vector v"
  "ev_document (opt_effect (put_tensor e) j v) = ev_document v"
  "ev_document (opt_effect (put_semantic env now e) k v) = ev_document v"
  "ev_document (opt_effect (put_event env now e) l v) = ev_document v"
  "ev_document (opt_effect put_spatial m v) = ev_document v"
  "ev_tensor (opt_effect (put_semantic env now e) k v) = ev_tensor v"
  "ev_tensor (opt_effect (put_event env now e) l v) = ev_tensor v"
  "ev_tensor (opt_effect put_spatial m v) = ev_tensor v"
  "ev_semantic (opt_effect (put_event env now e) l v) = ev_semantic v"
  "ev_semantic (opt_effect put_spatial m v) = ev_semantic v"
  "ev_chain (opt_effect put_spatial m v) = ev_chain v"
  by (simp_all add: opt_effect_def put_defs split: option.split)

lemma write_modalities_ok:
  assumes "write_modalities env undo t e v now i (ms, st) = (Inr w, ms', st')"
  shows "along e t st st' \<and> ms' = add_modalities i ms
    \<and> entity_of e st' = apply_input env e now i (entity_of e st)
    \<and> w = written_of (base_iri (config st)) e i (entity_of e st')"
proof -
  from assms obtain g ms1 st1 v' ms2 st2 d ms3 st3 ts ms4 st4 s ms5 st5 p ms6 st6 l where
    "write_one undo t e v (now 4) ''graph'' (ms_graph_update (\<lambda>_. True)) (process_graph e) (in_graph i) (ms, st) = (Inr g, ms1, st1)"
    "write_one undo t e v (now 5) ''vector'' (ms_vector_update (\<lambda>_. True)) (process_vector e) (in_vector i) (ms1, st1) = (Inr v', ms2, st2)"
    "write_one undo t e v (now 6) ''document'' (ms_document_update (\<lambda>_. True)) (process_document env e) (in_document i) (ms2, st2) = (Inr d, ms3, st3)"
    "write_one undo t e v (now 7) ''tensor'' (ms_tensor_update (\<lambda>_. True)) (process_tensor e) (in_tensor i) (ms3, st3) = (Inr ts, ms4, st4)"
    "write_one undo t e v (now 9) ''semantic'' (ms_semantic_update (\<lambda>_. True)) (process_semantic env (now 8) e) (in_semantic i) (ms4, st4) = (Inr s, ms5, st5)"
    "write_one undo t e v (now 11) ''provenance'' (ms_provenance_update (\<lambda>_. True)) (process_provenance env (now 10) e) (in_provenance i) (ms5, st5) = (Inr p, ms6, st6)"
    "write_one undo t e v (now 12) ''spatial'' (ms_spatial_update (\<lambda>_. True)) (process_spatial env e) (in_spatial i) (ms6, st6) = (Inr l, ms', st')"
    and w: "w = \<lparr>w_graph = g, w_vector = v', w_document = d, w_tensor = ts, w_semantic = s, w_chain_length = p, w_spatial = l\<rparr>"
    unfolding write_modalities_def rs_bind_eq_Inr by force
  note eqs = this(1-7)
  note 1 = write_one_ok [OF process_graph_implements eqs(1)] and 2 = write_one_ok [OF process_vector_implements eqs(2)]
    and 3 = write_one_ok [OF process_document_implements eqs(3)] and 4 = write_one_ok [OF process_tensor_implements eqs(4)]
    and 5 = write_one_ok [OF process_semantic_implements eqs(5)] and 6 = write_one_ok [OF process_provenance_implements eqs(6)]
    and 7 = write_one_ok [OF process_spatial_implements eqs(7)]
  note al = 1(1) 2(1) 3(1) 4(1) 5(1) 6(1) 7(1)
  have along: "along e t st st'" by (intro along_trans [OF _ al(7)] along_trans [OF _ al(6)] along_trans [OF _ al(5)]
      along_trans [OF _ al(4)] along_trans [OF _ al(3)] along_trans [OF _ al(2)] al(1))
  have view: "entity_of e st' = apply_input env e now i (entity_of e st)"
    unfolding apply_input_def 7(3) 6(3) 5(3) 4(3) 3(3) 2(3) 1(3) by (simp add: opt_effect_def split: option.split)
  have flags: "ms' = add_modalities i ms"
    unfolding 7(2) 6(2) 5(2) 4(2) 3(2) 2(2) 1(2) by (simp add: add_modalities_def)
  have fields: "ev_vector (entity_of e st') = ev_vector (entity_of e st2)"
    "ev_document (entity_of e st') = ev_document (entity_of e st3)"
    "ev_tensor (entity_of e st') = ev_tensor (entity_of e st4)"
    "ev_semantic (entity_of e st') = ev_semantic (entity_of e st5)"
    "ev_chain (entity_of e st') = ev_chain (entity_of e st6)"
    by (simp_all add: 7(3) 6(3) 5(3) 4(3) 3(3))
  have "w = written_of (base_iri (config st)) e i (entity_of e st')"
    unfolding w written_of_def 7(4) 6(4) 5(4) 4(4) 3(4) 2(4) 1(4) fields ..
  with along view flags show ?thesis by blast
qed

end
