(* ===== verification/Octad_Write.thy ===== *)
theory Octad_Write
  imports Octad_Spec
begin

text \<open>
  What the operations of the octad store do, read off the view of an entity: a successful write applies its
  input to the view and registers it, a failed one leaves the registry alone, no operation touches
  another entity, and the store is idle again after each.
\<close>

section \<open>The frame of a write\<close>

text \<open>An operation of a transaction uses no other identifier.\<close>

lemma tm_unused_ops:
  assumes "s \<noteq> t" "tm_unused s tm"
  shows "tm_unused s (snd (tm_begin il t now tm))" "tm_unused s (snd (tm_commit t now tm))"
    "tm_unused s (snd (tm_rollback t now tm))" "tm_unused s (snd (tm_acquire_lock t e m k tm))"
    "tm_unused s (snd (tm_record_undo t e m d v now tm))"
  using assms by (auto simp: tm_unused_def tm_begin_def tm_commit_def tm_rollback_def tm_acquire_lock_def tm_record_undo_def
      finish_def put_txn_def acquire_record_def split: sum.splits option.splits prod.splits)

definition spares :: "uuid \<Rightarrow> txn_manager \<Rightarrow> txn_manager \<Rightarrow> bool" where
  "spares t tm tm' \<longleftrightarrow> (\<forall>s. s \<noteq> t \<longrightarrow> tm_unused s tm \<longrightarrow> tm_unused s tm')"

lemma acquire_all_running:
  assumes "tm_running t (txns st)" "set ms \<subseteq> set modalities"
  shows "\<exists>tm. acquire_all env what t e now ms st = (Inr (), st\<lparr>txns := tm\<rparr>) \<and> tm_running t tm \<and> spares t (txns st) tm"
  using assms
proof (induction ms arbitrary: st)
  case Nil
  then show ?case by (intro exI [of _ "txns st"]) (simp add: spares_def)
next
  case (Cons m ms)
  from Cons.prems write_txn.acquire_running [of t "txns st" m e]
  obtain tm where tm: "tm_acquire_lock t e m Exclusive (txns st) = (Inr (), tm)" "tm_running t tm" by auto
  then have "spares t (txns st) tm" using tm_unused_ops(4) [of _ t "txns st" e m Exclusive] by (simp add: spares_def)
  with Cons.IH [of "st\<lparr>txns := tm\<rparr>"] Cons.prems tm show ?case by (auto simp: spares_def)
qed

lemma requested_modalities: "set (requested i) \<subseteq> set modalities"
  by (auto simp: requested_def modalities_def)

lemma populated_modalities: "set (populated ms) \<subseteq> set modalities"
  by (auto simp: populated_def modalities_def)

lemma write_opens:
  assumes "tm_idle (txns st)" "tm_unused t (txns st)" "set ms \<subseteq> set modalities"
  shows "\<exists>tm. acquire_all env what t e now ms (os_begin t now' st) = (Inr (), st\<lparr>txns := tm\<rparr>) \<and> tm_running t tm
    \<and> spares t (txns st) tm"
proof -
  have "tm_running t (txns (os_begin t now' st))"
    using write_txn.running_open [OF assms(1,2)] by (simp add: os_begin_def)
  moreover have "spares t (txns st) (txns (os_begin t now' st))" by (simp add: spares_def os_begin_def tm_unused_ops(1))
  ultimately show ?thesis using acquire_all_running [OF _ assms(3), of t "os_begin t now' st" env what e now]
    by (auto simp: os_begin_def spares_def)
qed

lemma vs_append_Inr: "\<exists>n. fst (vs_append now e d a m st) = Inr n"
  by (simp add: vs_append_def Let_def)

lemma os_commit_running:
  assumes "tm_running t (txns st)"
  shows "\<exists>tm. os_commit env what t now st = (Inr (), st\<lparr>txns := tm\<rparr>) \<and> tm_idle tm"
  using write_txn.close_running [OF assms, of now] by (auto simp: os_commit_def)

lemma os_commit_spares: "os_commit env what t now st = (r, st') \<Longrightarrow> spares t (txns st) (txns st')"
  using tm_unused_ops(2) [of _ t "txns st" now] by (auto simp: os_commit_def spares_def split: prod.splits sum.splits)

lemma os_rollback_running: "tm_running t (txns st) \<Longrightarrow> tm_idle (txns (os_rollback t now st))"
  by (simp add: os_rollback_def write_txn.abandon_running)

text \<open>The version that a write appends, given the number of versions before it.\<close>

lemma vs_append_view:
  assumes "store_wf ts" "length (vs_hist ts e) < 2 ^ 64 - 1"
  obtains ts' where "vs_append now e d a (Some m) ts = (Inr (of_nat (Suc (length (vs_hist ts e)))), ts')"
    and "store_wf ts'"
    and "\<And>j. vs_hist ts' j = (if j = e then vs_hist ts e @ [\<lparr>version_no = of_nat (Suc (length (vs_hist ts e))),
      v_timestamp = now, v_data = d, v_author = a, v_message = Some m\<rparr>] else vs_hist ts j)"
proof -
  obtain r ts' where app: "vs_append now e d a (Some m) ts = (r, ts')" by fastforce
  from versions.append_hist [OF assms app] app that show ?thesis by auto
qed

section \<open>The outcome of a write\<close>

definition finish_view ::
  "octad_status \<Rightarrow> ('f, 'd) octad_snapshot version \<Rightarrow> ('f, 'd) entity_view \<Rightarrow> ('f, 'd) entity_view" where
  "finish_view status v ev = ev\<lparr>ev_status := Some status, ev_versions := ev_versions ev @ [v]\<rparr>"

text \<open>
  Both writes, once begun on an idle store: \<open>ms0\<close> is the status before, \<open>pv\<close> the version recorded in the
  undo entries, \<open>undo\<close> and \<open>cundo\<close> the compensations of a failed write and of a failed commit, \<open>mkst\<close> the status registered for a version and the populated
  modalities, \<open>mko\<close> the entity returned.
\<close>

definition write_octad ::
  "('f, 'd, 'ix) octad_env \<Rightarrow> (modality_status \<Rightarrow> ('f, 'd, 'ix) octad_store \<Rightarrow> ('f, 'd, 'ix) octad_store)
     \<Rightarrow> (modality_status \<Rightarrow> ('f, 'd, 'ix) octad_store \<Rightarrow> ('f, 'd, 'ix) octad_store)
     \<Rightarrow> octad_id \<Rightarrow> uuid \<Rightarrow> (nat \<Rightarrow> datetime) \<Rightarrow> (nat \<Rightarrow> nat \<Rightarrow> nat) \<Rightarrow> ('f, 'd) octad_input \<Rightarrow> modality_status \<Rightarrow> u64 \<Rightarrow> string
     \<Rightarrow> (modality_status \<Rightarrow> modality_status) \<Rightarrow> (u64 \<Rightarrow> modality_status \<Rightarrow> octad_status)
     \<Rightarrow> (u64 \<Rightarrow> modality_status \<Rightarrow> ('f, 'd) written \<Rightarrow> ('f, 'd) octad) \<Rightarrow> ('f, 'd, 'ix) octad_store
     \<Rightarrow> (octad_error + ('f, 'd) octad) \<times> ('f, 'd, 'ix) octad_store" where
  "write_octad env undo cundo e t now inst i ms0 pv msg fin mkst mko st =
     (case write_modalities env undo t e pv now i (ms0, st) of
        (Inl err, _, st) \<Rightarrow> (Inl err, st)
      | (Inr w, ms, st) \<Rightarrow>
          (case vs_append (now 14) e (create_snapshot e i ms (now 13)) ''system'' (Some msg) (temporal_st st) of
             (Inl err, tp) \<Rightarrow> (Inl (ModalityError ''temporal'' (temporal_error_display err)), undo ms (st\<lparr>temporal_st := tp\<rparr>))
           | (Inr version, tp) \<Rightarrow>
               (case os_commit env [] t (now 15) (st\<lparr>temporal_st := tp\<rparr>) of
                  (Inl err, st) \<Rightarrow> (Inl err, cundo (fin ms) st)
                | (Inr _, st) \<Rightarrow> (Inr (mko version (fin ms) w),
                    wal_committed env e now inst (st\<lparr>octads := AList.update e (mkst version (fin ms)) (octads st)\<rparr>)))))"

lemma write_octad_ok:
  assumes "write_octad env undo cundo e t now inst i ms0 pv msg fin mkst mko st = (Inr oc, st')"
    and "tm_running t (txns st)" "store_wf (temporal_st st)" "length (vs_hist (temporal_st st) e) < 2 ^ 64 - 1"
  defines "n \<equiv> of_nat (Suc (length (vs_hist (temporal_st st) e)))" and "ms \<equiv> add_modalities i ms0"
  defines "ev \<equiv> finish_view (mkst n (fin ms)) \<lparr>version_no = n, v_timestamp = now 14,
      v_data = create_snapshot e i ms (now 13), v_author = ''system'', v_message = Some msg\<rparr>
    (apply_input env e now i (entity_of e st))"
  shows "only_at e st st'" "entity_of e st' = ev" "tm_idle (txns st')" "store_wf (temporal_st st')"
    and "oc = mko n (fin ms) (written_of (base_iri (config st)) e i ev)"
    and "octads st' = AList.update e (mkst n (fin ms)) (octads st)"
    and "\<exists>st1. wal st1 = wal st \<and> wal st' = wal (wal_committed env e now inst st1)"
proof -
  from assms(1) obtain w ms' st1 where wm: "write_modalities env undo t e pv now i (ms0, st) = (Inr w, ms', st1)"
    by (cases "write_modalities env undo t e pv now i (ms0, st)")
      (auto simp: write_octad_def split: sum.splits)
  note ok = write_modalities_ok [OF wm]
  then have al: "along e t st st1" and ms': "ms' = ms" and view: "entity_of e st1 = apply_input env e now i (entity_of e st)"
    and w: "w = written_of (base_iri (config st)) e i (entity_of e st1)" by (simp_all add: ms_def)
  from al have temporal: "temporal_st st1 = temporal_st st" and reg: "octads st1 = octads st" and wal: "wal st1 = wal st"
    and run: "tm_running t (txns st1)" and only: "only_at e st st1" using assms(2) by (simp_all add: along_def)
  obtain tp where app: "vs_append (now 14) e (create_snapshot e i ms (now 13)) ''system'' (Some msg) (temporal_st st) = (Inr n, tp)"
    and wf: "store_wf tp" and hist: "\<And>j. vs_hist tp j = (if j = e then vs_hist (temporal_st st) e @
      [\<lparr>version_no = n, v_timestamp = now 14, v_data = create_snapshot e i ms (now 13), v_author = ''system'', v_message = Some msg\<rparr>]
      else vs_hist (temporal_st st) j)"
    unfolding n_def by (rule vs_append_view [OF assms(3,4)]) blast
  obtain tm where com: "os_commit env [] t (now 15) (st1\<lparr>temporal_st := tp\<rparr>) = (Inr (), st1\<lparr>temporal_st := tp, txns := tm\<rparr>)"
    and idle: "tm_idle tm"
    using os_commit_running [of t "st1\<lparr>temporal_st := tp\<rparr>" env "[]" "now 15"] run by auto
  let ?st2 = "st1\<lparr>temporal_st := tp, txns := tm, octads := AList.update e (mkst n (fin ms)) (octads st)\<rparr>"
  have res: "oc = mko n (fin ms) w" "st' = wal_committed env e now inst ?st2"
    using assms(1) unfolding write_octad_def wm ms' by (simp_all add: temporal app com reg)
  have other: "entity_of j ?st2 = entity_of j st" if "j \<noteq> e" for j
    using that only hist [of j] temporal by (simp add: only_at_def entity_of_def reg)
  have here: "entity_of e ?st2 = ev"
    unfolding ev_def finish_view_def view [symmetric]
    using hist [of e] temporal by (simp add: entity_of_def)
  show "only_at e st st'" using other only by (simp add: only_at_def res(2))
  show "entity_of e st' = ev" using here by (simp add: res(2))
  show "tm_idle (txns st')" "octads st' = AList.update e (mkst n (fin ms)) (octads st)"
    by (simp_all add: res(2) idle)
  show "store_wf (temporal_st st')" using wf by (simp add: res(2) wal_committed_def)
  have "written_of base e i ev = written_of base e i (entity_of e st1)" for base
    by (simp add: ev_def finish_view_def view written_of_def)
  then show "oc = mko n (fin ms) (written_of (base_iri (config st)) e i ev)" by (simp add: res(1) w)
  show "\<exists>st1. wal st1 = wal st \<and> wal st' = wal (wal_committed env e now inst st1)"
    by (intro exI [of _ ?st2]) (simp add: res(2) wal)
qed

text \<open>
  What holds at a failure, before the compensation: \<open>Q\<close> is kept by every step, so it holds of the state the
  compensation starts from.
\<close>

definition guarded ::
  "(modality_status \<Rightarrow> ('f, 'd, 'ix) octad_store \<Rightarrow> ('f, 'd, 'ix) octad_store)
     \<Rightarrow> (modality_status \<Rightarrow> ('f, 'd, 'ix) octad_store \<Rightarrow> bool)
     \<Rightarrow> (modality_status \<times> ('f, 'd, 'ix) octad_store \<Rightarrow> (octad_error + 'a) \<times> modality_status \<times> ('f, 'd, 'ix) octad_store)
     \<Rightarrow> bool" where
  "guarded undo Q m \<longleftrightarrow> (\<forall>ms st r ms' st'. Q ms st \<longrightarrow> m (ms, st) = (r, ms', st')
     \<longrightarrow> (if isl r then \<exists>st1. st' = undo ms' st1 \<and> Q ms' st1 else Q ms' st'))"

lemma guarded_bind:
  assumes "guarded undo Q m" "\<And>x. guarded undo Q (k x)"
  shows "guarded undo Q (rs_bind m k)"
  unfolding guarded_def
proof (intro allI impI)
  fix ms st r ms' st' assume Q: "Q ms st" and bind: "rs_bind m k (ms, st) = (r, ms', st')"
  obtain r1 ms1 st1 where m: "m (ms, st) = (r1, ms1, st1)" by (metis prod.exhaust)
  note step = assms(1) [unfolded guarded_def, rule_format, OF Q m]
  show "if isl r then \<exists>st1. st' = undo ms' st1 \<and> Q ms' st1 else Q ms' st'"
  proof (cases r1)
    case (Inl err)
    with bind m step show ?thesis by (auto simp: rs_bind_def)
  next
    case (Inr x)
    with step have "Q ms1 st1" by simp
    moreover from bind m Inr have "k x (ms1, st1) = (r, ms', st')" by (simp add: rs_bind_def)
    ultimately show ?thesis using assms(2) [of x, unfolded guarded_def, rule_format] by blast
  qed
qed

lemma guarded_one:
  assumes "\<And>ms st i x st1. Q ms st \<Longrightarrow> proc i st = (Inr x, st1) \<Longrightarrow> Q (flag ms) (os_record_undo t e m v now st1)"
    and "\<And>ms st i err st1. Q ms st \<Longrightarrow> proc i st = (Inl err, st1) \<Longrightarrow> Q ms st1"
  shows "guarded undo Q (write_one undo t e v now m flag proc inp)"
  unfolding guarded_def write_one_def using assms
  by (auto split: option.splits prod.splits sum.splits)

lemma guarded_return: "guarded undo Q (\<lambda>ms_st. (Inr x, ms_st))"
  by (simp add: guarded_def)

text \<open>
  The condition for a create: what is recorded as written is all that can have been written of the
  vector and the tensor, and nothing outside the entity has changed.
\<close>

definition tracked ::
  "octad_id \<Rightarrow> uuid \<Rightarrow> ('f, 'd, 'ix) octad_store \<Rightarrow> modality_status \<Rightarrow> ('f, 'd, 'ix) octad_store \<Rightarrow> bool" where
  "tracked e t st0 ms st \<longleftrightarrow> along e t st0 st
     \<and> (ms_vector ms \<or> vec_get (vector_st st) e = vec_get (vector_st st0) e)
     \<and> (ms_tensor ms \<or> tensor_get (tensor_st st) e = tensor_get (tensor_st st0) e)"

lemma process_keeps_vector [simp]:
  "process_graph e i1 st = (r1, st') \<Longrightarrow> vector_st st' = vector_st st \<and> tensor_st st' = tensor_st st"
  "process_document env e i2 st = (r2, st') \<Longrightarrow> vector_st st' = vector_st st \<and> tensor_st st' = tensor_st st"
  "process_semantic env nw e i3 st = (r3, st') \<Longrightarrow> vector_st st' = vector_st st \<and> tensor_st st' = tensor_st st"
  "process_provenance env nw e i4 st = (r4, st') \<Longrightarrow> vector_st st' = vector_st st \<and> tensor_st st' = tensor_st st"
  "process_spatial env e i5 st = (r5, st') \<Longrightarrow> vector_st st' = vector_st st \<and> tensor_st st' = tensor_st st"
  by (auto simp: process_graph_def process_document_def process_semantic_def process_provenance_def process_spatial_def
      Let_def split: prod.splits sum.splits)

lemma process_vector_failed: "process_vector e i st = (Inl err, st') \<Longrightarrow> st' = st"
  by (auto simp: process_vector_def vec_upsert_def Let_def split: if_splits prod.splits sum.splits)

lemma process_vector_tensor: "process_vector e i st = (r, st') \<Longrightarrow> tensor_st st' = tensor_st st"
  by (auto simp: process_vector_def Let_def split: if_splits prod.splits sum.splits)

lemma process_tensor_failed: "process_tensor e i st = (Inl err, st') \<Longrightarrow> st' = st"
  by (auto simp: process_tensor_def tensor_put_def Let_def split: prod.splits sum.splits)

lemma process_tensor_vector: "process_tensor e i st = (r, st') \<Longrightarrow> vector_st st' = vector_st st"
  by (auto simp: process_tensor_def Let_def split: prod.splits sum.splits)

lemma os_record_undo_stores [simp]:
  "vector_st (os_record_undo t e m v now st) = vector_st st" "tensor_st (os_record_undo t e m v now st) = tensor_st st"
  "document_st (os_record_undo t e m v now st) = document_st st"
  by (simp_all add: os_record_undo_def)

lemma implements_along:
  "implements e eff out proc \<Longrightarrow> along e t st0 st \<Longrightarrow> proc i st = (r, st1) \<Longrightarrow>
     along e t st0 st1 \<and> along e t st0 (os_record_undo t e m v now st1)"
  by (meson along_record_undo along_trans beside_along implementsD(1))

lemma write_modalities_tracked: "guarded undo (tracked e t st0) (write_modalities env undo t e v now i)"
  unfolding write_modalities_def
proof (intro guarded_bind guarded_return guarded_one)
qed (auto simp: tracked_def process_vector_tensor process_tensor_vector
    dest: process_keeps_vector process_vector_failed process_tensor_failed
      implements_along [OF process_graph_implements] implements_along [OF process_vector_implements]
      implements_along [OF process_document_implements] implements_along [OF process_tensor_implements]
      implements_along [OF process_semantic_implements] implements_along [OF process_provenance_implements]
      implements_along [OF process_spatial_implements])

lemma write_octad_failed:
  assumes "write_octad env undo cundo e t now inst i ms0 pv msg fin mkst mko st = (Inl err, st')" "tm_running t (txns st)"
  shows "\<exists>ms st1. st' = undo ms st1 \<and> tracked e t st ms st1 \<and> write_modalities env undo t e pv now i (ms0, st) = (Inl err, ms, st')"
proof -
  obtain r ms st1 where wm: "write_modalities env undo t e pv now i (ms0, st) = (r, ms, st1)" by (metis prod.exhaust)
  have tr: "if isl r then \<exists>st2. st1 = undo ms st2 \<and> tracked e t st ms st2 else tracked e t st ms st1"
    using write_modalities_tracked [of undo e t st env pv now i, unfolded guarded_def, rule_format, OF _ wm]
    by (simp add: tracked_def)
  show ?thesis
  proof (cases r)
    case (Inl err')
    with assms(1) wm tr show ?thesis by (auto simp: write_octad_def)
  next
    case (Inr w)
    with tr have run: "tm_running t (txns st1)" using assms(2) by (simp add: tracked_def along_def)
    obtain n tp where app: "vs_append (now 14) e (create_snapshot e i ms (now 13)) ''system'' (Some msg) (temporal_st st1) = (Inr n, tp)"
      using vs_append_Inr [of "now 14" e "create_snapshot e i ms (now 13)" "''system''" "Some msg" "temporal_st st1"]
      by (metis prod.collapse)
    have "\<exists>tm. os_commit env [] t (now 15) (st1\<lparr>temporal_st := tp\<rparr>) = (Inr (), st1\<lparr>temporal_st := tp, txns := tm\<rparr>)"
      using os_commit_running [of t "st1\<lparr>temporal_st := tp\<rparr>" env "[]" "now 15"] run by auto
    with assms(1) show ?thesis unfolding write_octad_def wm Inr by (auto simp: app)
  qed
qed

definition created_status :: "(nat \<Rightarrow> datetime) \<Rightarrow> ('f, 'd) octad_input \<Rightarrow> octad_id \<Rightarrow> u64 \<Rightarrow> modality_status \<Rightarrow> octad_status" where
  "created_status now i e n ms = \<lparr>os_id = e, os_created_at = now 0, os_modified_at = now 0,
     os_observed_at = in_temporal i, os_version = n, os_modalities = ms\<rparr>"

definition updated_status ::
  "(nat \<Rightarrow> datetime) \<Rightarrow> ('f, 'd) octad_input \<Rightarrow> octad_status \<Rightarrow> octad_id \<Rightarrow> u64 \<Rightarrow> modality_status \<Rightarrow> octad_status" where
  "updated_status now i old e n ms = \<lparr>os_id = e, os_created_at = os_created_at old, os_modified_at = now 0,
     os_observed_at = (case in_temporal i of Some o' \<Rightarrow> Some o' | None \<Rightarrow> os_observed_at old),
     os_version = n, os_modalities = ms\<rparr>"

definition returned :: "octad_id \<Rightarrow> octad_status \<Rightarrow> u64 \<Rightarrow> ('f, 'd) written \<Rightarrow> ('f, 'd) octad" where
  "returned e status n w = \<lparr>oc_id = e, oc_status = status, oc_graph_node = w_graph w, oc_embedding = w_vector w,
     oc_tensor = w_tensor w, oc_semantic = w_semantic w, oc_document = w_document w, oc_version_count = n,
     oc_chain_length = (case w_chain_length w of None \<Rightarrow> 0 | Some n \<Rightarrow> n), oc_spatial = w_spatial w\<rparr>"

lemma os_create_write:
  assumes "tm_idle (txns st)" "tm_unused t (txns st)"
  shows "\<exists>tm. tm_running t tm \<and> spares t (txns st) tm \<and> os_create env e t now inst i st =
    write_octad env (\<lambda>ms st. os_rollback t (now 3) (rollback_create env e ms st)) (rollback_create env e) e t now inst i
      modality_status_default 0 ''Initial creation'' (ms_temporal_update (\<lambda>_. True)) (created_status now i e)
      (\<lambda>n ms. returned e (created_status now i e n ms) 1)
      ((wal_intent env Insert e i (now 1) (inst 0) st)\<lparr>txns := tm\<rparr>)"
proof -
  let ?st = "wal_intent env Insert e i (now 1) (inst 0) st"
  from assms obtain tm where begun: "tm_running t tm" "spares t (txns st) tm"
    "acquire_all env [] t e (now 3) (requested i) (os_begin t (now 2) ?st) = (Inr (), ?st\<lparr>txns := tm\<rparr>)"
    using write_opens [of ?st t "requested i" env "[]" e "now 3" "now 2"] requested_modalities by auto
  show ?thesis
    unfolding os_create_def Let_def write_octad_def created_status_def returned_def
    by (intro exI [of _ tm] conjI begun(1,2)) (unfold begun(3), simp)
qed

lemma update_existing_write:
  assumes "tm_idle (txns st)" "tm_unused t (txns st)"
  shows "\<exists>tm. tm_running t tm \<and> update_existing env old e t now inst i st =
    write_octad env (\<lambda>ms st. os_rollback t (now 3) st) (\<lambda>ms st. st) e t now inst i
      (os_modalities old) (os_version old) ''Update'' (\<lambda>ms. ms) (updated_status now i old e)
      (\<lambda>n ms. returned e (updated_status now i old e n ms) n)
      ((wal_intent env Update e i (now 1) (inst 0) st)\<lparr>txns := tm\<rparr>)"
proof -
  let ?st = "wal_intent env Update e i (now 1) (inst 0) st"
  from assms obtain tm where begun: "tm_running t tm"
    "acquire_all env [] t e (now 3) (requested i) (os_begin t (now 2) ?st) = (Inr (), ?st\<lparr>txns := tm\<rparr>)"
    using write_opens [of ?st t "requested i" env "[]" e "now 3" "now 2"] requested_modalities by auto
  show ?thesis
    unfolding update_existing_def Let_def write_octad_def updated_status_def returned_def
    by (intro exI [of _ tm] conjI begun(1)) (unfold begun(2), simp)
qed

lemma only_at_pre: "only_at e (wal_intent env op e i n c st\<lparr>txns := tm\<rparr>) st' \<longleftrightarrow> only_at e st st'"
  by (simp add: only_at_def)

lemma along_only: "along e t st st' \<Longrightarrow> only_at e st st'"
  by (simp add: along_def)

lemma rollback_create_sel [simp]:
  "octads (rollback_create env e ms st) = octads st" "config (rollback_create env e ms st) = config st"
  "txns (rollback_create env e ms st) = txns st" "wal (rollback_create env e ms st) = wal st"
  "temporal_st (rollback_create env e ms st) = temporal_st st"
  "vec_get (vector_st (rollback_create env e ms st)) j
     = (if ms_vector ms \<and> j = e then None else vec_get (vector_st st) j)"
  "tensor_get (tensor_st (rollback_create env e ms st)) j
     = (if ms_tensor ms \<and> j = e then None else tensor_get (tensor_st st) j)"
  "doc_get (document_st (rollback_create env e ms st)) j
     = (if ms_document ms \<and> j = e then None else doc_get (document_st st) j)"
  by (auto simp: rollback_create_def Let_def vector.get_del tensors.get_del document.get_del)

lemma only_at_rollback: "only_at e st (rollback_create env e ms st)"
  by (simp add: only_at_def entity_of_def) (simp add: rollback_create_def Let_def)

end
