(* ===== verification/Octad_Inv.thy ===== *)
theory Octad_Inv
  imports Octad_Write
begin

text \<open>
  The invariant of the octad store: what the stores of the modalities hold for an entity is well-formed,
  and what the status of an entity promises is there. Every write of a modality keeps the first, a
  write of the store both.
\<close>

section \<open>The invariant\<close>

text \<open>
  What the stores hold for an entity is well-formed, registered or not: it carries the identifier of the
  entity, vectors have the configured dimension, tensors the size of their shape, coordinates are in
  range and chains verify.
\<close>

definition content_ok :: "('f, 'd, 'ix) octad_env \<Rightarrow> nat \<Rightarrow> octad_id \<Rightarrow> ('f, 'd) entity_view \<Rightarrow> bool" where
  "content_ok env dim e v \<longleftrightarrow>
     (\<forall>x. ev_vector v = Some x \<longrightarrow> emb_id x = e \<and> length (emb_vector x) = dim)
     \<and> (\<forall>x. ev_document v = Some x \<longrightarrow> doc_id x = e)
     \<and> (\<forall>x. ev_tensor v = Some x \<longrightarrow> t_id x = e \<and> tensor_wf x)
     \<and> (\<forall>x. ev_semantic v = Some x \<longrightarrow> an_entity x = e)
     \<and> (\<forall>x. ev_chain v = Some x \<longrightarrow> chain_verify (e_prov env) x = Inr ())
     \<and> (\<forall>x. ev_spatial v = Some x \<longrightarrow> in_range (e_f64 env) 90 (latitude (coordinates x))
           \<and> in_range (e_f64 env) 180 (longitude (coordinates x)))"

text \<open>What the status of an entity promises is there.\<close>

definition holds_modalities :: "modality_status \<Rightarrow> ('f, 'd) entity_view \<Rightarrow> bool" where
  "holds_modalities ms v \<longleftrightarrow> (ms_vector ms \<longrightarrow> ev_vector v \<noteq> None) \<and> (ms_document ms \<longrightarrow> ev_document v \<noteq> None)
     \<and> (ms_tensor ms \<longrightarrow> ev_tensor v \<noteq> None) \<and> (ms_semantic ms \<longrightarrow> ev_semantic v \<noteq> None)
     \<and> (ms_provenance ms \<longrightarrow> ev_chain v \<noteq> None) \<and> (ms_spatial ms \<longrightarrow> ev_spatial v \<noteq> None)"

definition status_ok :: "octad_id \<Rightarrow> ('f, 'd) entity_view \<Rightarrow> bool" where
  "status_ok e v \<longleftrightarrow> (\<forall>s. ev_status v = Some s \<longrightarrow> os_id s = e \<and> ms_temporal (os_modalities s)
     \<and> os_version s = of_nat (length (ev_versions v)) \<and> ev_versions v \<noteq> [] \<and> holds_modalities (os_modalities s) v)"

text \<open>A write keeps the content well-formed and removes nothing, whether it succeeds or not.\<close>

definition grows :: "('f, 'd) entity_view \<Rightarrow> ('f, 'd) entity_view \<Rightarrow> bool" where
  "grows v v' \<longleftrightarrow> (\<forall>ms. holds_modalities ms v \<longrightarrow> holds_modalities ms v')"

lemma grows_refl [simp]: "grows v v"
  by (simp add: grows_def)

lemma grows_trans: "grows u v \<Longrightarrow> grows v w \<Longrightarrow> grows u w"
  by (simp add: grows_def)

lemma grows_puts [simp]:
  "grows v (put_vector e i1 v)" "grows v (put_document e i2 v)" "grows v (put_tensor e i3 v)"
  "grows v (put_semantic env now e i4 v)" "grows v (put_event env now e i5 v)" "grows v (put_spatial i6 v)"
  by (auto simp: grows_def holds_modalities_def put_defs)

definition safe_write ::
  "('f, 'd, 'ix) octad_env \<Rightarrow> octad_id \<Rightarrow> ('i \<Rightarrow> ('f, 'd, 'ix) octad_store \<Rightarrow> (octad_error + 'o) \<times> ('f, 'd, 'ix) octad_store)
     \<Rightarrow> bool" where
  "safe_write env e proc \<longleftrightarrow> (\<forall>i st r st'. proc i st = (r, st') \<longrightarrow> grows (entity_of e st) (entity_of e st')
     \<and> (content_ok env (vector_dimension (config st)) e (entity_of e st)
        \<longrightarrow> content_ok env (vector_dimension (config st)) e (entity_of e st')))"

lemma safe_writeD:
  assumes "safe_write env e proc" "proc i st = (r, st')"
  shows "holds_modalities ms (entity_of e st) \<Longrightarrow> holds_modalities ms (entity_of e st')"
    and "content_ok env (vector_dimension (config st)) e (entity_of e st)
      \<Longrightarrow> content_ok env (vector_dimension (config st)) e (entity_of e st')"
  using assms unfolding safe_write_def grows_def by blast+

lemma content_ok_document: "content_ok env d e v \<Longrightarrow> content_ok env d e (put_document e i v)"
  by (simp add: content_ok_def put_document_def)

lemma safe_writeI:
  assumes "implements e eff out proc" "\<And>i v. grows v (eff i v)"
    and "\<And>i st x st'. proc i st = (Inr x, st') \<Longrightarrow> content_ok env (vector_dimension (config st)) e (entity_of e st)
      \<Longrightarrow> content_ok env (vector_dimension (config st)) e (eff i (entity_of e st))"
    and "\<And>i st err st'. proc i st = (Inl err, st') \<Longrightarrow> entity_of e st' = entity_of e st
      \<or> (\<exists>i'. entity_of e st' = put_document e i' (entity_of e st))"
  shows "safe_write env e proc"
  unfolding safe_write_def
proof (intro allI impI)
  fix i st r st' assume p: "proc i st = (r, st')"
  show "grows (entity_of e st) (entity_of e st')
     \<and> (content_ok env (vector_dimension (config st)) e (entity_of e st)
        \<longrightarrow> content_ok env (vector_dimension (config st)) e (entity_of e st'))"
  proof (cases r)
    case (Inl err)
    from assms(4) [OF p [unfolded Inl]] show ?thesis
      by (elim disjE exE) (simp_all add: content_ok_document)
  next
    case (Inr x)
    from implementsD(2) [OF assms(1) p Inr] assms(2) [of "entity_of e st" i] assms(3) [OF p [unfolded Inr]]
    show ?thesis by simp
  qed
qed

lemma process_graph_safe: "safe_write env e (process_graph e)"
  by (rule safe_writeI [OF process_graph_implements]) (simp_all add: process_graph_def Let_def)

lemma process_vector_safe: "safe_write env e (process_vector e)"
proof (rule safe_writeI [OF process_vector_implements grows_puts(1)])
  fix i st x st' assume "process_vector e i st = (Inr x, st')"
    and c: "content_ok env (vector_dimension (config st)) e (entity_of e st)"
  then have "length (vi_embedding i) = vector_dimension (config st)" by (auto simp: process_vector_def split: if_splits)
  with c show "content_ok env (vector_dimension (config st)) e (put_vector e i (entity_of e st))"
    by (simp add: content_ok_def put_vector_def embedding_new_def)
qed (auto dest: process_vector_failed)

lemma process_document_failed:
  assumes "process_document env e i st = (Inl err, st')"
  shows "entity_of e st' = entity_of e st \<or> (\<exists>i'. entity_of e st' = put_document e i' (entity_of e st))"
proof -
  obtain r d where idx: "doc_index (e_ft env) (document_of e i) (document_st st) = (r, d)" by fastforce
  show ?thesis
  proof (cases r)
    case (Inl err')
    with idx assms have "st' = st\<lparr>document_st := d\<rparr>"
      unfolding process_document_def Let_def document_of_def [symmetric] by simp
    with document.get_put_failed [OF idx [unfolded Inl]] show ?thesis by (simp add: entity_of_def)
  next
    case (Inr u)
    obtain r2 d2 where com: "doc_commit (e_ft env) d = (r2, d2)" by fastforce
    with idx Inr assms have "st' = st\<lparr>document_st := d2\<rparr>"
      unfolding process_document_def Let_def document_of_def [symmetric] by (auto split: sum.splits)
    moreover have "doc_get d2 e = doc_get d e" using doc_get_commit [of "e_ft env" d] com by simp
    moreover have "doc_get d e = Some (document_of e i)"
      by (rule document.get_put_same [where ft = "e_ft env"]) (use idx Inr in simp_all)
    ultimately have "entity_of e st' = put_document e i (entity_of e st)" by (simp add: entity_of_def put_document_def)
    then show ?thesis by blast
  qed
qed

lemma process_document_safe: "safe_write env e (process_document env e)"
  by (rule safe_writeI [OF process_document_implements grows_puts(2)])
    (simp_all add: process_document_failed content_ok_document)

lemma process_tensor_safe: "safe_write env e (process_tensor e)"
proof (rule safe_writeI [OF process_tensor_implements grows_puts(3)])
  fix i st x st' assume "process_tensor e i st = (Inr x, st')"
    and c: "content_ok env (vector_dimension (config st)) e (entity_of e st)"
  then obtain t where "tensor_new e (ti_shape i) (ti_data i) = Inr t"
    by (auto simp: process_tensor_def Let_def split: sum.splits)
  then have "length (ti_data i) = unat (shape_product (ti_shape i))"
    by (auto simp: tensor_new_def Let_def split: if_splits)
  with c show "content_ok env (vector_dimension (config st)) e (put_tensor e i (entity_of e st))"
    by (simp add: content_ok_def put_tensor_def tensor_wf_def tensor_numel_def)
qed (auto dest: process_tensor_failed)

lemma process_semantic_failed: "process_semantic env now e i st = (Inl err, st') \<Longrightarrow> entity_of e st' = entity_of e st"
  unfolding process_semantic_def Let_def annotation_of_def [symmetric]
  by (cases "annotate (e_sem env) (annotation_of env now e i) (semantic_st st)")
    (auto split: sum.splits simp: entity_of_def dest: semantic.get_put_failed)

lemma process_semantic_safe: "safe_write env e (process_semantic env now e)"
proof (rule safe_writeI [OF process_semantic_implements grows_puts(4)])
  fix i st assume "content_ok env (vector_dimension (config st)) e (entity_of e st)"
  then show "content_ok env (vector_dimension (config st)) e (put_semantic env now e i (entity_of e st))"
    by (simp add: content_ok_def put_semantic_def annotation_of_def)
qed (simp add: process_semantic_failed)

lemma process_provenance_safe: "safe_write env e (process_provenance env now e)"
proof (rule safe_writeI [OF process_provenance_implements grows_puts(5)])
  fix i st assume "content_ok env (vector_dimension (config st)) e (entity_of e st)"
  then show "content_ok env (vector_dimension (config st)) e (put_event env now e i (entity_of e st))"
    by (auto simp: content_ok_def put_event_def chain_verify_append split: option.split)
qed (auto simp: process_provenance_def record_event_def get_chain_def Let_def split: option.splits)

lemma process_spatial_safe: "safe_write env e (process_spatial env e)"
proof (rule safe_writeI [OF process_spatial_implements grows_puts(6)])
  fix i st x st' assume "process_spatial env e i st = (Inr x, st')"
    and c: "content_ok env (vector_dimension (config st)) e (entity_of e st)"
  then have "in_range (e_f64 env) 90 (li_latitude i)" "in_range (e_f64 env) 180 (li_longitude i)"
    by (auto simp: process_spatial_def coordinates_new_def split: if_splits)
  with c show "content_ok env (vector_dimension (config st)) e (put_spatial i (entity_of e st))"
    by (simp add: content_ok_def put_spatial_def spatial_of_def)
qed (auto simp: process_spatial_def sp_index_def coordinates_new_def with_geometry_def Let_def
      split: sum.splits if_splits)

section \<open>Writes of all modalities keep it\<close>

text \<open>
  During a write that started with the modalities \<open>ms0\<close>: the content is well-formed, and neither a modality
  written so far nor one of \<open>ms0\<close> is missing.
\<close>

definition kept ::
  "('f, 'd, 'ix) octad_env \<Rightarrow> octad_id \<Rightarrow> nat \<Rightarrow> modality_status \<Rightarrow> modality_status \<Rightarrow> ('f, 'd, 'ix) octad_store \<Rightarrow> bool" where
  "kept env e dim ms0 ms st \<longleftrightarrow> vector_dimension (config st) = dim \<and> content_ok env dim e (entity_of e st)
     \<and> holds_modalities ms (entity_of e st) \<and> holds_modalities ms0 (entity_of e st)"

lemma holds_modalities_put:
  "holds_modalities ms v \<Longrightarrow> holds_modalities (ms_graph_update f ms) v"
  "holds_modalities ms v \<Longrightarrow> holds_modalities (ms_temporal_update f ms) v"
  "holds_modalities ms v \<Longrightarrow> holds_modalities (ms_vector_update (\<lambda>_. True) ms) (put_vector e i1 v)"
  "holds_modalities ms v \<Longrightarrow> holds_modalities (ms_document_update (\<lambda>_. True) ms) (put_document e i2 v)"
  "holds_modalities ms v \<Longrightarrow> holds_modalities (ms_tensor_update (\<lambda>_. True) ms) (put_tensor e i3 v)"
  "holds_modalities ms v \<Longrightarrow> holds_modalities (ms_semantic_update (\<lambda>_. True) ms) (put_semantic env now e i4 v)"
  "holds_modalities ms v \<Longrightarrow> holds_modalities (ms_provenance_update (\<lambda>_. True) ms) (put_event env now e i5 v)"
  "holds_modalities ms v \<Longrightarrow> holds_modalities (ms_spatial_update (\<lambda>_. True) ms) (put_spatial i6 v)"
  by (auto simp: holds_modalities_def put_defs)

lemma guarded_kept:
  assumes "implements e eff out proc" "safe_write env e proc"
    and "\<And>ms i v. holds_modalities ms v \<Longrightarrow> holds_modalities (flag ms) (eff i v)"
  shows "guarded undo (kept env e dim ms0) (write_one undo t e v now m flag proc inp)"
proof (rule guarded_one)
  fix ms st i x st1 assume k: "kept env e dim ms0 ms st" and p: "proc i st = (Inr x, st1)"
  have "config st1 = config st" using implementsD(1) [OF assms(1) p] by (simp add: beside_def only_at_def)
  with k implementsD(2) [OF assms(1) p refl] safe_writeD [OF assms(2) p]
  show "kept env e dim ms0 (flag ms) (os_record_undo t e m v now st1)"
    by (auto simp: kept_def assms(3))
next
  fix ms st i err st1 assume k: "kept env e dim ms0 ms st" and p: "proc i st = (Inl err, st1)"
  have "config st1 = config st" using implementsD(1) [OF assms(1) p] by (simp add: beside_def only_at_def)
  with k safe_writeD [OF assms(2) p] show "kept env e dim ms0 ms st1" by (auto simp: kept_def)
qed

lemma write_modalities_kept: "guarded undo (kept env e dim ms0) (write_modalities env undo t e v now i)"
  unfolding write_modalities_def
  by (intro guarded_bind guarded_return guarded_kept [OF process_graph_implements process_graph_safe]
      guarded_kept [OF process_vector_implements process_vector_safe]
      guarded_kept [OF process_document_implements process_document_safe]
      guarded_kept [OF process_tensor_implements process_tensor_safe]
      guarded_kept [OF process_semantic_implements process_semantic_safe]
      guarded_kept [OF process_provenance_implements process_provenance_safe]
      guarded_kept [OF process_spatial_implements process_spatial_safe] holds_modalities_put)

lemma write_octad_kept:
  assumes "write_octad env undo cundo e t now inst i ms0 pv msg fin mkst mko st = (Inr oc, st')"
    and "tm_running t (txns st)" "store_wf (temporal_st st)" "length (vs_hist (temporal_st st) e) < 2 ^ 64 - 1"
    and "kept env e dim ms0 ms0 st"
  shows "content_ok env dim e (entity_of e st') \<and> holds_modalities (add_modalities i ms0) (entity_of e st')"
proof -
  from assms(1) obtain w ms st1 where wm: "write_modalities env undo t e pv now i (ms0, st) = (Inr w, ms, st1)"
    by (cases "write_modalities env undo t e pv now i (ms0, st)") (auto simp: write_octad_def split: sum.splits)
  from write_modalities_kept [unfolded guarded_def, rule_format, OF assms(5) wm] write_modalities_ok [OF wm]
  have "content_ok env dim e (apply_input env e now i (entity_of e st))"
    "holds_modalities (add_modalities i ms0) (apply_input env e now i (entity_of e st))"
    by (simp_all add: kept_def)
  with write_octad_ok(2) [OF assms(1-4)] show ?thesis
    by (simp add: finish_view_def content_ok_def holds_modalities_def)
qed

lemma write_octad_failed_kept:
  assumes "write_octad env undo cundo e t now inst i ms0 pv msg fin mkst mko st = (Inl err, st')"
    and "tm_running t (txns st)" "kept env e dim ms0 ms0 st"
  shows "\<exists>ms st1. st' = undo ms st1 \<and> kept env e dim ms0 ms st1"
proof -
  obtain ms where "write_modalities env undo t e pv now i (ms0, st) = (Inl err, ms, st')"
    using write_octad_failed [OF assms(1,2)] by blast
  from write_modalities_kept [unfolded guarded_def, rule_format, OF assms(3) this] show ?thesis by auto
qed

end
