(* ===== verification/Octad_Ops.thy ===== *)
theory Octad_Ops
  imports Octad_Inv
begin

text \<open>
  What the operations of the octad store do, read off the view of an entity: a successful write applies its
  input to the view and registers it, a failed one leaves the registry alone, no operation touches
  another entity, and the store is idle again after each, so that every run of operations keeps the
  invariant.
\<close>

section \<open>The operations and the invariant\<close>

definition octad_inv :: "('f, 'd, 'ix) octad_env \<Rightarrow> ('f, 'd, 'ix) octad_store \<Rightarrow> bool" where
  "octad_inv env st \<longleftrightarrow> tm_idle (txns st) \<and> store_wf (temporal_st st) \<and> hm_wf (octads st)
     \<and> (\<forall>e. content_ok env (vector_dimension (config st)) e (entity_of e st) \<and> status_ok e (entity_of e st))"

lemma octad_inv_at:
  assumes "octad_inv env st" "only_at e st st'" "tm_idle (txns st')" "store_wf (temporal_st st')" "hm_wf (octads st')"
    and "content_ok env (vector_dimension (config st)) e (entity_of e st')" "status_ok e (entity_of e st')"
  shows "octad_inv env st'"
  using assms unfolding octad_inv_def only_at_def by metis

text \<open>The state that the steps of a write start from, after the intent is logged and the locks are taken.\<close>

lemma opened_sel:
  assumes "octad_inv env st"
  defines "pre op e i n c tm \<equiv> wal_intent env op e i n c st\<lparr>txns := tm\<rparr>"
  shows "entity_of j (pre op e i n c tm) = entity_of j st" "config (pre op e i n c tm) = config st"
    "octads (pre op e i n c tm) = octads st" "temporal_st (pre op e i n c tm) = temporal_st st"
    "txns (pre op e i n c tm) = tm"
    "holds_modalities ms (entity_of e st) \<Longrightarrow>
      kept env e (vector_dimension (config st)) ms ms (pre op e i n c tm)"
  using assms(1) by (simp_all add: pre_def kept_def octad_inv_def)

lemma ev_versions_apply [simp]: "ev_versions (apply_input env e now i v) = ev_versions v"
  by (simp add: apply_input_def opt_effect_def put_defs split: option.split)

lemma ev_versions_entity: "ev_versions (entity_of e st) = vs_hist (temporal_st st) e"
  by (simp add: entity_of_def)

lemma ev_status_entity: "ev_status (entity_of e st) = map_of (octads st) e"
  by (simp add: entity_of_def)

lemma holds_none [simp]: "holds_modalities modality_status_default v"
  by (simp add: holds_modalities_def modality_status_default_def)

definition new_version ::
  "(nat \<Rightarrow> datetime) \<Rightarrow> octad_id \<Rightarrow> ('f, 'd) octad_input \<Rightarrow> modality_status \<Rightarrow> string \<Rightarrow> ('f, 'd) entity_view
     \<Rightarrow> ('f, 'd) octad_snapshot version" where
  "new_version now e i ms msg v = \<lparr>version_no = of_nat (Suc (length (ev_versions v))), v_timestamp = now 14,
     v_data = create_snapshot e i ms (now 13), v_author = ''system'', v_message = Some msg\<rparr>"

definition created_view ::
  "('f, 'd, 'ix) octad_env \<Rightarrow> octad_id \<Rightarrow> (nat \<Rightarrow> datetime) \<Rightarrow> ('f, 'd) octad_input \<Rightarrow> ('f, 'd) entity_view
     \<Rightarrow> ('f, 'd) entity_view" where
  "created_view env e now i v =
     (let ms = add_modalities i modality_status_default; ver = new_version now e i ms ''Initial creation'' v
      in finish_view (created_status now i e (version_no ver) (ms\<lparr>ms_temporal := True\<rparr>)) ver
           (apply_input env e now i v))"

definition updated_view ::
  "('f, 'd, 'ix) octad_env \<Rightarrow> octad_status \<Rightarrow> octad_id \<Rightarrow> (nat \<Rightarrow> datetime) \<Rightarrow> ('f, 'd) octad_input
     \<Rightarrow> ('f, 'd) entity_view \<Rightarrow> ('f, 'd) entity_view" where
  "updated_view env old e now i v =
     (let ms = add_modalities i (os_modalities old); ver = new_version now e i ms ''Update'' v
      in finish_view (updated_status now i old e (version_no ver) ms) ver (apply_input env e now i v))"

lemma os_create_ok:
  assumes "octad_inv env st" "tm_unused t (txns st)" "length (vs_hist (temporal_st st) e) < 2 ^ 64 - 1"
    and "os_create env e t now inst i st = (Inr oc, st')"
  shows "only_at e st st'" "entity_of e st' = created_view env e now i (entity_of e st)" "octad_inv env st'"
    and "oc = returned e (the (ev_status (entity_of e st'))) 1
      (written_of (base_iri (config st)) e i (entity_of e st'))"
    and "\<exists>st1. wal st1 = wal (wal_intent env Insert e i (now 1) (inst 0) st) \<and> wal st' = wal (wal_committed env e now inst st1)"
proof -
  obtain tm where run: "tm_running t tm" and eq: "os_create env e t now inst i st =
    write_octad env (\<lambda>ms st. os_rollback t (now 3) (rollback_create env e ms st)) (rollback_create env e) e t now inst i
      modality_status_default 0 ''Initial creation'' (ms_temporal_update (\<lambda>_. True)) (created_status now i e)
      (\<lambda>n ms. returned e (created_status now i e n ms) 1)
      ((wal_intent env Insert e i (now 1) (inst 0) st)\<lparr>txns := tm\<rparr>)"
    using os_create_write [of st t env e now inst i] assms(1,2) by (auto simp: octad_inv_def)
  note sel = opened_sel [OF assms(1), where op = Insert and e = e and i = i and n = "now 1" and c = "inst 0" and tm = tm]
  have pre: "tm_running t (txns (wal_intent env Insert e i (now 1) (inst 0) st\<lparr>txns := tm\<rparr>))"
    "store_wf (temporal_st (wal_intent env Insert e i (now 1) (inst 0) st\<lparr>txns := tm\<rparr>))"
    "length (vs_hist (temporal_st (wal_intent env Insert e i (now 1) (inst 0) st\<lparr>txns := tm\<rparr>)) e) < 2 ^ 64 - 1"
    using run assms(1,3) by (simp_all add: octad_inv_def)
  note ok = write_octad_ok [OF assms(4) [unfolded eq] pre, unfolded sel]
  show "\<exists>st1. wal st1 = wal (wal_intent env Insert e i (now 1) (inst 0) st) \<and> wal st' = wal (wal_committed env e now inst st1)"
    using ok(7) by simp
  show only: "only_at e st st'" using ok(1) by (simp add: only_at_pre)
  show view: "entity_of e st' = created_view env e now i (entity_of e st)"
    using ok(2) by (simp add: created_view_def new_version_def Let_def ev_versions_entity)
  have kept: "content_ok env (vector_dimension (config st)) e (entity_of e st')"
    "holds_modalities (add_modalities i modality_status_default) (entity_of e st')"
    using write_octad_kept [OF assms(4) [unfolded eq] pre sel(6)] by simp_all
  have "status_ok e (entity_of e st')"
    using kept(2) unfolding view by (simp add: status_ok_def created_view_def finish_view_def Let_def created_status_def
        new_version_def holds_modalities_def)
  then show "octad_inv env st'"
    using octad_inv_at [OF assms(1) only ok(3,4) _ kept(1)] assms(1) ok(6) by (simp add: octad_inv_def)
  show "oc = returned e (the (ev_status (entity_of e st'))) 1 (written_of (base_iri (config st)) e i (entity_of e st'))"
    using ok(5) unfolding view by (simp add: created_view_def finish_view_def Let_def new_version_def ev_versions_entity)
qed

lemma update_existing_ok:
  assumes "octad_inv env st" "tm_unused t (txns st)" "length (vs_hist (temporal_st st) e) < 2 ^ 64 - 1"
    and "update_existing env old e t now inst i st = (Inr oc, st')"
  shows "only_at e st st'" "entity_of e st' = updated_view env old e now i (entity_of e st)"
    and "map_of (octads st) e = Some old \<Longrightarrow> octad_inv env st'"
    and "oc = returned e (the (ev_status (entity_of e st'))) (os_version (the (ev_status (entity_of e st'))))
      (written_of (base_iri (config st)) e i (entity_of e st'))"
    and "\<exists>st1. wal st1 = wal (wal_intent env Update e i (now 1) (inst 0) st) \<and> wal st' = wal (wal_committed env e now inst st1)"
proof -
  obtain tm where run: "tm_running t tm" and eq: "update_existing env old e t now inst i st =
    write_octad env (\<lambda>ms st. os_rollback t (now 3) st) (\<lambda>ms st. st) e t now inst i
      (os_modalities old) (os_version old) ''Update'' (\<lambda>ms. ms) (updated_status now i old e)
      (\<lambda>n ms. returned e (updated_status now i old e n ms) n)
      ((wal_intent env Update e i (now 1) (inst 0) st)\<lparr>txns := tm\<rparr>)"
    using update_existing_write [of st t env old e now inst i] assms(1,2) by (auto simp: octad_inv_def)
  note sel = opened_sel [OF assms(1), where op = Update and e = e and i = i and n = "now 1" and c = "inst 0" and tm = tm]
  have pre: "tm_running t (txns (wal_intent env Update e i (now 1) (inst 0) st\<lparr>txns := tm\<rparr>))"
    "store_wf (temporal_st (wal_intent env Update e i (now 1) (inst 0) st\<lparr>txns := tm\<rparr>))"
    "length (vs_hist (temporal_st (wal_intent env Update e i (now 1) (inst 0) st\<lparr>txns := tm\<rparr>)) e) < 2 ^ 64 - 1"
    using run assms(1,3) by (simp_all add: octad_inv_def)
  note ok = write_octad_ok [OF assms(4) [unfolded eq] pre, unfolded sel]
  show "\<exists>st1. wal st1 = wal (wal_intent env Update e i (now 1) (inst 0) st) \<and> wal st' = wal (wal_committed env e now inst st1)"
    using ok(7) by simp
  show only: "only_at e st st'" using ok(1) by (simp add: only_at_pre)
  show view: "entity_of e st' = updated_view env old e now i (entity_of e st)"
    using ok(2) by (simp add: updated_view_def new_version_def Let_def ev_versions_entity)
  show "oc = returned e (the (ev_status (entity_of e st'))) (os_version (the (ev_status (entity_of e st'))))
      (written_of (base_iri (config st)) e i (entity_of e st'))"
    using ok(5) unfolding view
    by (simp add: updated_view_def finish_view_def Let_def new_version_def ev_versions_entity updated_status_def)
  assume old: "map_of (octads st) e = Some old"
  have st_ok: "holds_modalities (os_modalities old) (entity_of e st)" "ms_temporal (os_modalities old)"
    using assms(1) old by (auto simp: octad_inv_def status_ok_def ev_status_entity)
  have kept: "content_ok env (vector_dimension (config st)) e (entity_of e st')"
    "holds_modalities (add_modalities i (os_modalities old)) (entity_of e st')"
    using write_octad_kept [OF assms(4) [unfolded eq] pre sel(6) [OF st_ok(1)]] by simp_all
  have "status_ok e (entity_of e st')"
    using kept(2) st_ok(2) unfolding view by (simp add: status_ok_def updated_view_def finish_view_def Let_def
        updated_status_def new_version_def add_modalities_def)
  then show "octad_inv env st'"
    using octad_inv_at [OF assms(1) only ok(3,4) _ kept(1)] assms(1) ok(6) by (simp add: octad_inv_def)
qed

lemma os_create_failed:
  assumes "octad_inv env st" "tm_unused t (txns st)" "map_of (octads st) e = None"
    and "os_create env e t now inst i st = (Inl err, st')"
  shows "only_at e st st'" "octads st' = octads st" "octad_inv env st'" "temporal_st st' = temporal_st st"
    and "wal st' = wal (wal_intent env Insert e i (now 1) (inst 0) st)"
    and "vec_get (vector_st st) e = None \<Longrightarrow> ev_vector (entity_of e st') = None"
    and "tensor_get (tensor_st st) e = None \<Longrightarrow> ev_tensor (entity_of e st') = None"
proof -
  obtain tm where run: "tm_running t tm" and eq: "os_create env e t now inst i st =
    write_octad env (\<lambda>ms st. os_rollback t (now 3) (rollback_create env e ms st)) (rollback_create env e) e t now inst i
      modality_status_default 0 ''Initial creation'' (ms_temporal_update (\<lambda>_. True)) (created_status now i e)
      (\<lambda>n ms. returned e (created_status now i e n ms) 1)
      ((wal_intent env Insert e i (now 1) (inst 0) st)\<lparr>txns := tm\<rparr>)"
    using os_create_write [of st t env e now inst i] assms(1,2) by (auto simp: octad_inv_def)
  let ?pre = "wal_intent env Insert e i (now 1) (inst 0) st\<lparr>txns := tm\<rparr>"
  note sel = opened_sel [OF assms(1), where op = Insert and e = e and i = i and n = "now 1" and c = "inst 0" and tm = tm]
  have pre: "tm_running t (txns ?pre)" using run by simp
  obtain ms st1 where st': "st' = os_rollback t (now 3) (rollback_create env e ms st1)" and tr: "tracked e t ?pre ms st1"
    using write_octad_failed [OF assms(4) [unfolded eq] pre] by blast
  then have al: "along e t ?pre st1" by (simp add: tracked_def)
  then have only1: "only_at e st st1" by (simp add: along_def only_at_pre)
  then have "only_at e st (rollback_create env e ms st1)" by (rule only_at_trans [OF _ only_at_rollback])
  then show only: "only_at e st st'" by (simp add: st' only_at_def)
  have reg: "octads st1 = octads st" "temporal_st st1 = temporal_st st" using al by (simp_all add: along_def)
  then show octads: "octads st' = octads st" by (simp add: st')
  show "wal st' = wal (wal_intent env Insert e i (now 1) (inst 0) st)" using al by (simp add: st' along_def)
  have idle: "tm_idle (txns st')"
    using al run by (simp add: st' os_rollback_running along_def)
  obtain ms2 st2 where st2: "st' = os_rollback t (now 3) (rollback_create env e ms2 st2)"
    and kept: "kept env e (vector_dimension (config st)) modality_status_default ms2 st2"
    using write_octad_failed_kept [OF assms(4) [unfolded eq] pre sel(6)] by auto
  have "content_ok env (vector_dimension (config st)) e (entity_of e (rollback_create env e ms2 st2))"
    using kept unfolding kept_def content_ok_def
    by (simp add: entity_of_def) (simp add: rollback_create_def Let_def)
  then have content: "content_ok env (vector_dimension (config st)) e (entity_of e st')" by (simp add: st2)
  have "status_ok e (entity_of e st')" using assms(3) by (simp add: status_ok_def ev_status_entity octads)
  moreover show "temporal_st st' = temporal_st st" using reg by (simp add: st' os_rollback_def)
  ultimately show "octad_inv env st'"
    using octad_inv_at [OF assms(1) only idle _ _ content] assms(1) by (simp add: octad_inv_def octads)
  have stores: "vector_st ?pre = vector_st st" "tensor_st ?pre = tensor_st st"
    by (simp_all add: wal_intent_def os_wal_append_def split: option.split)
  have undone: "vec_get (vector_st (rollback_create env e ms st1)) e = None" if "vec_get (vector_st st) e = None"
    using tr that stores by (auto simp: tracked_def)
  show "vec_get (vector_st st) e = None \<Longrightarrow> ev_vector (entity_of e st') = None"
    using undone by (simp add: st') (simp add: entity_of_def)
  have undone: "tensor_get (tensor_st (rollback_create env e ms st1)) e = None" if "tensor_get (tensor_st st) e = None"
    using tr that stores by (auto simp: tracked_def)
  show "tensor_get (tensor_st st) e = None \<Longrightarrow> ev_tensor (entity_of e st') = None"
    using undone by (simp add: st') (simp add: entity_of_def)
qed

lemma update_existing_failed:
  assumes "octad_inv env st" "tm_unused t (txns st)" "map_of (octads st) e = Some old"
    and "update_existing env old e t now inst i st = (Inl err, st')"
  shows "only_at e st st'" "octads st' = octads st" "octad_inv env st'" "temporal_st st' = temporal_st st"
    and "wal st' = wal (wal_intent env Update e i (now 1) (inst 0) st)"
proof -
  obtain tm where run: "tm_running t tm" and eq: "update_existing env old e t now inst i st =
    write_octad env (\<lambda>ms st. os_rollback t (now 3) st) (\<lambda>ms st. st) e t now inst i
      (os_modalities old) (os_version old) ''Update'' (\<lambda>ms. ms) (updated_status now i old e)
      (\<lambda>n ms. returned e (updated_status now i old e n ms) n)
      ((wal_intent env Update e i (now 1) (inst 0) st)\<lparr>txns := tm\<rparr>)"
    using update_existing_write [of st t env old e now inst i] assms(1,2) by (auto simp: octad_inv_def)
  let ?pre = "wal_intent env Update e i (now 1) (inst 0) st\<lparr>txns := tm\<rparr>"
  note sel = opened_sel [OF assms(1), where op = Update and e = e and i = i and n = "now 1" and c = "inst 0" and tm = tm]
  have pre: "tm_running t (txns ?pre)" using run by simp
  have st_ok: "status_ok e (entity_of e st)" "holds_modalities (os_modalities old) (entity_of e st)"
    using assms(1,3) by (auto simp: octad_inv_def status_ok_def ev_status_entity)
  obtain ms st1 where st': "st' = os_rollback t (now 3) st1" and tr: "tracked e t ?pre ms st1"
    using write_octad_failed [OF assms(4) [unfolded eq] pre] by blast
  then have al: "along e t ?pre st1" by (simp add: tracked_def)
  then have "only_at e st st1" by (simp add: along_def only_at_pre)
  then show only: "only_at e st st'" by (simp add: st' only_at_def)
  have reg: "octads st1 = octads st" "temporal_st st1 = temporal_st st" using al by (simp_all add: along_def)
  then show octads: "octads st' = octads st" by (simp add: st')
  have idle: "tm_idle (txns st')" using al run by (simp add: st' os_rollback_running along_def)
  obtain ms2 st2 where st2: "st' = os_rollback t (now 3) st2"
    and kept: "kept env e (vector_dimension (config st)) (os_modalities old) ms2 st2"
    using write_octad_failed_kept [OF assms(4) [unfolded eq] pre sel(6) [OF st_ok(2)]] by auto
  have content: "content_ok env (vector_dimension (config st)) e (entity_of e st')"
    "holds_modalities (os_modalities old) (entity_of e st')" using kept by (simp_all add: st2 kept_def)
  show "wal st' = wal (wal_intent env Update e i (now 1) (inst 0) st)" using al by (simp add: st' along_def)
  show tmp: "temporal_st st' = temporal_st st" using reg by (simp add: st' os_rollback_def)
  have "status_ok e (entity_of e st')"
    using st_ok(1) content(2) assms(3) by (simp add: status_ok_def ev_status_entity octads ev_versions_entity tmp)
  then show "octad_inv env st'"
    using octad_inv_at [OF assms(1) only idle _ _ content(1)] assms(1) by (simp add: octad_inv_def octads tmp)
qed

section \<open>Deletion\<close>

lemma fold_record_undo_sel:
  "octads (fold (\<lambda>m. os_record_undo t e m v now) ms st) = octads st
   \<and> config (fold (\<lambda>m. os_record_undo t e m v now) ms st) = config st
   \<and> entity_of j (fold (\<lambda>m. os_record_undo t e m v now) ms st) = entity_of j st
   \<and> temporal_st (fold (\<lambda>m. os_record_undo t e m v now) ms st) = temporal_st st
   \<and> wal (fold (\<lambda>m. os_record_undo t e m v now) ms st) = wal st
   \<and> (tm_running t (txns st) \<longrightarrow> tm_running t (txns (fold (\<lambda>m. os_record_undo t e m v now) ms st)))
   \<and> spares t (txns st) (txns (fold (\<lambda>m. os_record_undo t e m v now) ms st))"
proof (induction ms arbitrary: st)
  case (Cons m ms)
  have "tm_running t (txns st) \<Longrightarrow> tm_running t (txns (os_record_undo t e m v now st))"
    by (simp add: os_record_undo_def write_txn.record_running)
  moreover have "spares t (txns st) (txns (os_record_undo t e m v now st))"
    by (simp add: os_record_undo_def spares_def tm_unused_ops(5))
  ultimately show ?case using Cons.IH [of "os_record_undo t e m v now st"] by (simp add: spares_def)
qed (simp add: spares_def)

definition deleted_view :: "('f, 'd) entity_view \<Rightarrow> ('f, 'd) entity_view" where
  "deleted_view v = v\<lparr>ev_status := None, ev_vector := None, ev_document := None, ev_tensor := None\<rparr>"

lemma delete_existing_ok:
  assumes "tm_idle (txns st)" "tm_unused t (txns st)"
  obtains st' where "delete_existing env old e t now inst st = (Inr (), st')" "only_at e st st'"
    "entity_of e st' = deleted_view (entity_of e st)" "octads st' = AList.delete e (octads st)"
    "temporal_st st' = temporal_st st" "tm_idle (txns st')" "spares t (txns st) (txns st')"
    "\<exists>st1. wal st1 = wal (os_wal_append (e_wal env) Delete e [] (now 1) (inst 0) st)
      \<and> wal st' = wal (wal_committed env e now inst st1)"
proof -
  let ?st0 = "os_wal_append (e_wal env) Delete e [] (now 1) (inst 0) st"
  let ?ms = "populated (os_modalities old)"
  obtain tm where acq: "acquire_all env '' for delete'' t e (now 3) ?ms (os_begin t (now 2) ?st0) = (Inr (), ?st0\<lparr>txns := tm\<rparr>)"
    and run: "tm_running t tm" "spares t (txns st) tm"
    using write_opens [of ?st0 t ?ms env "'' for delete''" e "now 3" "now 2"] populated_modalities assms by auto
  define st1 where "st1 = fold (\<lambda>m. os_record_undo t e m (os_version old) (now 4)) ?ms (?st0\<lparr>txns := tm\<rparr>)"
  have st1: "octads st1 = octads st" "config st1 = config st" "\<And>j. entity_of j st1 = entity_of j st"
    "temporal_st st1 = temporal_st st" "tm_running t (txns st1)" "wal st1 = wal ?st0"
    "spares t tm (txns st1)"
    using fold_record_undo_sel [of t e "os_version old" "now 4" ?ms "?st0\<lparr>txns := tm\<rparr>"] run by (simp_all add: st1_def)
  let ?st2 = "st1\<lparr>vector_st := vec_delete e (vector_st st1), document_st := doc_delete (e_ft env) e (document_st st1),
    tensor_st := tensor_delete e (tensor_st st1)\<rparr>"
  obtain tm' where com: "os_commit env '' during delete'' t (now 15) ?st2 = (Inr (), ?st2\<lparr>txns := tm'\<rparr>)"
    and idle: "tm_idle tm'" using os_commit_running [of t ?st2 env "'' during delete''" "now 15"] st1(5) by auto
  have spared: "spares t (txns st) tm'"
    using run(2) st1(7) os_commit_spares [OF com] by (simp add: spares_def)
  let ?st3 = "?st2\<lparr>txns := tm', octads := AList.delete e (octads st)\<rparr>"
  have eq: "delete_existing env old e t now inst st = (Inr (), wal_committed env e now inst ?st3)"
    unfolding delete_existing_def Let_def acq prod.case sum.case st1_def [symmetric] com by (simp add: st1)
  have view: "entity_of j ?st3 = (if j = e then deleted_view (entity_of e st) else entity_of j st)" for j
    using st1(1) st1(3) [of j]
    by (auto simp: entity_of_def deleted_view_def vector.get_del tensors.get_del document.get_del)
  show ?thesis
  proof (rule that [OF eq])
    show "only_at e st (wal_committed env e now inst ?st3)" using view st1(2) by (simp add: only_at_def)
    show "entity_of e (wal_committed env e now inst ?st3) = deleted_view (entity_of e st)"
      using view [of e] by simp
    show "temporal_st (wal_committed env e now inst ?st3) = temporal_st st"
      using st1(4) by (simp add: wal_committed_def)
    show "\<exists>st1. wal st1 = wal ?st0 \<and> wal (wal_committed env e now inst ?st3) = wal (wal_committed env e now inst st1)"
      by (intro exI [of _ ?st3]) (simp add: st1(6))
  qed (use idle spared in simp_all)
qed

section \<open>Runs\<close>

datatype ('f, 'd) os_op =
    OCreate octad_id uuid "nat \<Rightarrow> datetime" "nat \<Rightarrow> nat \<Rightarrow> nat" "('f, 'd) octad_input"
  | OUpdate octad_id uuid "nat \<Rightarrow> datetime" "nat \<Rightarrow> nat \<Rightarrow> nat" "('f, 'd) octad_input"
  | ODelete octad_id uuid "nat \<Rightarrow> datetime" "nat \<Rightarrow> nat \<Rightarrow> nat"

fun os_step :: "('f, 'd, 'ix) octad_env \<Rightarrow> ('f, 'd, 'ix) octad_store \<Rightarrow> ('f, 'd) os_op \<Rightarrow> ('f, 'd, 'ix) octad_store" where
  "os_step env st (OCreate e t now inst i) = snd (os_create env e t now inst i st)"
| "os_step env st (OUpdate e t now inst i) = snd (os_update env e t now inst i st)"
| "os_step env st (ODelete e t now inst) = snd (os_delete env e t now inst st)"

text \<open>
  Identifiers are fresh: a create gets a new entity identifier, every write a new transaction identifier.
  The version counter of an entity does not overflow.
\<close>

definition fresh_write :: "octad_id \<Rightarrow> uuid \<Rightarrow> ('f, 'd, 'ix) octad_store \<Rightarrow> bool" where
  "fresh_write e t st \<longleftrightarrow> tm_unused t (txns st) \<and> length (vs_hist (temporal_st st) e) < 2 ^ 64 - 1"

fun os_ok :: "('f, 'd, 'ix) octad_store \<Rightarrow> ('f, 'd) os_op \<Rightarrow> bool" where
  "os_ok st (OCreate e t now inst i) \<longleftrightarrow> fresh_write e t st \<and> map_of (octads st) e = None"
| "os_ok st (OUpdate e t now inst i) \<longleftrightarrow> fresh_write e t st"
| "os_ok st (ODelete e t now inst) \<longleftrightarrow> fresh_write e t st"

fun op_entity :: "('f, 'd) os_op \<Rightarrow> octad_id" where
  "op_entity (OCreate e t now inst i) = e"
| "op_entity (OUpdate e t now inst i) = e"
| "op_entity (ODelete e t now inst) = e"

lemma os_delete_inv:
  assumes "octad_inv env st" "tm_unused t (txns st)"
  shows "octad_inv env (snd (os_delete env e t now inst st))" "only_at e st (snd (os_delete env e t now inst st))"
proof -
  have "octad_inv env (snd (os_delete env e t now inst st)) \<and> only_at e st (snd (os_delete env e t now inst st))"
  proof (cases "map_of (octads st) e")
    case (Some old)
    have "tm_idle (txns st)" using assms(1) by (simp add: octad_inv_def)
    then obtain st' where st': "delete_existing env old e t now inst st = (Inr (), st')" "only_at e st st'"
      "entity_of e st' = deleted_view (entity_of e st)" "octads st' = AList.delete e (octads st)"
      "temporal_st st' = temporal_st st" "tm_idle (txns st')" by (rule delete_existing_ok [OF _ assms(2)])
    have "content_ok env (vector_dimension (config st)) e (entity_of e st)" using assms(1) by (simp add: octad_inv_def)
    then have "content_ok env (vector_dimension (config st)) e (entity_of e st')"
      by (simp add: st'(3) content_ok_def deleted_view_def)
    moreover have "status_ok e (entity_of e st')" by (simp add: st'(3) status_ok_def deleted_view_def)
    ultimately have "octad_inv env st'"
      using octad_inv_at [OF assms(1) st'(2,6)] assms(1) st'(4,5) by (simp add: octad_inv_def)
    with st'(1,2) show ?thesis by (simp add: os_delete_def Some)
  qed (simp add: os_delete_def assms)
  then show "octad_inv env (snd (os_delete env e t now inst st))" "only_at e st (snd (os_delete env e t now inst st))"
    by simp_all
qed

lemma os_update_inv:
  assumes "octad_inv env st" "fresh_write e t st"
  shows "octad_inv env (snd (os_update env e t now inst i st)) \<and> only_at e st (snd (os_update env e t now inst i st))"
proof (cases "map_of (octads st) e")
  case (Some old)
  note fresh = assms(2) [unfolded fresh_write_def]
  obtain r st' where upd: "update_existing env old e t now inst i st = (r, st')" by fastforce
  have "octad_inv env st' \<and> only_at e st st'"
  proof (cases r)
    case (Inl err)
    from update_existing_failed [OF assms(1) conjunct1 [OF fresh] Some upd [unfolded Inl]] show ?thesis by simp
  next
    case (Inr oc)
    from update_existing_ok [OF assms(1) conjunct1 [OF fresh] conjunct2 [OF fresh] upd [unfolded Inr]] Some
    show ?thesis by simp
  qed
  with upd show ?thesis by (simp add: os_update_def Some)
qed (simp add: os_update_def assms)

lemma os_create_inv:
  assumes "octad_inv env st" "fresh_write e t st" "map_of (octads st) e = None"
  shows "octad_inv env (snd (os_create env e t now inst i st)) \<and> only_at e st (snd (os_create env e t now inst i st))"
proof -
  note fresh = assms(2) [unfolded fresh_write_def]
  obtain r st' where cr: "os_create env e t now inst i st = (r, st')" by fastforce
  show ?thesis
  proof (cases r)
    case (Inl err)
    from os_create_failed [OF assms(1) conjunct1 [OF fresh] assms(3) cr [unfolded Inl]] cr show ?thesis by simp
  next
    case (Inr oc)
    from os_create_ok [OF assms(1) conjunct1 [OF fresh] conjunct2 [OF fresh] cr [unfolded Inr]] cr show ?thesis by simp
  qed
qed

lemma os_step_inv:
  assumes "octad_inv env st" "os_ok st op"
  shows "octad_inv env (os_step env st op)" "only_at (op_entity op) st (os_step env st op)"
  using assms os_create_inv [OF assms(1)] os_update_inv [OF assms(1)] os_delete_inv [OF assms(1)]
  by (cases op; simp add: fresh_write_def)+

interpretation os_run: step_system "os_step env" os_ok "octad_inv env"
  by unfold_locales (rule os_step_inv)

text \<open>An empty store.\<close>

definition os_empty :: "octad_config \<Rightarrow> distance_metric \<Rightarrow> 'ix \<Rightarrow> ('f, 'd, 'ix) octad_store" where
  "os_empty cfg metric ix = octad_store_new cfg graph_store_new (vector_store_new (vector_dimension cfg) metric)
     (document_store_new ix) [] semantic_store_new [] [] []"

lemma octad_inv_empty: "octad_inv env (os_empty cfg metric ix)"
  by (simp add: octad_inv_def os_empty_def octad_store_new_def tm_idle_new entity_of_def content_ok_def status_ok_def
      vec_get_def vector_store_new_def doc_get_def document_store_new_def tensor_get_def get_annotations_def
      semantic_store_new_def sp_get_def store_wf_def versions_of_def vs_wf_def)

lemma os_run_empty: "run_ok (os_step env) os_ok (os_empty cfg metric ix) ops \<Longrightarrow>
  octad_inv env (run (os_step env) (os_empty cfg metric ix) ops)"
  by (rule os_run.run_inv [OF octad_inv_empty])

lemma os_run_config: "octad_inv env st \<Longrightarrow> run_ok (os_step env) os_ok st ops \<Longrightarrow> config (run (os_step env) st ops) = config st"
proof (induction ops arbitrary: st)
  case (Cons op ops)
  then have "os_ok st op" by simp
  from os_step_inv [OF Cons.prems(1) this] Cons show ?case by (simp add: only_at_def)
qed simp

lemma os_get_view: "os_get e st = load_view (base_iri (config st)) e (entity_of e st)"
  by (simp add: os_get_def load_octad_view)

end
