(* ===== verification/Octad_Frame.thy ===== *)
theory Octad_Frame
  imports Octad_Ops
begin

text \<open>
  What a write does to the parts of the octad store that the view of an entity does not show: the graph store
  and the index of the document store. A store that the input does not name is left alone as a whole, and
  the edges that a write adds leave its own entity.
\<close>

section \<open>Parts that a write keeps\<close>

text \<open>\<open>outside f\<close>: the part \<open>f\<close> of the store is none of the registry, the transactions, the log and the versions.\<close>

definition outside :: "(('f, 'd, 'ix) octad_store \<Rightarrow> 'p) \<Rightarrow> bool" where
  "outside f \<longleftrightarrow> (\<forall>st tm. f (st\<lparr>txns := tm\<rparr>) = f st) \<and> (\<forall>st r. f (st\<lparr>octads := r\<rparr>) = f st)
     \<and> (\<forall>st w. f (st\<lparr>wal := w\<rparr>) = f st) \<and> (\<forall>st tp. f (st\<lparr>temporal_st := tp\<rparr>) = f st)"

lemma outside_stores: "outside graph_st" "outside document_st"
  by (simp_all add: outside_def)

lemma outside_steps:
  assumes "outside f"
  shows "f (st\<lparr>txns := tm\<rparr>) = f st" "f (st\<lparr>octads := r\<rparr>) = f st" "f (st\<lparr>wal := w\<rparr>) = f st"
    "f (st\<lparr>temporal_st := tp\<rparr>) = f st"
    "f (os_rollback t n st) = f st" "f (os_record_undo t e m v n st) = f st" "f (snd (os_commit env what t n st)) = f st"
    "f (os_wal_append wenv op e bs n clk st) = f st" "f (wal_intent env op e i n clk st) = f st"
    "f (wal_committed env e now inst st) = f st"
  using assms
  by (simp_all add: outside_def os_rollback_def os_record_undo_def os_commit_def os_wal_append_def
      os_wal_checkpoint_def wal_intent_def wal_committed_def split: option.split sum.split prod.split)

definition keeps ::
  "(('f, 'd, 'ix) octad_store \<Rightarrow> 'p)
     \<Rightarrow> (modality_status \<times> ('f, 'd, 'ix) octad_store \<Rightarrow> (octad_error + 'a) \<times> modality_status \<times> ('f, 'd, 'ix) octad_store)
     \<Rightarrow> bool" where
  "keeps f m \<longleftrightarrow> (\<forall>ms st. f (snd (snd (m (ms, st)))) = f st)"

lemma keepsD: "keeps f m \<Longrightarrow> m (ms, st) = (r, ms', st') \<Longrightarrow> f st' = f st"
  unfolding keeps_def by (metis snd_conv)

lemma keeps_bind: "keeps f m \<Longrightarrow> (\<And>x. keeps f (k x)) \<Longrightarrow> keeps f (rs_bind m k)"
  unfolding keeps_def rs_bind_def by (auto split: prod.split sum.split) (metis snd_conv)+

lemma keeps_return: "keeps f (\<lambda>ms_st. (Inr x, ms_st))"
  by (simp add: keeps_def)

lemma keeps_one:
  assumes "outside f" "\<And>ms st. f (undo ms st) = f st" "\<And>i st. inp = Some i \<Longrightarrow> f (snd (proc i st)) = f st"
  shows "keeps f (write_one undo t e v now m flag proc inp)"
  unfolding keeps_def write_one_def using assms(2,3) outside_steps(6) [OF assms(1)]
  by (auto split: option.split prod.split sum.split) (metis snd_conv)+

lemma process_graph_frame: "document_st (snd (process_graph e i st)) = document_st st"
  by (simp add: process_graph_def Let_def)

lemma process_vector_frame:
  "graph_st (snd (process_vector e i st)) = graph_st st" "document_st (snd (process_vector e i st)) = document_st st"
  by (simp_all add: process_vector_def Let_def split: prod.split sum.split)

lemma process_document_frame: "graph_st (snd (process_document env e i st)) = graph_st st"
  by (simp add: process_document_def Let_def split: prod.split sum.split)

lemma process_tensor_frame:
  "graph_st (snd (process_tensor e i st)) = graph_st st" "document_st (snd (process_tensor e i st)) = document_st st"
  by (simp_all add: process_tensor_def Let_def split: prod.split sum.split)

lemma process_semantic_frame:
  "graph_st (snd (process_semantic env n e i st)) = graph_st st" "document_st (snd (process_semantic env n e i st)) = document_st st"
  by (simp_all add: process_semantic_def Let_def split: prod.split sum.split)

lemma process_provenance_frame:
  "graph_st (snd (process_provenance env n e i st)) = graph_st st" "document_st (snd (process_provenance env n e i st)) = document_st st"
  by (simp_all add: process_provenance_def Let_def split: prod.split sum.split)

lemma process_spatial_frame:
  "graph_st (snd (process_spatial env e i st)) = graph_st st" "document_st (snd (process_spatial env e i st)) = document_st st"
  by (simp_all add: process_spatial_def Let_def split: prod.split sum.split)

lemmas process_frames = process_graph_frame process_vector_frame process_document_frame process_tensor_frame
  process_semantic_frame process_provenance_frame process_spatial_frame

section \<open>The edges of a write\<close>

definition links :: "string \<Rightarrow> octad_id \<Rightarrow> (string \<times> string) list \<Rightarrow> graph_edge list" where
  "links base e rels = map (\<lambda>(p, target). \<lparr>edge_subject = graph_node_new (to_iri e base),
     edge_predicate = graph_node_new (base @ ''/'' @ p), edge_object = Node (graph_node_new (base @ ''/'' @ target))\<rparr>) rels"

definition add_links :: "string \<Rightarrow> octad_id \<Rightarrow> (string \<times> string) list option \<Rightarrow> graph_store \<Rightarrow> graph_store" where
  "add_links base e inp g = (case inp of None \<Rightarrow> g | Some rels \<Rightarrow> fold gs_insert (links base e rels) g)"

lemma process_graph_links:
  "process_graph e rels st = (Inr (graph_node_new (to_iri e (base_iri (config st)))),
     st\<lparr>graph_st := fold gs_insert (links (base_iri (config st)) e rels) (graph_st st)\<rparr>)"
proof -
  have "fold (\<lambda>r. gs_insert (edge r)) rels = fold gs_insert (map edge rels)" for edge :: "string \<times> string \<Rightarrow> graph_edge"
    by (rule ext) (simp add: fold_map comp_def)
  then show ?thesis by (simp add: process_graph_def links_def Let_def)
qed

lemma write_modalities_graph:
  assumes "\<And>ms st. graph_st (undo ms st) = graph_st st"
  shows "graph_st (snd (snd (write_modalities env undo t e v now i (ms, st))))
    = add_links (base_iri (config st)) e (in_graph i) (graph_st st)"
proof -
  let ?one = "write_one undo t e v (now 4) ''graph'' (ms_graph_update (\<lambda>_. True)) (process_graph e) (in_graph i)"
  have "\<exists>k. write_modalities env undo t e v now i = rs_bind ?one k \<and> (\<forall>x. keeps graph_st (k x))"
    unfolding write_modalities_def
    by (intro exI conjI, rule refl)
      (intro allI keeps_bind keeps_return, (rule keeps_one [OF outside_stores(1), OF assms], rule process_frames)+)
  then obtain k where wm: "write_modalities env undo t e v now i = rs_bind ?one k" and k: "\<And>x. keeps graph_st (k x)"
    by blast
  obtain x ms1 st1 where one: "?one (ms, st) = (Inr x, ms1, st1)"
    and g: "graph_st st1 = add_links (base_iri (config st)) e (in_graph i) (graph_st st)"
    by (cases "in_graph i") (simp_all add: write_one_def process_graph_links add_links_def outside_steps [OF outside_stores(1)])
  have "snd (snd (rs_bind ?one k (ms, st))) = snd (snd (k x (ms1, st1)))" by (simp add: rs_bind_def one)
  with k [of x] g show ?thesis by (simp add: wm keeps_def)
qed

lemma write_modalities_document:
  assumes "\<And>ms st. document_st (undo ms st) = document_st st" "in_document i = None"
  shows "keeps document_st (write_modalities env undo t e v now i)"
  unfolding write_modalities_def
proof (intro keeps_bind keeps_return)
qed (rule keeps_one [OF outside_stores(2), OF assms(1)], (rule process_frames | simp add: assms(2)))+

text \<open>After the modalities, a write touches nothing outside the registry, the transactions, the log and the versions.\<close>

lemma write_octad_frame:
  assumes f: "outside f" and undo: "\<And>ms st. f (undo ms st) = f st" "\<And>ms st. f (cundo ms st) = f st"
  shows "f (snd (write_octad env undo cundo e t now inst i ms0 pv msg fin mkst mko st))
    = f (snd (snd (write_modalities env undo t e pv now i (ms0, st))))"
proof -
  have com: "f st2 = f st1" if "os_commit env [] t n (st1\<lparr>temporal_st := tp\<rparr>) = (r, st2)" for r st1 st2 tp n
    using outside_steps(4,7) [OF f] that by (metis snd_conv)
  show ?thesis
    unfolding write_octad_def
    by (auto simp: undo outside_steps [OF f] split: prod.split sum.split dest: com)
qed

lemma rollback_create_graph: "graph_st (rollback_create env e ms st) = graph_st st"
  by (simp add: rollback_create_def Let_def)

section \<open>The graph under the operations\<close>

lemma os_create_graph:
  assumes "tm_idle (txns st)" "tm_unused t (txns st)"
  shows "graph_st (snd (os_create env e t now inst i st)) = add_links (base_iri (config st)) e (in_graph i) (graph_st st)"
proof -
  obtain tm where eq: "os_create env e t now inst i st =
    write_octad env (\<lambda>ms st. os_rollback t (now 3) (rollback_create env e ms st)) (rollback_create env e) e t now inst i
      modality_status_default 0 ''Initial creation'' (ms_temporal_update (\<lambda>_. True)) (created_status now i e)
      (\<lambda>n ms. returned e (created_status now i e n ms) 1) ((wal_intent env Insert e i (now 1) (inst 0) st)\<lparr>txns := tm\<rparr>)"
    using os_create_write [OF assms] by blast
  show ?thesis unfolding eq
    by (simp add: write_octad_frame write_modalities_graph outside_stores outside_steps rollback_create_graph)
qed

lemma update_existing_frame:
  assumes "tm_idle (txns st)" "tm_unused t (txns st)"
  shows "graph_st (snd (update_existing env old e t now inst i st))
      = add_links (base_iri (config st)) e (in_graph i) (graph_st st)"
    and "in_document i = None \<Longrightarrow> document_st (snd (update_existing env old e t now inst i st)) = document_st st"
proof -
  obtain tm where eq: "update_existing env old e t now inst i st =
    write_octad env (\<lambda>ms st. os_rollback t (now 3) st) (\<lambda>ms st. st) e t now inst i (os_modalities old) (os_version old)
      ''Update'' (\<lambda>ms. ms) (updated_status now i old e) (\<lambda>n ms. returned e (updated_status now i old e n ms) n)
      ((wal_intent env Update e i (now 1) (inst 0) st)\<lparr>txns := tm\<rparr>)"
    using update_existing_write [OF assms] by blast
  show "graph_st (snd (update_existing env old e t now inst i st)) = add_links (base_iri (config st)) e (in_graph i) (graph_st st)"
    unfolding eq by (simp add: write_octad_frame write_modalities_graph outside_stores outside_steps)
  show "document_st (snd (update_existing env old e t now inst i st)) = document_st st" if "in_document i = None"
  proof -
    have "keeps document_st (write_modalities env (\<lambda>ms st. os_rollback t (now 3) st) t e (os_version old) now i)"
      by (rule write_modalities_document [OF _ that]) (rule outside_steps(5) [OF outside_stores(2)])
    then show ?thesis
      unfolding eq by (simp add: write_octad_frame outside_stores outside_steps keeps_def)
  qed
qed

lemma acquire_all_frame: "outside f \<Longrightarrow> f (snd (acquire_all env what t e n ms st)) = f st"
  by (induction env what t e n ms st rule: acquire_all.induct)
    (auto simp: outside_steps split: prod.split sum.split)

lemma fold_undo_frame: "outside f \<Longrightarrow> f (fold (\<lambda>m. os_record_undo t e m v n) ms st) = f st"
  by (induction ms arbitrary: st) (simp_all add: outside_steps)

lemma delete_existing_graph: "graph_st (snd (delete_existing env old e t now inst st)) = graph_st st"
proof -
  let ?st0 = "os_begin t (now 2) (os_wal_append (e_wal env) Delete e [] (now 1) (inst 0) st)"
  obtain r st1 where acq: "acquire_all env '' for delete'' t e (now 3) (populated (os_modalities old)) ?st0 = (r, st1)"
    by fastforce
  have "graph_st st1 = graph_st st"
    using acquire_all_frame [OF outside_stores(1), of env "'' for delete''" t e "now 3" "populated (os_modalities old)" ?st0]
    unfolding acq by (simp add: os_begin_def outside_steps [OF outside_stores(1)])
  moreover have "graph_st st3 = graph_st st2" if "os_commit env '' during delete'' t (now 15) st2 = (r2, st3)" for r2 st2 st3
    using outside_steps(7) [OF outside_stores(1)] that by (metis snd_conv)
  ultimately show ?thesis
    unfolding delete_existing_def Let_def acq
    by (auto simp: outside_steps [OF outside_stores(1)] fold_undo_frame [OF outside_stores(1)]
        split: sum.split prod.split)
qed

text \<open>Every operation adds edges that leave the node of its entity, and nothing else.\<close>

definition entity_node :: "string \<Rightarrow> octad_id \<Rightarrow> graph_node" where
  "entity_node base e = graph_node_new (to_iri e base)"

lemma add_links_fold: "\<exists>es. (\<forall>ed \<in> set es. edge_subject ed = entity_node base e) \<and> add_links base e inp g = fold gs_insert es g"
proof (cases inp)
  case None
  then show ?thesis by (intro exI [of _ "[]"]) (simp add: add_links_def)
next
  case (Some rels)
  then show ?thesis
    by (intro exI [of _ "links base e rels"]) (auto simp: add_links_def links_def entity_node_def)
qed

lemma os_step_graph:
  assumes "octad_inv env st" "os_ok st op"
  shows "\<exists>es. (\<forall>ed \<in> set es. edge_subject ed = entity_node (base_iri (config st)) (op_entity op))
    \<and> graph_st (os_step env st op) = fold gs_insert es (graph_st st)"
proof -
  have idle: "tm_idle (txns st)" using assms(1) by (simp add: octad_inv_def)
  show ?thesis
  proof (cases op)
    case (OCreate e t now inst i)
    then show ?thesis
      using assms(2) add_links_fold by (simp add: fresh_write_def os_create_graph [OF idle])
  next
    case (OUpdate e t now inst i)
    show ?thesis
    proof (cases "map_of (octads st) e")
      case None
      then show ?thesis by (intro exI [of _ "[]"]) (simp add: OUpdate os_update_def)
    next
      case (Some old)
      then show ?thesis
        using assms(2) add_links_fold OUpdate
        by (simp add: fresh_write_def os_update_def update_existing_frame(1) [OF idle])
    qed
  next
    case (ODelete e t now inst)
    then show ?thesis
      by (intro exI [of _ "[]"]) (simp add: os_delete_def delete_existing_graph split: option.split)
  qed
qed

lemma iri_entity_node: "iri (entity_node base e) = to_iri e base"
  by (simp add: entity_node_def graph_node_new_def)

lemma to_iri_inj: "to_iri e base = to_iri j base \<longleftrightarrow> e = j"
  by (simp add: to_iri_def)

lemma map_filter_same: "\<forall>k \<in> set ks. f k = g k \<Longrightarrow> List.map_filter f ks = List.map_filter g ks"
  by (induction ks) (simp_all add: List.map_filter_simps split: option.split)

lemma outgoing_insert_other:
  assumes "graph_wf g" "iri (edge_subject ed) \<noteq> iri n"
  shows "gs_outgoing (gs_insert ed g) n = gs_outgoing g n"
proof -
  have "triple_key ed \<notin> set (keys_at (subject_idx g) (iri n))"
    using assms by (auto simp: graph_wf_def)
  then have "map_of (edges (gs_insert ed g)) k = map_of (edges g) k" if "k \<in> set (keys_at (subject_idx g) (iri n))" for k
    using that by (auto simp: gs_insert_def Let_def)
  moreover have "keys_at (subject_idx (gs_insert ed g)) (iri n) = keys_at (subject_idx g) (iri n)"
    using assms(2) by (simp add: gs_insert_def Let_def)
  ultimately show ?thesis
    unfolding gs_outgoing_def by (simp add: map_filter_same)
qed

lemma outgoing_fold_other:
  "graph_wf g \<Longrightarrow> \<forall>ed \<in> set es. iri (edge_subject ed) \<noteq> iri n
     \<Longrightarrow> graph_wf (fold gs_insert es g) \<and> gs_outgoing (fold gs_insert es g) n = gs_outgoing g n"
  by (induction es arbitrary: g) (simp_all add: graph_wf_insert outgoing_insert_other)

lemma graph_wf_fold: "graph_wf g \<Longrightarrow> graph_wf (fold gs_insert es g)"
  by (induction es arbitrary: g) (simp_all add: graph_wf_insert)

lemma run_outgoing:
  assumes "octad_inv env st" "graph_wf (graph_st st)" "run_ok (os_step env) os_ok st ops"
  shows "graph_wf (graph_st (run (os_step env) st ops))
    \<and> ((\<forall>op \<in> set ops. op_entity op \<noteq> e) \<longrightarrow>
         gs_outgoing (graph_st (run (os_step env) st ops)) (entity_node (base_iri (config st)) e)
           = gs_outgoing (graph_st st) (entity_node (base_iri (config st)) e))"
  using assms
proof (induction ops arbitrary: st)
  case (Cons op ops)
  let ?st = "os_step env st op" and ?n = "entity_node (base_iri (config st)) e"
  have ok: "os_ok st op" "run_ok (os_step env) os_ok ?st ops" using Cons.prems by auto
  note inv = os_step_inv [OF Cons.prems(1) ok(1)]
  obtain es where es: "\<forall>ed \<in> set es. edge_subject ed = entity_node (base_iri (config st)) (op_entity op)"
      "graph_st ?st = fold gs_insert es (graph_st st)"
    using os_step_graph [OF Cons.prems(1) ok(1)] by blast
  have wf: "graph_wf (graph_st ?st)" by (simp add: es(2) graph_wf_fold Cons.prems(2))
  have conf: "config ?st = config st" using inv(2) by (simp add: only_at_def)
  have "gs_outgoing (graph_st ?st) ?n = gs_outgoing (graph_st st) ?n" if "op_entity op \<noteq> e"
    unfolding es(2) using outgoing_fold_other [OF Cons.prems(2), of es] es(1) that
    by (auto simp: iri_entity_node to_iri_inj)
  with Cons.IH [OF inv(1) wf ok(2)] show ?case by (simp add: conf)
qed simp

end
