(* ===== verification/Octad_Props.thy ===== *)
theory Octad_Props
  imports Octad_Frame
begin

text \<open>
  The properties of the octad store, and the environment in which they are instantiated.
\<close>

section \<open>Writes of valid inputs succeed\<close>

text \<open>What an input must satisfy: dimensions, shapes, constraints and ranges.\<close>

definition valid_input ::
  "('f, 'd, 'ix) octad_env \<Rightarrow> ('f, 'd, 'ix) octad_store \<Rightarrow> octad_id \<Rightarrow> (nat \<Rightarrow> datetime) \<Rightarrow> ('f, 'd) octad_input \<Rightarrow> bool" where
  "valid_input env st e now i \<longleftrightarrow>
     (\<forall>v. in_vector i = Some v \<longrightarrow> length (vi_embedding v) = vector_dimension (config st)
        \<and> vec_dimension (vector_st st) = vector_dimension (config st))
     \<and> (\<forall>t. in_tensor i = Some t \<longrightarrow> length (ti_data t) = unat (shape_product (ti_shape t)))
     \<and> (\<forall>s. in_semantic i = Some s \<longrightarrow> valid_annotation (e_sem env) (semantic_st st) (annotation_of env (now 8) e s))
     \<and> (\<forall>l. in_spatial i = Some l \<longrightarrow> in_range (e_f64 env) 90 (li_latitude l) \<and> in_range (e_f64 env) 180 (li_longitude l)
        \<and> \<not> is_nan (e_f64 env) (li_latitude l) \<and> \<not> is_nan (e_f64 env) (li_longitude l))"

text \<open>The full-text index accepts what it is given.\<close>

definition index_works :: "('ix, 'f) full_text \<Rightarrow> bool" where
  "index_works ft \<longleftrightarrow> (\<forall>e title body ix. fst (ft_add_document ft e title body ix) = Inr ())
     \<and> (\<forall>ix. fst (ft_commit ft ix) = Inr ()) \<and> (\<forall>ix. fst (ft_reload ft ix) = Inr ())"

definition succeeds ::
  "('s \<Rightarrow> bool) \<Rightarrow> ('m \<times> 's \<Rightarrow> ('e + 'a) \<times> 'm \<times> 's) \<Rightarrow> bool" where
  "succeeds P m \<longleftrightarrow> (\<forall>ms st. P st \<longrightarrow> (\<exists>x ms' st'. m (ms, st) = (Inr x, ms', st') \<and> P st'))"

lemma succeeds_bind: "succeeds P m \<Longrightarrow> (\<And>x. succeeds P (k x)) \<Longrightarrow> succeeds P (rs_bind m k)"
  unfolding succeeds_def rs_bind_eq_Inr by blast

lemma succeeds_return: "succeeds P (\<lambda>ms_st. (Inr x, ms_st))"
  by (simp add: succeeds_def)

lemma succeeds_one:
  assumes "\<And>i st. inp = Some i \<Longrightarrow> P st \<Longrightarrow> \<exists>x st'. proc i st = (Inr x, st') \<and> P st'"
    and "\<And>st. P st \<Longrightarrow> P (os_record_undo t e m v now st)"
  shows "succeeds P (write_one undo t e v now m flag proc inp)"
  unfolding succeeds_def write_one_def using assms by (cases inp) fastforce+

text \<open>The part of the state that the validity of an input depends on.\<close>

definition same_schema :: "('f, 'd, 'ix) octad_store \<Rightarrow> ('f, 'd, 'ix) octad_store \<Rightarrow> bool" where
  "same_schema st0 st \<longleftrightarrow> config st = config st0 \<and> vec_dimension (vector_st st) = vec_dimension (vector_st st0)
     \<and> sem_types (semantic_st st) = sem_types (semantic_st st0)"

lemma same_schema_upd [simp]:
  "same_schema st0 (st\<lparr>graph_st := g\<rparr>) = same_schema st0 st" "same_schema st0 (st\<lparr>document_st := d\<rparr>) = same_schema st0 st"
  "same_schema st0 (st\<lparr>tensor_st := ts\<rparr>) = same_schema st0 st" "same_schema st0 (st\<lparr>prov_st := p\<rparr>) = same_schema st0 st"
  "same_schema st0 (st\<lparr>spatial_st := l\<rparr>) = same_schema st0 st" "same_schema st0 (st\<lparr>txns := tm\<rparr>) = same_schema st0 st"
  by (simp_all add: same_schema_def)

lemma same_schema_valid: "same_schema st0 st \<Longrightarrow> valid_input env st e now i = valid_input env st0 e now i"
  by (simp add: same_schema_def valid_input_def valid_annotation_def get_type_def)

lemma process_document_succeeds:
  assumes "index_works (e_ft env)"
  shows "\<exists>x d. process_document env e i st = (Inr x, st\<lparr>document_st := d\<rparr>)"
proof -
  have works: "fst (ft_add_document (e_ft env) f t b ix) = Inr ()" "fst (ft_commit (e_ft env) ix) = Inr ()"
    "fst (ft_reload (e_ft env) ix) = Inr ()" for f t b ix
    using assms by (simp_all add: index_works_def)
  obtain d where idx: "doc_index (e_ft env) (document_of e i) (document_st st) = (Inr (), d)"
    using works(1) by (simp add: doc_index_def split_beta)
  have "fst (doc_commit (e_ft env) d) = Inr ()" using works(2,3) by (simp add: doc_commit_def split_beta)
  then obtain d' where "doc_commit (e_ft env) d = (Inr (), d')" by (metis prod.collapse)
  with idx have "process_document env e i st = (Inr (document_of e i), st\<lparr>document_st := d'\<rparr>)"
    unfolding process_document_def Let_def document_of_def [symmetric] by simp
  then show ?thesis by blast
qed

lemma process_spatial_succeeds:
  assumes "in_range (e_f64 env) 90 (li_latitude u)" "in_range (e_f64 env) 180 (li_longitude u)"
    and "\<not> is_nan (e_f64 env) (li_latitude u)" "\<not> is_nan (e_f64 env) (li_longitude u)"
  shows "process_spatial env e u st = (Inr (spatial_of u), st\<lparr>spatial_st := AList.update e (spatial_of u) (spatial_st st)\<rparr>)"
proof -
  let ?c = "\<lparr>latitude = li_latitude u, longitude = li_longitude u, altitude = li_altitude u\<rparr>"
  have c: "coordinates_new (e_f64 env) (li_latitude u) (li_longitude u) (li_altitude u) = Inr ?c"
    by (simp add: coordinates_new_def assms)
  have d: "(with_geometry ?c (geometry_type_of (li_geometry_type u)) (case li_srid u of None \<Rightarrow> 4326 | Some n \<Rightarrow> n))
      \<lparr>sp_properties := li_properties u\<rparr> = spatial_of u" by (simp add: with_geometry_def spatial_of_def)
  have i: "sp_index (e_f64 env) e (spatial_of u) l = (Inr (), AList.update e (spatial_of u) l)" for l
    by (simp add: sp_index_def spatial_of_def assms)
  show ?thesis unfolding process_spatial_def c Let_def sum.case d i prod.case ..
qed

lemma write_modalities_succeed:
  assumes "index_works (e_ft env)" "valid_input env st0 e now i"
  shows "succeeds (same_schema st0) (write_modalities env undo t e v now i)"
proof -
  have valid: "valid_input env st e now i" if "same_schema st0 st" for st
    using same_schema_valid [OF that] assms(2) by simp
  have undo: "same_schema st0 (os_record_undo t e m v nw st)" if "same_schema st0 st" for m nw st
    using that by (simp add: os_record_undo_def)
  have graph: "\<exists>x st'. process_graph e g st = (Inr x, st') \<and> same_schema st0 st'" if "same_schema st0 st" for g st
    using that by (simp add: process_graph_def Let_def)
  have vector: "\<exists>x st'. process_vector e u st = (Inr x, st') \<and> same_schema st0 st'"
    if "in_vector i = Some u" "same_schema st0 st" for u st
  proof -
    have "length (vi_embedding u) = vector_dimension (config st)" "vec_dimension (vector_st st) = vector_dimension (config st)"
      using valid [OF that(2)] that(1) by (simp_all add: valid_input_def)
    then have "process_vector e u st = (Inr (embedding_new e (vi_embedding u)),
        st\<lparr>vector_st := vector_st st\<lparr>embeddings := AList.update e (embedding_new e (vi_embedding u)) (embeddings (vector_st st))\<rparr>\<rparr>)"
      by (simp add: process_vector_def Let_def vec_upsert_def emb_dim_def embedding_new_def)
    moreover have "same_schema st0 (st\<lparr>vector_st := vector_st st\<lparr>embeddings := m\<rparr>\<rparr>)" for m
      using that(2) by (simp add: same_schema_def)
    ultimately show ?thesis by blast
  qed
  have document: "\<exists>x st'. process_document env e d st = (Inr x, st') \<and> same_schema st0 st'"
    if "same_schema st0 st" for d st
    using process_document_succeeds [OF assms(1), of e d st] that by auto
  have tensor: "\<exists>x st'. process_tensor e u st = (Inr x, st') \<and> same_schema st0 st'"
    if "in_tensor i = Some u" "same_schema st0 st" for u st
    using valid [OF that(2)] that by (simp add: process_tensor_def Let_def valid_input_def tensor_new_def tensor_put_def)
  have semantic: "\<exists>x st'. process_semantic env (now 8) e u st = (Inr x, st') \<and> same_schema st0 st'"
    if "in_semantic i = Some u" "same_schema st0 st" for u st
  proof -
    have "valid_annotation (e_sem env) (semantic_st st) (annotation_of env (now 8) e u)"
      using valid [OF that(2)] that(1) by (simp add: valid_input_def)
    then obtain m where "annotate (e_sem env) (annotation_of env (now 8) e u) (semantic_st st)
        = (Inr (), semantic_st st\<lparr>sem_annotations := m\<rparr>)"
      by (simp add: annotate_def Let_def sem_validate_Nil)
    then have "process_semantic env (now 8) e u st
        = (Inr (annotation_of env (now 8) e u), st\<lparr>semantic_st := semantic_st st\<lparr>sem_annotations := m\<rparr>\<rparr>)"
      unfolding process_semantic_def Let_def annotation_of_def [symmetric] by simp
    moreover have "same_schema st0 (st\<lparr>semantic_st := semantic_st st\<lparr>sem_annotations := m\<rparr>\<rparr>)"
      using that(2) by (simp add: same_schema_def)
    ultimately show ?thesis by blast
  qed
  have provenance: "\<exists>x st'. process_provenance env (now 10) e u st = (Inr x, st') \<and> same_schema st0 st'"
    if "same_schema st0 st" for u st
    using that by (simp add: process_provenance_def Let_def record_event_def get_chain_def)
  have spatial: "\<exists>x st'. process_spatial env e u st = (Inr x, st') \<and> same_schema st0 st'"
    if "in_spatial i = Some u" "same_schema st0 st" for u st
    using process_spatial_succeeds [of env u e st] valid [OF that(2)] that by (simp add: valid_input_def)
  show ?thesis
    unfolding write_modalities_def
  proof (intro succeeds_bind succeeds_return)
  qed (rule succeeds_one, (rule graph vector document tensor semantic provenance spatial; assumption), rule undo, assumption)+
qed

lemma write_octad_succeeds:
  assumes "write_modalities env undo t e pv now i (ms0, st) = (Inr w, ms, st1)" "tm_running t (txns st)"
  shows "\<exists>oc st'. write_octad env undo cundo e t now inst i ms0 pv msg fin mkst mko st = (Inr oc, st')"
proof -
  have run: "tm_running t (txns st1)" using write_modalities_ok [OF assms(1)] assms(2) by (simp add: along_def)
  obtain n tp where app: "vs_append (now 14) e (create_snapshot e i ms (now 13)) ''system'' (Some msg) (temporal_st st1) = (Inr n, tp)"
    using vs_append_Inr [of "now 14" e "create_snapshot e i ms (now 13)" "''system''" "Some msg" "temporal_st st1"]
    by (metis prod.collapse)
  have "\<exists>tm. os_commit env [] t (now 15) (st1\<lparr>temporal_st := tp\<rparr>) = (Inr (), st1\<lparr>temporal_st := tp, txns := tm\<rparr>)"
    using os_commit_running [of t "st1\<lparr>temporal_st := tp\<rparr>" env "[]" "now 15"] run by auto
  then show ?thesis unfolding write_octad_def assms(1) by (auto simp: app)
qed

lemma writes_succeed:
  assumes "octad_inv env st" "tm_unused t (txns st)" "index_works (e_ft env)" "valid_input env st e now i"
  shows "\<exists>oc st'. os_create env e t now inst i st = (Inr oc, st')"
    and "\<exists>oc st'. update_existing env old e t now inst i st = (Inr oc, st')"
    and "os_status e st \<noteq> None \<Longrightarrow> \<exists>oc st'. os_update env e t now inst i st = (Inr oc, st')"
proof -
  have returns: "\<exists>oc st'. write_octad env undo cundo e t now inst i ms0 pv msg fin mkst mko
      (wal_intent env op e i (now 1) (inst 0) st\<lparr>txns := tm\<rparr>) = (Inr oc, st')"
    if "tm_running t tm" for undo cundo ms0 pv msg fin mkst mko op tm
  proof -
    let ?st = "wal_intent env op e i (now 1) (inst 0) st\<lparr>txns := tm\<rparr>"
    have "same_schema st ?st" by (simp add: same_schema_def wal_intent_def os_wal_append_def split: option.split)
    from write_modalities_succeed [OF assms(3,4), unfolded succeeds_def, rule_format, OF this, of undo t pv ms0]
    obtain w ms st1 where "write_modalities env undo t e pv now i (ms0, ?st) = (Inr w, ms, st1)" by blast
    from write_octad_succeeds [OF this] that show ?thesis by simp
  qed
  have idle: "tm_idle (txns st)" using assms(1) by (simp add: octad_inv_def)
  show "\<exists>oc st'. os_create env e t now inst i st = (Inr oc, st')"
  proof -
    obtain tm where run: "tm_running t tm" and eq: "os_create env e t now inst i st =
      write_octad env (\<lambda>ms st. os_rollback t (now 3) (rollback_create env e ms st)) (rollback_create env e) e t now inst i
        modality_status_default 0 ''Initial creation'' (ms_temporal_update (\<lambda>_. True)) (created_status now i e)
        (\<lambda>n ms. returned e (created_status now i e n ms) 1) ((wal_intent env Insert e i (now 1) (inst 0) st)\<lparr>txns := tm\<rparr>)"
      using os_create_write [OF idle assms(2)] by blast
    show ?thesis unfolding eq by (rule returns [OF run])
  qed
  have update: "\<exists>oc st'. update_existing env old e t now inst i st = (Inr oc, st')" for old
  proof -
    obtain tm where run: "tm_running t tm" and eq: "update_existing env old e t now inst i st =
      write_octad env (\<lambda>ms st. os_rollback t (now 3) st) (\<lambda>ms st. st) e t now inst i (os_modalities old) (os_version old)
        ''Update'' (\<lambda>ms. ms) (updated_status now i old e) (\<lambda>n ms. returned e (updated_status now i old e n ms) n)
        ((wal_intent env Update e i (now 1) (inst 0) st)\<lparr>txns := tm\<rparr>)"
      using update_existing_write [OF idle assms(2)] by blast
    show ?thesis unfolding eq by (rule returns [OF run])
  qed
  then show "\<exists>oc st'. update_existing env old e t now inst i st = (Inr oc, st')" .
  show "\<exists>oc st'. os_update env e t now inst i st = (Inr oc, st')" if "os_status e st \<noteq> None"
    using that update by (auto simp: os_status_def os_update_def)
qed


text \<open>An environment and an input for the instances: integers for numbers, an index that accepts everything.\<close>

definition ex_octad_env :: "(int, int, unit) octad_env" where
  "ex_octad_env = \<lparr>e_wal = \<lparr>crc32 = (\<lambda>_. 0), millis_in_range = (\<lambda>_. True)\<rparr>, e_prov = ex_prov, e_sem = ex_sem,
     e_ft = \<lparr>ft_delete_term = (\<lambda>_ ix. ix), ft_add_document = (\<lambda>_ _ _ ix. (Inr (), ix)), ft_commit = (\<lambda>ix. (Inr (), ix)),
       ft_reload = (\<lambda>ix. (Inr (), ix)), ft_query = (\<lambda>_ _ _. Inr [])\<rparr>,
     e_f32 = ex_floats, e_f64 = ex_floats, e_to_json = (\<lambda>_. None), e_from_json = (\<lambda>_. None), e_lowercase = (\<lambda>s. s),
     e_rfc3339 = (\<lambda>_. ''now''), e_show_uuid = (\<lambda>_. ''id''), e_show_wal = (\<lambda>_. ''wal'')\<rparr>"

definition ex_octads :: "(int, int, unit) octad_store" where
  "ex_octads = os_empty (octad_config_default\<lparr>vector_dimension := 2\<rparr>) DotProduct ()"

definition ex_octad_input :: "(int, int) octad_input" where
  "ex_octad_input = with_document ''title'' ''body'' (with_embedding [3, 4] octad_input_default)"

lemma ex_index_works: "index_works (e_ft ex_octad_env)"
  by (simp add: index_works_def ex_octad_env_def)

lemma ex_octads_inv: "octad_inv env ex_octads"
  by (simp add: ex_octads_def octad_inv_empty)

lemma ex_octads_sel [simp]:
  "octads ex_octads = []" "txns ex_octads = tm_new" "temporal_st ex_octads = []" "wal ex_octads = None"
  "vec_dimension (vector_st ex_octads) = 2" "vector_dimension (config ex_octads) = 2"
  by (simp_all add: ex_octads_def os_empty_def octad_store_new_def vector_store_new_def)

lemma vs_hist_Nil [simp]: "vs_hist [] e = []"
  by (simp add: vs_hist_def versions_of_def)

lemma tm_unused_new [simp]: "tm_unused t tm_new"
  by (simp add: tm_unused_def tm_new_def)

lemma ex_octads_fresh: "fresh_write e t ex_octads"
  by (simp add: fresh_write_def)

lemma ex_input_valid: "vec_dimension (vector_st st) = 2 \<Longrightarrow> vector_dimension (config st) = 2 \<Longrightarrow>
    valid_input env st e now ex_octad_input"
  by (simp add: valid_input_def ex_octad_input_def with_document_def with_embedding_def octad_input_default_def)


section \<open>What is written is what is read\<close>

lemma finish_view_sel [simp]:
  "ev_status (finish_view s ver v) = Some s" "ev_versions (finish_view s ver v) = ev_versions v @ [ver]"
  "ev_vector (finish_view s ver v) = ev_vector v" "ev_document (finish_view s ver v) = ev_document v"
  "ev_tensor (finish_view s ver v) = ev_tensor v" "ev_semantic (finish_view s ver v) = ev_semantic v"
  "ev_chain (finish_view s ver v) = ev_chain v" "ev_spatial (finish_view s ver v) = ev_spatial v"
  by (simp_all add: finish_view_def)

lemma apply_input_sel:
  "ev_vector (apply_input env e now i v) = (case in_vector i of None \<Rightarrow> ev_vector v | Some x \<Rightarrow> Some (embedding_new e (vi_embedding x)))"
  "ev_document (apply_input env e now i v) = (case in_document i of None \<Rightarrow> ev_document v | Some x \<Rightarrow> Some (document_of e x))"
  "ev_tensor (apply_input env e now i v) = (case in_tensor i of None \<Rightarrow> ev_tensor v | Some x \<Rightarrow>
     Some \<lparr>t_id = e, t_shape = ti_shape x, t_dtype = Float64, t_data = ti_data x, t_metadata = []\<rparr>)"
  "ev_semantic (apply_input env e now i v) = (case in_semantic i of None \<Rightarrow> ev_semantic v | Some x \<Rightarrow> Some (annotation_of env (now 8) e x))"
  "ev_spatial (apply_input env e now i v) = (case in_spatial i of None \<Rightarrow> ev_spatial v | Some x \<Rightarrow> Some (spatial_of x))"
  "ev_chain (apply_input env e now i v) = (case in_provenance i of None \<Rightarrow> ev_chain v | Some x \<Rightarrow>
     Some (chain_append (e_prov env) (now 10) (event_type_of (e_lowercase env (pi_event_type x))) (pi_actor x) (pi_source x)
       (pi_description x) (case ev_chain v of None \<Rightarrow> chain_new e | Some c \<Rightarrow> c)))"
  by (simp_all add: apply_input_def opt_effect_def put_defs split: option.split)

lemma add_modalities_sel:
  "ms_graph (add_modalities i ms) \<longleftrightarrow> ms_graph ms \<or> in_graph i \<noteq> None"
  "ms_vector (add_modalities i ms) \<longleftrightarrow> ms_vector ms \<or> in_vector i \<noteq> None"
  "ms_tensor (add_modalities i ms) \<longleftrightarrow> ms_tensor ms \<or> in_tensor i \<noteq> None"
  "ms_semantic (add_modalities i ms) \<longleftrightarrow> ms_semantic ms \<or> in_semantic i \<noteq> None"
  "ms_document (add_modalities i ms) \<longleftrightarrow> ms_document ms \<or> in_document i \<noteq> None"
  "ms_provenance (add_modalities i ms) \<longleftrightarrow> ms_provenance ms \<or> in_provenance i \<noteq> None"
  "ms_spatial (add_modalities i ms) \<longleftrightarrow> ms_spatial ms \<or> in_spatial i \<noteq> None"
  "ms_temporal (add_modalities i ms) \<longleftrightarrow> ms_temporal ms"
  by (simp_all add: add_modalities_def)

lemma default_modalities [simp]:
  "\<not> ms_graph modality_status_default" "\<not> ms_vector modality_status_default" "\<not> ms_tensor modality_status_default"
  "\<not> ms_semantic modality_status_default" "\<not> ms_document modality_status_default"
  "\<not> ms_provenance modality_status_default" "\<not> ms_spatial modality_status_default"
  by (simp_all add: modality_status_default_def)

lemma os_get_None: "os_get e st = None \<longleftrightarrow> os_status e st = None"
  by (simp add: os_get_def os_status_def load_octad_def Let_def split: option.split)

lemma load_view_sel:
  assumes "load_view base e v = Some oc"
  defines "ms \<equiv> os_modalities (oc_status oc)"
  shows "ev_status v = Some (oc_status oc)" "oc_id oc = e"
    "oc_embedding oc = (if ms_vector ms then ev_vector v else None)" "oc_document oc = (if ms_document ms then ev_document v else None)"
    "oc_tensor oc = (if ms_tensor ms then ev_tensor v else None)" "oc_semantic oc = (if ms_semantic ms then ev_semantic v else None)"
    "oc_spatial oc = (if ms_spatial ms then ev_spatial v else None)"
    "oc_chain_length oc = (if ms_provenance ms then chain_count (ev_chain v) else 0)"
    "oc_graph_node oc = (if ms_graph ms then Some (graph_node_new (to_iri e base)) else None)"
  using assms by (auto simp: load_view_def Let_def)

lemma load_view_Some: "ev_status v = Some s \<Longrightarrow> \<exists>oc. load_view base e v = Some oc \<and> oc_status oc = s"
  by (simp add: load_view_def Let_def)

lemma only_at_get: "only_at e st st' \<Longrightarrow> j \<noteq> e \<Longrightarrow> os_get j st' = os_get j st"
  by (simp add: os_get_view only_at_def)

text \<open>
  C6: a created entity is read back as it was returned: under a new identifier, \<open>get\<close> after a successful
  \<open>create\<close> returns exactly the entity that \<open>create\<close> returned, version 1, with one representation for each
  modality of the input and none for the others; every other entity reads as before.
\<close>

theorem create_then_get:
  assumes "octad_inv env st" "fresh_write e t st" "os_get e st = None" "vs_hist (temporal_st st) e = []"
    and "os_create env e t now inst i st = (Inr oc, st')"
  shows "os_get e st' = Some oc \<and> oc_id oc = e \<and> os_version (oc_status oc) = 1
    \<and> oc_embedding oc = map_option (\<lambda>v. embedding_new e (vi_embedding v)) (in_vector i)
    \<and> oc_document oc = map_option (document_of e) (in_document i)
    \<and> map_option (\<lambda>u. (t_shape u, t_data u)) (oc_tensor oc) = map_option (\<lambda>u. (ti_shape u, ti_data u)) (in_tensor i)
    \<and> oc_semantic oc = map_option (annotation_of env (now 8) e) (in_semantic i)
    \<and> oc_spatial oc = map_option spatial_of (in_spatial i)
    \<and> (oc_graph_node oc = None \<longleftrightarrow> in_graph i = None)
    \<and> (\<forall>j. j \<noteq> e \<longrightarrow> os_get j st' = os_get j st)"
proof -
  note fresh = assms(2) [unfolded fresh_write_def]
  note ok = os_create_ok [OF assms(1) conjunct1 [OF fresh] conjunct2 [OF fresh] assms(5)]
  have conf: "config st' = config st" using ok(1) by (simp add: only_at_def)
  have no_versions: "ev_versions (entity_of e st) = []" using assms(4) by (simp add: ev_versions_entity)
  let ?v = "apply_input env e now i (entity_of e st)"
  let ?s = "created_status now i e 1 (add_modalities i modality_status_default\<lparr>ms_temporal := True\<rparr>)"
  obtain ver where view: "entity_of e st' = finish_view ?s ver ?v"
    using ok(2) unfolding created_view_def Let_def by (simp add: new_version_def no_versions)
  have oc: "oc = returned e ?s 1 (written_of (base_iri (config st)) e i (finish_view ?s ver ?v))"
    using ok(4) unfolding view by simp
  have "os_get e st' = Some oc"
    unfolding os_get_view conf view oc
    by (auto simp: load_view_def Let_def returned_def written_of_def created_status_def add_modalities_sel no_versions
        split: option.split)
  moreover have "os_get j st' = os_get j st" if "j \<noteq> e" for j
    by (rule only_at_get [OF ok(1) that])
  ultimately show ?thesis
    by (auto simp: oc returned_def written_of_def created_status_def apply_input_sel split: option.split)
qed

text \<open>The store of the instances after one write.\<close>

definition ex_octads1 :: "(int, int, unit) octad_store" where
  "ex_octads1 = snd (os_create ex_octad_env ''a'' 1 (\<lambda>_. 5) (\<lambda>_ _. 0) ex_octad_input ex_octads)"

lemma ex_octads1_created:
  obtains oc where "os_create ex_octad_env ''a'' 1 (\<lambda>_. 5) (\<lambda>_ _. 0) ex_octad_input ex_octads = (Inr oc, ex_octads1)"
proof -
  have "tm_unused 1 (txns ex_octads)" "valid_input ex_octad_env ex_octads ''a'' (\<lambda>_. 5) ex_octad_input"
    by (simp_all add: ex_input_valid)
  from writes_succeed(1) [OF ex_octads_inv this(1) ex_index_works this(2), where inst = "\<lambda>_ _. 0"]
  obtain oc st' where created: "os_create ex_octad_env ''a'' 1 (\<lambda>_. 5) (\<lambda>_ _. 0) ex_octad_input ex_octads = (Inr oc, st')" by blast
  then have "st' = ex_octads1" by (simp add: ex_octads1_def)
  with created that show ?thesis by blast
qed

lemma ex_octads1_inv: "octad_inv ex_octad_env ex_octads1"
  using os_step_inv(1) [OF ex_octads_inv, of "OCreate ''a'' 1 (\<lambda>_. 5) (\<lambda>_ _. 0) ex_octad_input" ex_octad_env]
  by (simp add: ex_octads1_def ex_octads_fresh)

lemma ex_octads1_sel:
  "tm_unused 2 (txns ex_octads1)" "length (vs_hist (temporal_st ex_octads1) ''a'') = 1"
  "os_status ''a'' ex_octads1 \<noteq> None" "vec_dimension (vector_st ex_octads1) = 2" "vector_dimension (config ex_octads1) = 2"
  "map_option (ms_vector \<circ> os_modalities) (os_status ''a'' ex_octads1) = Some True"
  "map_option (ms_document \<circ> os_modalities) (os_status ''a'' ex_octads1) = Some True"
  by code_simp+

lemma ex_octads1_fresh: "fresh_write ''a'' 2 ex_octads1"
  by (simp add: fresh_write_def ex_octads1_sel(1,2))

theorem create_then_get_witness:
  "\<exists>oc. os_get ''a'' ex_octads1 = Some oc \<and> oc_embedding oc = Some (embedding_new ''a'' [3, 4]) \<and> oc_tensor oc = None"
proof -
  obtain oc where created: "os_create ex_octad_env ''a'' 1 (\<lambda>_. 5) (\<lambda>_ _. 0) ex_octad_input ex_octads = (Inr oc, ex_octads1)"
    by (rule ex_octads1_created)
  have new: "os_get ''a'' ex_octads = None" "vs_hist (temporal_st ex_octads) ''a'' = []"
    by (simp_all add: os_get_None os_status_def)
  note got = create_then_get [OF ex_octads_inv ex_octads_fresh new created]
  have input: "in_vector ex_octad_input = Some \<lparr>vi_embedding = [3, 4], vi_model = None\<rparr>" "in_tensor ex_octad_input = None"
    by (simp_all add: ex_octad_input_def with_document_def with_embedding_def octad_input_default_def)
  from got have "os_get ''a'' ex_octads1 = Some oc" by blast
  moreover from got have "oc_embedding oc = Some (embedding_new ''a'' [3, 4])" unfolding input by simp
  moreover from got have "map_option (\<lambda>u. (t_shape u, t_data u)) (oc_tensor oc) = None" unfolding input by simp
  then have "oc_tensor oc = None" by (simp only: option.map_disc_iff)
  ultimately show ?thesis by blast
qed

text \<open>
  C5: an update changes what its input names and nothing else: \<open>get\<close> after a successful \<open>update\<close> returns, for
  each of the eight modalities, the representation of the input if there is one and the old one otherwise;
  the status lists the modalities of both, the version grows by one and the time of creation stays. In the
  stores, the chain grows by the event of the input, one version with the input is appended, the relations
  of the input are the only edges inserted, the document store is left alone as a whole without a
  document in the input, and every other entity reads as before.
\<close>

theorem update_merges:
  assumes "octad_inv env st" "fresh_write e t st" "os_get e st = Some old"
    and "os_update env e t now inst i st = (Inr oc, st')"
  shows "\<exists>new. os_get e st' = Some new
    \<and> oc_status new = \<lparr>os_id = e, os_created_at = os_created_at (oc_status old), os_modified_at = now 0,
        os_observed_at = (case in_temporal i of None \<Rightarrow> os_observed_at (oc_status old) | Some time \<Rightarrow> Some time),
        os_version = os_version (oc_status old) + 1, os_modalities = add_modalities i (os_modalities (oc_status old))\<rparr>
    \<and> oc_graph_node new = (case in_graph i of None \<Rightarrow> oc_graph_node old
        | Some _ \<Rightarrow> Some (entity_node (base_iri (config st)) e))
    \<and> oc_embedding new = (case in_vector i of None \<Rightarrow> oc_embedding old | Some v \<Rightarrow> Some (embedding_new e (vi_embedding v)))
    \<and> oc_document new = (case in_document i of None \<Rightarrow> oc_document old | Some d \<Rightarrow> Some (document_of e d))
    \<and> oc_tensor new = (case in_tensor i of None \<Rightarrow> oc_tensor old | Some u \<Rightarrow>
        Some \<lparr>t_id = e, t_shape = ti_shape u, t_dtype = Float64, t_data = ti_data u, t_metadata = []\<rparr>)
    \<and> oc_semantic new = (case in_semantic i of None \<Rightarrow> oc_semantic old | Some s \<Rightarrow> Some (annotation_of env (now 8) e s))
    \<and> oc_spatial new = (case in_spatial i of None \<Rightarrow> oc_spatial old | Some l \<Rightarrow> Some (spatial_of l))
    \<and> (in_provenance i = None \<longrightarrow> oc_chain_length new = oc_chain_length old)
    \<and> map_of (prov_st st') e = (case in_provenance i of None \<Rightarrow> map_of (prov_st st) e | Some p \<Rightarrow>
        Some (chain_append (e_prov env) (now 10) (event_type_of (e_lowercase env (pi_event_type p))) (pi_actor p)
          (pi_source p) (pi_description p) (case map_of (prov_st st) e of None \<Rightarrow> chain_new e | Some c \<Rightarrow> c)))
    \<and> (\<exists>ver. vs_hist (temporal_st st') e = vs_hist (temporal_st st) e @ [ver] \<and> sn_input (v_data ver) = i)
    \<and> graph_st st' = (case in_graph i of None \<Rightarrow> graph_st st
        | Some rels \<Rightarrow> fold gs_insert (links (base_iri (config st)) e rels) (graph_st st))
    \<and> (in_document i = None \<longrightarrow> document_st st' = document_st st)
    \<and> (\<forall>j. j \<noteq> e \<longrightarrow> os_get j st' = os_get j st)"
proof -
  note fresh = assms(2) [unfolded fresh_write_def]
  obtain s where s: "map_of (octads st) e = Some s" "ev_status (entity_of e st) = Some s"
    using assms(3) by (auto simp: os_get_def load_octad_def ev_status_entity split: option.splits)
  with assms(4) have upd: "update_existing env s e t now inst i st = (Inr oc, st')" by (simp add: os_update_def)
  note ok = update_existing_ok [OF assms(1) conjunct1 [OF fresh] conjunct2 [OF fresh] upd]
  have idle: "tm_idle (txns st)" using assms(1) by (simp add: octad_inv_def)
  have graph: "graph_st st' = add_links (base_iri (config st)) e (in_graph i) (graph_st st)"
    using update_existing_frame(1) [OF idle conjunct1 [OF fresh], of env s e now inst i] by (simp add: upd)
  have document: "in_document i = None \<longrightarrow> document_st st' = document_st st"
    using update_existing_frame(2) [OF idle conjunct1 [OF fresh], of i env s e now inst] by (simp add: upd)
  have conf: "config st' = config st" using ok(1) by (simp add: only_at_def)
  let ?v = "apply_input env e now i (entity_of e st)"
  obtain ver n where view: "entity_of e st' = finish_view (updated_status now i s e n (add_modalities i (os_modalities s))) ver ?v"
    and n: "n = of_nat (Suc (length (ev_versions (entity_of e st))))" and ver: "sn_input (v_data ver) = i"
    using ok(2) unfolding updated_view_def Let_def by (simp add: new_version_def create_snapshot_def)
  have status: "status_ok e (entity_of e st)" using assms(1) by (simp add: octad_inv_def)
  then have "n = os_version s + 1" using s(2) by (simp add: n status_ok_def)
  let ?s = "updated_status now i s e n (add_modalities i (os_modalities s))"
  have "ev_status (entity_of e st') = Some ?s" by (simp add: view)
  then obtain new where get: "os_get e st' = Some new" and new: "load_view (base_iri (config st)) e (entity_of e st') = Some new"
    "oc_status new = ?s"
    using load_view_Some unfolding os_get_view conf by blast
  note new_sel = load_view_sel [OF new(1), unfolded new(2), unfolded view finish_view_sel apply_input_sel]
  have "load_view (base_iri (config st)) e (entity_of e st) = Some old" using assms(3) by (simp add: os_get_view)
  note old_sel = load_view_sel [OF this]
  have old: "oc_status old = s" using old_sel(1) s(2) by simp
  have st: "oc_status new = \<lparr>os_id = e, os_created_at = os_created_at (oc_status old), os_modified_at = now 0,
      os_observed_at = (case in_temporal i of None \<Rightarrow> os_observed_at (oc_status old) | Some time \<Rightarrow> Some time),
      os_version = os_version (oc_status old) + 1, os_modalities = add_modalities i (os_modalities (oc_status old))\<rparr>"
    by (simp add: new(2) updated_status_def old \<open>n = os_version s + 1\<close> split: option.split)
  have "os_modalities ?s = add_modalities i (os_modalities s)" by (simp add: updated_status_def)
  note sel = new_sel [unfolded this add_modalities_sel] old_sel [unfolded old]
  have mods: "oc_graph_node new = (case in_graph i of None \<Rightarrow> oc_graph_node old
      | Some _ \<Rightarrow> Some (entity_node (base_iri (config st)) e))"
    "oc_embedding new = (case in_vector i of None \<Rightarrow> oc_embedding old | Some v \<Rightarrow> Some (embedding_new e (vi_embedding v)))"
    "oc_document new = (case in_document i of None \<Rightarrow> oc_document old | Some d \<Rightarrow> Some (document_of e d))"
    "oc_tensor new = (case in_tensor i of None \<Rightarrow> oc_tensor old | Some u \<Rightarrow>
      Some \<lparr>t_id = e, t_shape = ti_shape u, t_dtype = Float64, t_data = ti_data u, t_metadata = []\<rparr>)"
    "oc_semantic new = (case in_semantic i of None \<Rightarrow> oc_semantic old | Some s \<Rightarrow> Some (annotation_of env (now 8) e s))"
    "oc_spatial new = (case in_spatial i of None \<Rightarrow> oc_spatial old | Some l \<Rightarrow> Some (spatial_of l))"
    "in_provenance i = None \<longrightarrow> oc_chain_length new = oc_chain_length old"
    unfolding sel(3-9) sel(12-18) entity_node_def by (simp_all split: option.split)
  have at: "map_of (prov_st st') e = ev_chain (entity_of e st')" "map_of (prov_st st) e = ev_chain (entity_of e st)"
    by (simp_all add: entity_of_def)
  have chain: "map_of (prov_st st') e = (case in_provenance i of None \<Rightarrow> map_of (prov_st st) e | Some p \<Rightarrow>
      Some (chain_append (e_prov env) (now 10) (event_type_of (e_lowercase env (pi_event_type p))) (pi_actor p)
        (pi_source p) (pi_description p) (case map_of (prov_st st) e of None \<Rightarrow> chain_new e | Some c \<Rightarrow> c)))"
    unfolding at view finish_view_sel apply_input_sel ..
  have hist: "\<exists>ver. vs_hist (temporal_st st') e = vs_hist (temporal_st st) e @ [ver] \<and> sn_input (v_data ver) = i"
    using arg_cong [OF view, of ev_versions] ver by (intro exI [of _ ver]) (simp add: ev_versions_entity)
  have others: "\<forall>j. j \<noteq> e \<longrightarrow> os_get j st' = os_get j st" using only_at_get [OF ok(1)] by blast
  show ?thesis
    by (intro exI [of _ new] conjI) (fact get st mods chain hist graph [unfolded add_links_def] document others)+
qed

theorem update_merges_witness:
  "\<exists>old new. os_get ''a'' ex_octads1 = Some old
    \<and> os_get ''a'' (snd (os_update ex_octad_env ''a'' 2 (\<lambda>_. 6) (\<lambda>_ _. 0) (with_embedding [1, 2] octad_input_default) ex_octads1)) = Some new
    \<and> oc_embedding new = Some (embedding_new ''a'' [1, 2]) \<and> oc_document new = oc_document old"
proof -
  let ?i = "with_embedding [1, 2] octad_input_default :: (int, int) octad_input"
  obtain old where old: "os_get ''a'' ex_octads1 = Some old"
    using ex_octads1_sel(3) by (auto simp flip: os_get_None)
  have "valid_input ex_octad_env ex_octads1 ''a'' (\<lambda>_. 6) ?i"
    by (simp add: valid_input_def with_embedding_def octad_input_default_def ex_octads1_sel)
  from writes_succeed(3) [OF ex_octads1_inv ex_octads1_sel(1) ex_index_works this ex_octads1_sel(3)]
  obtain oc st' where "os_update ex_octad_env ''a'' 2 (\<lambda>_. 6) (\<lambda>_ _. 0) ?i ex_octads1 = (Inr oc, st')" by blast
  with update_merges [OF ex_octads1_inv ex_octads1_fresh old this] old show ?thesis
    by (auto simp: with_embedding_def octad_input_default_def)
qed

text \<open>
  C11: a deleted entity is gone from every read of the store: \<open>delete\<close> of a registered entity succeeds, \<open>get\<close>
  returns nothing afterwards and other entities read as before. It removes the vector, the document
  and the tensor; the annotation, the provenance chain, the position and the versions stay in their
  stores.
\<close>

theorem delete_hides:
  assumes "octad_inv env st" "tm_unused t (txns st)" "os_get e st \<noteq> None"
  shows "\<exists>st'. os_delete env e t now inst st = (Inr (), st') \<and> os_get e st' = None
    \<and> vec_get (vector_st st') e = None \<and> doc_get (document_st st') e = None \<and> tensor_get (tensor_st st') e = None
    \<and> sp_get (spatial_st st') e = sp_get (spatial_st st) e
    \<and> get_annotations (semantic_st st') e = get_annotations (semantic_st st) e
    \<and> vs_hist (temporal_st st') e = vs_hist (temporal_st st) e
    \<and> (\<forall>j. j \<noteq> e \<longrightarrow> os_get j st' = os_get j st)"
proof -
  from assms(3) obtain old where old: "map_of (octads st) e = Some old" by (auto simp: os_get_None os_status_def)
  have "tm_idle (txns st)" using assms(1) by (simp add: octad_inv_def)
  then obtain st' where st': "delete_existing env old e t now inst st = (Inr (), st')" "only_at e st st'"
    "entity_of e st' = deleted_view (entity_of e st)" "octads st' = AList.delete e (octads st)"
    by (rule delete_existing_ok [OF _ assms(2)])
  have "os_delete env e t now inst st = (Inr (), st')" by (simp add: os_delete_def old st'(1))
  moreover have "os_get e st' = None" by (simp add: os_get_None os_status_def st'(4))
  moreover from st'(3) have "vec_get (vector_st st') e = None" "doc_get (document_st st') e = None" "tensor_get (tensor_st st') e = None"
    "sp_get (spatial_st st') e = sp_get (spatial_st st) e" "get_annotations (semantic_st st') e = get_annotations (semantic_st st) e"
    "vs_hist (temporal_st st') e = vs_hist (temporal_st st) e"
    by (simp_all add: entity_of_def deleted_view_def)
  ultimately show ?thesis using only_at_get [OF st'(2)] by blast
qed

theorem delete_hides_witness:
  "os_get ''a'' (snd (os_delete ex_octad_env ''a'' 2 (\<lambda>_. 6) (\<lambda>_ _. 0) ex_octads1)) = None"
proof -
  have "os_get ''a'' ex_octads1 \<noteq> None" using ex_octads1_sel(3) by (simp add: os_get_None)
  from delete_hides [OF ex_octads1_inv ex_octads1_sel(1) this, of "\<lambda>_. 6" "\<lambda>_ _. 0"] show ?thesis by auto
qed


text \<open>A vector is written before the tensor whose shape does not fit.\<close>

definition ex_bad_input :: "(int, int) octad_input" where
  "ex_bad_input = with_tensor [2] [] (with_document ''new'' ''body'' (with_embedding [3, 4] octad_input_default))"


text \<open>
  C8: operations touch the entity they name: in any sequence of operations on a fresh store, successful or
  not, an entity that the last ones do not name has, before and after them, the same status, vector,
  document, tensor, annotation, position, chain and versions, the same outgoing edges, and reads the same.
  Edges that reach it may be added, since the relations of another entity can name it.
\<close>

theorem operations_touch_one_entity:
  assumes "run_ok (os_step env) os_ok (os_empty cfg metric ix) (ops0 @ ops)" "\<forall>op \<in> set ops. op_entity op \<noteq> e"
    and "st = run (os_step env) (os_empty cfg metric ix) ops0"
    and "st' = run (os_step env) (os_empty cfg metric ix) (ops0 @ ops)"
  shows "os_get e st' = os_get e st \<and> entity_of e st' = entity_of e st
    \<and> gs_outgoing (graph_st st') (entity_node (base_iri cfg) e) = gs_outgoing (graph_st st) (entity_node (base_iri cfg) e)"
proof -
  have ok: "run_ok (os_step env) os_ok (os_empty cfg metric ix) ops0" "run_ok (os_step env) os_ok st ops"
    using assms(1,3) by (simp_all add: run_ok_append)
  have st': "st' = run (os_step env) st ops" by (simp add: assms(3,4) run_append)
  have inv: "octad_inv env st" unfolding assms(3) by (rule os_run_empty [OF ok(1)])
  have conf: "config st = cfg"
    unfolding assms(3) os_run_config [OF octad_inv_empty ok(1)] by (simp add: os_empty_def octad_store_new_def)
  have "graph_wf (graph_st st)"
    unfolding assms(3) using run_outgoing [OF octad_inv_empty _ ok(1)] graph_wf_new(1)
    by (simp add: os_empty_def octad_store_new_def)
  from run_outgoing [OF inv this ok(2), of e] assms(2)
  have "gs_outgoing (graph_st st') (entity_node (base_iri cfg) e) = gs_outgoing (graph_st st) (entity_node (base_iri cfg) e)"
    by (simp add: st' conf)
  moreover have "entity_of e st' = entity_of e st \<and> config st' = config st"
    unfolding st' using inv ok(2) assms(2)
  proof (induction ops arbitrary: st)
    case (Cons op ops)
    then have "os_ok st op" "e \<noteq> op_entity op" by auto
    with os_step_inv [OF Cons.prems(1) this(1)] Cons show ?case by (simp add: only_at_def)
  qed simp
  ultimately show ?thesis by (simp add: os_get_view)
qed

section \<open>What every reachable store satisfies\<close>

lemma reachable_entity:
  assumes "run_ok (os_step env) os_ok (os_empty cfg metric ix) ops" "os_get e (run (os_step env) (os_empty cfg metric ix) ops) = Some oc"
  defines "st \<equiv> run (os_step env) (os_empty cfg metric ix) ops"
  shows "octad_inv env st" "load_view (base_iri cfg) e (entity_of e st) = Some oc" "status_ok e (entity_of e st)"
    "content_ok env (vector_dimension cfg) e (entity_of e st)" "config st = cfg"
proof -
  show inv: "octad_inv env st" unfolding st_def by (rule os_run_empty [OF assms(1)])
  show conf: "config st = cfg"
    unfolding st_def os_run_config [OF octad_inv_empty assms(1)] by (simp add: os_empty_def octad_store_new_def)
  show "load_view (base_iri cfg) e (entity_of e st) = Some oc" using assms(2) by (simp add: os_get_view conf flip: st_def)
  show "status_ok e (entity_of e st)" "content_ok env (vector_dimension cfg) e (entity_of e st)"
    using inv by (simp_all add: octad_inv_def conf)
qed

lemma ex_octads_run:
  "run_ok (os_step ex_octad_env) os_ok (os_empty (octad_config_default\<lparr>vector_dimension := 2\<rparr>) DotProduct ())
     [OCreate ''a'' 1 (\<lambda>_. 5) (\<lambda>_ _. 0) ex_octad_input]"
  "run (os_step ex_octad_env) (os_empty (octad_config_default\<lparr>vector_dimension := 2\<rparr>) DotProduct ())
     [OCreate ''a'' 1 (\<lambda>_. 5) (\<lambda>_ _. 0) ex_octad_input] = ex_octads1"
  by (simp_all add: ex_octads_fresh ex_octads1_def flip: ex_octads_def)

text \<open>An entity with a relation, and another entity that is updated and deleted.\<close>

definition ex_linked :: "(int, int) octad_input" where
  "ex_linked = ex_octad_input\<lparr>in_graph := Some [(''knows'', ''b'')]\<rparr>"

definition ex_before :: "(int, int) os_op list" where
  "ex_before = [OCreate ''a'' 1 (\<lambda>_. 5) (\<lambda>_ _. 0) ex_linked, OCreate ''b'' 2 (\<lambda>_. 6) (\<lambda>_ _. 0) ex_linked]"

definition ex_after :: "(int, int) os_op list" where
  "ex_after = [OUpdate ''b'' 3 (\<lambda>_. 7) (\<lambda>_ _. 0) ex_linked, ODelete ''b'' 4 (\<lambda>_. 8) (\<lambda>_ _. 0)]"

lemma ex_linked_run: "run_ok (os_step ex_octad_env) os_ok ex_octads (ex_before @ ex_after)"
proof -
  let ?step = "os_step ex_octad_env" and ?ops = "ex_before @ ex_after"
  have fresh: "fresh_write ''b'' t st" if "tm_unused t (txns st)" "length (vs_hist (temporal_st st) ''b'') \<le> 2"
    for t and st :: "(int, int, unit) octad_store"
    using that by (simp add: fresh_write_def)
  have s1: "fresh_write ''b'' 2 (run ?step ex_octads (take 1 ?ops))" by (rule fresh) code_simp+
  have s2: "fresh_write ''b'' 3 (run ?step ex_octads (take 2 ?ops))" by (rule fresh) code_simp+
  have s3: "fresh_write ''b'' 4 (run ?step ex_octads (take 3 ?ops))" by (rule fresh) code_simp+
  have new: "map_of (octads (run ?step ex_octads (take 1 ?ops))) ''b'' = None" by code_simp
  show ?thesis
    using s1 s2 s3 new by (simp add: ex_before_def ex_after_def ex_octads_fresh numeral_2_eq_2 numeral_3_eq_3)
qed

theorem operations_touch_one_entity_witness:
  "\<exists>st st'. st = run (os_step ex_octad_env) ex_octads ex_before
     \<and> st' = run (os_step ex_octad_env) ex_octads (ex_before @ ex_after)
     \<and> os_get ''a'' st' = os_get ''a'' st \<and> os_get ''b'' st \<noteq> None
     \<and> gs_outgoing (graph_st st') (entity_node (base_iri octad_config_default) ''a'')
       = gs_outgoing (graph_st st) (entity_node (base_iri octad_config_default) ''a'')
     \<and> gs_outgoing (graph_st st) (entity_node (base_iri octad_config_default) ''a'') \<noteq> []"
proof -
  define st where "st = run (os_step ex_octad_env) ex_octads ex_before"
  define st' where "st' = run (os_step ex_octad_env) ex_octads (ex_before @ ex_after)"
  have eval: "os_get ''b'' st \<noteq> None"
    "gs_outgoing (graph_st st) (entity_node (base_iri octad_config_default) ''a'') \<noteq> []"
    unfolding st_def by code_simp+
  have base: "base_iri (octad_config_default\<lparr>vector_dimension := 2\<rparr>) = base_iri octad_config_default"
    by simp
  have "\<forall>op \<in> set ex_after. op_entity op \<noteq> ''a''" by (simp add: ex_after_def)
  note same = operations_touch_one_entity
    [OF ex_linked_run [unfolded ex_octads_def] this st_def [unfolded ex_octads_def] st'_def [unfolded ex_octads_def], unfolded base]
  from eval same have "os_get ''a'' st' = os_get ''a'' st \<and> os_get ''b'' st \<noteq> None
     \<and> gs_outgoing (graph_st st') (entity_node (base_iri octad_config_default) ''a'')
       = gs_outgoing (graph_st st) (entity_node (base_iri octad_config_default) ''a'')
     \<and> gs_outgoing (graph_st st) (entity_node (base_iri octad_config_default) ''a'') \<noteq> []"
    by argo
  with st_def st'_def show ?thesis by blast
qed

text \<open>
  C10: everything read from the store is well-formed: after any sequence of operations, successful or failed,
  an entity carries its identifier in every representation, its vector has the configured dimension, its
  tensor the size of its shape, its position is in range, and the provenance chain of its entity
  verifies.
\<close>

theorem entities_well_formed:
  assumes "run_ok (os_step env) os_ok (os_empty cfg metric ix) ops"
    and "os_get e (run (os_step env) (os_empty cfg metric ix) ops) = Some oc"
  shows "oc_id oc = e \<and> os_id (oc_status oc) = e
    \<and> (\<forall>v. oc_embedding oc = Some v \<longrightarrow> emb_id v = e \<and> length (emb_vector v) = vector_dimension cfg)
    \<and> (\<forall>d. oc_document oc = Some d \<longrightarrow> doc_id d = e)
    \<and> (\<forall>u. oc_tensor oc = Some u \<longrightarrow> t_id u = e \<and> length (t_data u) = unat (shape_product (t_shape u)))
    \<and> (\<forall>a. oc_semantic oc = Some a \<longrightarrow> an_entity a = e)
    \<and> (\<forall>l. oc_spatial oc = Some l \<longrightarrow> in_range (e_f64 env) 90 (latitude (coordinates l))
          \<and> in_range (e_f64 env) 180 (longitude (coordinates l)))
    \<and> (\<forall>c. map_of (prov_st (run (os_step env) (os_empty cfg metric ix) ops)) e = Some c
          \<longrightarrow> chain_verify (e_prov env) c = Inr ())"
proof -
  note re = reachable_entity [OF assms]
  note sel = load_view_sel [OF re(2)]
  show ?thesis
    using re(3,4) sel by (auto simp: status_ok_def content_ok_def tensor_wf_def tensor_numel_def entity_of_def split: if_splits)
qed

theorem entities_well_formed_witness:
  "\<exists>oc. os_get ''a'' ex_octads1 = Some oc \<and> oc_id oc = ''a''
    \<and> (\<forall>v. oc_embedding oc = Some v \<longrightarrow> emb_id v = ''a'' \<and> length (emb_vector v) = 2)"
proof -
  obtain oc where oc: "os_get ''a'' ex_octads1 = Some oc" using ex_octads1_sel(3) by (auto simp flip: os_get_None)
  from entities_well_formed [OF ex_octads_run(1) this [folded ex_octads_run(2)]] oc show ?thesis by simp
qed

text \<open>
  C4: the status of an entity is complete: after any sequence of operations, an entity that \<open>get\<close> returns has
  a representation for exactly the modalities that its status lists, its version is the number of versions
  recorded for it, and no lock on any entity is held.
\<close>

theorem status_tells_representations:
  assumes "run_ok (os_step env) os_ok (os_empty cfg metric ix) ops"
    and "os_get e (run (os_step env) (os_empty cfg metric ix) ops) = Some oc"
  shows "(oc_graph_node oc \<noteq> None \<longleftrightarrow> ms_graph (os_modalities (oc_status oc)))
    \<and> (oc_embedding oc \<noteq> None \<longleftrightarrow> ms_vector (os_modalities (oc_status oc)))
    \<and> (oc_document oc \<noteq> None \<longleftrightarrow> ms_document (os_modalities (oc_status oc)))
    \<and> (oc_tensor oc \<noteq> None \<longleftrightarrow> ms_tensor (os_modalities (oc_status oc)))
    \<and> (oc_semantic oc \<noteq> None \<longleftrightarrow> ms_semantic (os_modalities (oc_status oc)))
    \<and> (oc_spatial oc \<noteq> None \<longleftrightarrow> ms_spatial (os_modalities (oc_status oc)))
    \<and> ms_temporal (os_modalities (oc_status oc))
    \<and> os_version (oc_status oc) = of_nat (length (vs_hist (temporal_st (run (os_step env) (os_empty cfg metric ix) ops)) e))
    \<and> tm_lock_holders (txns (run (os_step env) (os_empty cfg metric ix) ops)) d m = []"
proof -
  note re = reachable_entity [OF assms]
  note sel = load_view_sel [OF re(2)]
  have "tm_lock_holders (txns (run (os_step env) (os_empty cfg metric ix) ops)) d m = []"
    using re(1) by (simp add: octad_inv_def tm_idle_no_locks)
  with re(3) sel show ?thesis
    by (auto simp: status_ok_def holds_modalities_def ev_versions_entity split: if_splits)
qed

theorem status_tells_representations_witness:
  "\<exists>oc. os_get ''a'' ex_octads1 = Some oc \<and> oc_embedding oc \<noteq> None \<and> tm_lock_holders (txns ex_octads1) ''a'' ''vector'' = []"
proof -
  obtain oc where oc: "os_get ''a'' ex_octads1 = Some oc" using ex_octads1_sel(3) by (auto simp flip: os_get_None)
  then have "os_status ''a'' ex_octads1 = Some (oc_status oc)"
    by (auto simp: os_get_view os_status_def ev_status_entity dest: load_view_sel(1))
  then have "ms_vector (os_modalities (oc_status oc))" using ex_octads1_sel(6) by simp
  with status_tells_representations [OF ex_octads_run(1) oc [folded ex_octads_run(2)], of "''a''" "''vector''"] oc
  show ?thesis unfolding ex_octads_run(2) by blast
qed

section \<open>Failures in the middle of a write\<close>

text \<open>The part of a write before the first invalid modality, when the input has a document and a bad tensor only.\<close>

lemma failed_document_then_tensor:
  assumes "index_works (e_ft env)" "in_graph i = None" "in_vector i = None" "in_document i = Some d"
    and "in_tensor i = Some u" "length (ti_data u) \<noteq> unat (shape_product (ti_shape u))"
  shows "\<exists>err ms' st'. write_modalities env undo t e v now i (ms, st) = (Inl err, ms', undo ms' st')
    \<and> entity_of e st' = put_document e d (entity_of e st) \<and> config st' = config st
    \<and> octads st' = octads st"
proof -
  obtain x st1 where doc: "process_document env e d st = (Inr x, st1)"
    using process_document_succeeds [OF assms(1)] by blast
  let ?st2 = "os_record_undo t e ''document'' v (now 6) st1"
  obtain err where tensor: "process_tensor e u ?st2 = (Inl err, ?st2)"
    using assms(6) by (simp add: process_tensor_def tensor_new_def Let_def)
  have failed: "write_modalities env undo t e v now i (ms, st)
      = (Inl err, ms\<lparr>ms_document := True\<rparr>, undo (ms\<lparr>ms_document := True\<rparr>) ?st2)"
    unfolding write_modalities_def rs_bind_def write_one_def assms(2-5) by (simp add: doc tensor)
  have "entity_of e ?st2 = put_document e d (entity_of e st)" "config ?st2 = config st"
    "octads ?st2 = octads st"
    using implementsD [OF process_document_implements doc] by (simp_all add: beside_def only_at_def)
  with failed show ?thesis by blast
qed

text \<open>
  a failed update is not undone: when the tensor of an update has the wrong size, \<open>update\<close> fails, but the
  document of the same input, written before it, is what \<open>get\<close> returns from then on, under the old
  version.
\<close>

theorem failed_update_is_partial:
  assumes "octad_inv env st" "tm_unused t (txns st)" "index_works (e_ft env)"
    and "os_get e st = Some old" "ms_document (os_modalities (oc_status old))"
    and "in_graph i = None" "in_vector i = None" "in_document i = Some d"
    and "in_tensor i = Some u" "length (ti_data u) \<noteq> unat (shape_product (ti_shape u))"
  shows "\<exists>err st' new. os_update env e t now inst i st = (Inl err, st') \<and> os_get e st' = Some new
    \<and> oc_document new = Some (document_of e d) \<and> oc_status new = oc_status old
    \<and> vs_hist (temporal_st st') e = vs_hist (temporal_st st) e"
proof -
  have view: "load_view (base_iri (config st)) e (entity_of e st) = Some old" using assms(4) by (simp add: os_get_view)
  note old_sel = load_view_sel [OF view]
  let ?s = "oc_status old"
  have s: "map_of (octads st) e = Some ?s" using old_sel(1) by (simp add: ev_status_entity)
  have idle: "tm_idle (txns st)" using assms(1) by (simp add: octad_inv_def)
  obtain tm where run: "tm_running t tm" and eq: "update_existing env ?s e t now inst i st =
      write_octad env (\<lambda>ms st. os_rollback t (now 3) st) (\<lambda>ms st. st) e t now inst i (os_modalities ?s) (os_version ?s)
        ''Update'' (\<lambda>ms. ms) (updated_status now i ?s e) (\<lambda>n ms. returned e (updated_status now i ?s e n ms) n)
        ((wal_intent env Update e i (now 1) (inst 0) st)\<lparr>txns := tm\<rparr>)"
    using update_existing_write [OF idle assms(2)] by blast
  let ?pre = "wal_intent env Update e i (now 1) (inst 0) st\<lparr>txns := tm\<rparr>"
  obtain err ms st1 where wm: "write_modalities env (\<lambda>ms st. os_rollback t (now 3) st) t e (os_version ?s) now i
      (os_modalities ?s, ?pre) = (Inl err, ms, os_rollback t (now 3) st1)"
    and st1: "entity_of e st1 = put_document e d (entity_of e ?pre)" "config st1 = config ?pre" "octads st1 = octads ?pre"
    using failed_document_then_tensor [OF assms(3,6-10)] by blast
  let ?st' = "os_rollback t (now 3) st1"
  have upd: "os_update env e t now inst i st = (Inl err, ?st')"
    unfolding os_update_def s option.case eq write_octad_def wm by simp
  have entity: "entity_of e ?st' = put_document e d (entity_of e st)" and conf: "config ?st' = config st"
    using st1 by simp_all
  have "ev_status (entity_of e ?st') = Some ?s" using s st1(3) by (simp add: ev_status_entity)
  then obtain new where new: "load_view (base_iri (config st)) e (entity_of e ?st') = Some new" "oc_status new = ?s"
    using load_view_Some by blast
  have "oc_document new = Some (document_of e d)"
    using load_view_sel(4) [OF new(1)] assms(5) by (simp add: new(2) st1(1) put_document_def)
  moreover have "vs_hist (temporal_st ?st') e = vs_hist (temporal_st st) e"
    using arg_cong [OF entity, of ev_versions] by (simp add: entity_of_def put_document_def)
  moreover have "os_get e ?st' = Some new" using new(1) by (simp add: os_get_view st1(2))
  ultimately show ?thesis using upd new(2) by blast
qed

definition ex_bad_update :: "(int, int) octad_input" where
  "ex_bad_update = with_tensor [2] [] (with_document ''new'' ''body'' octad_input_default)"

theorem failed_update_is_partial_witness:
  "\<exists>new. os_get ''a'' (snd (os_update ex_octad_env ''a'' 2 (\<lambda>_. 6) (\<lambda>_ _. 0) ex_bad_update ex_octads1)) = Some new
    \<and> map_option doc_title (oc_document new) = Some ''new'' \<and> os_version (oc_status new) = 1"
proof -
  obtain old where old: "os_get ''a'' ex_octads1 = Some old" using ex_octads1_sel(3) by (auto simp flip: os_get_None)
  then have "os_status ''a'' ex_octads1 = Some (oc_status old)"
    by (auto simp: os_get_view os_status_def ev_status_entity dest: load_view_sel(1))
  then have flags: "ms_document (os_modalities (oc_status old))" using ex_octads1_sel(7) by simp
  have "map_option os_version (os_status ''a'' ex_octads1) = Some 1" by code_simp
  with \<open>os_status ''a'' ex_octads1 = Some (oc_status old)\<close> have version: "os_version (oc_status old) = 1" by simp
  have input: "in_graph ex_bad_update = None" "in_vector ex_bad_update = None"
    "in_document ex_bad_update = Some \<lparr>di_title = ''new'', di_body = ''body'', di_fields = []\<rparr>"
    "in_tensor ex_bad_update = Some \<lparr>ti_shape = [2], ti_data = []\<rparr>"
    by (simp_all add: ex_bad_update_def with_document_def with_tensor_def octad_input_default_def)
  have "length (ti_data \<lparr>ti_shape = [2], ti_data = [] :: int list\<rparr>) \<noteq> unat (shape_product (ti_shape \<lparr>ti_shape = [2], ti_data = [] :: int list\<rparr>))"
    by (simp add: shape_product_def)
  from failed_update_is_partial [OF ex_octads1_inv ex_octads1_sel(1) ex_index_works old flags input this,
      where now = "\<lambda>_. 6" and inst = "\<lambda>_ _. 0"] version
  show ?thesis by (auto simp: document_of_def document_new_def)
qed

text \<open>
  an update that has read the status before a delete finishes brings the entity back: the status says
  that it has the vector it had, \<open>get\<close> finds the entity, and there is no vector. The locks do not prevent
  this, since the status is read before they are taken and not read again.
\<close>

theorem update_after_delete_resurrects:
  assumes "octad_inv env st" "tm_unused t (txns st)" "os_status e st = Some old" "ms_vector (os_modalities old)"
    and "os_delete env e t now inst st = (Inr (), st1)"
    and "fresh_write e t' st1" "in_vector i = None" "update_existing env old e t' now' inst' i st1 = (Inr oc, st2)"
  shows "os_get e st1 = None \<and> (\<exists>again. os_get e st2 = Some again \<and> ms_vector (os_modalities (oc_status again))
    \<and> oc_embedding again = None)"
proof -
  have old: "map_of (octads st) e = Some old" using assms(3) by (simp add: os_status_def)
  have "tm_idle (txns st)" using assms(1) by (simp add: octad_inv_def)
  then obtain st' where st': "delete_existing env old e t now inst st = (Inr (), st')"
    "entity_of e st' = deleted_view (entity_of e st)" "octads st' = AList.delete e (octads st)"
    by (rule delete_existing_ok [OF _ assms(2)])
  then have st1: "st1 = st'" using assms(5) by (simp add: os_delete_def old)
  have inv: "octad_inv env st1" using os_delete_inv(1) [OF assms(1,2), of e now inst] assms(5) by simp
  have gone: "os_get e st1 = None" by (simp add: os_get_None os_status_def st1 st'(3))
  note fresh = assms(6) [unfolded fresh_write_def]
  note ok = update_existing_ok [OF inv conjunct1 [OF fresh] conjunct2 [OF fresh] assms(8)]
  have none: "ev_vector (entity_of e st1) = None" by (simp add: st1 st'(2) deleted_view_def)
  have "ev_vector (entity_of e st2) = None"
    using assms(7) none by (simp add: ok(2) updated_view_def Let_def apply_input_sel)
  moreover obtain n where status: "ev_status (entity_of e st2) = Some (updated_status now' i old e n (add_modalities i (os_modalities old)))"
    by (simp add: ok(2) updated_view_def Let_def)
  then obtain again where again: "load_view (base_iri (config st2)) e (entity_of e st2) = Some again"
    "oc_status again = updated_status now' i old e n (add_modalities i (os_modalities old))"
    using load_view_Some by blast
  moreover have "ms_vector (os_modalities (oc_status again))"
    using assms(4) by (simp add: again(2) updated_status_def add_modalities_sel)
  ultimately have "oc_embedding again = None" using load_view_sel(3) [OF again(1)] by simp
  with gone again(1) \<open>ms_vector (os_modalities (oc_status again))\<close> show ?thesis by (simp add: os_get_view)
qed

text \<open>
  the answer of an update is not the entity: the modalities that the input does not mention are missing
  from the entity that \<open>update\<close> returns, although its own status lists them and \<open>get\<close> returns them.
\<close>

theorem update_answer_is_partial:
  assumes "octad_inv env st" "fresh_write e t st" "os_get e st = Some old" "ms_vector (os_modalities (oc_status old))"
    and "in_vector i = None" "os_update env e t now inst i st = (Inr oc, st')"
  shows "ms_vector (os_modalities (oc_status oc)) \<and> oc_embedding oc = None
    \<and> (\<exists>new. os_get e st' = Some new \<and> oc_status new = oc_status oc \<and> oc_embedding new \<noteq> None)"
proof -
  have view: "load_view (base_iri (config st)) e (entity_of e st) = Some old" using assms(3) by (simp add: os_get_view)
  note old_sel = load_view_sel [OF view]
  let ?s = "oc_status old"
  have s: "map_of (octads st) e = Some ?s" using old_sel(1) by (simp add: ev_status_entity)
  then have upd: "update_existing env ?s e t now inst i st = (Inr oc, st')" using assms(6) by (simp add: os_update_def)
  note fresh = assms(2) [unfolded fresh_write_def]
  note ok = update_existing_ok [OF assms(1) conjunct1 [OF fresh] conjunct2 [OF fresh] upd]
  have conf: "config st' = config st" using ok(1) by (simp add: only_at_def)
  obtain n where status: "ev_status (entity_of e st') = Some (updated_status now i ?s e n (add_modalities i (os_modalities ?s)))"
    by (simp add: ok(2) updated_view_def Let_def)
  then have flag: "ms_vector (os_modalities (oc_status oc))" and same: "ev_status (entity_of e st') = Some (oc_status oc)"
    using assms(4) by (simp_all add: ok(4) returned_def updated_status_def add_modalities_sel)
  have "oc_embedding oc = None" by (simp add: ok(4) returned_def written_of_def assms(5))
  moreover obtain new where new: "load_view (base_iri (config st)) e (entity_of e st') = Some new" "oc_status new = oc_status oc"
    using load_view_Some [OF same] by blast
  moreover have "ev_vector (entity_of e st') = ev_vector (entity_of e st)"
    using assms(5) by (simp add: ok(2) updated_view_def Let_def apply_input_sel)
  moreover have "ev_vector (entity_of e st) \<noteq> None"
    using assms(1,4) old_sel(1) by (auto simp: octad_inv_def status_ok_def holds_modalities_def)
  ultimately have "oc_embedding new \<noteq> None" using load_view_sel(3) [OF new(1)] flag by simp
  with flag new \<open>oc_embedding oc = None\<close> show ?thesis by (simp add: os_get_view conf)
qed

text \<open>The witnesses of the last two: the store with one entity, deleted or updated without a vector.\<close>

definition ex_note :: "(int, int) octad_input" where
  "ex_note = with_document ''new'' ''body'' octad_input_default"

lemma ex_note_valid: "valid_input env st e now ex_note"
  by (simp add: valid_input_def ex_note_def with_document_def octad_input_default_def)

lemma ex_note_vector: "in_vector ex_note = None"
  by (simp add: ex_note_def with_document_def octad_input_default_def)

lemma ex_octads1_status:
  obtains old where "os_status ''a'' ex_octads1 = Some old" "ms_vector (os_modalities old)"
  using ex_octads1_sel(6) by auto

theorem update_after_delete_resurrects_witness:
  "\<exists>old st1 oc st2 again. os_delete ex_octad_env ''a'' 2 (\<lambda>_. 6) (\<lambda>_ _. 0) ex_octads1 = (Inr (), st1)
    \<and> update_existing ex_octad_env old ''a'' 3 (\<lambda>_. 7) (\<lambda>_ _. 0) ex_note st1 = (Inr oc, st2)
    \<and> os_get ''a'' st1 = None \<and> os_get ''a'' st2 = Some again \<and> oc_embedding again = None"
proof -
  obtain old where old: "os_status ''a'' ex_octads1 = Some old" "ms_vector (os_modalities old)" by (rule ex_octads1_status)
  let ?del = "os_delete ex_octad_env ''a'' 2 (\<lambda>_. 6) (\<lambda>_ _. 0) ex_octads1"
  have idle: "tm_idle (txns ex_octads1)" using ex_octads1_inv by (simp add: octad_inv_def)
  obtain st1 where st1: "delete_existing ex_octad_env old ''a'' 2 (\<lambda>_. 6) (\<lambda>_ _. 0) ex_octads1 = (Inr (), st1)"
    "temporal_st st1 = temporal_st ex_octads1" "spares 2 (txns ex_octads1) (txns st1)"
    by (rule delete_existing_ok [OF idle ex_octads1_sel(1)])
  have "tm_unused 3 (txns ex_octads1)" by code_simp
  with st1 old(1) have del: "?del = (Inr (), snd ?del)" "fresh_write ''a'' 3 (snd ?del)"
    by (simp_all add: os_delete_def os_status_def fresh_write_def spares_def ex_octads1_sel(2))
  have "octad_inv ex_octad_env (snd ?del)" by (rule os_delete_inv(1) [OF ex_octads1_inv ex_octads1_sel(1)])
  from writes_succeed(2) [OF this conjunct1 [OF del(2) [unfolded fresh_write_def]] ex_index_works ex_note_valid]
  obtain oc st2 where upd: "update_existing ex_octad_env old ''a'' 3 (\<lambda>_. 7) (\<lambda>_ _. 0) ex_note (snd ?del) = (Inr oc, st2)" by blast
  from update_after_delete_resurrects [OF ex_octads1_inv ex_octads1_sel(1) old del ex_note_vector upd] del(1) upd
  show ?thesis by blast
qed

theorem update_answer_is_partial_witness:
  "\<exists>oc st'. os_update ex_octad_env ''a'' 2 (\<lambda>_. 6) (\<lambda>_ _. 0) ex_note ex_octads1 = (Inr oc, st')
    \<and> ms_vector (os_modalities (oc_status oc)) \<and> oc_embedding oc = None"
proof -
  obtain old where old: "os_get ''a'' ex_octads1 = Some old" using ex_octads1_sel(3) by (auto simp flip: os_get_None)
  then have "os_status ''a'' ex_octads1 = Some (oc_status old)"
    by (auto simp: os_get_view os_status_def ev_status_entity dest: load_view_sel(1))
  then have "ms_vector (os_modalities (oc_status old))" using ex_octads1_sel(6) by simp
  moreover obtain oc st' where "os_update ex_octad_env ''a'' 2 (\<lambda>_. 6) (\<lambda>_ _. 0) ex_note ex_octads1 = (Inr oc, st')"
    using writes_succeed(3) [OF ex_octads1_inv ex_octads1_sel(1) ex_index_works ex_note_valid ex_octads1_sel(3)] by blast
  ultimately show ?thesis
    using update_answer_is_partial [OF ex_octads1_inv ex_octads1_fresh old _ ex_note_vector] by blast
qed

end
