(* ===== verification/Octad_Recovery.thy ===== *)
theory Octad_Recovery
  imports Octad_Props Wal_Log
begin

text \<open>
  Recovery of the octad store from its write-ahead log (\<open>replay_wal\<close> of \<open>verisim-octad/src/store.rs\<close>): what
  the replay of the log makes of the registry, and how that relates to the registry that was lost. Hash
  sets are lists without repetitions, whose order is the one in which the code iterates.
\<close>

section \<open>Replay\<close>

record replay_scan =
  rp_committed :: "string list"
  rp_uncommitted :: "string list"
  rp_ops :: "(string \<times> (wal_operation \<times> u8 list)) list"

definition replay_entry :: "wal_entry \<Rightarrow> replay_scan \<Rightarrow> replay_scan" where
  "replay_entry en rs =
     (let e = bytes_str (entity_id en) in
      case operation en of
        Checkpoint \<Rightarrow>
          if payload en = committed_mark
          then rs\<lparr>rp_committed := List.insert e (rp_committed rs), rp_uncommitted := removeAll e (rp_uncommitted rs)\<rparr>
          else rs
      | op \<Rightarrow>
          (let rs = rs\<lparr>rp_ops := AList.update e (op, payload en) (rp_ops rs)\<rparr>
           in if e \<notin> set (rp_committed rs) then rs\<lparr>rp_uncommitted := List.insert e (rp_uncommitted rs)\<rparr> else rs))"

definition replay_scan_of :: "wal_entry list \<Rightarrow> replay_scan" where
  "replay_scan_of log = fold replay_entry log \<lparr>rp_committed = [], rp_uncommitted = [], rp_ops = []\<rparr>"

definition input_modalities :: "('f, 'd) octad_input \<Rightarrow> modality_status" where
  "input_modalities i = \<lparr>ms_graph = in_graph i \<noteq> None, ms_vector = in_vector i \<noteq> None, ms_tensor = in_tensor i \<noteq> None,
     ms_semantic = in_semantic i \<noteq> None, ms_document = in_document i \<noteq> None, ms_temporal = True,
     ms_provenance = in_provenance i \<noteq> None, ms_spatial = in_spatial i \<noteq> None\<rparr>"

fun recover_loop ::
  "('f, 'd, 'ix) octad_env \<Rightarrow> (nat \<Rightarrow> datetime) \<Rightarrow> nat \<Rightarrow> (string \<times> (wal_operation \<times> u8 list)) list \<Rightarrow> string list
     \<Rightarrow> (string \<times> octad_status) list \<times> nat \<Rightarrow> (string \<times> octad_status) list \<times> nat" where
  "recover_loop env now k ops [] (reg, recovered) = (reg, recovered)"
| "recover_loop env now k ops (e # es) (reg, recovered) =
     recover_loop env now (Suc k) ops es
       (case map_of ops e of
          None \<Rightarrow> (reg, recovered)
        | Some (op, bytes) \<Rightarrow>
            (case op of
               Delete \<Rightarrow> (AList.delete e reg, recovered + 1)
             | Checkpoint \<Rightarrow> (reg, recovered)
             | _ \<Rightarrow>
                 (case e_from_json env bytes of
                    None \<Rightarrow> (reg, recovered)
                  | Some i \<Rightarrow>
                      (let version = (case map_of reg e of None \<Rightarrow> 1 | Some s \<Rightarrow> os_version s + 1)
                       in (AList.update e \<lparr>os_id = e, os_created_at = now k, os_modified_at = now k,
                             os_observed_at = in_temporal i, os_version = version,
                             os_modalities = input_modalities i\<rparr> reg, recovered + 1)))))"

definition replay_wal ::
  "('f, 'd, 'ix) octad_env \<Rightarrow> datetime \<Rightarrow> (nat \<Rightarrow> datetime) \<Rightarrow> (nat \<Rightarrow> nat) \<Rightarrow> string \<Rightarrow> wal_dir option
     \<Rightarrow> ('f, 'd, 'ix) octad_store \<Rightarrow> (octad_error + nat) \<times> ('f, 'd, 'ix) octad_store" where
  "replay_wal env t now clk dname dir st =
     (case reader_open dname dir of
        Inl (DirectoryNotFound _) \<Rightarrow> (Inr 0, st)
      | Inl err \<Rightarrow> (Inl (ModalityError ''wal'' (''Failed to open WAL reader: '' @ e_show_wal env err)), st)
      | Inr _ \<Rightarrow>
          (case replay_all (e_wal env) t dname dir of
             Inl err \<Rightarrow> (Inl (ModalityError ''wal'' (''WAL replay_from failed: '' @ e_show_wal env err)), st)
           | Inr it \<Rightarrow>
               (let es = iter_collect it
                in if es = [] then (Inr 0, st)
                   else
                     (let rs = replay_scan_of es;
                          (reg, recovered) = recover_loop env now 0 (rp_ops rs) (rp_committed rs) (octads st, 0)
                      in (Inr recovered, os_wal_checkpoint (e_wal env) t clk (st\<lparr>octads := reg\<rparr>))))))"

section \<open>What a replay restores\<close>

lemma replay_scan_snoc: "replay_scan_of (log @ [en]) = replay_entry en (replay_scan_of log)"
  by (simp add: replay_scan_of_def)

lemma replay_scan_on_disk: "replay_scan_of (map on_disk log) = replay_scan_of log"
proof -
  have "replay_entry (on_disk en) = replay_entry en" for en
    by (rule ext) (unfold replay_entry_def on_disk_simps, rule refl)
  then show ?thesis by (simp add: replay_scan_of_def fold_map comp_def)
qed

text \<open>The entry that a replay makes of a committed entity.\<close>

definition recovered_status :: "('f, 'd, 'ix) octad_env \<Rightarrow> octad_id \<Rightarrow> datetime \<Rightarrow> replay_scan \<Rightarrow> octad_status option" where
  "recovered_status env e t rs =
     (case map_of (rp_ops rs) e of
        Some (op, bytes) \<Rightarrow>
          if op = Insert \<or> op = Update then
            map_option (\<lambda>i. \<lparr>os_id = e, os_created_at = t, os_modified_at = t, os_observed_at = in_temporal i,
              os_version = 1, os_modalities = input_modalities i\<rparr>) (e_from_json env bytes)
          else None
      | None \<Rightarrow> None)"

lemma recover_loop_other:
  "e \<notin> set es \<Longrightarrow> map_of (fst (recover_loop env now k ops es (reg, n))) e = map_of reg e"
proof (induction es arbitrary: k reg n)
  case (Cons x es)
  then show ?case
    by (auto simp: Let_def simp del: not_None_eq split: option.splits wal_operation.splits prod.splits)
qed simp

lemma recover_loop_status:
  assumes "distinct es" "\<forall>e \<in> set es. map_of reg e = None"
  shows "e \<in> set es \<Longrightarrow> \<exists>t. map_of (fst (recover_loop env now k (rp_ops rs) es (reg, n))) e = recovered_status env e t rs"
  using assms
proof (induction es arbitrary: k reg n)
  case (Cons x es)
  let ?step = "case map_of (rp_ops rs) x of None \<Rightarrow> (reg, n)
    | Some (op, bytes) \<Rightarrow> (case op of Delete \<Rightarrow> (AList.delete x reg, n + 1) | Checkpoint \<Rightarrow> (reg, n)
      | _ \<Rightarrow> (case e_from_json env bytes of None \<Rightarrow> (reg, n) | Some i \<Rightarrow>
          (let version = (case map_of reg x of None \<Rightarrow> 1 | Some s \<Rightarrow> os_version s + 1)
           in (AList.update x \<lparr>os_id = x, os_created_at = now k, os_modified_at = now k,
                 os_observed_at = in_temporal i, os_version = version, os_modalities = input_modalities i\<rparr> reg, n + 1))))"
  obtain reg' n' where step: "?step = (reg', n')" by fastforce
  have unfold: "recover_loop env now k (rp_ops rs) (x # es) (reg, n) = recover_loop env now (Suc k) (rp_ops rs) es (reg', n')"
    by (simp only: recover_loop.simps step)
  have here: "map_of reg' x = recovered_status env x (now k) rs" and there: "\<And>y. y \<noteq> x \<Longrightarrow> map_of reg' y = map_of reg y"
    using step Cons.prems(3)
    by (auto simp: recovered_status_def Let_def split: option.splits wal_operation.splits prod.splits)
  show ?case
  proof (cases "e = x")
    case True
    then have "e \<notin> set es" using Cons.prems(2) by auto
    with True here show ?thesis unfolding unfold by (simp add: recover_loop_other exI [of _ "now k"])
  next
    case False
    have "map_of reg' y = None" if "y \<in> set es" for y
    proof -
      have "y \<noteq> x" using that Cons.prems(2) by auto
      with there Cons.prems(3) that show ?thesis by simp
    qed
    moreover have "e \<in> set es" "distinct es" using False Cons.prems by auto
    ultimately show ?thesis unfolding unfold by (intro Cons.IH) simp_all
  qed
qed simp

lemma replay_entry_distinct: "distinct (rp_committed rs) \<Longrightarrow> distinct (rp_committed (replay_entry en rs))"
  by (simp add: replay_entry_def Let_def split: wal_operation.split)

lemma replay_scan_distinct: "distinct (rp_committed (replay_scan_of log))"
  by (induction log rule: rev_induct) (simp add: replay_scan_of_def, simp add: replay_scan_snoc replay_entry_distinct)

lemma os_wal_checkpoint_octads: "octads (os_wal_checkpoint env t clk st) = octads st"
  by simp

text \<open>The replay of a log into a store without entities.\<close>

lemma replay_wal_status:
  assumes "replay_all (e_wal env) t d (Some fs) = Inr \<lparr>entries = map on_disk log, position = 0\<rparr>" "octads st = []"
  obtains n st' where "replay_wal env t now clk d (Some fs) st = (Inr n, st')"
    and "\<And>e. e \<in> set (rp_committed (replay_scan_of log)) \<Longrightarrow>
      \<exists>t. os_status e st' = recovered_status env e t (replay_scan_of log)"
    and "\<And>e. e \<notin> set (rp_committed (replay_scan_of log)) \<Longrightarrow> os_status e st' = None"
proof (cases "log = []")
  case True
  have "replay_wal env t now clk d (Some fs) st = (Inr 0, st)"
    by (simp add: replay_wal_def reader_open_def assms(1) iter_collect_drop True)
  then show ?thesis
    by (rule that) (simp_all add: True replay_scan_of_def os_status_def assms(2))
next
  case False
  let ?rs = "replay_scan_of log"
  obtain reg n where loop: "recover_loop env now 0 (rp_ops ?rs) (rp_committed ?rs) ([], 0) = (reg, n)" by fastforce
  have "replay_wal env t now clk d (Some fs) st = (Inr n, os_wal_checkpoint (e_wal env) t clk (st\<lparr>octads := reg\<rparr>))"
    using False by (simp add: replay_wal_def reader_open_def assms iter_collect_drop replay_scan_on_disk loop)
  then show ?thesis
  proof (rule that)
    fix e assume "e \<in> set (rp_committed ?rs)"
    from recover_loop_status [OF replay_scan_distinct _ this, where reg = "[]" and env = env and now = now and k = 0 and n = 0 and rs = ?rs] loop
    show "\<exists>t'. os_status e (os_wal_checkpoint (e_wal env) t clk (st\<lparr>octads := reg\<rparr>)) = recovered_status env e t' ?rs"
      by (simp add: os_status_def)
  next
    fix e assume "e \<notin> set (rp_committed ?rs)"
    from recover_loop_other [OF this, where reg = "[]" and env = env and now = now and k = 0 and n = 0 and ops = "rp_ops ?rs"] loop
    show "os_status e (os_wal_checkpoint (e_wal env) t clk (st\<lparr>octads := reg\<rparr>)) = None" by (simp add: os_status_def)
  qed
qed

section \<open>The log of a store\<close>

text \<open>
  \<open>logged env k st log\<close>: the log of the store holds the entries \<open>log\<close> durably and has room for \<open>k\<close> more.
\<close>

definition logged :: "('f, 'd, 'ix) octad_env \<Rightarrow> nat \<Rightarrow> ('f, 'd, 'ix) octad_store \<Rightarrow> wal_entry list \<Rightarrow> bool" where
  "logged env k st log \<longleftrightarrow> (\<exists>w. wal st = Some w \<and> fsynced (e_wal env) (w, log) \<and> unat (next_sequence w) + k < 2 ^ 64)"

lemma logged_wal: "wal st' = wal st \<Longrightarrow> logged env k st' log = logged env k st log"
  by (simp add: logged_def)

definition log_entry :: "wal_operation \<Rightarrow> octad_id \<Rightarrow> u8 list \<Rightarrow> datetime \<Rightarrow> wal_entry" where
  "log_entry op e bytes now = \<lparr>sequence = 0, timestamp = now, operation = op, modality = AllModalities,
     entity_id = str_bytes e, payload = bytes\<rparr>"

definition fits_log :: "('f, 'd, 'ix) octad_env \<Rightarrow> wal_entry \<Rightarrow> bool" where
  "fits_log env en \<longleftrightarrow> (\<forall>n. readable (e_wal env) (en\<lparr>sequence := n\<rparr>))"

lemma room_for_one: "unat (n :: u64) + Suc k < 2 ^ 64 \<Longrightarrow> n < u64_max \<and> unat (n + 1) + k < 2 ^ 64"
  by (simp add: word_less_nat_alt unat_word_ariths unsigned_minus_1_eq_mask mask_eq_exp_minus_1)

lemma logged_append:
  assumes "logged env (Suc k) st log" "fits_log env (log_entry op e bytes now)"
  obtains n where "logged env k (os_wal_append (e_wal env) op e bytes now clk st)
      (log @ [(log_entry op e bytes now)\<lparr>sequence := n\<rparr>])"
proof -
  from assms(1) obtain w where w: "wal st = Some w" "fsynced (e_wal env) (w, log)" "unat (next_sequence w) + Suc k < 2 ^ 64"
    by (auto simp: logged_def)
  note room = room_for_one [OF w(3)]
  let ?en = "log_entry op e bytes now"
  have "fsync_ok (e_wal env) (w, log) (OpAppend ?en clk)"
    using room assms(2) by (simp add: fits_log_def)
  from fsync_step [OF w(2) this]
  have "fsynced (e_wal env) (snd (append_entry (e_wal env) clk ?en w), log @ [?en\<lparr>sequence := next_sequence w\<rparr>])"
    by (simp add: split_beta)
  with room w(1) show ?thesis
    by (intro that [of "next_sequence w"]) (simp add: logged_def os_wal_append_def log_entry_def [symmetric])
qed

lemma logged_checkpoint:
  assumes "logged env (Suc k) st log" "fits_log env (checkpoint_entry now)"
  obtains n where "logged env k (os_wal_checkpoint (e_wal env) now clk st) (log @ [(checkpoint_entry now)\<lparr>sequence := n\<rparr>])"
proof -
  from assms(1) obtain w where w: "wal st = Some w" "fsynced (e_wal env) (w, log)" "unat (next_sequence w) + Suc k < 2 ^ 64"
    by (auto simp: logged_def)
  note room = room_for_one [OF w(3)]
  have "fsync_ok (e_wal env) (w, log) (OpCheckpoint now clk)"
    using room assms(2) by (simp add: fits_log_def)
  from fsync_step [OF w(2) this]
  have "fsynced (e_wal env) (snd (checkpoint (e_wal env) clk now w), log @ [(checkpoint_entry now)\<lparr>sequence := next_sequence w\<rparr>])"
    by (simp add: split_beta checkpoint_def)
  moreover have "next_sequence (snd (checkpoint (e_wal env) clk now w)) = next_sequence w + 1"
    by (simp add: checkpoint_def split_beta)
  ultimately show ?thesis using room w(1)
    by (intro that [of "next_sequence w"]) (simp add: logged_def os_wal_checkpoint_def)
qed

lemma logged_committed:
  assumes "logged env (Suc (Suc k)) st log"
    and "fits_log env (log_entry Checkpoint e committed_mark (now 16))" "fits_log env (checkpoint_entry (now 17))"
  obtains n n' where "logged env k (wal_committed env e now inst st)
    (log @ [(log_entry Checkpoint e committed_mark (now 16))\<lparr>sequence := n\<rparr>, (checkpoint_entry (now 17))\<lparr>sequence := n'\<rparr>])"
proof -
  obtain n where one: "logged env (Suc k) (os_wal_append (e_wal env) Checkpoint e committed_mark (now 16) (inst 1) st)
      (log @ [(log_entry Checkpoint e committed_mark (now 16))\<lparr>sequence := n\<rparr>])"
    by (rule logged_append [OF assms(1,2)])
  obtain n' where "logged env k (wal_committed env e now inst st)
      ((log @ [(log_entry Checkpoint e committed_mark (now 16))\<lparr>sequence := n\<rparr>]) @ [(checkpoint_entry (now 17))\<lparr>sequence := n'\<rparr>])"
    unfolding wal_committed_def by (rule logged_checkpoint [OF one assms(3)])
  then show ?thesis by (intro that) simp
qed

section \<open>The log tells which entities are registered\<close>

definition recoverable :: "('f, 'd, 'ix) octad_env \<Rightarrow> replay_scan \<Rightarrow> octad_id \<Rightarrow> bool" where
  "recoverable env rs e \<longleftrightarrow> e \<in> set (rp_committed rs) \<and> (\<exists>t. recovered_status env e t rs \<noteq> None)"

lemma recovered_status_None: "recovered_status env e t rs = None \<longleftrightarrow> recovered_status env e t' rs = None"
  by (simp add: recovered_status_def split: option.split prod.split)

lemma committed_mark_nonempty [simp]: "[] \<noteq> committed_mark" "committed_mark \<noteq> []"
  by (simp_all add: committed_mark_def str_bytes_def)

lemma recoverable_other [simp]:
  "e \<noteq> j \<Longrightarrow> recoverable env (replay_entry (log_entry op e bytes now\<lparr>sequence := n\<rparr>) rs) j = recoverable env rs j"
  "recoverable env (replay_entry ((checkpoint_entry now)\<lparr>sequence := n\<rparr>) rs) j = recoverable env rs j"
  by (auto simp: recoverable_def recovered_status_def replay_entry_def log_entry_def checkpoint_entry_def Let_def
      split: wal_operation.split)

lemma committed_entry [simp]:
  "rp_committed (replay_entry (log_entry op e bytes now\<lparr>sequence := n\<rparr>) rs)
     = (if op = Checkpoint \<and> bytes = committed_mark then List.insert e (rp_committed rs) else rp_committed rs)"
  "rp_committed (replay_entry ((checkpoint_entry now)\<lparr>sequence := n\<rparr>) rs) = rp_committed rs"
  by (auto simp: replay_entry_def log_entry_def checkpoint_entry_def Let_def split: wal_operation.split)

lemma ops_entry [simp]:
  "map_of (rp_ops (replay_entry (log_entry op e bytes now\<lparr>sequence := n\<rparr>) rs)) e
     = (if op = Checkpoint then map_of (rp_ops rs) e else Some (op, bytes))"
  "rp_ops (replay_entry ((checkpoint_entry now)\<lparr>sequence := n\<rparr>) rs) = rp_ops rs"
  by (auto simp: replay_entry_def log_entry_def checkpoint_entry_def Let_def split: wal_operation.split)

text \<open>
  The registry and the log agree: an entity is registered when its last logged operation is a write and the
  entity was committed at some time, and only entities with versions were.
\<close>

definition agrees :: "('f, 'd, 'ix) octad_env \<Rightarrow> replay_scan \<Rightarrow> ('f, 'd, 'ix) octad_store \<Rightarrow> octad_id \<Rightarrow> bool" where
  "agrees env rs st e \<longleftrightarrow> (recoverable env rs e \<longleftrightarrow> map_of (octads st) e \<noteq> None)
     \<and> (e \<in> set (rp_committed rs) \<longrightarrow> vs_hist (temporal_st st) e \<noteq> [])"

definition recorded :: "('f, 'd, 'ix) octad_env \<Rightarrow> ('f, 'd, 'ix) octad_store \<Rightarrow> bool" where
  "recorded env st \<longleftrightarrow> octad_inv env st
     \<and> (\<exists>log. logged env 0 st log \<and> (\<forall>e. agrees env (replay_scan_of log) st e))"

text \<open>
  What a write asks of the log: room for its three entries, which the reader accepts, and an input whose
  JSON is read back.
\<close>

definition json_roundtrip :: "('f, 'd, 'ix) octad_env \<Rightarrow> ('f, 'd) octad_input \<Rightarrow> bool" where
  "json_roundtrip env i \<longleftrightarrow> (\<exists>bs. e_to_json env i = Some bs \<and> e_from_json env bs = Some i)"

definition log_takes ::
  "('f, 'd, 'ix) octad_env \<Rightarrow> wal_operation \<Rightarrow> octad_id \<Rightarrow> (nat \<Rightarrow> datetime) \<Rightarrow> u8 list \<Rightarrow> ('f, 'd, 'ix) octad_store \<Rightarrow> bool" where
  "log_takes env op e now bytes st \<longleftrightarrow> (\<forall>w. wal st = Some w \<longrightarrow> unat (next_sequence w) + 3 < 2 ^ 64)
     \<and> fits_log env (log_entry op e bytes (now 1)) \<and> fits_log env (log_entry Checkpoint e committed_mark (now 16))
     \<and> fits_log env (checkpoint_entry (now 17))"

definition intent_bytes :: "('f, 'd, 'ix) octad_env \<Rightarrow> ('f, 'd) octad_input \<Rightarrow> u8 list" where
  "intent_bytes env i = (case e_to_json env i of None \<Rightarrow> [] | Some bs \<Rightarrow> bs)"

fun logged_ok :: "('f, 'd, 'ix) octad_env \<Rightarrow> ('f, 'd, 'ix) octad_store \<Rightarrow> ('f, 'd) os_op \<Rightarrow> bool" where
  "logged_ok env st (OCreate e t now inst i) \<longleftrightarrow> fresh_write e t st \<and> map_of (octads st) e = None
     \<and> vs_hist (temporal_st st) e = [] \<and> log_takes env Insert e now (intent_bytes env i) st \<and> json_roundtrip env i"
| "logged_ok env st (OUpdate e t now inst i) \<longleftrightarrow> fresh_write e t st
     \<and> log_takes env Update e now (intent_bytes env i) st \<and> json_roundtrip env i"
| "logged_ok env st (ODelete e t now inst) \<longleftrightarrow> fresh_write e t st \<and> log_takes env Delete e now [] st"

lemma recorded_logged:
  assumes "recorded env st" "log_takes env op e now bytes st"
  obtains log where "logged env 3 st log" "\<And>e. agrees env (replay_scan_of log) st e"
  using assms by (auto simp: recorded_def log_takes_def logged_def)

lemma recordedI: "octad_inv env st \<Longrightarrow> logged env k st log \<Longrightarrow> (\<And>e. agrees env (replay_scan_of log) st e) \<Longrightarrow> recorded env st"
  unfolding recorded_def logged_def by fastforce

lemma agrees_other:
  "agrees env rs st j \<Longrightarrow> only_at e st st' \<Longrightarrow> j \<noteq> e \<Longrightarrow> agrees env rs st' j"
  unfolding agrees_def only_at_def by (metis ev_status_entity ev_versions_entity)

text \<open>The log after the intent of a write, and after its completion.\<close>

lemma wal_intent_entry: "wal_intent env op e i now clk st = os_wal_append (e_wal env) op e (intent_bytes env i) now clk st"
  by (simp add: wal_intent_def intent_bytes_def)

lemma logged_write:
  assumes "logged env 3 st log" "log_takes env op e now bytes st"
  obtains n where "logged env 2 (os_wal_append (e_wal env) op e bytes (now 1) clk st) (log @ [log_entry op e bytes (now 1)\<lparr>sequence := n\<rparr>])"
  using logged_append [of env 2 st log op e bytes "now 1" clk] assms by (auto simp: log_takes_def numeral_3_eq_3 numeral_2_eq_2)

lemma replay_scan_append: "replay_scan_of (log @ es) = fold replay_entry es (replay_scan_of log)"
  by (simp add: replay_scan_of_def)

lemma recorded_failed:
  assumes "logged env 3 st log" "\<And>j. agrees env (replay_scan_of log) st j" "log_takes env op e now bytes st"
    and "octad_inv env st'" "only_at e st st'" "octads st' = octads st" "temporal_st st' = temporal_st st"
    and "wal st' = wal (os_wal_append (e_wal env) op e bytes (now 1) clk st)" "op = Insert \<or> op = Update"
    and "op = Insert \<Longrightarrow> vs_hist (temporal_st st) e = [] \<and> map_of (octads st) e = None"
    and "op = Update \<Longrightarrow> map_of (octads st) e \<noteq> None \<and> e_from_json env bytes \<noteq> None"
  shows "recorded env st'"
proof -
  let ?en = "\<lambda>n. log_entry op e bytes (now 1)\<lparr>sequence := n\<rparr>"
  obtain n where "logged env 2 (os_wal_append (e_wal env) op e bytes (now 1) clk st) (log @ [?en n])"
    by (rule logged_write [OF assms(1,3)])
  then have "logged env 2 st' (log @ [?en n])" using logged_wal [OF assms(8)] by blast
  then show ?thesis
  proof (rule recordedI [OF assms(4)])
    fix j
    let ?rs = "replay_scan_of log"
    show "agrees env (replay_scan_of (log @ [?en n])) st' j"
    proof (cases "j = e")
      case True
      have ag: "agrees env ?rs st e" by (rule assms(2))
      have ops: "map_of (rp_ops (replay_entry (?en n) ?rs)) e = Some (op, bytes)" using assms(9) by auto
      have com: "rp_committed (replay_entry (?en n) ?rs) = rp_committed ?rs" using assms(9) by auto
      have "recoverable env (replay_entry (?en n) ?rs) e \<longleftrightarrow> map_of (octads st) e \<noteq> None"
      proof (cases "op = Insert")
        case True
        with assms(10) ag have "e \<notin> set (rp_committed ?rs)" by (auto simp: agrees_def)
        with assms(10) True show ?thesis by (simp add: recoverable_def com)
      next
        case False
        with assms(9,11) have reg: "map_of (octads st) e \<noteq> None" "e_from_json env bytes \<noteq> None" "op = Update" by auto
        with ag have "e \<in> set (rp_committed ?rs)" by (simp add: agrees_def recoverable_def)
        with reg show ?thesis by (simp add: recoverable_def com recovered_status_def ops)
      qed
      with ag show ?thesis unfolding True replay_scan_snoc agrees_def com assms(6,7) by blast
    next
      case False
      have "agrees env (replay_scan_of (log @ [?en n])) st j"
        using assms(2) [of j] False assms(9) by (auto simp: agrees_def replay_scan_snoc)
      then show ?thesis by (rule agrees_other [OF _ assms(5) False])
    qed
  qed
qed

lemma recorded_done:
  assumes "logged env 3 st log" "\<And>j. agrees env (replay_scan_of log) st j" "log_takes env op e now bytes st"
    and "octad_inv env st'" "only_at e st st'" "\<exists>st1. wal st1 = wal (os_wal_append (e_wal env) op e bytes (now 1) clk st)
      \<and> wal st' = wal (wal_committed env e now inst st1)"
    and "op \<noteq> Checkpoint" "vs_hist (temporal_st st') e \<noteq> []"
    and "(op = Delete \<and> map_of (octads st') e = None)
      \<or> (op \<noteq> Delete \<and> e_from_json env bytes \<noteq> None \<and> map_of (octads st') e \<noteq> None)"
  obtains log' where "logged env 0 st' log'" "\<And>j. agrees env (replay_scan_of log') st' j"
    and "map_of (rp_ops (replay_scan_of log')) e = Some (op, bytes)"
proof -
  let ?en = "\<lambda>n. log_entry op e bytes (now 1)\<lparr>sequence := n\<rparr>"
  let ?mark = "\<lambda>n. log_entry Checkpoint e committed_mark (now 16)\<lparr>sequence := n\<rparr>"
  let ?cp = "\<lambda>n. (checkpoint_entry (now 17))\<lparr>sequence := n\<rparr>"
  obtain n where one: "logged env 2 (os_wal_append (e_wal env) op e bytes (now 1) clk st) (log @ [?en n])"
    by (rule logged_write [OF assms(1,3)])
  from assms(6) obtain st1 where st1: "wal st1 = wal (os_wal_append (e_wal env) op e bytes (now 1) clk st)"
    "wal st' = wal (wal_committed env e now inst st1)" by blast
  have "logged env (Suc (Suc 0)) st1 (log @ [?en n])"
    using one logged_wal [OF st1(1)] by (simp add: numeral_2_eq_2)
  then obtain n' n'' where "logged env 0 (wal_committed env e now inst st1) ((log @ [?en n]) @ [?mark n', ?cp n''])"
    by (rule logged_committed [where now = now and e = e and inst = inst]) (use assms(3) in \<open>auto simp: log_takes_def\<close>)
  then have log': "logged env 0 st' ((log @ [?en n]) @ [?mark n', ?cp n''])" using logged_wal [OF st1(2)] by blast
  let ?rs = "replay_scan_of log"
  let ?rs' = "replay_entry (?cp n'') (replay_entry (?mark n') (replay_entry (?en n) ?rs))"
  have rs': "replay_scan_of ((log @ [?en n]) @ [?mark n', ?cp n'']) = ?rs'"
    by (simp add: replay_scan_append)
  have ops: "map_of (rp_ops ?rs') e = Some (op, bytes)" using assms(7) by simp
  have here: "agrees env ?rs' st' e"
    using assms(7,8,9) unfolding agrees_def recoverable_def recovered_status_def ops
    by (cases op) auto
  show ?thesis
  proof (rule that [OF log'])
    show "map_of (rp_ops (replay_scan_of ((log @ [?en n]) @ [?mark n', ?cp n'']))) e = Some (op, bytes)"
      unfolding rs' by (rule ops)
    fix j
    show "agrees env (replay_scan_of ((log @ [?en n]) @ [?mark n', ?cp n''])) st' j"
    proof (cases "j = e")
      case False
      then have "agrees env ?rs' st j" using assms(2) [of j] assms(7) by (auto simp: agrees_def)
      then show ?thesis unfolding rs' by (rule agrees_other [OF _ assms(5) False])
    qed (use here in \<open>simp only: rs'\<close>)
  qed
qed

lemma json_roundtrip_bytes: "json_roundtrip env i \<Longrightarrow> e_from_json env (intent_bytes env i) = Some i"
  by (auto simp: json_roundtrip_def intent_bytes_def)

lemma recorded_inv: "recorded env st \<Longrightarrow> octad_inv env st"
  by (simp add: recorded_def)

lemma registered_view: "ev_status (entity_of e st) = Some s \<Longrightarrow> map_of (octads st) e = Some s"
  by (simp add: ev_status_entity)

lemma recorded_create:
  assumes "recorded env st" "logged_ok env st (OCreate e t now inst i)"
  shows "recorded env (snd (os_create env e t now inst i st))"
proof -
  note inv = recorded_inv [OF assms(1)]
  have ok: "tm_unused t (txns st)" "length (vs_hist (temporal_st st) e) < 2 ^ 64 - 1" "map_of (octads st) e = None"
    "vs_hist (temporal_st st) e = []" "log_takes env Insert e now (intent_bytes env i) st" "json_roundtrip env i"
    using assms(2) by (auto simp: fresh_write_def)
  obtain log where log: "logged env 3 st log" "\<And>j. agrees env (replay_scan_of log) st j"
    using recorded_logged [OF assms(1) ok(5)] by blast
  obtain r st' where cr: "os_create env e t now inst i st = (r, st')" by fastforce
  have "recorded env st'"
  proof (cases r)
    case (Inl err)
    note f = os_create_failed [OF inv ok(1,3) cr [unfolded Inl]]
    show ?thesis
      by (rule recorded_failed [OF log ok(5) f(3,1,2,4) f(5) [unfolded wal_intent_entry]]) (simp_all add: ok)
  next
    case (Inr oc)
    note s = os_create_ok [OF inv ok(1,2) cr [unfolded Inr]]
    have view: "vs_hist (temporal_st st') e \<noteq> []" "map_of (octads st') e \<noteq> None"
      using arg_cong [OF s(2), of ev_versions] arg_cong [OF s(2), of ev_status]
      by (simp_all add: ev_versions_entity ev_status_entity created_view_def finish_view_def Let_def)
    obtain log' where "logged env 0 st' log'" "\<And>j. agrees env (replay_scan_of log') st' j"
      by (rule recorded_done [OF log ok(5) s(3,1) s(5) [unfolded wal_intent_entry]])
        (simp_all add: view json_roundtrip_bytes [OF ok(6)])
    then show ?thesis by (rule recordedI [OF s(3)])
  qed
  then show ?thesis by (simp add: cr)
qed

lemma recorded_update:
  assumes "recorded env st" "logged_ok env st (OUpdate e t now inst i)"
  shows "recorded env (snd (os_update env e t now inst i st))"
proof (cases "map_of (octads st) e")
  case None
  then show ?thesis using assms(1) by (simp add: os_update_def)
next
  case (Some old)
  note inv = recorded_inv [OF assms(1)]
  have ok: "tm_unused t (txns st)" "length (vs_hist (temporal_st st) e) < 2 ^ 64 - 1"
    "log_takes env Update e now (intent_bytes env i) st" "json_roundtrip env i"
    using assms(2) by (auto simp: fresh_write_def)
  obtain log where log: "logged env 3 st log" "\<And>j. agrees env (replay_scan_of log) st j"
    using recorded_logged [OF assms(1) ok(3)] by blast
  obtain r st' where upd: "update_existing env old e t now inst i st = (r, st')" by fastforce
  have "recorded env st'"
  proof (cases r)
    case (Inl err)
    note f = update_existing_failed [OF inv ok(1) Some upd [unfolded Inl]]
    show ?thesis
      by (rule recorded_failed [OF log ok(3) f(3,1,2,4) f(5) [unfolded wal_intent_entry]])
        (simp_all add: Some json_roundtrip_bytes [OF ok(4)])
  next
    case (Inr oc)
    note s = update_existing_ok [OF inv ok(1,2) upd [unfolded Inr]]
    have view: "vs_hist (temporal_st st') e \<noteq> []" "map_of (octads st') e \<noteq> None"
      using arg_cong [OF s(2), of ev_versions] arg_cong [OF s(2), of ev_status]
      by (simp_all add: ev_versions_entity ev_status_entity updated_view_def finish_view_def Let_def)
    obtain log' where "logged env 0 st' log'" "\<And>j. agrees env (replay_scan_of log') st' j"
      by (rule recorded_done [OF log ok(3) s(3) [OF Some] s(1) s(5) [unfolded wal_intent_entry]])
        (simp_all add: view json_roundtrip_bytes [OF ok(4)])
    then show ?thesis by (rule recordedI [OF s(3) [OF Some]])
  qed
  then show ?thesis by (simp add: os_update_def Some upd)
qed

lemma recorded_delete:
  assumes "recorded env st" "logged_ok env st (ODelete e t now inst)"
  shows "recorded env (snd (os_delete env e t now inst st))"
proof (cases "map_of (octads st) e")
  case None
  then show ?thesis using assms(1) by (simp add: os_delete_def)
next
  case (Some old)
  note inv = recorded_inv [OF assms(1)]
  have ok: "tm_unused t (txns st)" "log_takes env Delete e now [] st" using assms(2) by (auto simp: fresh_write_def)
  obtain log where log: "logged env 3 st log" "\<And>j. agrees env (replay_scan_of log) st j"
    using recorded_logged [OF assms(1) ok(2)] by blast
  have "tm_idle (txns st)" using inv by (simp add: octad_inv_def)
  then obtain st' where st': "delete_existing env old e t now inst st = (Inr (), st')" "only_at e st st'"
      "entity_of e st' = deleted_view (entity_of e st)" "octads st' = AList.delete e (octads st)"
      "temporal_st st' = temporal_st st"
      "\<exists>st1. wal st1 = wal (os_wal_append (e_wal env) Delete e [] (now 1) (inst 0) st) \<and> wal st' = wal (wal_committed env e now inst st1)"
    by (rule delete_existing_ok [OF _ ok(1)])
  have del: "os_delete env e t now inst st = (Inr (), st')" by (simp add: os_delete_def Some st'(1))
  have inv': "octad_inv env st'" using os_delete_inv(1) [OF inv ok(1), of e now inst] by (simp add: del)
  have "vs_hist (temporal_st st) e \<noteq> []"
    using inv Some by (auto simp: octad_inv_def status_ok_def ev_status_entity ev_versions_entity)
  with st'(5) have hist: "vs_hist (temporal_st st') e \<noteq> []" by simp
  obtain log' where "logged env 0 st' log'" "\<And>j. agrees env (replay_scan_of log') st' j"
    by (rule recorded_done [OF log ok(2) inv' st'(2,6) _ hist]) (simp_all add: st'(4))
  then show ?thesis unfolding del by (simp add: recordedI [OF inv'])
qed

interpretation recorded_run: step_system "os_step env" "logged_ok env" "recorded env"
proof unfold_locales
  fix st op
  assume "recorded env st" "logged_ok env st op"
  then show "recorded env (os_step env st op)"
    by (cases op) (simp_all only: os_step.simps recorded_create recorded_update recorded_delete)
qed

section \<open>Recovery after a crash\<close>

lemma recorded_start:
  assumes "with_wal env name None Fsync t (os_empty cfg metric ix) = Inr st"
  shows "recorded env st"
proof -
  obtain w where w: "open_with_max_size name None Fsync default_max_segment_size t = Inr w" "next_sequence w = 1"
    by (rule that [OF wal_inv_fresh(1)]) simp
  with assms have st: "st = os_empty cfg metric ix\<lparr>wal := Some w\<rparr>" by (simp add: with_wal_def wal_open_def)
  have "fsynced (e_wal env) (w, [])"
    using fsynced_fresh [of "e_wal env" name default_max_segment_size t] by (simp add: wal_fresh_def w)
  then have "logged env 0 st []" by (simp add: st logged_def w)
  moreover have "agrees env (replay_scan_of []) st e" for e
    by (simp add: agrees_def recoverable_def replay_scan_of_def st os_empty_def octad_store_new_def)
  moreover have "entity_of e st = entity_of e (os_empty cfg metric ix)" for e by (simp add: st)
  then have "octad_inv env st"
    using octad_inv_empty [of env cfg metric ix] by (simp add: octad_inv_def st)
  ultimately show ?thesis by (intro recordedI)
qed

lemma recorded_replay:
  assumes "logged env k st log" "wal st = Some w" "crash_image (files w) fs'" "octads fresh = []"
  obtains n st' where "replay_wal env t now clk d (Some fs') fresh = (Inr n, st')"
    and "\<And>e. os_status e st' \<noteq> None \<longleftrightarrow> recoverable env (replay_scan_of log) e"
    and "\<And>e. \<exists>t. os_status e st' \<noteq> None \<longrightarrow> os_status e st' = recovered_status env e t (replay_scan_of log)"
proof -
  have "fsynced (e_wal env) (w, log)" using assms(1,2) by (auto simp: logged_def)
  from fsynced_replay [OF this assms(3)]
  have "replay_all (e_wal env) t d (Some fs') = Inr \<lparr>entries = map on_disk log, position = 0\<rparr>" .
  then obtain n st' where st': "replay_wal env t now clk d (Some fs') fresh = (Inr n, st')"
    "\<And>e. e \<in> set (rp_committed (replay_scan_of log)) \<Longrightarrow> \<exists>t. os_status e st' = recovered_status env e t (replay_scan_of log)"
    "\<And>e. e \<notin> set (rp_committed (replay_scan_of log)) \<Longrightarrow> os_status e st' = None"
    by (rule replay_wal_status [OF _ assms(4)]) blast
  show ?thesis
  proof (rule that [OF st'(1)])
    fix e
    show "os_status e st' \<noteq> None \<longleftrightarrow> recoverable env (replay_scan_of log) e"
      using st'(2,3) [of e] recovered_status_None unfolding recoverable_def by metis
    show "\<exists>t. os_status e st' \<noteq> None \<longrightarrow> os_status e st' = recovered_status env e t (replay_scan_of log)"
      using st'(2,3) [of e] by blast
  qed
qed


text \<open>
  a delete that was only announced is carried out: when the crash comes after the delete is logged and
  before it does anything, the replay drops the entity, although all its data is still there.
\<close>

theorem unfinished_delete_is_replayed:
  assumes "with_wal env name None Fsync t (os_empty cfg metric ix) = Inr st0"
    and "run_ok (os_step env) (logged_ok env) st0 ops" "st = run (os_step env) st0 ops" "os_status e st \<noteq> None"
    and "log_takes env Delete e nw [] st" "st1 = os_wal_append (e_wal env) Delete e [] (nw 1) c st"
    and "wal st1 = Some w" "crash_image (files w) fs'" "octads fresh = []"
  shows "entity_of e st1 = entity_of e st
    \<and> (\<exists>n st'. replay_wal env now nows clk d (Some fs') fresh = (Inr n, st') \<and> os_status e st' = None)"
proof -
  have rec: "recorded env st"
    unfolding assms(3) by (rule recorded_run.run_inv [OF recorded_start [OF assms(1)] assms(2)])
  obtain log where log: "logged env 3 st log" by (rule recorded_logged [OF rec assms(5)])
  obtain m where log1: "logged env 2 st1 (log @ [log_entry Delete e [] (nw 1)\<lparr>sequence := m\<rparr>])"
    unfolding assms(6) by (rule logged_write [OF log assms(5)])
  obtain n st' where replay: "replay_wal env now nows clk d (Some fs') fresh = (Inr n, st')"
    "os_status e st' \<noteq> None \<longleftrightarrow> recoverable env (replay_scan_of (log @ [log_entry Delete e [] (nw 1)\<lparr>sequence := m\<rparr>])) e"
    by (rule recorded_replay [OF log1 assms(7-9)]) blast
  have "\<not> recoverable env (replay_scan_of (log @ [log_entry Delete e [] (nw 1)\<lparr>sequence := m\<rparr>])) e"
    by (simp add: replay_scan_snoc recoverable_def recovered_status_def)
  with replay show ?thesis by (auto simp: assms(6))
qed

text \<open>
  recovery knows the last write only: after an update without a vector, the entity has its old vector and
  the answer of the update says so; after a crash and a replay its status has the modalities of the last
  input and version 1, so the vector is not read any more.
\<close>

theorem recovery_keeps_last_input_only:
  assumes "with_wal env name None Fsync t (os_empty cfg metric ix) = Inr st0"
    and "run_ok (os_step env) (logged_ok env) st0 (ops @ [OUpdate e u nw inst i])" "st = run (os_step env) st0 ops"
    and "os_update env e u nw inst i st = (Inr oc, st1)" "ms_vector (os_modalities (oc_status oc))" "in_vector i = None"
    and "wal st1 = Some w" "crash_image (files w) fs'" "octads fresh = []"
  shows "os_status e st1 = Some (oc_status oc)
    \<and> (\<exists>n st' s. replay_wal env now nows clk d (Some fs') fresh = (Inr n, st') \<and> os_status e st' = Some s
         \<and> os_modalities s = input_modalities i \<and> \<not> ms_vector (os_modalities s) \<and> os_version s = 1)"
proof -
  have run: "run_ok (os_step env) (logged_ok env) st0 ops" and last: "logged_ok env st (OUpdate e u nw inst i)"
    using assms(2,3) by (simp_all add: run_ok_append)
  have rec: "recorded env st"
    unfolding assms(3) by (rule recorded_run.run_inv [OF recorded_start [OF assms(1)] run])
  note inv = recorded_inv [OF rec]
  have ok: "tm_unused u (txns st)" "length (vs_hist (temporal_st st) e) < 2 ^ 64 - 1"
    "log_takes env Update e nw (intent_bytes env i) st" "json_roundtrip env i"
    using last by (auto simp: fresh_write_def)
  obtain old where old: "map_of (octads st) e = Some old" "update_existing env old e u nw inst i st = (Inr oc, st1)"
    using assms(4) by (auto simp: os_update_def split: option.splits)
  note s = update_existing_ok [OF inv ok(1,2) old(2)]
  have hist: "vs_hist (temporal_st st1) e \<noteq> []" and reg: "map_of (octads st1) e = Some (oc_status oc)"
    using arg_cong [OF s(2), of ev_versions] arg_cong [OF s(2), of ev_status] s(4)
    by (simp_all add: ev_versions_entity ev_status_entity updated_view_def finish_view_def Let_def returned_def)
  obtain log where log: "logged env 3 st log" "\<And>j. agrees env (replay_scan_of log) st j"
    using recorded_logged [OF rec ok(3)] by blast
  obtain log' where log': "logged env 0 st1 log'" "\<And>j. agrees env (replay_scan_of log') st1 j"
    "map_of (rp_ops (replay_scan_of log')) e = Some (Update, intent_bytes env i)"
    by (rule recorded_done [OF log ok(3) s(3) [OF old(1)] s(1) s(5) [unfolded wal_intent_entry] _ hist])
      (simp_all add: reg json_roundtrip_bytes [OF ok(4)])
  obtain n st' where replay: "replay_wal env now nows clk d (Some fs') fresh = (Inr n, st')"
    "\<And>e. os_status e st' \<noteq> None \<longleftrightarrow> recoverable env (replay_scan_of log') e"
    "\<And>e. \<exists>t. os_status e st' \<noteq> None \<longrightarrow> os_status e st' = recovered_status env e t (replay_scan_of log')"
    by (rule recorded_replay [OF log'(1) assms(7-9)]) blast
  have "os_status e st' \<noteq> None" using replay(2) [of e] log'(2) [of e] reg by (simp add: agrees_def)
  with replay(3) [of e] obtain tm where "os_status e st' = recovered_status env e tm (replay_scan_of log')" by blast
  then obtain s' where s': "os_status e st' = Some s'" "os_modalities s' = input_modalities i" "os_version s' = 1"
    by (simp add: recovered_status_def log'(3) json_roundtrip_bytes [OF ok(4)])
  moreover have "\<not> ms_vector (input_modalities i)" using assms(6) by (simp add: input_modalities_def)
  ultimately show ?thesis using replay(1) reg by (auto simp: os_status_def)
qed

text \<open>A create uses the identifier of its own transaction only.\<close>

lemma write_modalities_unused:
  assumes "s \<noteq> t" "\<And>ms st. txns (undo ms st) = snd (tm_rollback t now' (txns st))"
  shows "tm_unused s (txns st) \<Longrightarrow> tm_unused s (txns (snd (snd (write_modalities env undo t e v now i (ms, st)))))"
proof -
  let ?Q = "\<lambda>ms st. tm_unused s (txns st)"
  have one: "guarded undo ?Q (write_one undo t e v nw m flag proc inp)" if "implements e eff out proc" for nw m flag proc inp eff out
  proof (rule guarded_one)
    fix ms st i x st1 assume "tm_unused s (txns st)" "proc i st = (Inr x, st1)"
    then show "tm_unused s (txns (os_record_undo t e m v nw st1))"
      using implementsD(1) [OF that] by (simp add: beside_def os_record_undo_def tm_unused_ops(5) assms(1))
  next
    fix ms st i err st1 assume "tm_unused s (txns st)" "proc i st = (Inl err, st1)"
    then show "tm_unused s (txns st1)" using implementsD(1) [OF that] by (simp add: beside_def)
  qed
  have g: "guarded undo ?Q (write_modalities env undo t e v now i)"
    unfolding write_modalities_def
    by (intro guarded_bind guarded_return one [OF process_graph_implements] one [OF process_vector_implements]
        one [OF process_document_implements] one [OF process_tensor_implements] one [OF process_semantic_implements]
        one [OF process_provenance_implements] one [OF process_spatial_implements])
  assume unused: "tm_unused s (txns st)"
  obtain r ms' st' where wm: "write_modalities env undo t e v now i (ms, st) = (r, ms', st')" by (metis prod.exhaust)
  from g [unfolded guarded_def, rule_format, OF unused wm]
  show "tm_unused s (txns (snd (snd (write_modalities env undo t e v now i (ms, st)))))"
    by (auto simp: wm assms(2) tm_unused_ops(3) [OF assms(1)] split: if_splits)
qed

lemma write_octad_unused:
  assumes "write_octad env undo cundo e t now inst i ms0 pv msg fin mkst mko st = (Inr oc, st')"
    and "s \<noteq> t" "\<And>ms st. txns (undo ms st) = snd (tm_rollback t now' (txns st))" "tm_unused s (txns st)"
  shows "tm_unused s (txns st')"
proof -
  obtain w ms st1 where wm: "write_modalities env undo t e pv now i (ms0, st) = (Inr w, ms, st1)"
    using assms(1) by (cases "write_modalities env undo t e pv now i (ms0, st)") (auto simp: write_octad_def split: sum.splits)
  have unused: "tm_unused s (txns st1)"
    using write_modalities_unused [where undo = undo, OF assms(2,3,4), of env e pv now i ms0] by (simp add: wm)
  obtain n tp where app: "vs_append (now 14) e (create_snapshot e i ms (now 13)) ''system'' (Some msg) (temporal_st st1) = (Inr n, tp)"
    using vs_append_Inr [of "now 14" e "create_snapshot e i ms (now 13)" "''system''" "Some msg" "temporal_st st1"]
    by (metis prod.collapse)
  obtain st2 where com: "os_commit env [] t (now 15) (st1\<lparr>temporal_st := tp\<rparr>) = (Inr (), st2)" "txns st' = txns st2"
    using assms(1) unfolding write_octad_def wm by (auto simp: app split: prod.splits sum.splits)
  have "tm_unused s (txns (snd (os_commit env [] t (now 15) (st1\<lparr>temporal_st := tp\<rparr>))))"
    using tm_unused_ops(2) [OF assms(2) unused, of "now 15"] by (auto simp: os_commit_def split: prod.splits sum.splits)
  with com show ?thesis by simp
qed

lemma os_create_unused:
  assumes "octad_inv env st" "s \<noteq> t" "tm_unused t (txns st)" "tm_unused s (txns st)"
    and "os_create env e t now inst i st = (Inr oc, st')"
  shows "tm_unused s (txns st')"
proof -
  obtain tm where tm: "spares t (txns st) tm" and eq: "os_create env e t now inst i st =
    write_octad env (\<lambda>ms st. os_rollback t (now 3) (rollback_create env e ms st)) (rollback_create env e) e t now inst i
      modality_status_default 0 ''Initial creation'' (ms_temporal_update (\<lambda>_. True)) (created_status now i e)
      (\<lambda>n ms. returned e (created_status now i e n ms) 1)
      ((wal_intent env Insert e i (now 1) (inst 0) st)\<lparr>txns := tm\<rparr>)"
    using os_create_write [of st t env e now inst i] assms(1,3) by (auto simp: octad_inv_def)
  show ?thesis
    by (rule write_octad_unused [OF assms(5) [unfolded eq] assms(2)])
      (use tm assms(2,4) in \<open>simp_all add: os_rollback_def spares_def\<close>)
qed

text \<open>An instance: JSON for two inputs, a store with a log, one entity created.\<close>

definition ex_logged_env :: "(int, int, unit) octad_env" where
  "ex_logged_env = ex_octad_env\<lparr>e_to_json := \<lambda>i. Some (if in_vector i = None then [1] else [2]),
     e_from_json := \<lambda>bs. Some (if bs = [1] then ex_note else ex_octad_input)\<rparr>"

definition ex_logged :: "(int, int, unit) octad_store" where
  "ex_logged = (case with_wal ex_logged_env ''w'' None Fsync 0
     (os_empty (octad_config_default\<lparr>vector_dimension := 2\<rparr>) DotProduct ()) of Inr st \<Rightarrow> st | Inl _ \<Rightarrow> ex_octads)"

lemma ex_logged_open:
  "with_wal ex_logged_env ''w'' None Fsync 0 (os_empty (octad_config_default\<lparr>vector_dimension := 2\<rparr>) DotProduct ())
     = Inr ex_logged"
  by (simp add: ex_logged_def with_wal_def wal_open_def wal_inv_fresh(1))

lemma ex_logged_sel:
  "octads ex_logged = []" "txns ex_logged = tm_new" "temporal_st ex_logged = []"
  "vec_dimension (vector_st ex_logged) = 2" "vector_dimension (config ex_logged) = 2"
  "\<exists>w. wal ex_logged = Some w \<and> next_sequence w = 1"
  by (simp_all add: ex_logged_def with_wal_def wal_open_def wal_inv_fresh(1) os_empty_def octad_store_new_def vector_store_new_def)

lemma ex_fits_log: "length bytes \<le> 1000 \<Longrightarrow> 0 \<le> now \<Longrightarrow> now \<le> 100 \<Longrightarrow> fits_log ex_logged_env (log_entry op ''a'' bytes now)"
  "0 \<le> now \<Longrightarrow> now \<le> 100 \<Longrightarrow> fits_log ex_logged_env (checkpoint_entry now)"
proof -
  have "valid_utf8 (str_bytes ''a'')" by code_simp
  moreover have "timestamp_millis now = 0" if "0 \<le> now" "now \<le> 100" for now
    using that by (simp add: timestamp_millis_def)
  moreover have "millis_in_range (e_wal ex_logged_env) 0" by (simp add: ex_logged_env_def ex_octad_env_def)
  ultimately show "length bytes \<le> 1000 \<Longrightarrow> 0 \<le> now \<Longrightarrow> now \<le> 100 \<Longrightarrow> fits_log ex_logged_env (log_entry op ''a'' bytes now)"
    "0 \<le> now \<Longrightarrow> now \<le> 100 \<Longrightarrow> fits_log ex_logged_env (checkpoint_entry now)"
    by (simp_all add: fits_log_def readable_def wf_entry_def length_inner_bytes unat_max_entry_size log_entry_def checkpoint_entry_def)
qed

lemma ex_json: "json_roundtrip ex_logged_env ex_note" "json_roundtrip ex_logged_env ex_octad_input"
  "length (intent_bytes ex_logged_env i) \<le> 1000"
  by (simp_all add: json_roundtrip_def intent_bytes_def ex_logged_env_def ex_note_def ex_octad_input_def with_document_def
      with_embedding_def octad_input_default_def)

lemma ex_log_takes:
  assumes "\<forall>w. wal st = Some w \<longrightarrow> unat (next_sequence w) \<le> 100" "length bytes \<le> 1000" "0 \<le> now" "now \<le> 100"
  shows "log_takes ex_logged_env op ''a'' (\<lambda>_. now) bytes st"
  using assms by (fastforce simp: log_takes_def ex_fits_log committed_mark_def)

abbreviation ex_create_op :: "(int, int) os_op" where
  "ex_create_op \<equiv> OCreate ''a'' 1 (\<lambda>_. 5) (\<lambda>_ _. 0) ex_octad_input"

lemma ex_logged_run: "run_ok (os_step ex_logged_env) (logged_ok ex_logged_env) ex_logged [ex_create_op]"
proof -
  obtain w where w: "wal ex_logged = Some w" "next_sequence w = 1" using ex_logged_sel(6) by blast
  then have "log_takes ex_logged_env Insert ''a'' (\<lambda>_. 5) (intent_bytes ex_logged_env ex_octad_input) ex_logged"
    by (intro ex_log_takes) (simp_all add: ex_json)
  then show ?thesis by (simp add: ex_logged_sel fresh_write_def ex_json)
qed

definition ex_logged1 :: "(int, int, unit) octad_store" where
  "ex_logged1 = os_step ex_logged_env ex_logged ex_create_op"

lemma ex_logged1_recorded: "recorded ex_logged_env ex_logged1"
  using recorded_run.run_inv [OF recorded_start [OF ex_logged_open] ex_logged_run] by (simp add: ex_logged1_def)

lemma ex_index_works_logged: "index_works (e_ft ex_logged_env)"
  using ex_index_works by (simp add: ex_logged_env_def)

lemma ex_logged_inv: "octad_inv ex_logged_env ex_logged"
  by (rule recorded_inv [OF recorded_start [OF ex_logged_open]])

lemma ex_logged1_created:
  obtains oc where "os_create ex_logged_env ''a'' 1 (\<lambda>_. 5) (\<lambda>_ _. 0) ex_octad_input ex_logged = (Inr oc, ex_logged1)"
proof -
  have "tm_unused 1 (txns ex_logged)" "valid_input ex_logged_env ex_logged ''a'' (\<lambda>_. 5) ex_octad_input"
    by (simp_all add: ex_logged_sel ex_input_valid)
  from writes_succeed(1) [OF ex_logged_inv this(1) ex_index_works_logged this(2), where inst = "\<lambda>_ _. 0"]
  obtain oc st' where created: "os_create ex_logged_env ''a'' 1 (\<lambda>_. 5) (\<lambda>_ _. 0) ex_octad_input ex_logged = (Inr oc, st')" by blast
  then have "st' = ex_logged1" by (simp add: ex_logged1_def)
  with created that show ?thesis by blast
qed

lemma ex_logged1_sel:
  "map_option (ms_vector \<circ> os_modalities) (os_status ''a'' ex_logged1) = Some True" "tm_unused 2 (txns ex_logged1)"
  "length (vs_hist (temporal_st ex_logged1) ''a'') = 1" "\<exists>w. wal ex_logged1 = Some w \<and> next_sequence w = 4"
proof -
  obtain oc where cr: "os_create ex_logged_env ''a'' 1 (\<lambda>_. 5) (\<lambda>_ _. 0) ex_octad_input ex_logged = (Inr oc, ex_logged1)"
    by (rule ex_logged1_created)
  have fresh: "tm_unused 1 (txns ex_logged)" "tm_unused 2 (txns ex_logged)" "length (vs_hist (temporal_st ex_logged) ''a'') < 2 ^ 64 - 1"
    by (simp_all add: ex_logged_sel)
  note ok = os_create_ok [OF ex_logged_inv fresh(1,3) cr]
  have input: "in_vector ex_octad_input \<noteq> None"
    by (simp add: ex_octad_input_def with_document_def with_embedding_def)
  show "map_option (ms_vector \<circ> os_modalities) (os_status ''a'' ex_logged1) = Some True"
    using arg_cong [OF ok(2), of ev_status] input
    by (simp add: os_status_def ev_status_entity created_view_def Let_def created_status_def add_modalities_sel)
  show "length (vs_hist (temporal_st ex_logged1) ''a'') = 1"
    using arg_cong [OF ok(2), of ev_versions]
    by (simp add: ev_versions_entity created_view_def Let_def ex_logged_sel)
  show "tm_unused 2 (txns ex_logged1)"
    by (rule os_create_unused [OF ex_logged_inv _ fresh(1,2) cr]) simp
  obtain st1 w where st1: "wal st1 = wal (wal_intent ex_logged_env Insert ''a'' ex_octad_input 5 (\<lambda>_. 0) ex_logged)"
    "wal ex_logged1 = wal (wal_committed ex_logged_env ''a'' (\<lambda>_. 5) (\<lambda>_ _. 0) st1)"
    "wal ex_logged = Some w" "next_sequence w = 1" using ok(5) ex_logged_sel(6) by auto
  then show "\<exists>w. wal ex_logged1 = Some w \<and> next_sequence w = 4"
    by (simp add: wal_committed_def wal_intent_def os_wal_append_def os_wal_checkpoint_def checkpoint_def split_beta)
qed

lemma crash_nothing: "logged env k st log \<Longrightarrow> wal st = Some w \<Longrightarrow> crash_image (files w) (files w)"
  by (auto simp: logged_def fsynced_def intro!: crash_image_refl dest: holds_log_durable_le)


theorem unfinished_delete_is_replayed_witness:
  "\<exists>w n st'. replay_wal ex_logged_env 9 (\<lambda>_. 9) (\<lambda>_. 0) ''w'' (Some (files w)) ex_octads = (Inr n, st')
    \<and> wal (os_wal_append (e_wal ex_logged_env) Delete ''a'' [] 7 (\<lambda>_. 0) ex_logged1) = Some w \<and> os_status ''a'' st' = None"
proof -
  obtain w1 where w1: "wal ex_logged1 = Some w1" "next_sequence w1 = 4" using ex_logged1_sel(4) by blast
  then have takes: "log_takes ex_logged_env Delete ''a'' (\<lambda>_. 7) [] ex_logged1" by (intro ex_log_takes) simp_all
  have st: "ex_logged1 = run (os_step ex_logged_env) ex_logged [ex_create_op]" by (simp add: ex_logged1_def)
  have reg: "os_status ''a'' ex_logged1 \<noteq> None" using ex_logged1_sel(1) by auto
  obtain log where "logged ex_logged_env 3 ex_logged1 log" by (rule recorded_logged [OF ex_logged1_recorded takes])
  then obtain m where "logged ex_logged_env 2 (os_wal_append (e_wal ex_logged_env) Delete ''a'' [] 7 (\<lambda>_. 0) ex_logged1)
      (log @ [log_entry Delete ''a'' [] 7\<lparr>sequence := m\<rparr>])"
    by (rule logged_write [OF _ takes])
  then obtain w where "wal (os_wal_append (e_wal ex_logged_env) Delete ''a'' [] 7 (\<lambda>_. 0) ex_logged1) = Some w"
    "crash_image (files w) (files w)" using crash_nothing by (metis logged_def)
  from unfinished_delete_is_replayed [OF ex_logged_open ex_logged_run st reg takes refl this ex_octads_sel(1),
      where now = 9 and nows = "\<lambda>_. 9" and clk = "\<lambda>_. 0" and d = "''w''"] this(1)
  show ?thesis by blast
qed

theorem recovery_keeps_last_input_only_witness:
  "\<exists>w n st' s. replay_wal ex_logged_env 9 (\<lambda>_. 9) (\<lambda>_. 0) ''w'' (Some (files w)) ex_octads = (Inr n, st')
    \<and> wal (snd (os_update ex_logged_env ''a'' 2 (\<lambda>_. 6) (\<lambda>_ _. 0) ex_note ex_logged1)) = Some w
    \<and> os_status ''a'' st' = Some s \<and> \<not> ms_vector (os_modalities s) \<and> os_version s = 1"
proof -
  let ?op = "OUpdate ''a'' 2 (\<lambda>_. 6) (\<lambda>_ _. 0) ex_note"
  have reg: "os_status ''a'' ex_logged1 \<noteq> None" using ex_logged1_sel(1) by auto
  obtain w1 where w1: "wal ex_logged1 = Some w1" "next_sequence w1 = 4" using ex_logged1_sel(4) by blast
  then have "log_takes ex_logged_env Update ''a'' (\<lambda>_. 6) (intent_bytes ex_logged_env ex_note) ex_logged1"
    by (intro ex_log_takes) (simp_all add: ex_json)
  then have last: "logged_ok ex_logged_env ex_logged1 ?op"
    by (simp add: fresh_write_def ex_logged1_sel ex_json)
  then have run: "run_ok (os_step ex_logged_env) (logged_ok ex_logged_env) ex_logged ([ex_create_op] @ [?op])"
    using ex_logged_run by (simp add: run_ok_append ex_logged1_def)
  have st: "ex_logged1 = run (os_step ex_logged_env) ex_logged [ex_create_op]" by (simp add: ex_logged1_def)
  obtain oc st2 where upd: "os_update ex_logged_env ''a'' 2 (\<lambda>_. 6) (\<lambda>_ _. 0) ex_note ex_logged1 = (Inr oc, st2)"
    using writes_succeed(3) [OF recorded_inv [OF ex_logged1_recorded] ex_logged1_sel(2) ex_index_works_logged ex_note_valid reg] by blast
  then obtain old where old: "os_status ''a'' ex_logged1 = Some old"
    "update_existing ex_logged_env old ''a'' 2 (\<lambda>_. 6) (\<lambda>_ _. 0) ex_note ex_logged1 = (Inr oc, st2)"
    using reg by (auto simp: os_update_def os_status_def split: option.splits)
  have "length (vs_hist (temporal_st ex_logged1) ''a'') < 2 ^ 64 - 1" by (simp add: ex_logged1_sel(3))
  note ok = update_existing_ok [OF recorded_inv [OF ex_logged1_recorded] ex_logged1_sel(2) this old(2)]
  have flag: "ms_vector (os_modalities (oc_status oc))"
    using ok(2,4) old(1) ex_logged1_sel(1)
    by (simp add: returned_def updated_view_def Let_def updated_status_def add_modalities_sel)
  have "recorded ex_logged_env st2" using recorded_update [OF ex_logged1_recorded last] by (simp add: upd)
  then obtain log w where log: "logged ex_logged_env 0 st2 log" "wal st2 = Some w"
    by (auto simp: recorded_def logged_def)
  from recovery_keeps_last_input_only [OF ex_logged_open run st upd flag ex_note_vector log(2) crash_nothing [OF log] ex_octads_sel(1),
      where now = 9 and nows = "\<lambda>_. 9" and clk = "\<lambda>_. 0" and d = "''w''"] log(2) upd
  show ?thesis by auto
qed

end
