(* ===== verification/Circuit.thy ===== *)
theory Circuit
  imports Complex_Main Modality_Store Text
begin

text \<open>
  Custom proof circuits (\<open>circuit_registry.rs\<close>, \<open>circuit_compiler.rs\<close> of \<open>verisim-semantic/src\<close>): the
  compiler from gates to rank-1 constraints, the verifier of an assignment, and the registry of named
  circuits. \<open>'f\<close> stands for \<open>f64\<close>; an index out of range of a vector is a panic, \<open>None\<close>; SHA-256 and the
  JSON text of circuits are parameters. What the compiled constraints accept is compared with what the
  gates mean, on integers that doubles compute exactly.
\<close>

section \<open>Circuits\<close>

datatype circuit_error =
    CircuitNotFound string
  | CircuitExists string
  | CompilationFailed string
  | CircuitVerificationFailed string
  | InvalidWitness string
  | CircuitLockPoisoned

datatype gate_type = And | Or | Xor | Not | LinearCombination

type_synonym 'f linear_terms = "(nat \<times> 'f) list"

record 'f r1cs_constraint =
  rc_a :: "'f linear_terms"
  rc_b :: "'f linear_terms"
  rc_c :: "'f linear_terms"

record 'f circuit_ir =
  ir_name :: string
  num_public_inputs :: nat
  num_witness_wires :: nat
  num_wires :: nat
  constraints :: "'f r1cs_constraint list"
  parameter_map :: "(string \<times> nat) list"

record 'f compiled_circuit =
  cc_ir :: "'f circuit_ir"
  circuit_hash :: string
  verification_key :: "u8 list"

record wire_def =
  wire_name :: string
  is_public :: bool
  is_output :: bool

record gate_def =
  gate_kind :: gate_type
  gate_inputs :: "string list"
  gate_output :: string

record circuit_def =
  cd_name :: string
  cd_wires :: "wire_def list"
  cd_gates :: "gate_def list"
  cd_parameters :: "string list"

text \<open>The number \<open>1e-10\<close>, the absolute value, the hash and the JSON text of a circuit and a constraint.\<close>

record 'f circuit_env =
  ci_ops :: "'f float_ops"
  f_abs :: "'f \<Rightarrow> 'f"
  tolerance :: 'f
  ci_sha :: "u8 list \<Rightarrow> u8 list"
  json_ir :: "'f circuit_ir \<Rightarrow> string + u8 list"
  json_constraint :: "'f r1cs_constraint \<Rightarrow> string + u8 list"

section \<open>The compiler\<close>

text \<open>\<open>HashMap::from\<close> and \<open>collect\<close>: a later entry replaces an earlier one with its key.\<close>

definition hm_from :: "('k \<times> 'v) list \<Rightarrow> ('k \<times> 'v) list" where
  "hm_from kvs = fold (\<lambda>(k, v). AList.update k v) kvs []"

text \<open>A wire gets the number of the names seen so far, also when its own name was seen.\<close>

record wires =
  wire_map :: "(string \<times> nat) list"
  publics :: "string list"
  witnesses :: "string list"

definition add_wire :: "wire_def \<Rightarrow> wires \<Rightarrow> wires" where
  "add_wire w ws =
     (let ws' = ws\<lparr>wire_map := AList.update (wire_name w) (length (wire_map ws)) (wire_map ws)\<rparr>
      in if is_public w \<or> is_output w then ws'\<lparr>publics := publics ws @ [wire_name w]\<rparr>
         else ws'\<lparr>witnesses := witnesses ws @ [wire_name w]\<rparr>)"

definition build_wires :: "wire_def list \<Rightarrow> wires" where
  "build_wires ds = fold add_wire ds \<lparr>wire_map = [], publics = [], witnesses = []\<rparr>"

text \<open>A computation that may panic (\<open>None\<close>) or return an error (\<open>Inl\<close>), and the operator \<open>?\<close> on it.\<close>

type_synonym 'a fallible = "(circuit_error + 'a) option"

definition try_then :: "'a fallible \<Rightarrow> ('a \<Rightarrow> 'b fallible) \<Rightarrow> 'b fallible" where
  "try_then m f = (case m of None \<Rightarrow> None | Some (Inl e) \<Rightarrow> Some (Inl e) | Some (Inr x) \<Rightarrow> f x)"

definition resolve_wire :: "(string \<times> nat) list \<Rightarrow> string \<Rightarrow> circuit_error + nat" where
  "resolve_wire wm name =
     (case map_of wm name of
        Some i \<Rightarrow> Inr i
      | None \<Rightarrow> Inl (CompilationFailed (''Unknown wire: '' @ name)))"

text \<open>\<open>resolve_wire(&wire_map, &gate.inputs[i])\<close>.\<close>

definition resolve_input :: "(string \<times> nat) list \<Rightarrow> gate_def \<Rightarrow> nat \<Rightarrow> nat fallible" where
  "resolve_input wm g i =
     (if i < length (gate_inputs g) then Some (resolve_wire wm (gate_inputs g ! i)) else None)"

fun resolve_all :: "(string \<times> nat) list \<Rightarrow> string list \<Rightarrow> circuit_error + nat list" where
  "resolve_all wm [] = Inr []"
| "resolve_all wm (n # ns) =
     (case resolve_wire wm n of
        Inl e \<Rightarrow> Inl e
      | Inr i \<Rightarrow> map_sum id ((#) i) (resolve_all wm ns))"

text \<open>The index \<open>usize::MAX\<close> that stands for the constant 1.\<close>

definition constant_one :: nat where
  "constant_one = 2 ^ 64 - 1"

abbreviation compile_error :: "string \<Rightarrow> 'a fallible" where
  "compile_error msg \<equiv> Some (Inl (CompilationFailed msg))"

definition compile_gate ::
  "'f circuit_env \<Rightarrow> (string \<times> nat) list \<Rightarrow> gate_def \<Rightarrow> 'f r1cs_constraint fallible" where
  "compile_gate env wm g =
     (let num = f_literal (ci_ops env) in
      case map_of wm (gate_output g) of
        None \<Rightarrow> compile_error (''Unknown output wire: '' @ gate_output g)
      | Some out \<Rightarrow>
          (case gate_kind g of
             And \<Rightarrow>
               if length (gate_inputs g) \<noteq> 2 then compile_error ''AND gate requires exactly 2 inputs''
               else
                 try_then (resolve_input wm g 0) (\<lambda>a. try_then (resolve_input wm g 1) (\<lambda>b.
                   Some (Inr \<lparr>rc_a = [(a, num 1)], rc_b = [(b, num 1)], rc_c = [(out, num 1)]\<rparr>)))
           | Or \<Rightarrow>
               try_then (resolve_input wm g 0) (\<lambda>a. try_then (resolve_input wm g 1) (\<lambda>b.
                 Some (Inr \<lparr>rc_a = [(a, num 1)], rc_b = [(b, num 1)], rc_c = [(out, num 1)]\<rparr>)))
           | Xor \<Rightarrow>
               try_then (resolve_input wm g 0) (\<lambda>a. try_then (resolve_input wm g 1) (\<lambda>b.
                 Some (Inr \<lparr>rc_a = [(a, num 1)], rc_b = [(b, num 2)],
                   rc_c = hm_from [(a, num 1), (b, num 1), (out, num (- 1))]\<rparr>)))
           | Not \<Rightarrow>
               if length (gate_inputs g) \<noteq> 1 then compile_error ''NOT gate requires exactly 1 input''
               else
                 try_then (resolve_input wm g 0) (\<lambda>a.
                   Some (Inr \<lparr>rc_a = [(a, num 1)], rc_b = [(constant_one, num 1)],
                     rc_c = hm_from [(a, num 1), (out, num (- 1))]\<rparr>))
           | LinearCombination \<Rightarrow>
               try_then (Some (resolve_all wm (gate_inputs g))) (\<lambda>is.
                 Some (Inr \<lparr>rc_a = hm_from (map (\<lambda>i. (i, num 1)) is), rc_b = [(constant_one, num 1)],
                   rc_c = [(out, num 1)]\<rparr>))))"

fun compile_gates ::
  "'f circuit_env \<Rightarrow> (string \<times> nat) list \<Rightarrow> gate_def list \<Rightarrow> 'f r1cs_constraint list fallible" where
  "compile_gates env wm [] = Some (Inr [])"
| "compile_gates env wm (g # gs) =
     try_then (compile_gate env wm g) (\<lambda>c. try_then (compile_gates env wm gs) (\<lambda>cs. Some (Inr (c # cs))))"

definition generate_verification_key :: "'f circuit_env \<Rightarrow> 'f circuit_ir \<Rightarrow> u8 list" where
  "generate_verification_key env r =
     ci_sha env (str_bytes (ir_name r) @ u64_to_le (word_of_nat (num_public_inputs r))
       @ u64_to_le (word_of_nat (num_wires r))
       @ concat (map (\<lambda>c. case json_constraint env c of Inr bs \<Rightarrow> bs | Inl _ \<Rightarrow> []) (constraints r)))"

definition sha256_hex :: "'f circuit_env \<Rightarrow> u8 list \<Rightarrow> string" where
  "sha256_hex env bs = to_hex (ci_sha env bs)"

definition compile_circuit :: "'f circuit_env \<Rightarrow> circuit_def \<Rightarrow> 'f compiled_circuit fallible" where
  "compile_circuit env def =
     (let ws = build_wires (cd_wires def) in
      try_then (compile_gates env (wire_map ws) (cd_gates def)) (\<lambda>cs.
        let r = \<lparr>ir_name = cd_name def, num_public_inputs = length (publics ws),
                 num_witness_wires = length (witnesses ws), num_wires = length (wire_map ws), constraints = cs,
                 parameter_map = hm_from (List.map_filter
                   (\<lambda>p. map_option (\<lambda>i. (p, i)) (map_of (wire_map ws) p)) (cd_parameters def))\<rparr>
        in case json_ir env r of
             Inl msg \<Rightarrow> compile_error msg
           | Inr bytes \<Rightarrow>
               Some (Inr \<lparr>cc_ir = r, circuit_hash = sha256_hex env bytes,
                          verification_key = generate_verification_key env r\<rparr>)))"

section \<open>The verifier\<close>

definition eval_linear :: "'f circuit_env \<Rightarrow> 'f linear_terms \<Rightarrow> 'f list \<Rightarrow> 'f" where
  "eval_linear env ts asg =
     f_sum (ci_ops env)
       (map (\<lambda>(w, coeff). f_mul (ci_ops env) coeff (if w < length asg then asg ! w else f_literal (ci_ops env) 0)) ts)"

definition violated :: "'f circuit_env \<Rightarrow> 'f list \<Rightarrow> 'f r1cs_constraint \<Rightarrow> bool" where
  "violated env asg c \<longleftrightarrow>
     (let ops = ci_ops env;
          product = f_mul ops (eval_linear env (rc_a c) asg) (eval_linear env (rc_b c) asg)
      in partial_cmp ops (f_abs env (f_sub ops product (eval_linear env (rc_c c) asg))) (tolerance env)
           = Some Greater)"

text \<open>The difference of two \<open>usize\<close> wraps around.\<close>

definition usize_sub :: "nat \<Rightarrow> nat \<Rightarrow> nat" where
  "usize_sub a b = unat (word_of_nat a - word_of_nat b :: u64)"

definition circuit_verify ::
  "'f circuit_env \<Rightarrow> 'f compiled_circuit \<Rightarrow> 'f list \<Rightarrow> 'f list \<Rightarrow> circuit_error + bool" where
  "circuit_verify env cc witness public =
     (let r = cc_ir cc; expected = usize_sub (num_wires r) (num_public_inputs r) in
      if length public \<noteq> num_public_inputs r then
        Inl (InvalidWitness (''Expected '' @ dec_digits (num_public_inputs r) @ '' public inputs, got ''
          @ dec_digits (length public)))
      else if length witness \<noteq> expected then
        Inl (InvalidWitness (''Expected '' @ dec_digits expected @ '' witness values, got ''
          @ dec_digits (length witness)))
      else Inr (list_all (\<lambda>c. \<not> violated env (public @ witness) c) (constraints r)))"

section \<open>The registry\<close>

type_synonym 'f circuit_registry = "(string \<times> 'f compiled_circuit) list"

definition register_circuit ::
  "string \<Rightarrow> 'f compiled_circuit \<Rightarrow> 'f circuit_registry \<Rightarrow> (circuit_error + unit) \<times> 'f circuit_registry" where
  "register_circuit name cc reg =
     (if map_of reg name \<noteq> None then (Inl (CircuitExists name), reg)
      else (Inr (), AList.update name cc reg))"

definition get_circuit :: "string \<Rightarrow> 'f circuit_registry \<Rightarrow> 'f compiled_circuit option" where
  "get_circuit name reg = map_of reg name"

definition verify_with_circuit ::
  "'f circuit_env \<Rightarrow> string \<Rightarrow> 'f list \<Rightarrow> 'f list \<Rightarrow> 'f circuit_registry \<Rightarrow> circuit_error + bool" where
  "verify_with_circuit env name witness public reg =
     (case map_of reg name of
        None \<Rightarrow> Inl (CircuitNotFound name)
      | Some cc \<Rightarrow> circuit_verify env cc witness public)"

definition list_circuits :: "'f circuit_registry \<Rightarrow> string list" where
  "list_circuits reg = map fst reg"

definition unregister_circuit :: "string \<Rightarrow> 'f circuit_registry \<Rightarrow> bool \<times> 'f circuit_registry" where
  "unregister_circuit name reg = (map_of reg name \<noteq> None, AList.delete name reg)"

end
