(* ===== verification/Zkp_Bridge.thy ===== *)
theory Zkp_Bridge
  imports Zkp Circuit
begin

text \<open>
  Proofs at a level of privacy (\<open>verisim-semantic/src/zkp_bridge.rs\<close>): the generation of a public, private
  or blinded proof of a claim, its verification, and the check of a custom circuit. SHA-256 is the
  parameter \<open>sha\<close>; the time of a proof, a text, is an argument.
\<close>

section \<open>Requests and proofs\<close>

datatype privacy_level = Public | Private | ZeroKnowledge

fun privacy_display :: "privacy_level \<Rightarrow> string" where
  "privacy_display Public = ''Public''"
| "privacy_display Private = ''Private''"
| "privacy_display ZeroKnowledge = ''ZeroKnowledge''"

definition privacy_level_default :: privacy_level where
  "privacy_level_default = Public"

record 'f zkp_proof_request =
  rq_claim :: "u8 list"
  rq_privacy :: privacy_level
  rq_circuit_name :: "string option"
  rq_witness :: "'f list option"
  rq_public_inputs :: "'f list option"
  membership_set :: "u8 list list option"
  membership_index :: "nat option"

record circuit_verification_result =
  cv_circuit_name :: string
  satisfied :: bool
  constraints_checked :: nat

record zkp_proof =
  zp_privacy :: privacy_level
  proof_data :: verifiable_proof_data
  blinding_nonce :: "u8 list option"
  zp_commitment :: "u8 list option"
  zp_merkle_root :: "u8 list option"
  circuit_result :: "circuit_verification_result option"
  generated_at :: string

section \<open>Generation\<close>

definition generate_nonce :: "(u8 list \<Rightarrow> u8 list) \<Rightarrow> u8 list \<Rightarrow> u8 list" where
  "generate_nonce sha claim = sha (sha claim @ str_bytes ''verisimdb-zkp-nonce-v1'')"

definition generate_public_proof :: "(u8 list \<Rightarrow> u8 list) \<Rightarrow> string \<Rightarrow> 'f zkp_proof_request \<Rightarrow> zkp_proof" where
  "generate_public_proof sha now rq =
     \<lparr>zp_privacy = Public, proof_data = ContentIntegrity (sha (rq_claim rq)), blinding_nonce = None,
      zp_commitment = None, zp_merkle_root = None, circuit_result = None, generated_at = now\<rparr>"

text \<open>The inclusion proof of the member at an index, or the commitment when no set was given.\<close>

definition inclusion ::
  "(u8 list \<Rightarrow> u8 list) \<Rightarrow> u8 list list \<Rightarrow> nat \<Rightarrow> circuit_error + verifiable_proof_data \<times> u8 list option" where
  "inclusion sha leaves index =
     (case merkle_proof_at sha leaves index of
        Some mp \<Rightarrow> Inr (MerkleInclusion mp, Some (merkle_root sha leaves))
      | None \<Rightarrow> Inl (InvalidWitness (''Membership index '' @ dec_digits index @ '' out of bounds for set of size ''
          @ dec_digits (length leaves))))"

definition private_data ::
  "(u8 list \<Rightarrow> u8 list) \<Rightarrow> u8 list \<Rightarrow> 'f zkp_proof_request
     \<Rightarrow> circuit_error + verifiable_proof_data \<times> u8 list option" where
  "private_data sha nonce rq =
     (case (membership_set rq, membership_index rq) of
        (Some members, Some index) \<Rightarrow> inclusion sha members index
      | _ \<Rightarrow> Inr (Commitment (commitment (commit sha (rq_claim rq) nonce)), None))"

definition generate_private_proof ::
  "(u8 list \<Rightarrow> u8 list) \<Rightarrow> string \<Rightarrow> 'f zkp_proof_request \<Rightarrow> circuit_error + zkp_proof" where
  "generate_private_proof sha now rq =
     (let nonce = generate_nonce sha (rq_claim rq) in
      map_sum id (\<lambda>(d, rt).
        \<lparr>zp_privacy = Private, proof_data = d, blinding_nonce = Some nonce,
         zp_commitment = Some (commitment (commit sha (rq_claim rq) nonce)), zp_merkle_root = rt,
         circuit_result = None, generated_at = now\<rparr>)
        (private_data sha nonce rq))"

text \<open>A blinded proof replaces every member by its commitment under the nonce of the claim.\<close>

definition zk_data ::
  "(u8 list \<Rightarrow> u8 list) \<Rightarrow> u8 list \<Rightarrow> 'f zkp_proof_request
     \<Rightarrow> circuit_error + verifiable_proof_data \<times> u8 list option" where
  "zk_data sha nonce rq =
     (case (membership_set rq, membership_index rq) of
        (Some members, Some index) \<Rightarrow>
          inclusion sha (map (\<lambda>l. commitment (commit sha l nonce)) members) index
      | _ \<Rightarrow> Inr (Commitment (commitment (commit sha (rq_claim rq) nonce)), None))"

definition generate_zk_proof ::
  "(u8 list \<Rightarrow> u8 list) \<Rightarrow> string \<Rightarrow> 'f zkp_proof_request \<Rightarrow> circuit_error + zkp_proof" where
  "generate_zk_proof sha now rq =
     (let nonce = generate_nonce sha (rq_claim rq) in
      map_sum id (\<lambda>(d, rt).
        \<lparr>zp_privacy = ZeroKnowledge, proof_data = d, blinding_nonce = Some nonce,
         zp_commitment = Some (commitment (commit sha (rq_claim rq) nonce)), zp_merkle_root = rt,
         circuit_result = None, generated_at = now\<rparr>)
        (zk_data sha nonce rq))"

definition generate_zkp ::
  "(u8 list \<Rightarrow> u8 list) \<Rightarrow> string \<Rightarrow> 'f zkp_proof_request \<Rightarrow> circuit_error + zkp_proof" where
  "generate_zkp sha now rq =
     (case rq_privacy rq of
        Public \<Rightarrow> Inr (generate_public_proof sha now rq)
      | Private \<Rightarrow> generate_private_proof sha now rq
      | ZeroKnowledge \<Rightarrow> generate_zk_proof sha now rq)"

section \<open>Verification\<close>

definition verify_private_proof :: "(u8 list \<Rightarrow> u8 list) \<Rightarrow> zkp_proof \<Rightarrow> u8 list \<Rightarrow> bool" where
  "verify_private_proof sha p claim =
     (if (case (blinding_nonce p, zp_commitment p) of
            (Some nonce, Some h) \<Rightarrow> commitment (commit sha claim nonce) \<noteq> h
          | _ \<Rightarrow> False)
      then False
      else
        (case proof_data p of
           MerkleInclusion mp \<Rightarrow> verify_merkle_proof sha mp
         | Commitment _ \<Rightarrow> True
         | d \<Rightarrow> verify_proof sha d claim))"

definition verify_zk_proof :: "(u8 list \<Rightarrow> u8 list) \<Rightarrow> zkp_proof \<Rightarrow> bool" where
  "verify_zk_proof sha p =
     (case proof_data p of
        MerkleInclusion mp \<Rightarrow> verify_merkle_proof sha mp
      | Commitment _ \<Rightarrow> True
      | _ \<Rightarrow> False)"

definition verify_zkp :: "(u8 list \<Rightarrow> u8 list) \<Rightarrow> zkp_proof \<Rightarrow> u8 list \<Rightarrow> bool" where
  "verify_zkp sha p claim =
     (case zp_privacy p of
        Public \<Rightarrow> verify_proof sha (proof_data p) claim
      | Private \<Rightarrow> verify_private_proof sha p claim
      | ZeroKnowledge \<Rightarrow> verify_zk_proof sha p)"

section \<open>Circuits\<close>

text \<open>
  The registry is read twice, under two acquisitions of its lock: \<open>reg\<close> is its state at the first,
  \<open>reg'\<close> at the second.
\<close>

definition generate_zkp_with_circuit ::
  "'f circuit_env \<Rightarrow> string \<Rightarrow> 'f zkp_proof_request \<Rightarrow> 'f circuit_registry \<Rightarrow> 'f circuit_registry
     \<Rightarrow> circuit_error + zkp_proof" where
  "generate_zkp_with_circuit env now rq reg reg' =
     (case generate_zkp (ci_sha env) now rq of
        Inl e \<Rightarrow> Inl e
      | Inr p \<Rightarrow>
          (case rq_circuit_name rq of
             None \<Rightarrow> Inr p
           | Some name \<Rightarrow>
               (case verify_with_circuit env name
                       (case rq_witness rq of Some w \<Rightarrow> w | None \<Rightarrow> [])
                       (case rq_public_inputs rq of Some w \<Rightarrow> w | None \<Rightarrow> []) reg of
                  Inl e \<Rightarrow> Inl e
                | Inr ok \<Rightarrow>
                    Inr (p\<lparr>circuit_result := Some
                      \<lparr>cv_circuit_name = name, satisfied = ok,
                       constraints_checked =
                         (case get_circuit name reg' of Some cc \<Rightarrow> length (constraints (cc_ir cc)) | None \<Rightarrow> 0)\<rparr>\<rparr>))))"

section \<open>Properties\<close>

lemma inclusion_cases:
  "case inclusion sha leaves index of
     Inl e \<Rightarrow> length leaves \<le> index
   | Inr (d, rt) \<Rightarrow> index < length leaves \<and> rt = Some (merkle_root sha leaves)
       \<and> (\<exists>mp. d = MerkleInclusion mp \<and> verify_merkle_proof sha mp)"
  using merkle_proof_at_cases [where sha = sha and leaves = leaves and index = index] by (auto simp: inclusion_def split: option.splits)

lemma commit_collision:
  "sha (claim @ n) = sha (claim' @ n) \<Longrightarrow> claim' = claim \<or> colliding sha [claim @ n, claim' @ n]"
  by (cases "claim = claim'") (auto intro: collidingI)

lemma map_sum_eq_Inr: "map_sum f g s = Inr y \<longleftrightarrow> (\<exists>x. s = Inr x \<and> y = g x)"
  by (cases s) auto

lemma map_sum_eq_Inl: "map_sum f g s = Inl y \<longleftrightarrow> (\<exists>x. s = Inl x \<and> y = f x)"
  by (cases s) auto

lemmas generate_simps =
  generate_zkp_def generate_public_proof_def generate_private_proof_def generate_zk_proof_def
  map_sum_eq_Inr map_sum_eq_Inl

lemma data_verifies:
  assumes "private_data sha nonce rq = Inr (d, rt) \<or> zk_data sha nonce rq = Inr (d, rt)"
  shows "(\<exists>c. d = Commitment c) \<or> (\<exists>mp. d = MerkleInclusion mp \<and> verify_merkle_proof sha mp)"
proof -
  have "(\<exists>c. d = Commitment c) \<or> (\<exists>leaves index. inclusion sha leaves index = Inr (d, rt))"
    using assms by (auto simp: private_data_def zk_data_def split: option.splits)
  then show ?thesis
  proof (elim disjE exE)
    fix leaves index assume "inclusion sha leaves index = Inr (d, rt)"
    then show ?thesis using inclusion_cases [where sha = sha and leaves = leaves and index = index] by auto
  qed auto
qed

lemma generated_verifies:
  assumes "generate_zkp sha now rq = Inr p"
  shows "verify_zkp sha p (rq_claim rq)"
proof (cases "rq_privacy rq")
  case Public
  with assms show ?thesis by (auto simp: generate_simps verify_zkp_def verify_proof_def)
next
  case Private
  with assms show ?thesis
    by (auto simp: generate_simps Let_def verify_zkp_def verify_private_proof_def dest!: data_verifies [OF disjI1])
next
  case ZeroKnowledge
  with assms show ?thesis
    by (auto simp: generate_simps Let_def verify_zkp_def verify_zk_proof_def dest!: data_verifies [OF disjI2])
qed

lemma generated_binds:
  assumes "generate_zkp sha now rq = Inr p" "rq_privacy rq \<noteq> ZeroKnowledge" "verify_zkp sha p claim"
  shows "claim = rq_claim rq
    \<or> colliding sha [rq_claim rq, claim]
    \<or> colliding sha (map (\<lambda>c. c @ generate_nonce sha (rq_claim rq)) [rq_claim rq, claim])"
proof (cases "rq_privacy rq")
  case Public
  with assms have "sha (rq_claim rq @ []) = sha (claim @ [])"
    by (auto simp: generate_simps verify_zkp_def verify_proof_def)
  from commit_collision [OF this] show ?thesis by auto
next
  case Private
  with assms have "sha (rq_claim rq @ generate_nonce sha (rq_claim rq))
      = sha (claim @ generate_nonce sha (rq_claim rq))"
    by (auto simp: generate_simps Let_def verify_zkp_def verify_private_proof_def commit_def split: if_splits)
  from commit_collision [OF this] show ?thesis by auto
qed (use assms in simp)

text \<open>
  C15: A proof that was generated verifies for its claim, at every level of privacy. A public or private one
  verifies for no other claim, unless two different byte strings with one hash have been found.
\<close>

theorem generated_proof_binds:
  assumes "generate_zkp sha now rq = Inr p"
  shows "verify_zkp sha p (rq_claim rq)
    \<and> (rq_privacy rq \<noteq> ZeroKnowledge \<and> verify_zkp sha p claim \<longrightarrow>
         claim = rq_claim rq \<or> colliding sha [rq_claim rq, claim]
         \<or> colliding sha (map (\<lambda>c. c @ generate_nonce sha (rq_claim rq)) [rq_claim rq, claim]))"
  using generated_verifies [OF assms] generated_binds [OF assms] by blast

definition ex_request :: "privacy_level \<Rightarrow> int zkp_proof_request" where
  "ex_request level =
     \<lparr>rq_claim = [7], rq_privacy = level, rq_circuit_name = None, rq_witness = None, rq_public_inputs = None,
      membership_set = Some [[5], [6], [8]], membership_index = Some 1\<rparr>"

definition ex_proof :: "privacy_level \<Rightarrow> zkp_proof" where
  "ex_proof level = projr (generate_zkp ex_sha ''now'' (ex_request level))"

lemma ex_proof: "generate_zkp ex_sha ''now'' (ex_request level) = Inr (ex_proof level)"
  by (cases level)
    (simp_all add: ex_proof_def generate_simps generate_zkp_def generate_private_proof_def generate_zk_proof_def
      ex_request_def private_data_def zk_data_def inclusion_def merkle_proof_at_def Let_def)

theorem generated_proof_binds_witness:
  "verify_zkp ex_sha (ex_proof Private) [7] \<and> \<not> verify_zkp ex_sha (ex_proof Private) [9]"
proof
  have "rq_claim (ex_request Private) = [7]" by (simp add: ex_request_def)
  then show "verify_zkp ex_sha (ex_proof Private) [7]"
    using generated_proof_binds [OF ex_proof [of Private]] by metis
  show "\<not> verify_zkp ex_sha (ex_proof Private) [9]" by code_simp
qed

text \<open>A proof is refused exactly when the index of a private or blinded proof is outside its set.\<close>

theorem generation_fails_exactly:
  "(\<exists>e. generate_zkp sha now rq = Inl e) \<longleftrightarrow>
     rq_privacy rq \<noteq> Public
     \<and> (\<exists>members index. membership_set rq = Some members \<and> membership_index rq = Some index
          \<and> length members \<le> index)"
  by (cases "rq_privacy rq")
    (auto simp: generate_simps Let_def private_data_def zk_data_def inclusion_def merkle_proof_at_def
      split: option.splits)

section \<open>What a proof does not establish\<close>

text \<open>
  A blinded proof is verified without the claim: it verifies for every claim. A private proof with a
  membership set does not tie the member to the claim: the claim 7 is proven against the set of 5, 6
  and 8. A private proof without its nonce verifies for every claim.
\<close>

theorem blinded_proof_verifies_every_claim:
  "generate_zkp sha now rq = Inr p \<Longrightarrow> rq_privacy rq = ZeroKnowledge \<Longrightarrow> verify_zkp sha p claim"
  using generated_verifies [of sha now rq p] by (auto simp: verify_zkp_def generate_simps Let_def)

theorem private_membership_of_stranger:
  "verify_zkp ex_sha (ex_proof Private) [7] \<and> [7] \<notin> set (the (membership_set (ex_request Private)))"
  by code_simp

theorem private_proof_without_nonce:
  "generate_zkp sha now rq = Inr p \<Longrightarrow> rq_privacy rq = Private \<Longrightarrow>
     verify_zkp sha (p\<lparr>blinding_nonce := None\<rparr>) claim"
  using data_verifies [of sha _ rq]
  by (auto simp: verify_zkp_def verify_private_proof_def generate_simps Let_def dest!: data_verifies [OF disjI1])

end
