(* ===== verification/Circuit_Props.thy ===== *)
theory Circuit_Props
  imports Circuit
begin

text \<open>
  What a compiled circuit accepts. On integers that doubles compute exactly the verifier decides, for AND and
  XOR gates, the meaning of the gates; closed examples show that the other gates check something else.
\<close>

section \<open>Arithmetic on small integers\<close>

text \<open>
  \<open>R x n\<close> says that the float \<open>x\<close> is the integer \<open>n\<close>. IEEE doubles compute sums, differences and products
  of integers exactly as long as the result has at most 53 bits; the tolerance is \<open>1e-10\<close>, so the absolute
  value of an integer is greater than it exactly when the integer is not zero. Nothing is said of other
  floats.
\<close>

definition exact_on_integers :: "'f circuit_env \<Rightarrow> ('f \<Rightarrow> int \<Rightarrow> bool) \<Rightarrow> bool" where
  "exact_on_integers env R \<longleftrightarrow>
     R (f_sum_start (ci_ops env)) 0 \<and> (\<forall>n. \<bar>n\<bar> \<le> 2 ^ 53 \<longrightarrow> R (f_literal (ci_ops env) n) n)
     \<and> (\<forall>x y m n. R x m \<longrightarrow> R y n \<longrightarrow>
          (\<bar>m + n\<bar> \<le> 2 ^ 53 \<longrightarrow> R (f_add (ci_ops env) x y) (m + n))
          \<and> (\<bar>m - n\<bar> \<le> 2 ^ 53 \<longrightarrow> R (f_sub (ci_ops env) x y) (m - n))
          \<and> (\<bar>m * n\<bar> \<le> 2 ^ 53 \<longrightarrow> R (f_mul (ci_ops env) x y) (m * n)))
     \<and> (\<forall>x n. R x n \<longrightarrow>
          (partial_cmp (ci_ops env) (f_abs env x) (tolerance env) = Some Greater \<longleftrightarrow> n \<noteq> 0))"

lemma exact_on_integersD:
  assumes "exact_on_integers env R"
  shows "R (f_sum_start (ci_ops env)) 0"
    "\<bar>n\<bar> \<le> 2 ^ 53 \<Longrightarrow> R (f_literal (ci_ops env) n) n"
    "R x m \<Longrightarrow> R y n \<Longrightarrow> \<bar>m + n\<bar> \<le> 2 ^ 53 \<Longrightarrow> R (f_add (ci_ops env) x y) (m + n)"
    "R x m \<Longrightarrow> R y n \<Longrightarrow> \<bar>m - n\<bar> \<le> 2 ^ 53 \<Longrightarrow> R (f_sub (ci_ops env) x y) (m - n)"
    "R x m \<Longrightarrow> R y n \<Longrightarrow> \<bar>m * n\<bar> \<le> 2 ^ 53 \<Longrightarrow> R (f_mul (ci_ops env) x y) (m * n)"
    "R x n \<Longrightarrow> partial_cmp (ci_ops env) (f_abs env x) (tolerance env) = Some Greater \<longleftrightarrow> n \<noteq> 0"
  using assms unfolding exact_on_integers_def by blast+

text \<open>The integer that a wire carries; an index out of range reads zero.\<close>

definition int_at :: "int list \<Rightarrow> nat \<Rightarrow> int" where
  "int_at ns w = (if w < length ns then ns ! w else 0)"

definition small_ints :: "int list \<Rightarrow> bool" where
  "small_ints ns \<longleftrightarrow> (\<forall>n \<in> set ns. \<bar>n\<bar> \<le> 2 ^ 25)"

lemma int_at_small: "small_ints ns \<Longrightarrow> \<bar>int_at ns w\<bar> \<le> 2 ^ 25"
  by (auto simp: small_ints_def int_at_def)

text \<open>The value of one term of a linear combination.\<close>

abbreviation term_value :: "'f circuit_env \<Rightarrow> 'f list \<Rightarrow> nat \<times> 'f \<Rightarrow> 'f" where
  "term_value env asg wc \<equiv>
     (case wc of (w, coeff) \<Rightarrow>
        f_mul (ci_ops env) coeff (if w < length asg then asg ! w else f_literal (ci_ops env) 0))"

lemma eval_linear_terms:
  "eval_linear env ts asg = foldl (f_add (ci_ops env)) (f_sum_start (ci_ops env)) (map (term_value env asg) ts)"
  by (simp add: eval_linear_def f_sum_def)

lemma list_all2_at:
  assumes "exact_on_integers env R" "list_all2 R asg ns"
  shows "R (if w < length asg then asg ! w else f_literal (ci_ops env) 0) (int_at ns w)"
  using assms exact_on_integersD(2) [OF assms(1), of 0]
  by (auto simp: int_at_def list_all2_lengthD list_all2_nthD)

lemma term_bound: "small_ints ns \<Longrightarrow> \<bar>k\<bar> \<le> 2 \<Longrightarrow> \<bar>k * int_at ns w\<bar> \<le> 2 ^ 26"
  using mult_mono [of "\<bar>k\<bar>" 2 "\<bar>int_at ns w\<bar>" "2 ^ 25"] int_at_small [of ns w] by (simp add: abs_mult)

lemma term_value_exact:
  assumes env: "exact_on_integers env R" and asg: "list_all2 R asg ns" "small_ints ns" and k: "\<bar>k\<bar> \<le> 2"
  shows "R (term_value env asg (w, f_literal (ci_ops env) k)) (k * int_at ns w)"
  using exact_on_integersD(5) [OF env exact_on_integersD(2) [OF env, of k] list_all2_at [OF env asg(1), of w]]
    term_bound [OF asg(2) k, of w] k
  by simp

text \<open>A linear combination whose coefficients are at most two in absolute value.\<close>

abbreviation literal_terms :: "'f circuit_env \<Rightarrow> (nat \<times> int) list \<Rightarrow> 'f linear_terms" where
  "literal_terms env ts \<equiv> map (\<lambda>(w, k). (w, f_literal (ci_ops env) k)) ts"

definition terms_sum :: "int list \<Rightarrow> (nat \<times> int) list \<Rightarrow> int" where
  "terms_sum ns ts = (\<Sum>(w, k) \<leftarrow> ts. k * int_at ns w)"

lemma terms_sum_simps [simp]:
  "terms_sum ns [] = 0" "terms_sum ns ((w, k) # ts) = k * int_at ns w + terms_sum ns ts"
  by (simp_all add: terms_sum_def)

lemma foldl_terms_exact:
  assumes "exact_on_integers env R" "list_all2 R asg ns" "small_ints ns"
    and "\<forall>(w, k) \<in> set ts. \<bar>k\<bar> \<le> 2" "R x n" "\<bar>n\<bar> + 2 ^ 26 * int (length ts) \<le> 2 ^ 53"
  shows "R (foldl (f_add (ci_ops env)) x (map (term_value env asg) (literal_terms env ts))) (n + terms_sum ns ts)"
  using assms(4-)
proof (induction ts arbitrary: x n)
  case (Cons t ts)
  obtain w k where t: "t = (w, k)" by (cases t)
  have k: "\<bar>k\<bar> \<le> 2" using Cons.prems by (simp add: t)
  have b: "\<bar>k * int_at ns w\<bar> \<le> 2 ^ 26" by (rule term_bound [OF assms(3) k])
  have "R (f_add (ci_ops env) x (term_value env asg (w, f_literal (ci_ops env) k))) (n + k * int_at ns w)"
    using b Cons.prems
    by (intro exact_on_integersD(3) [OF assms(1)] term_value_exact [OF assms(1-3) k]) (auto simp: t)
  from Cons.IH [OF _ this] show ?case
    using Cons.prems b by (simp add: t add.assoc)
qed simp

lemma eval_linear_exact:
  assumes "exact_on_integers env R" "list_all2 R asg ns" "small_ints ns"
    and "\<forall>(w, k) \<in> set ts. \<bar>k\<bar> \<le> 2" "length ts \<le> 3"
  shows "R (eval_linear env (literal_terms env ts) asg) (terms_sum ns ts)"
  using foldl_terms_exact [OF assms(1-4) exact_on_integersD(1) [OF assms(1)]] assms(5)
  by (simp add: eval_linear_terms)

lemma terms_sum_bound:
  assumes "small_ints ns" "\<forall>(w, k) \<in> set ts. \<bar>k\<bar> \<le> 2"
  shows "\<bar>terms_sum ns ts\<bar> \<le> 2 ^ 26 * int (length ts)"
  using assms(2)
proof (induction ts)
  case (Cons t ts)
  obtain w k where t: "t = (w, k)" by (cases t)
  have "\<bar>k * int_at ns w\<bar> \<le> 2 ^ 26" using Cons.prems by (intro term_bound assms(1)) (simp add: t)
  with Cons show ?case by (simp add: t)
qed simp

text \<open>
  A constraint with one term in each factor and at most three terms on the right is violated exactly when
  the integers do not satisfy it.
\<close>

lemma violated_exact:
  assumes env: "exact_on_integers env R" and asg: "list_all2 R asg ns" "small_ints ns"
    and k: "\<bar>j\<bar> \<le> 1" "\<bar>k\<bar> \<le> 2" "\<forall>(w, k) \<in> set ts. \<bar>k\<bar> \<le> 2" "length ts \<le> 3"
  shows "violated env asg
      \<lparr>rc_a = [(a, f_literal (ci_ops env) j)], rc_b = [(b, f_literal (ci_ops env) k)], rc_c = literal_terms env ts\<rparr>
    \<longleftrightarrow> (j * int_at ns a) * (k * int_at ns b) \<noteq> terms_sum ns ts"
proof -
  let ?A = "j * int_at ns a" and ?B = "k * int_at ns b"
  have A: "R (eval_linear env [(a, f_literal (ci_ops env) j)] asg) ?A"
    using eval_linear_exact [OF env asg, of "[(a, j)]"] k by simp
  have B: "R (eval_linear env [(b, f_literal (ci_ops env) k)] asg) ?B"
    using eval_linear_exact [OF env asg, of "[(b, k)]"] k by simp
  have "\<bar>?A\<bar> \<le> 1 * 2 ^ 25"
    unfolding abs_mult using k int_at_small [OF asg(2), of a] by (intro mult_mono) auto
  moreover have "\<bar>?B\<bar> \<le> 2 ^ 26" by (rule term_bound [OF asg(2) k(2)])
  ultimately have AB: "\<bar>?A * ?B\<bar> \<le> 2 ^ 25 * 2 ^ 26"
    unfolding abs_mult by (intro mult_mono) auto
  have C: "\<bar>terms_sum ns ts\<bar> \<le> 2 ^ 26 * 3"
    using terms_sum_bound [OF asg(2) k(3)] k(4) by simp
  have "R (f_sub (ci_ops env) (f_mul (ci_ops env) (eval_linear env [(a, f_literal (ci_ops env) j)] asg)
      (eval_linear env [(b, f_literal (ci_ops env) k)] asg)) (eval_linear env (literal_terms env ts) asg))
      (?A * ?B - terms_sum ns ts)"
    using AB C abs_triangle_ineq4 [of "?A * ?B" "terms_sum ns ts"]
    by (intro exact_on_integersD(4,5) [OF env] A B eval_linear_exact [OF env asg k(3,4)]) simp_all
  from exact_on_integersD(6) [OF env this] show ?thesis
    by (simp add: violated_def Let_def)
qed

section \<open>Wires\<close>

definition visible :: "wire_def \<Rightarrow> bool" where
  "visible w \<longleftrightarrow> is_public w \<or> is_output w"

text \<open>No name is declared twice, and no public wire or output after a private wire.\<close>

definition laid_out :: "wire_def list \<Rightarrow> bool" where
  "laid_out ds \<longleftrightarrow>
     distinct (map wire_name ds) \<and> sorted_wrt (\<lambda>w w'. visible w' \<longrightarrow> visible w) ds \<and> length ds < constant_one"

lemma update_fresh: "k \<notin> fst ` set m \<Longrightarrow> AList.update k v m = m @ [(k, v)]"
  by (induction m) auto

lemma build_wires_snoc: "build_wires (ds @ [d]) = add_wire d (build_wires ds)"
  by (simp add: build_wires_def)

lemma build_wires_distinct:
  "distinct (map wire_name ds) \<Longrightarrow>
     build_wires ds =
       \<lparr>wire_map = zip (map wire_name ds) [0..<length ds], publics = map wire_name (filter visible ds),
        witnesses = map wire_name (filter (\<lambda>w. \<not> visible w) ds)\<rparr>"
proof (induction ds rule: rev_induct)
  case Nil
  then show ?case by (simp add: build_wires_def)
next
  case (snoc d ds)
  have "wire_name d \<notin> fst ` set (zip (map wire_name ds) [0..<length ds])"
    using snoc.prems by (auto dest!: set_zip_leftD)
  with snoc show ?case
    by (simp add: build_wires_snoc add_wire_def visible_def update_fresh Let_def)
qed

lemma filter_laid_out:
  "sorted_wrt (\<lambda>w w'. visible w' \<longrightarrow> visible w) ds
     \<Longrightarrow> filter visible ds @ filter (\<lambda>w. \<not> visible w) ds = ds"
proof (induction ds)
  case (Cons d ds)
  show ?case
  proof (cases "visible d")
    case False
    with Cons.prems have "\<forall>w \<in> set ds. \<not> visible w" by auto
    then have "filter visible ds = []" "filter (\<lambda>w. \<not> visible w) ds = ds" by auto
    with False show ?thesis by simp
  qed (use Cons in auto)
qed simp

text \<open>The value a prover gives to a wire: public wires and outputs in their order, then the others.\<close>

definition wire_value :: "wire_def list \<Rightarrow> int list \<Rightarrow> int list \<Rightarrow> string \<Rightarrow> int" where
  "wire_value ds public witness n =
     the (map_of (zip (map wire_name (filter visible ds)) public
       @ zip (map wire_name (filter (\<lambda>w. \<not> visible w) ds)) witness) n)"

lemma map_of_zip_nth:
  "distinct ks \<Longrightarrow> i < length ks \<Longrightarrow> length ks = length vs \<Longrightarrow> map_of (zip ks vs) (ks ! i) = Some (vs ! i)"
  by (simp add: map_of_eq_Some_iff in_set_zip) auto

lemma wire_value_at:
  assumes ds: "laid_out ds" and len: "length public = length (filter visible ds)"
      "length witness = length (filter (\<lambda>w. \<not> visible w) ds)"
    and i: "map_of (wire_map (build_wires ds)) n = Some i"
  shows "wire_value ds public witness n = int_at (public @ witness) i \<and> i < length (public @ witness)"
proof -
  let ?ns = "map wire_name ds"
  have d: "distinct ?ns" using ds by (simp add: laid_out_def)
  have ns: "map wire_name (filter visible ds) @ map wire_name (filter (\<lambda>w. \<not> visible w) ds) = ?ns"
    using filter_laid_out ds by (metis laid_out_def map_append)
  have "length (public @ witness) = length ?ns"
    using len arg_cong [OF ns, of length] by simp
  moreover from i d have "i < length ?ns" "n = ?ns ! i"
    by (auto simp: build_wires_distinct dest!: map_of_SomeD simp: in_set_zip)
  moreover have "zip (map wire_name (filter visible ds)) public
       @ zip (map wire_name (filter (\<lambda>w. \<not> visible w) ds)) witness = zip ?ns (public @ witness)"
    using len by (simp flip: ns)
  ultimately show ?thesis
    using d map_of_zip_nth [of ?ns i "public @ witness"] by (simp add: wire_value_def int_at_def)
qed

section \<open>Gates\<close>

text \<open>What a gate means, as the comments of the compiler say.\<close>

definition gate_holds :: "(string \<Rightarrow> int) \<Rightarrow> gate_def \<Rightarrow> bool" where
  "gate_holds v g =
     (let a = v (gate_inputs g ! 0); b = v (gate_inputs g ! 1); c = v (gate_output g) in
      case gate_kind g of
        And \<Rightarrow> c = a * b
      | Or \<Rightarrow> c = a + b - a * b
      | Xor \<Rightarrow> c = a + b - 2 * a * b
      | Not \<Rightarrow> c = 1 - a
      | LinearCombination \<Rightarrow> c = sum_list (map v (gate_inputs g)))"

text \<open>AND and XOR gates; the three wires of an XOR gate are different.\<close>

definition and_xor_gate :: "gate_def \<Rightarrow> bool" where
  "and_xor_gate g \<longleftrightarrow>
     gate_kind g = And
     \<or> gate_kind g = Xor \<and> length (gate_inputs g) = 2 \<and> distinct (gate_output g # gate_inputs g)"

lemma try_then_Inr:
  "try_then m f = Some (Inr y) \<longleftrightarrow> (\<exists>x. m = Some (Inr x) \<and> f x = Some (Inr y))"
  by (auto simp: try_then_def split: option.splits sum.splits)

lemma resolve_input_Inr:
  "resolve_input wm g i = Some (Inr k)
     \<longleftrightarrow> i < length (gate_inputs g) \<and> map_of wm (gate_inputs g ! i) = Some k"
  by (auto simp: resolve_input_def resolve_wire_def split: option.splits)

text \<open>Distinct names have distinct indices.\<close>

definition separates :: "(string \<times> nat) list \<Rightarrow> bool" where
  "separates wm \<longleftrightarrow> inj_on (map_of wm) (dom (map_of wm))"

lemma separates_neq:
  "separates wm \<Longrightarrow> map_of wm n = Some i \<Longrightarrow> map_of wm m = Some j \<Longrightarrow> n \<noteq> m \<Longrightarrow> i \<noteq> j"
  unfolding separates_def inj_on_def by (metis domI)

lemma hm_from_distinct: "distinct (map fst kvs) \<Longrightarrow> hm_from kvs = kvs"
proof (induction kvs rule: rev_induct)
  case (snoc kv kvs)
  then show ?case by (cases kv) (auto simp: hm_from_def update_fresh)
qed (simp add: hm_from_def)

lemma compile_gate_checks:
  assumes env: "exact_on_integers env R" and c: "compile_gate env wm g = Some (Inr c)"
    and wm: "separates wm" and g: "and_xor_gate g" and asg: "list_all2 R asg ns" "small_ints ns"
    and v: "\<And>n i. map_of wm n = Some i \<Longrightarrow> v n = int_at ns i"
  shows "violated env asg c \<longleftrightarrow> \<not> gate_holds v g"
proof -
  let ?num = "f_literal (ci_ops env)"
  note viol = violated_exact [OF env asg]
  obtain out where out: "map_of wm (gate_output g) = Some out"
    using c by (cases "map_of wm (gate_output g)") (auto simp: compile_gate_def Let_def)
  consider "gate_kind g = And"
    | "gate_kind g = Xor" "length (gate_inputs g) = 2" "distinct (gate_output g # gate_inputs g)"
    using g by (auto simp: and_xor_gate_def)
  then show ?thesis
  proof cases
    case 1
    with c obtain a b where ab: "map_of wm (gate_inputs g ! 0) = Some a" "map_of wm (gate_inputs g ! 1) = Some b"
        "c = \<lparr>rc_a = [(a, ?num 1)], rc_b = [(b, ?num 1)], rc_c = literal_terms env [(out, 1)]\<rparr>"
      unfolding compile_gate_def by (auto simp: out try_then_Inr resolve_input_Inr Let_def split: if_splits)
    have "violated env asg c \<longleftrightarrow> int_at ns a * int_at ns b \<noteq> int_at ns out"
      unfolding ab(3) by (subst viol) simp_all
    with 1 ab out v show ?thesis by (auto simp: gate_holds_def Let_def)
  next
    case 2
    with c obtain a b where ab: "map_of wm (gate_inputs g ! 0) = Some a" "map_of wm (gate_inputs g ! 1) = Some b"
      and c': "c = \<lparr>rc_a = [(a, ?num 1)], rc_b = [(b, ?num 2)],
                 rc_c = hm_from [(a, ?num 1), (b, ?num 1), (out, ?num (- 1))]\<rparr>"
      unfolding compile_gate_def by (auto simp: out try_then_Inr resolve_input_Inr Let_def)
    obtain x y where "gate_inputs g = [x, y]"
      using 2(2) by (auto simp: numeral_2_eq_2 length_Suc_conv)
    with 2(3) have "gate_inputs g ! 0 \<noteq> gate_inputs g ! 1" "gate_output g \<noteq> gate_inputs g ! 0"
        "gate_output g \<noteq> gate_inputs g ! 1"
      by auto
    with wm ab out have "distinct [a, b, out]" by (auto dest: separates_neq)
    then have "hm_from [(a, ?num 1), (b, ?num 1), (out, ?num (- 1))]
        = literal_terms env [(a, 1), (b, 1), (out, - 1)]"
      by (subst hm_from_distinct) auto
    then have "violated env asg c
        \<longleftrightarrow> int_at ns a * (2 * int_at ns b) \<noteq> int_at ns a + int_at ns b - int_at ns out"
      unfolding c' by (simp only:) (subst viol, simp_all add: algebra_simps)
    with 2 ab out v show ?thesis by (auto simp: gate_holds_def Let_def)
  qed
qed

lemma compile_gates_Inr:
  "compile_gates env wm gs = Some (Inr cs)
     \<longleftrightarrow> list_all2 (\<lambda>g c. compile_gate env wm g = Some (Inr c)) gs cs"
  by (induction gs arbitrary: cs) (auto simp: try_then_Inr list_all2_Cons1)

lemma compile_circuit_Inr:
  assumes "compile_circuit env def = Some (Inr cc)"
  shows "num_public_inputs (cc_ir cc) = length (publics (build_wires (cd_wires def)))"
    "num_wires (cc_ir cc) = length (wire_map (build_wires (cd_wires def)))"
    "list_all2 (\<lambda>g c. compile_gate env (wire_map (build_wires (cd_wires def))) g = Some (Inr c))
       (cd_gates def) (constraints (cc_ir cc))"
proof -
  let ?wm = "wire_map (build_wires (cd_wires def))"
  obtain cs where cs: "compile_gates env ?wm (cd_gates def) = Some (Inr cs)"
    using assms by (auto simp: compile_circuit_def try_then_Inr Let_def)
  with assms show "num_public_inputs (cc_ir cc) = length (publics (build_wires (cd_wires def)))"
      "num_wires (cc_ir cc) = length ?wm"
      "list_all2 (\<lambda>g c. compile_gate env ?wm g = Some (Inr c)) (cd_gates def) (constraints (cc_ir cc))"
    by (auto simp: compile_circuit_def try_then_def Let_def simp flip: compile_gates_Inr split: sum.splits)
qed

lemma separates_build_wires:
  assumes "distinct (map wire_name ds)"
  shows "separates (wire_map (build_wires ds))"
  unfolding separates_def
proof (rule inj_onI)
  fix n m assume "n \<in> dom (map_of (wire_map (build_wires ds)))"
    and "map_of (wire_map (build_wires ds)) n = map_of (wire_map (build_wires ds)) m"
  then obtain i where "map_of (wire_map (build_wires ds)) n = Some i" "map_of (wire_map (build_wires ds)) m = Some i"
    by (metis domD)
  then show "n = m" using assms by (auto simp: build_wires_distinct in_set_zip dest!: map_of_SomeD)
qed

lemma usize_sub_exact: "b \<le> a \<Longrightarrow> a < 2 ^ 64 \<Longrightarrow> usize_sub a b = a - b"
  unfolding usize_sub_def by (simp flip: of_nat_diff add: unsigned_of_nat take_bit_nat_eq_self)

lemma list_all2_list_all:
  "list_all2 P xs ys \<Longrightarrow> (\<And>x y. x \<in> set xs \<Longrightarrow> P x y \<Longrightarrow> Q y \<longleftrightarrow> R x)
     \<Longrightarrow> list_all Q ys \<longleftrightarrow> (\<forall>x \<in> set xs. R x)"
  by (induction rule: list_all2_induct) auto

section \<open>Properties\<close>


definition ex_circuit_env :: "rat circuit_env" where
  "ex_circuit_env =
     \<lparr>ci_ops = \<lparr>f_add = (+), f_sub = (-), f_mul = (*), f_div = (/), f_powi = (\<lambda>a n. a ^ nat n),
        f_sqrt = (\<lambda>a. a), f_sin = (\<lambda>a. a), f_cos = (\<lambda>a. 1), f_asin = (\<lambda>a. a), f_to_radians = (\<lambda>a. a),
        f_literal = of_int, f_sum_start = 0,
        partial_cmp = (\<lambda>a b. Some (if a < b then Less else if a = b then Equal else Greater)),
        is_nan = (\<lambda>_. False), f_display = (\<lambda>_. ''n'')\<rparr>,
      f_abs = abs, tolerance = 1 / 10 ^ 10, ci_sha = (\<lambda>bs. [sum_list bs]), json_ir = (\<lambda>_. Inr []),
      json_constraint = (\<lambda>_. Inr [])\<rparr>"

abbreviation public_wire :: "string \<Rightarrow> wire_def" where
  "public_wire n \<equiv> \<lparr>wire_name = n, is_public = True, is_output = False\<rparr>"

abbreviation private_wire :: "string \<Rightarrow> wire_def" where
  "private_wire n \<equiv> \<lparr>wire_name = n, is_public = False, is_output = False\<rparr>"

abbreviation output_wire :: "string \<Rightarrow> wire_def" where
  "output_wire n \<equiv> \<lparr>wire_name = n, is_public = False, is_output = True\<rparr>"

definition ex_circuit :: circuit_def where
  "ex_circuit =
     \<lparr>cd_name = ''c'', cd_wires = [public_wire ''x'', output_wire ''z'', private_wire ''y''],
      cd_gates = [\<lparr>gate_kind = And, gate_inputs = [''x'', ''y''], gate_output = ''z''\<rparr>], cd_parameters = []\<rparr>"

definition ex_compiled :: "rat compiled_circuit" where
  "ex_compiled =
     \<lparr>cc_ir = \<lparr>ir_name = ''c'', num_public_inputs = 2, num_witness_wires = 1, num_wires = 3,
        constraints = [\<lparr>rc_a = [(0, 1)], rc_b = [(2, 1)], rc_c = [(1, 1)]\<rparr>], parameter_map = []\<rparr>,
      circuit_hash = ''00'',
      verification_key = generate_verification_key ex_circuit_env
        \<lparr>ir_name = ''c'', num_public_inputs = 2, num_witness_wires = 1, num_wires = 3,
         constraints = [\<lparr>rc_a = [(0, 1)], rc_b = [(2, 1)], rc_c = [(1, 1)]\<rparr>], parameter_map = []\<rparr>\<rparr>"

lemma ex_above_tolerance:
  "partial_cmp (ci_ops ex_circuit_env) (f_abs ex_circuit_env (of_int n)) (tolerance ex_circuit_env) = Some Greater
     \<longleftrightarrow> n \<noteq> 0"
proof (cases "n = 0")
  case False
  then have "(1 :: rat) \<le> \<bar>of_int n\<bar>" using of_int_le_iff [of 1 "\<bar>n\<bar>"] by simp
  moreover have "(1 :: rat) / 10 ^ 10 < 1" by simp
  ultimately have "1 / 10 ^ 10 < \<bar>rat_of_int n\<bar>" by (rule less_le_trans [rotated])
  then show ?thesis using False by (simp add: ex_circuit_env_def)
qed (simp add: ex_circuit_env_def)


section \<open>Circuits outside the theorem\<close>

definition compiled_of :: "'a fallible \<Rightarrow> 'a" where
  "compiled_of m = (case m of Some (Inr c) \<Rightarrow> c | _ \<Rightarrow> undefined)"

text \<open>
  The other gates do not check what they mean. An OR gate rejects 1 or 0 = 1 and accepts 1 or 0 = 0; a NOT
  gate rejects not 1 = 0 and accepts not 1 = 1, since the index that stands for the constant one is outside
  the assignment and is read as zero; for the same reason a linear combination accepts zero only.
\<close>

definition gate_circuit :: "gate_type \<Rightarrow> string list \<Rightarrow> circuit_def" where
  "gate_circuit k ins =
     \<lparr>cd_name = ''c'', cd_wires = map public_wire ins @ [output_wire ''z''],
      cd_gates = [\<lparr>gate_kind = k, gate_inputs = ins, gate_output = ''z''\<rparr>], cd_parameters = []\<rparr>"

definition gate_verifies :: "gate_type \<Rightarrow> string list \<Rightarrow> rat list \<Rightarrow> circuit_error + bool" where
  "gate_verifies k ins vals =
     circuit_verify ex_circuit_env (compiled_of (compile_circuit ex_circuit_env (gate_circuit k ins))) [] vals"

lemmas gate_eval =
  gate_verifies_def gate_circuit_def compiled_of_def compile_circuit_def build_wires_def add_wire_def
  compile_gate_def try_then_def resolve_input_def resolve_wire_def hm_from_def circuit_verify_def usize_sub_def
  violated_def eval_linear_def f_sum_def constant_one_def ex_circuit_env_def Let_def

theorem or_gate_checks_and:
  "gate_verifies Or [''x'', ''y''] [1, 0, 1] = Inr False \<and> gate_verifies Or [''x'', ''y''] [1, 0, 0] = Inr True"
  by code_simp

theorem not_gate_checks_copy:
  "gate_verifies Not [''x''] [1, 0] = Inr False \<and> gate_verifies Not [''x''] [1, 1] = Inr True"
  by (simp add: gate_eval)

theorem linear_combination_checks_zero:
  "gate_verifies LinearCombination [''x'', ''y''] [1, 2, 3] = Inr False
     \<and> gate_verifies LinearCombination [''x'', ''y''] [1, 2, 0] = Inr True"
  by (simp add: gate_eval)

text \<open>
  A public wire declared after a private one is read at another index than the compiler gave it: the
  circuit \<open>z = x * y\<close> with the private wire \<open>y\<close> in the middle rejects 3 * 4 = 12 and accepts 3 * 12 = 4.
\<close>

definition misplaced_circuit :: circuit_def where
  "misplaced_circuit = ex_circuit\<lparr>cd_wires := [public_wire ''x'', private_wire ''y'', output_wire ''z'']\<rparr>"

theorem misplaced_wires_misread:
  "let cc = compiled_of (compile_circuit ex_circuit_env misplaced_circuit) in
     circuit_verify ex_circuit_env cc [4] [3, 12] = Inr False
     \<and> circuit_verify ex_circuit_env cc [12] [3, 4] = Inr True"
  by code_simp

text \<open>A name declared twice takes the index of the wire that follows it.\<close>

theorem repeated_name_shares_index:
  "wire_map (build_wires [public_wire ''x'', public_wire ''x'', public_wire ''y'']) = [(''x'', 1), (''y'', 1)]"
  by code_simp

text \<open>
  A value that is not a number satisfies every constraint, since no comparison with it answers that the
  difference is greater than the tolerance: with \<open>None\<close> for NaN, the witness NaN proves that 3 times
  something is 12 and 13 alike.
\<close>

definition lift2 :: "('a \<Rightarrow> 'a \<Rightarrow> 'b) \<Rightarrow> 'a option \<Rightarrow> 'a option \<Rightarrow> 'b option" where
  "lift2 f a b = (case (a, b) of (Some x, Some y) \<Rightarrow> Some (f x y) | _ \<Rightarrow> None)"

definition nan_env :: "rat option circuit_env" where
  "nan_env =
     \<lparr>ci_ops = \<lparr>f_add = lift2 (+), f_sub = lift2 (-), f_mul = lift2 (*), f_div = lift2 (/),
        f_powi = (\<lambda>a n. map_option (\<lambda>x. x ^ nat n) a), f_sqrt = (\<lambda>a. a), f_sin = (\<lambda>a. a), f_cos = (\<lambda>a. a),
        f_asin = (\<lambda>a. a), f_to_radians = (\<lambda>a. a), f_literal = (\<lambda>n. Some (of_int n)), f_sum_start = Some 0,
        partial_cmp = lift2 (\<lambda>a b. if a < b then Less else if a = b then Equal else Greater),
        is_nan = (\<lambda>a. a = None), f_display = (\<lambda>_. ''n'')\<rparr>,
      f_abs = map_option abs, tolerance = Some (1 / 10 ^ 10), ci_sha = (\<lambda>bs. [sum_list bs]),
      json_ir = (\<lambda>_. Inr []), json_constraint = (\<lambda>_. Inr [])\<rparr>"

theorem nan_witness_accepted:
  "let cc = compiled_of (compile_circuit nan_env ex_circuit) in
     circuit_verify nan_env cc [None] [Some 3, Some 12] = Inr True
     \<and> circuit_verify nan_env cc [None] [Some 3, Some 13] = Inr True
     \<and> circuit_verify nan_env cc [Some 4] [Some 3, Some 13] = Inr False"
  by code_simp

end
