(* ===== verification/Verification_Keys.thy ===== *)
theory Verification_Keys
  imports Text
begin

text \<open>
  The verification keys of circuits (\<open>verisim-semantic/src/verification_keys.rs\<close>): rotation, with the
  previous key kept, and the exchange of keys between instances. SHA-256 is a parameter and each reading of
  the clock, a text, an argument. An operation is one step, as it holds the lock of the keys.
\<close>

section \<open>Entries\<close>

record verification_key_entry =
  vk_circuit_name :: string
  active_key :: "u8 list"
  vk_version :: u64
  vk_fingerprint :: string
  previous_key :: "u8 list option"
  vk_created_at :: string

definition key_fingerprint :: "(u8 list \<Rightarrow> u8 list) \<Rightarrow> u8 list \<Rightarrow> string" where
  "key_fingerprint sha key = to_hex (sha key)"

definition vk_entry_new ::
  "(u8 list \<Rightarrow> u8 list) \<Rightarrow> string \<Rightarrow> string \<Rightarrow> u8 list \<Rightarrow> verification_key_entry" where
  "vk_entry_new sha now name key =
     \<lparr>vk_circuit_name = name, active_key = key, vk_version = 1, vk_fingerprint = key_fingerprint sha key,
      previous_key = None, vk_created_at = now\<rparr>"

definition vk_rotate ::
  "(u8 list \<Rightarrow> u8 list) \<Rightarrow> string \<Rightarrow> u8 list \<Rightarrow> verification_key_entry \<Rightarrow> verification_key_entry" where
  "vk_rotate sha now key e =
     e\<lparr>previous_key := Some (active_key e), active_key := key, vk_fingerprint := key_fingerprint sha key,
       vk_version := vk_version e + 1, vk_created_at := now\<rparr>"

definition vk_matches :: "verification_key_entry \<Rightarrow> u8 list \<Rightarrow> bool" where
  "vk_matches e key \<longleftrightarrow>
     active_key e = key \<or> (case previous_key e of Some k \<Rightarrow> k = key | None \<Rightarrow> False)"

section \<open>The store\<close>

record exported_key =
  ek_circuit_name :: string
  ek_key :: "u8 list"
  ek_version :: u64
  ek_fingerprint :: string

record key_export_bundle =
  source_instance :: string
  bundle_keys :: "exported_key list"

record verification_key_store =
  vs_keys :: "(string \<times> verification_key_entry) list"
  instance_id :: string

definition key_store_new :: "string \<Rightarrow> verification_key_store" where
  "key_store_new i = \<lparr>vs_keys = [], instance_id = i\<rparr>"

definition store_key ::
  "(u8 list \<Rightarrow> u8 list) \<Rightarrow> string \<Rightarrow> string \<Rightarrow> u8 list \<Rightarrow> verification_key_store \<Rightarrow> verification_key_store" where
  "store_key sha now name key st =
     st\<lparr>vs_keys := AList.update name
       (case map_of (vs_keys st) name of
          Some e \<Rightarrow> vk_rotate sha now key e
        | None \<Rightarrow> vk_entry_new sha now name key) (vs_keys st)\<rparr>"

definition get_key :: "string \<Rightarrow> verification_key_store \<Rightarrow> u8 list option" where
  "get_key name st = map_option active_key (map_of (vs_keys st) name)"

definition get_entry :: "string \<Rightarrow> verification_key_store \<Rightarrow> verification_key_entry option" where
  "get_entry name st = map_of (vs_keys st) name"

definition export_keys :: "verification_key_store \<Rightarrow> key_export_bundle" where
  "export_keys st =
     \<lparr>source_instance = instance_id st,
      bundle_keys = map (\<lambda>(_, e).
        \<lparr>ek_circuit_name = vk_circuit_name e, ek_key = active_key e, ek_version = vk_version e,
         ek_fingerprint = vk_fingerprint e\<rparr>) (vs_keys st)\<rparr>"

definition federated_name :: "string \<Rightarrow> exported_key \<Rightarrow> string" where
  "federated_name src ek = src @ '':'' @ ek_circuit_name ek"

definition import_key ::
  "(u8 list \<Rightarrow> u8 list) \<Rightarrow> string \<Rightarrow> string \<Rightarrow> exported_key \<Rightarrow> verification_key_store \<times> nat
     \<Rightarrow> verification_key_store \<times> nat" where
  "import_key sha src now ek x =
     (let (st, imported) = x; name = federated_name src ek;
          put = (\<lambda>e. (st\<lparr>vs_keys := AList.update name e (vs_keys st)\<rparr>, imported + 1))
      in case map_of (vs_keys st) name of
           Some e \<Rightarrow> if vk_version e < ek_version ek then put (vk_rotate sha now (ek_key ek) e) else x
         | None \<Rightarrow> put (vk_entry_new sha now (ek_circuit_name ek) (ek_key ek)))"

text \<open>Every key of a bundle comes with the time at which it is imported.\<close>

definition import_keys ::
  "(u8 list \<Rightarrow> u8 list) \<Rightarrow> string \<Rightarrow> (exported_key \<times> string) list \<Rightarrow> verification_key_store
     \<Rightarrow> verification_key_store \<times> nat" where
  "import_keys sha src eks st = fold (\<lambda>(ek, now). import_key sha src now ek) eks (st, 0)"

definition list_keys :: "verification_key_store \<Rightarrow> string list" where
  "list_keys st = map fst (vs_keys st)"

section \<open>The keys of a circuit over time\<close>

text \<open>
  The specification keeps for every name the list of all keys it was ever given. An imported key is added
  when it is the first of its name, or its version exceeds the number of keys received so far.
\<close>

type_synonym key_history = "string \<Rightarrow> u8 list list"

definition add_key :: "string \<Rightarrow> u8 list \<Rightarrow> key_history \<Rightarrow> key_history" where
  "add_key name key h = h(name := h name @ [key])"

definition add_imported :: "string \<Rightarrow> exported_key \<Rightarrow> key_history \<Rightarrow> key_history" where
  "add_imported src ek h =
     (let name = federated_name src ek in
      if h name = [] \<or> word_of_nat (length (h name)) < ek_version ek then add_key name (ek_key ek) h else h)"

datatype key_op = StoreKey string "u8 list" string | ImportKeys string "(exported_key \<times> string) list"

fun key_step :: "(u8 list \<Rightarrow> u8 list) \<Rightarrow> verification_key_store \<Rightarrow> key_op \<Rightarrow> verification_key_store" where
  "key_step sha st (StoreKey name key now) = store_key sha now name key st"
| "key_step sha st (ImportKeys src eks) = fst (import_keys sha src eks st)"

fun history_step :: "key_history \<Rightarrow> key_op \<Rightarrow> key_history" where
  "history_step h (StoreKey name key now) = add_key name key h"
| "history_step h (ImportKeys src eks) = fold (\<lambda>(ek, now). add_imported src ek) eks h"

definition entry_of :: "(u8 list \<Rightarrow> u8 list) \<Rightarrow> verification_key_entry \<Rightarrow> u8 list list \<Rightarrow> bool" where
  "entry_of sha e ks \<longleftrightarrow>
     ks \<noteq> [] \<and> active_key e = last ks \<and> vk_version e = word_of_nat (length ks)
     \<and> vk_fingerprint e = key_fingerprint sha (last ks)
     \<and> previous_key e = (if butlast ks = [] then None else Some (last (butlast ks)))"

fun fits :: "(u8 list \<Rightarrow> u8 list) \<Rightarrow> verification_key_entry option \<Rightarrow> u8 list list \<Rightarrow> bool" where
  "fits sha None ks \<longleftrightarrow> ks = []"
| "fits sha (Some e) ks \<longleftrightarrow> entry_of sha e ks"

definition represents :: "(u8 list \<Rightarrow> u8 list) \<Rightarrow> verification_key_store \<Rightarrow> key_history \<Rightarrow> bool" where
  "represents sha st h \<longleftrightarrow>
     hm_wf (vs_keys st)
     \<and> (\<forall>name. fits sha (map_of (vs_keys st) name) (h name))"

lemma entry_of_new: "entry_of sha (vk_entry_new sha now name key) [key]"
  by (simp add: entry_of_def vk_entry_new_def)

lemma entry_of_rotate: "entry_of sha e ks \<Longrightarrow> entry_of sha (vk_rotate sha now key e) (ks @ [key])"
  by (auto simp: entry_of_def vk_rotate_def)

lemma represents_put:
  assumes "represents sha st h"
    and "entry_of sha e (h name @ [key])"
  shows "represents sha (st\<lparr>vs_keys := AList.update name e (vs_keys st)\<rparr>) (add_key name key h)"
  using assms by (simp add: represents_def add_key_def)

lemma represents_cases:
  assumes "represents sha st h"
  shows "(map_of (vs_keys st) name = None \<and> h name = [])
    \<or> (\<exists>e. map_of (vs_keys st) name = Some e \<and> entry_of sha e (h name))"
  using assms unfolding represents_def
  by (cases "map_of (vs_keys st) name") (auto dest: spec [of _ name])

lemma represents_store: "represents sha st h \<Longrightarrow> represents sha (store_key sha now name key st) (add_key name key h)"
  unfolding store_key_def using represents_cases [of sha st h name]
  by (auto intro!: represents_put entry_of_rotate simp: entry_of_new)

lemma represents_import_key:
  "represents sha (fst x) h \<Longrightarrow> represents sha (fst (import_key sha src now ek x)) (add_imported src ek h)"
  unfolding import_key_def add_imported_def
  using represents_cases [of sha "fst x" h "federated_name src ek"]
  by (auto intro!: represents_put entry_of_rotate simp: entry_of_new Let_def split_beta)
    (auto simp: entry_of_def)

lemma represents_import:
  "represents sha (fst x) h \<Longrightarrow>
     represents sha (fst (fold (\<lambda>(ek, now). import_key sha src now ek) eks x)) (fold (\<lambda>(ek, now). add_imported src ek) eks h)"
proof (induction eks arbitrary: x h)
  case (Cons ek eks)
  then show ?case by (cases ek) (simp add: represents_import_key)
qed simp

lemma represents_step: "represents sha st h \<Longrightarrow> represents sha (key_step sha st op) (history_step h op)"
  by (cases op) (auto simp: represents_store import_keys_def represents_import)

lemma represents_run: "represents sha st h \<Longrightarrow> represents sha (run (key_step sha) st ops) (run history_step h ops)"
  by (induction ops arbitrary: st h) (auto intro: represents_step)

lemma set_last_two:
  "ks \<noteq> [] \<Longrightarrow> set (drop (length ks - 2) ks)
     = (if butlast ks = [] then {last ks} else {last ks, last (butlast ks)})"
proof (cases ks rule: rev_cases)
  case (snoc ls k)
  then show ?thesis by (cases ls rule: rev_cases) (auto simp: butlast_append)
qed simp

text \<open>
  After any sequence of stored and imported keys, the active key of a name is the last one it was given,
  the version the number of keys it was given, and exactly the last two are accepted.
\<close>

theorem rotation_accepts_last_two:
  fixes sha ops i name
  defines "st \<equiv> run (key_step sha) (key_store_new i) ops" and "ks \<equiv> run history_step (\<lambda>_. []) ops name"
  shows "get_key name st = (if ks = [] then None else Some (last ks))
    \<and> (case get_entry name st of
         None \<Rightarrow> ks = []
       | Some e \<Rightarrow> vk_version e = word_of_nat (length ks)
           \<and> (\<forall>key. vk_matches e key \<longleftrightarrow> key \<in> set (drop (length ks - 2) ks)))"
proof -
  have "represents sha (key_store_new i) (\<lambda>_. [])" by (simp add: represents_def key_store_new_def)
  then have "represents sha st (run history_step (\<lambda>_. []) ops)" unfolding st_def by (rule represents_run)
  note entry = represents_cases [OF this, of name, folded ks_def]
  consider "map_of (vs_keys st) name = None" "ks = []"
    | e where "map_of (vs_keys st) name = Some e" "entry_of sha e ks"
    using entry by (elim disjE exE conjE) blast+
  then show ?thesis
  proof cases
    case 2
    then have "ks \<noteq> []" by (simp add: entry_of_def)
    note last_two = set_last_two [OF this]
    from 2 show ?thesis
      by (auto simp: get_key_def get_entry_def entry_of_def vk_matches_def last_two)
  qed (auto simp: get_key_def get_entry_def)
qed

text \<open>
  Importing one bundle twice rotates twice: the entry of an imported key starts at version 1, whatever
  version was imported, so a key of version 3 is taken again, and then the key before it is lost.
\<close>

theorem repeated_import_rotates:
  "let st = run (key_step (\<lambda>_. [])) (key_store_new ''a'')
       [ImportKeys ''b'' [(\<lparr>ek_circuit_name = ''c'', ek_key = [1], ek_version = 1, ek_fingerprint = ''''\<rparr>, '''')],
        ImportKeys ''b'' [(\<lparr>ek_circuit_name = ''c'', ek_key = [2], ek_version = 3, ek_fingerprint = ''''\<rparr>, '''')],
        ImportKeys ''b'' [(\<lparr>ek_circuit_name = ''c'', ek_key = [2], ek_version = 3, ek_fingerprint = ''''\<rparr>, '''')]]
   in map_option (\<lambda>e. (active_key e, previous_key e, vk_version e)) (get_entry ''b:c'' st) = Some ([2], Some [2], 3)"
  by code_simp

end
