(* ===== verification/Ram_Promotion.thy ===== *)
theory Ram_Promotion
  imports Modality_Store
begin

text \<open>
  The promotion of modalities to memory (\<open>verisim-octad/src/ram_promotion.rs\<close>): the decision whether to
  promote, the promotions in force with the memory they use, and their history. Sizes and times are
  \<open>u64\<close> and wrap around, as in a release build; an \<open>Instant\<close> is a number of nanoseconds, \<open>'f\<close> is \<open>f64\<close>.
\<close>

section \<open>The manager\<close>

definition max_promoted :: nat where
  "max_promoted = 2"

definition max_promotion_nanos :: nat where
  "max_promotion_nanos = 300 * 10 ^ 9"

datatype modality =
  Graph | Vector | Tensor | Semantic | Document | Temporal | Provenance | Spatial

definition all_modalities :: "modality list" where
  "all_modalities = [Graph, Vector, Tensor, Semantic, Document, Temporal, Provenance, Spatial]"

fun modality_name :: "modality \<Rightarrow> string" where
  "modality_name Graph = ''graph''"
| "modality_name Vector = ''vector''"
| "modality_name Tensor = ''tensor''"
| "modality_name Semantic = ''semantic''"
| "modality_name Document = ''document''"
| "modality_name Temporal = ''temporal''"
| "modality_name Provenance = ''provenance''"
| "modality_name Spatial = ''spatial''"

record promoted_state =
  ps_modality :: modality
  promoted_at :: nat
  estimated_size :: u64
  operation_count :: u64

datatype 'f promotion_decision =
    Promote "modality list" 'f
  | Skip string
  | Blocked nat nat

datatype promotion_action = Promoted | Demoted | Denied string

record promotion_event =
  pe_modality :: string
  pe_action :: promotion_action
  duration_ms :: "u64 option"
  size_bytes :: u64
  timestamp_epoch_ms :: u64

record promotion_manager =
  promoted :: "(modality \<times> promoted_state) list"
  ram_budget :: u64
  ram_used :: u64
  pm_enabled :: bool
  pm_history :: "promotion_event list"

definition promotion_manager_new :: promotion_manager where
  "promotion_manager_new =
     \<lparr>promoted = [], ram_budget = 1073741824, ram_used = 0, pm_enabled = False, pm_history = []\<rparr>"

text \<open>The conversion of \<open>u64\<close> to \<open>f64\<close>, infinity, the number 2.0 and the format \<open>{:.1}\<close>.\<close>

record 'f promotion_env =
  pr_ops :: "'f float_ops"
  pr_of_u64 :: "u64 \<Rightarrow> 'f"
  pr_infinity :: 'f
  min_speedup :: 'f
  pr_fixed1 :: "'f \<Rightarrow> string"

section \<open>Operations\<close>

definition enable :: "u64 \<Rightarrow> promotion_manager \<Rightarrow> promotion_manager" where
  "enable budget pm = pm\<lparr>pm_enabled := True, ram_budget := budget\<rparr>"

definition saturating_sub :: "u64 \<Rightarrow> u64 \<Rightarrow> u64" where
  "saturating_sub a b = (if a < b then 0 else a - b)"

text \<open>\<open>now\<close> is the instant of the call, \<open>epoch\<close> the time of day in milliseconds.\<close>

definition demote :: "nat \<Rightarrow> u64 \<Rightarrow> modality \<Rightarrow> promotion_manager \<Rightarrow> promotion_manager" where
  "demote now epoch m pm =
     (case map_of (promoted pm) m of
        None \<Rightarrow> pm
      | Some s \<Rightarrow>
          pm\<lparr>promoted := AList.delete m (promoted pm),
             ram_used := saturating_sub (ram_used pm) (estimated_size s),
             pm_history := pm_history pm @
               [\<lparr>pe_modality = modality_name m, pe_action = Demoted,
                 duration_ms = Some (word_of_nat ((now - promoted_at s) div 10 ^ 6)),
                 size_bytes = estimated_size s, timestamp_epoch_ms = epoch\<rparr>]\<rparr>)"

definition demote_each :: "nat \<Rightarrow> u64 \<Rightarrow> modality list \<Rightarrow> promotion_manager \<Rightarrow> promotion_manager" where
  "demote_each now epoch ms pm = fold (demote now epoch) ms pm"

definition demote_all :: "nat \<Rightarrow> u64 \<Rightarrow> promotion_manager \<Rightarrow> promotion_manager" where
  "demote_all now epoch pm = demote_each now epoch (map fst (promoted pm)) pm"

definition disable :: "nat \<Rightarrow> u64 \<Rightarrow> promotion_manager \<Rightarrow> promotion_manager" where
  "disable now epoch pm = (demote_each now epoch (map fst (promoted pm)) pm)\<lparr>pm_enabled := False\<rparr>"

definition decide ::
  "'f promotion_env \<Rightarrow> modality list \<Rightarrow> u64 \<Rightarrow> u64 \<Rightarrow> u64 \<Rightarrow> promotion_manager \<Rightarrow> 'f promotion_decision" where
  "decide env ms data_size disk ram pm =
     (if \<not> pm_enabled pm then Skip ''RAM promotion disabled''
      else if max_promoted < length (promoted pm) + length (filter (\<lambda>m. map_of (promoted pm) m = None) ms) then
        Blocked (length (promoted pm)) max_promoted
      else if ram_budget pm < ram_used pm + data_size then
        Skip (''Insufficient RAM budget: need '' @ dec_digits (unat data_size) @ '' bytes, have ''
          @ dec_digits (unat (ram_budget pm - ram_used pm)) @ '' available'')
      else
        (let speedup = (if 0 < ram then f_div (pr_ops env) (pr_of_u64 env disk) (pr_of_u64 env ram)
                        else pr_infinity env)
         in if f_less (pr_ops env) speedup (min_speedup env) then
              Skip (''Estimated speedup '' @ pr_fixed1 env speedup @ ''x below threshold ''
                @ pr_fixed1 env (min_speedup env) @ ''x'')
            else Promote ms speedup))"

definition promote ::
  "nat \<Rightarrow> u64 \<Rightarrow> modality \<Rightarrow> u64 \<Rightarrow> promotion_manager \<Rightarrow> (string + unit) \<times> promotion_manager" where
  "promote now epoch m sz pm =
     (if \<not> pm_enabled pm then (Inl ''RAM promotion disabled'', pm)
      else if max_promoted \<le> length (promoted pm) then
        (Inl (''Cannot promote: already at limit ('' @ dec_digits (length (promoted pm)) @ ''/''
           @ dec_digits max_promoted @ '')''), pm)
      else if map_of (promoted pm) m \<noteq> None then (Inr (), pm)
      else if ram_budget pm < ram_used pm + sz then
        (Inl (''Cannot promote: would exceed RAM budget ('' @ dec_digits (unat (ram_used pm)) @ '' + ''
           @ dec_digits (unat sz) @ '' > '' @ dec_digits (unat (ram_budget pm)) @ '')''), pm)
      else
        (Inr (), pm\<lparr>promoted := AList.update m
             \<lparr>ps_modality = m, promoted_at = now, estimated_size = sz, operation_count = 0\<rparr> (promoted pm),
           ram_used := ram_used pm + sz,
           pm_history := pm_history pm @
             [\<lparr>pe_modality = modality_name m, pe_action = Promoted, duration_ms = None, size_bytes = sz,
               timestamp_epoch_ms = epoch\<rparr>]\<rparr>))"

definition enforce_timeouts :: "nat \<Rightarrow> u64 \<Rightarrow> promotion_manager \<Rightarrow> promotion_manager" where
  "enforce_timeouts now epoch pm =
     demote_each now epoch
       (map fst (filter (\<lambda>(_, s). max_promotion_nanos < now - promoted_at s) (promoted pm))) pm"

definition record_operation :: "modality \<Rightarrow> promotion_manager \<Rightarrow> promotion_manager" where
  "record_operation m pm =
     (case map_of (promoted pm) m of
        None \<Rightarrow> pm
      | Some s \<Rightarrow>
          pm\<lparr>promoted := AList.update m (s\<lparr>operation_count := operation_count s + 1\<rparr>) (promoted pm)\<rparr>)"

definition ram_usage :: "promotion_manager \<Rightarrow> u64 \<times> u64" where
  "ram_usage pm = (ram_used pm, ram_budget pm)"

section \<open>The invariant\<close>

text \<open>The memory the promotions in force were given.\<close>

definition granted :: "(modality \<times> promoted_state) list \<Rightarrow> nat" where
  "granted ps = (\<Sum>(_, s) \<leftarrow> ps. unat (estimated_size s))"

text \<open>The number of promotions less the number of demotions of a modality in a history.\<close>

definition net :: "modality \<Rightarrow> promotion_event list \<Rightarrow> int" where
  "net m es = (\<Sum>e \<leftarrow> es. if pe_modality e \<noteq> modality_name m then 0
     else case pe_action e of Promoted \<Rightarrow> 1 | Demoted \<Rightarrow> - 1 | Denied _ \<Rightarrow> 0)"

definition promotion_inv :: "promotion_manager \<Rightarrow> bool" where
  "promotion_inv pm \<longleftrightarrow>
     hm_wf (promoted pm) \<and> length (promoted pm) \<le> max_promoted
     \<and> unat (ram_used pm) = granted (promoted pm)
     \<and> (\<forall>m. net m (pm_history pm) = (if map_of (promoted pm) m = None then 0 else 1))
     \<and> (pm_enabled pm \<or> promoted pm = [])"

datatype promotion_op =
    PEnable u64
  | PDisable nat u64
  | PPromote nat u64 modality u64
  | PDemote nat u64 modality
  | PDemoteAll nat u64
  | PTimeouts nat u64
  | PRecord modality

fun promotion_step :: "promotion_manager \<Rightarrow> promotion_op \<Rightarrow> promotion_manager" where
  "promotion_step pm (PEnable budget) = enable budget pm"
| "promotion_step pm (PDisable now epoch) = disable now epoch pm"
| "promotion_step pm (PPromote now epoch m sz) = snd (promote now epoch m sz pm)"
| "promotion_step pm (PDemote now epoch m) = demote now epoch m pm"
| "promotion_step pm (PDemoteAll now epoch) = demote_all now epoch pm"
| "promotion_step pm (PTimeouts now epoch) = enforce_timeouts now epoch pm"
| "promotion_step pm (PRecord m) = record_operation m pm"

text \<open>The sum of the memory in use and the size asked for does not wrap around.\<close>

fun no_overflow :: "promotion_manager \<Rightarrow> promotion_op \<Rightarrow> bool" where
  "no_overflow pm (PPromote _ _ _ sz) \<longleftrightarrow> ram_used pm \<le> ram_used pm + sz"
| "no_overflow pm _ \<longleftrightarrow> True"

lemma modality_name_inject [simp]: "modality_name m = modality_name m' \<longleftrightarrow> m = m'"
  by (cases m; cases m') auto

lemma granted_simps [simp]: "granted [] = 0" "granted ((m, s) # ps) = unat (estimated_size s) + granted ps"
  by (simp_all add: granted_def)

lemma granted_append [simp]: "granted (ps @ qs) = granted ps + granted qs"
  by (simp add: granted_def)

lemma granted_delete: "hm_wf ps \<Longrightarrow> map_of ps m = Some s \<Longrightarrow> granted (AList.delete m ps) + unat (estimated_size s) = granted ps"
proof (induction ps)
  case (Cons p ps)
  obtain k t where p: "p = (k, t)" by (cases p)
  show ?case
  proof (cases "k = m")
    case True
    with Cons.prems p have "m \<notin> fst ` set ps" by (simp add: hm_wf_def)
    then have "AList.delete m ps = ps" by (rule delete_id)
    with True Cons.prems p show ?thesis by simp
  qed (use Cons p in \<open>auto simp: hm_wf_def\<close>)
qed simp

lemma granted_update_same:
  "map_of ps m = Some s \<Longrightarrow> estimated_size t = estimated_size s \<Longrightarrow> granted (AList.update m t ps) = granted ps"
  by (induction ps) auto

lemma update_None: "map_of ps m = None \<Longrightarrow> AList.update m s ps = ps @ [(m, s)]"
  by (induction ps) auto

lemma net_snoc [simp]:
  "net m (es @ [e]) = net m es + (if pe_modality e \<noteq> modality_name m then 0
     else case pe_action e of Promoted \<Rightarrow> 1 | Demoted \<Rightarrow> - 1 | Denied _ \<Rightarrow> 0)"
  by (simp add: net_def)

lemma length_delete: "length (AList.delete m ps) \<le> length ps"
  by (simp add: AList.delete_eq)

lemma demote_inv: "promotion_inv pm \<Longrightarrow> promotion_inv (demote now epoch m pm)"
proof (cases "map_of (promoted pm) m")
  case (Some s)
  assume inv: "promotion_inv pm"
  then have grant: "granted (AList.delete m (promoted pm)) + unat (estimated_size s) = unat (ram_used pm)"
    using Some granted_delete [of "promoted pm" m s] by (simp add: promotion_inv_def)
  then have "unat (saturating_sub (ram_used pm) (estimated_size s)) = granted (AList.delete m (promoted pm))"
    by (simp add: saturating_sub_def unat_sub word_le_nat_alt word_less_nat_alt)
  moreover have "length (AList.delete m (promoted pm)) \<le> max_promoted"
    using inv length_delete [of m "promoted pm"] by (simp add: promotion_inv_def)
  ultimately show ?thesis
    using inv Some by (auto simp: promotion_inv_def demote_def)
qed (simp add: demote_def)

lemma demote_each_inv: "promotion_inv pm \<Longrightarrow> promotion_inv (demote_each now epoch ms pm)"
  unfolding demote_each_def by (induction ms arbitrary: pm) (auto intro: demote_inv)

lemma promoted_demote: "promoted (demote now epoch m pm) = AList.delete m (promoted pm)"
proof (cases "map_of (promoted pm) m")
  case None
  then have "m \<notin> fst ` set (promoted pm)" by (simp add: map_of_eq_None_iff)
  then have "AList.delete m (promoted pm) = promoted pm" by (rule delete_id)
  with None show ?thesis by (simp add: demote_def)
qed (simp add: demote_def)

lemma promoted_demote_each: "promoted (demote_each now epoch ms pm) = filter (\<lambda>(m, _). m \<notin> set ms) (promoted pm)"
  unfolding demote_each_def
  by (induction ms arbitrary: pm) (auto simp: promoted_demote AList.delete_eq intro!: filter_cong)

lemma demote_each_rest:
  "pm_enabled (demote_each now epoch ms pm) = pm_enabled pm"
  unfolding demote_each_def
  by (induction ms arbitrary: pm) (auto simp: demote_def split: option.splits)

lemma promote_inv:
  assumes "promotion_inv pm" "ram_used pm \<le> ram_used pm + sz"
  shows "promotion_inv (snd (promote now epoch m sz pm))"
proof (cases "pm_enabled pm \<and> length (promoted pm) < max_promoted \<and> map_of (promoted pm) m = None
    \<and> \<not> ram_budget pm < ram_used pm + sz")
  case True
  have "unat (ram_used pm + sz) = unat (ram_used pm) + unat sz"
    using assms(2) by (simp add: unat_plus_simple)
  with True assms show ?thesis
    by (auto simp: promote_def promotion_inv_def update_None hm_wf_def map_of_eq_None_iff map_add_def
        split: option.splits) (metis fst_conv image_eqI)
next
  case False
  then have "snd (promote now epoch m sz pm) = pm" by (auto simp: promote_def)
  with assms show ?thesis by simp
qed

lemma record_operation_inv: "promotion_inv pm \<Longrightarrow> promotion_inv (record_operation m pm)"
proof (cases "map_of (promoted pm) m")
  case (Some s)
  have "length (AList.update m t ps) = length ps" if "map_of ps m = Some s" for t ps
    using that by (induction ps) auto
  with Some show "promotion_inv pm \<Longrightarrow> ?thesis"
    by (auto simp: promotion_inv_def record_operation_def granted_update_same)
qed (simp add: record_operation_def)

lemma filter_own_keys: "filter (\<lambda>(m, _). m \<notin> fst ` set ps) ps = []"
  by (force simp: filter_empty_conv)

interpretation promotion_run: step_system promotion_step no_overflow promotion_inv
proof unfold_locales
  fix pm op assume inv: "promotion_inv pm" and ok: "no_overflow pm op"
  show "promotion_inv (promotion_step pm op)"
  proof (cases op)
    case (PDisable now epoch)
    then show ?thesis
      using demote_each_inv [OF inv, of now epoch "map fst (promoted pm)"]
      by (auto simp: disable_def promotion_inv_def promoted_demote_each filter_own_keys)
  qed (use inv ok in \<open>auto simp: enable_def demote_inv demote_all_def enforce_timeouts_def demote_each_inv
         promote_inv record_operation_inv\<close>, simp add: promotion_inv_def)
qed

section \<open>Properties\<close>

text \<open>
  C39: As long as no sum of sizes exceeds 64 bits, at most two modalities are promoted, the memory in use is
  the sum of the sizes they were promoted with, a modality is promoted exactly when the history promotes
  it once more than it demotes it, and none is promoted while promotion is disabled.
\<close>

theorem promotions_within_limits:
  assumes "run_ok promotion_step no_overflow promotion_manager_new ops"
  defines "pm \<equiv> run promotion_step promotion_manager_new ops"
  shows "length (promoted pm) \<le> 2 \<and> unat (ram_used pm) = granted (promoted pm)
    \<and> (\<forall>m. net m (pm_history pm) = (if map_of (promoted pm) m = None then 0 else 1))
    \<and> (pm_enabled pm \<or> promoted pm = [])"
proof -
  have "promotion_inv promotion_manager_new"
    by (simp add: promotion_inv_def promotion_manager_new_def net_def)
  from promotion_run.run_inv [OF this assms(1)] show ?thesis
    by (simp add: pm_def promotion_inv_def max_promoted_def)
qed

theorem promotions_within_limits_witness:
  "let pm = run promotion_step promotion_manager_new [PEnable 100, PPromote 0 0 Graph 60, PPromote 1 0 Vector 30]
   in length (promoted pm) \<le> 2 \<and> unat (ram_used pm) = granted (promoted pm) \<and> granted (promoted pm) = 90"
proof -
  have "run_ok promotion_step no_overflow promotion_manager_new [PEnable 100, PPromote 0 0 Graph 60, PPromote 1 0 Vector 30]"
    by code_simp
  note limits = promotions_within_limits [OF this]
  have "granted (promoted (run promotion_step promotion_manager_new
      [PEnable 100, PPromote 0 0 Graph 60, PPromote 1 0 Vector 30])) = 90" by code_simp
  with limits show ?thesis by (simp only: Let_def simp_thms)
qed

text \<open>After the timeouts are enforced no promotion is older than five minutes.\<close>

theorem timeouts_enforced:
  "\<forall>(m, s) \<in> set (promoted (enforce_timeouts now epoch pm)). now - promoted_at s \<le> 300 * 10 ^ 9"
  by (force simp: enforce_timeouts_def promoted_demote_each max_promotion_nanos_def)

text \<open>A size near the limit of 64 bits wraps around, fits the budget and makes the memory in use shrink.\<close>

theorem oversize_promotion_accepted:
  "let pm = run promotion_step promotion_manager_new [PEnable 100, PPromote 0 0 Graph 60, PPromote 1 0 Vector (- 50)]
   in length (promoted pm) = 2 \<and> ram_used pm = 10"
  by code_simp

text \<open>Promoting a promoted modality again succeeds below the limit and fails at it.\<close>

theorem repeated_promotion_at_limit:
  "fst (promote 2 0 Graph 1 (run promotion_step promotion_manager_new [PEnable 100, PPromote 0 0 Graph 1])) = Inr ()
   \<and> is_ok (fst (promote 2 0 Graph 1
         (run promotion_step promotion_manager_new [PEnable 100, PPromote 0 0 Graph 1, PPromote 1 0 Vector 1]))) = False"
  by code_simp

end
