(* ===== verification/Authority.thy ===== *)
theory Authority
  imports Modality_Store
begin

text \<open>
  What the two halves of the normalizer share (\<open>verisim-normalizer/src/regeneration.rs\<close>): the modalities,
  the ranking that says which of them is believed, the strategy for each, and the queue of the
  entities that wait for a human. \<open>'f\<close> stands for \<open>f64\<close>.
\<close>

section \<open>Comparisons of scores\<close>

definition f_gt :: "'f float_ops \<Rightarrow> 'f \<Rightarrow> 'f \<Rightarrow> bool" where
  "f_gt ops a b \<longleftrightarrow> partial_cmp ops a b = Some Greater"

definition f_ge :: "'f float_ops \<Rightarrow> 'f \<Rightarrow> 'f \<Rightarrow> bool" where
  "f_ge ops a b \<longleftrightarrow> partial_cmp ops a b = Some Greater \<or> partial_cmp ops a b = Some Equal"

section \<open>Modalities\<close>

datatype modality =
    Document
  | Semantic
  | Graph
  | Vector
  | Tensor
  | Temporal
  | Provenance
  | Spatial

definition default_authority_order :: "modality list" where
  "default_authority_order =
     [Document, Semantic, Provenance, Graph, Vector, Tensor, Spatial, Temporal]"

text \<open>\<open>Display\<close> and the derived \<open>Debug\<close>.\<close>

fun modality_display :: "modality \<Rightarrow> string" where
  "modality_display Document = ''document''"
| "modality_display Semantic = ''semantic''"
| "modality_display Graph = ''graph''"
| "modality_display Vector = ''vector''"
| "modality_display Tensor = ''tensor''"
| "modality_display Temporal = ''temporal''"
| "modality_display Provenance = ''provenance''"
| "modality_display Spatial = ''spatial''"

fun modality_debug :: "modality \<Rightarrow> string" where
  "modality_debug Document = ''Document''"
| "modality_debug Semantic = ''Semantic''"
| "modality_debug Graph = ''Graph''"
| "modality_debug Vector = ''Vector''"
| "modality_debug Tensor = ''Tensor''"
| "modality_debug Temporal = ''Temporal''"
| "modality_debug Provenance = ''Provenance''"
| "modality_debug Spatial = ''Spatial''"

definition list_debug :: "('a \<Rightarrow> string) \<Rightarrow> 'a list \<Rightarrow> string" where
  "list_debug show xs = ''['' @ join '', '' (map show xs) @ '']''"

lemma default_order_complete: "m \<in> set default_authority_order"
  by (cases m) (simp_all add: default_authority_order_def)

section \<open>Positions in a ranking\<close>

text \<open>\<open>iter().position(p)\<close>: the index of the first element that satisfies \<open>p\<close>.\<close>

fun position :: "('a \<Rightarrow> bool) \<Rightarrow> 'a list \<Rightarrow> nat option" where
  "position p [] = None"
| "position p (x # xs) = (if p x then Some 0 else map_option Suc (position p xs))"

lemma position_None: "position p xs = None \<longleftrightarrow> (\<forall>x \<in> set xs. \<not> p x)"
  by (induction xs) auto

lemma position_eq_None [simp]: "position (\<lambda>x. x = a) xs = None \<longleftrightarrow> a \<notin> set xs"
  by (auto simp: position_None)

lemma position_SomeD: "position p xs = Some i \<Longrightarrow> i < length xs \<and> p (xs ! i) \<and> (\<forall>j < i. \<not> p (xs ! j))"
  by (induction xs arbitrary: i) (auto split: if_splits simp: less_Suc_eq_0_disj nth_Cons')

lemma position_inject:
  "position (\<lambda>y. y = a) xs = Some i \<Longrightarrow> position (\<lambda>y. y = b) xs = Some i \<Longrightarrow> a = b"
  by (auto dest!: position_SomeD)

text \<open>\<open>iter().find(p)\<close> is the library's \<open>find\<close>; it returns the match of the lowest position.\<close>

lemma find_first:
  "List.find p xs = Some x \<Longrightarrow> p x \<and> x \<in> set xs \<and> (\<exists>i < length xs. x = xs ! i \<and> (\<forall>j < i. \<not> p (xs ! j)))"
  by (auto simp: find_Some_iff)

section \<open>Strategies and their configuration\<close>

datatype regeneration_strategy = FromAuthoritative | Merge | UserResolve

fun strategy_display :: "regeneration_strategy \<Rightarrow> string" where
  "strategy_display FromAuthoritative = ''from_authoritative''"
| "strategy_display Merge = ''merge''"
| "strategy_display UserResolve = ''user_resolve''"

record 'f regeneration_config =
  authority_order :: "modality list"
  default_strategy :: regeneration_strategy
  modality_strategies :: "(modality \<times> regeneration_strategy) list"
  drift_threshold :: 'f
  rg_max_concurrent :: nat

text \<open>The literal \<open>0.3\<close> is a parameter of the default.\<close>

definition regeneration_config_default :: "'f \<Rightarrow> 'f regeneration_config" where
  "regeneration_config_default three_tenths =
     \<lparr>authority_order = default_authority_order, default_strategy = FromAuthoritative,
      modality_strategies = [], drift_threshold = three_tenths, rg_max_concurrent = 10\<rparr>"

definition strategy_for :: "modality \<Rightarrow> 'f regeneration_config \<Rightarrow> regeneration_strategy" where
  "strategy_for m c =
     (case map_of (modality_strategies c) m of Some s \<Rightarrow> s | None \<Rightarrow> default_strategy c)"

text \<open>\<open>n as f64\<close> is \<open>f_literal\<close>.\<close>

definition authority_weight :: "'f float_ops \<Rightarrow> modality \<Rightarrow> 'f regeneration_config \<Rightarrow> 'f" where
  "authority_weight ops m c =
     (let n = f_literal ops (int (length (authority_order c)))
      in case position (\<lambda>x. x = m) (authority_order c) of
           Some idx \<Rightarrow> f_sub ops n (f_literal ops (int idx))
         | None \<Rightarrow> f_literal ops 0)"

section \<open>The queue for manual resolution\<close>

record 'f pending_normalization =
  pn_entity_id :: string
  pn_modality :: modality
  pn_score :: 'f
  queued_at :: datetime

type_synonym 'f normalization_queue = "'f pending_normalization list"

definition queue_enqueue :: "'f pending_normalization \<Rightarrow> 'f normalization_queue \<Rightarrow> 'f normalization_queue" where
  "queue_enqueue item q = q @ [item]"

text \<open>\<open>Vec::remove(i)\<close>: the element at \<open>i\<close> and the vector without it.\<close>

definition vec_remove :: "nat \<Rightarrow> 'a list \<Rightarrow> 'a \<times> 'a list" where
  "vec_remove i xs = (xs ! i, take i xs @ drop (Suc i) xs)"

definition queue_resolve ::
  "string \<Rightarrow> modality \<Rightarrow> 'f normalization_queue
     \<Rightarrow> 'f pending_normalization option \<times> 'f normalization_queue" where
  "queue_resolve e m q =
     (case position (\<lambda>p. pn_entity_id p = e \<and> pn_modality p = m) q of
        None \<Rightarrow> (None, q)
      | Some i \<Rightarrow> (let (item, rest) = vec_remove i q in (Some item, rest)))"

definition queue_drain :: "'f normalization_queue \<Rightarrow> 'f normalization_queue \<times> 'f normalization_queue" where
  "queue_drain q = (q, [])"

text \<open>
  Resolving removes the entry of the entity and modality that has waited longest and no other.
\<close>

lemma queue_resolve_oldest:
  assumes "queue_resolve e m q = (Some item, q')"
  shows "\<exists>xs ys. q = xs @ item # ys \<and> q' = xs @ ys \<and> pn_entity_id item = e \<and> pn_modality item = m
    \<and> (\<forall>p \<in> set xs. pn_entity_id p \<noteq> e \<or> pn_modality p \<noteq> m)"
proof -
  obtain i where i: "position (\<lambda>p. pn_entity_id p = e \<and> pn_modality p = m) q = Some i"
    and item: "item = q ! i" and rest: "q' = take i q @ drop (Suc i) q"
    using assms by (auto simp: queue_resolve_def vec_remove_def split: option.splits)
  note pos = position_SomeD [OF i]
  have "q = take i q @ item # drop (Suc i) q"
    using pos item by (simp add: id_take_nth_drop)
  moreover have "\<forall>p \<in> set (take i q). pn_entity_id p \<noteq> e \<or> pn_modality p \<noteq> m"
    using pos by (auto simp: in_set_conv_nth)
  ultimately show ?thesis using pos item rest by metis
qed

lemma queue_resolve_None:
  "queue_resolve e m q = (None, q') \<longleftrightarrow>
     q' = q \<and> (\<forall>p \<in> set q. pn_entity_id p \<noteq> e \<or> pn_modality p \<noteq> m)"
  by (auto simp: queue_resolve_def vec_remove_def position_None split: option.splits dest!: position_SomeD)

end
