(* ===== verification/Conflict.thy ===== *)
theory Conflict
  imports Authority
begin

text \<open>
  The conflict resolver (\<open>verisim-normalizer/src/conflict.rs\<close>): conflicts, the policies that decide them,
  and the two lists behind two locks that hold the active and the settled ones. A call that settles a
  conflict takes the lock of the active list twice and then the lock of the history, so it has three
  phases; an operation is their composition and \<open>conflict_step\<close> interleaves the phases of concurrent
  calls. The identifier \<open>Uuid::new_v4\<close> draws and the time are arguments. \<open>'f\<close> stands for \<open>f64\<close>.
\<close>

section \<open>Conflicts, policies and configuration\<close>

datatype conflict_policy =
    LastWriterWins
  | ModalityPriority "modality list"
  | ManualResolve
  | AutoMerge
  | Custom string

fun policy_display :: "conflict_policy \<Rightarrow> string" where
  "policy_display LastWriterWins = ''last_writer_wins''"
| "policy_display (ModalityPriority order) = ''modality_priority''"
| "policy_display ManualResolve = ''manual_resolve''"
| "policy_display AutoMerge = ''auto_merge''"
| "policy_display (Custom name) = ''custom('' @ name @ '')''"

datatype conflict_status = Open | InProgress | Resolved | Dismissed

fun conflict_status_display :: "conflict_status \<Rightarrow> string" where
  "conflict_status_display Open = ''open''"
| "conflict_status_display InProgress = ''in_progress''"
| "conflict_status_display Resolved = ''resolved''"
| "conflict_status_display Dismissed = ''dismissed''"

record conflict_resolution =
  resolved_at :: datetime
  policy_used :: conflict_policy
  winning_modality :: "modality option"
  resolver :: string
  res_notes :: "string option"

record 'f conflict =
  cf_id :: string
  cf_entity_id :: string
  detected_at :: datetime
  conflicting_modalities :: "modality list"
  cf_drift_score :: 'f
  cf_description :: string
  cf_status :: conflict_status
  resolution :: "conflict_resolution option"

record 'f conflict_config =
  default_policy :: conflict_policy
  per_modality_policies :: "((modality \<times> modality) \<times> conflict_policy) list"
  auto_resolve_threshold :: 'f
  require_manual_above :: 'f
  max_history_entries :: nat

text \<open>The literals \<open>0.3\<close> and \<open>0.8\<close> are parameters of the default.\<close>

definition conflict_config_default :: "'f \<Rightarrow> 'f \<Rightarrow> 'f conflict_config" where
  "conflict_config_default three_tenths eight_tenths =
     \<lparr>default_policy = LastWriterWins, per_modality_policies = [], auto_resolve_threshold = three_tenths,
      require_manual_above = eight_tenths, max_history_entries = 1000\<rparr>"

text \<open>The override for a pair, looked up in both orders: the part \<open>select_policy\<close> shares with
  \<open>policy_for_pair\<close>.\<close>

definition pair_override :: "'f conflict_config \<Rightarrow> modality \<Rightarrow> modality \<Rightarrow> conflict_policy option" where
  "pair_override c a b =
     (case map_of (per_modality_policies c) (a, b) of
        Some p \<Rightarrow> Some p
      | None \<Rightarrow> map_of (per_modality_policies c) (b, a))"

definition policy_for_pair :: "'f conflict_config \<Rightarrow> modality \<Rightarrow> modality \<Rightarrow> conflict_policy" where
  "policy_for_pair c a b =
     (case pair_override c a b of Some p \<Rightarrow> p | None \<Rightarrow> default_policy c)"

datatype conflict_error =
    ConflictNotFound string
  | AlreadyResolved string
  | InvalidPolicy string
  | ModalityNotInConflict string

record 'f conflict_resolver =
  cr_config :: "'f conflict_config"
  cr_active :: "'f conflict list"
  cr_history :: "'f conflict list"

definition resolver_new :: "'f conflict_config \<Rightarrow> 'f conflict_resolver" where
  "resolver_new c = \<lparr>cr_config = c, cr_active = [], cr_history = []\<rparr>"

text \<open>The operations on floating-point numbers, with \<open>format!("{:.3}")\<close>.\<close>

record 'f conflict_env =
  ce_ops :: "'f float_ops"
  ce_fixed3 :: "'f \<Rightarrow> string"

section \<open>Choosing a policy and applying it\<close>

text \<open>The loops over the pairs \<open>i < j\<close>: the first override found wins.\<close>

fun first_override :: "'f conflict_config \<Rightarrow> modality \<Rightarrow> modality list \<Rightarrow> conflict_policy option" where
  "first_override c a [] = None"
| "first_override c a (b # bs) =
     (case pair_override c a b of Some p \<Rightarrow> Some p | None \<Rightarrow> first_override c a bs)"

fun pair_policy :: "'f conflict_config \<Rightarrow> modality list \<Rightarrow> conflict_policy option" where
  "pair_policy c [] = None"
| "pair_policy c (a # bs) =
     (case first_override c a bs of Some p \<Rightarrow> Some p | None \<Rightarrow> pair_policy c bs)"

definition select_policy :: "'f conflict_config \<Rightarrow> 'f conflict \<Rightarrow> conflict_policy" where
  "select_policy c x =
     (case pair_policy c (conflicting_modalities x) of Some p \<Rightarrow> p | None \<Rightarrow> default_policy c)"

text \<open>The loop of \<open>ModalityPriority\<close>: the best index so far and its modality.\<close>

fun best_ranked :: "modality list \<Rightarrow> (nat \<times> modality) option \<Rightarrow> modality list \<Rightarrow> (nat \<times> modality) option" where
  "best_ranked order best [] = best"
| "best_ranked order best (m # ms) =
     best_ranked order
       (case position (\<lambda>p. p = m) order of
          Some idx \<Rightarrow>
            (case best of
               None \<Rightarrow> Some (idx, m)
             | Some (best_idx, _) \<Rightarrow> if idx < best_idx then Some (idx, m) else best)
        | None \<Rightarrow> best) ms"

definition first_of :: "'a list \<Rightarrow> 'a option" where
  "first_of xs = (case xs of [] \<Rightarrow> None | x # _ \<Rightarrow> Some x)"

definition last_of :: "'a list \<Rightarrow> 'a option" where
  "last_of xs = (if xs = [] then None else Some (last xs))"

definition winner :: "conflict_policy \<Rightarrow> modality list \<Rightarrow> modality option" where
  "winner p ms =
     (case p of
        LastWriterWins \<Rightarrow> last_of ms
      | ModalityPriority order \<Rightarrow>
          (case best_ranked order None ms of Some (_, m) \<Rightarrow> Some m | None \<Rightarrow> first_of ms)
      | AutoMerge \<Rightarrow> None
      | ManualResolve \<Rightarrow> None
      | Custom _ \<Rightarrow> None)"

definition apply_policy :: "datetime \<Rightarrow> 'f conflict \<Rightarrow> conflict_policy \<Rightarrow> conflict_resolution" where
  "apply_policy now x p =
     \<lparr>resolved_at = now, policy_used = p, winning_modality = winner p (conflicting_modalities x),
      resolver = ''system'', res_notes = None\<rparr>"

section \<open>The phases of a call\<close>

text \<open>\<open>iter_mut().find\<close> and an update of what it finds.\<close>

fun update_first :: "('a \<Rightarrow> bool) \<Rightarrow> ('a \<Rightarrow> 'a) \<Rightarrow> 'a list \<Rightarrow> 'a list" where
  "update_first p f [] = []"
| "update_first p f (x # xs) = (if p x then f x # xs else x # update_first p f xs)"

abbreviation set_conflict ::
  "string \<Rightarrow> ('f conflict \<Rightarrow> 'f conflict) \<Rightarrow> 'f conflict_resolver \<Rightarrow> 'f conflict_resolver" where
  "set_conflict i f r \<equiv> r\<lparr>cr_active := update_first (\<lambda>c. cf_id c = i) f (cr_active r)\<rparr>"

text \<open>The lookup and the guard that open the three calls.\<close>

definition find_unsettled :: "string \<Rightarrow> 'f conflict_resolver \<Rightarrow> conflict_error + 'f conflict" where
  "find_unsettled i r =
     (case List.find (\<lambda>c. cf_id c = i) (cr_active r) of
        None \<Rightarrow> Inl (ConflictNotFound i)
      | Some c \<Rightarrow>
          if cf_status c = Resolved \<or> cf_status c = Dismissed then Inl (AlreadyResolved i) else Inr c)"

definition detect_conflict ::
  "string \<Rightarrow> datetime \<Rightarrow> string \<Rightarrow> modality list \<Rightarrow> 'f \<Rightarrow> string \<Rightarrow> 'f conflict_resolver
     \<Rightarrow> 'f conflict \<times> 'f conflict_resolver" where
  "detect_conflict i now e ms score text r =
     (let c = \<lparr>cf_id = i, cf_entity_id = e, detected_at = now, conflicting_modalities = ms,
               cf_drift_score = score, cf_description = text, cf_status = Open, resolution = None\<rparr>
      in (c, r\<lparr>cr_active := cr_active r @ [c]\<rparr>))"

text \<open>
  The first phase decides: it gives the settled conflict with its resolution, or the error, and leaves
  its mark in the active list.
\<close>

type_synonym 'f decision = "conflict_error + 'f conflict \<times> conflict_resolution"

definition settle ::
  "string \<Rightarrow> 'f conflict \<Rightarrow> conflict_status \<Rightarrow> conflict_resolution \<Rightarrow> 'f conflict_resolver
     \<Rightarrow> 'f decision \<times> 'f conflict_resolver" where
  "settle i c s res r =
     (let f = (\<lambda>c. c\<lparr>cf_status := s, resolution := Some res\<rparr>)
      in (Inr (f c, res), set_conflict i f r))"

definition resolve_decide ::
  "'f conflict_env \<Rightarrow> datetime \<Rightarrow> string \<Rightarrow> conflict_policy option \<Rightarrow> 'f conflict_resolver
     \<Rightarrow> 'f decision \<times> 'f conflict_resolver" where
  "resolve_decide env now i policy r =
     (case find_unsettled i r of
        Inl e \<Rightarrow> (Inl e, r)
      | Inr c \<Rightarrow>
          let in_progress = set_conflict i (\<lambda>c. c\<lparr>cf_status := InProgress\<rparr>) r;
              limit = require_manual_above (cr_config r)
          in if f_ge (ce_ops env) (cf_drift_score c) limit then
               (Inl (InvalidPolicy (''Drift score '' @ ce_fixed3 env (cf_drift_score c) @ '' >= manual threshold ''
                  @ ce_fixed3 env limit @ '' -- use resolve_manual()'')), in_progress)
             else
               case (case policy of Some p \<Rightarrow> p | None \<Rightarrow> select_policy (cr_config r) c) of
                 ManualResolve \<Rightarrow> (Inl (InvalidPolicy ''ManualResolve policy requires resolve_manual()''), in_progress)
               | Custom name \<Rightarrow>
                   (Inl (InvalidPolicy (''Custom policy '' @ [CHR 0x27] @ name @ [CHR 0x27]
                      @ '' requires external resolver callback'')), in_progress)
               | p \<Rightarrow> settle i c Resolved (apply_policy now c p) r)"

definition manual_decide ::
  "datetime \<Rightarrow> string \<Rightarrow> modality \<Rightarrow> string \<Rightarrow> string option \<Rightarrow> 'f conflict_resolver
     \<Rightarrow> 'f decision \<times> 'f conflict_resolver" where
  "manual_decide now i m who text r =
     (case find_unsettled i r of
        Inl e \<Rightarrow> (Inl e, r)
      | Inr c \<Rightarrow>
          if m \<notin> set (conflicting_modalities c) then
            (Inl (ModalityNotInConflict (modality_display m @ '' is not in conflicting modalities ''
               @ list_debug modality_debug (conflicting_modalities c))), r)
          else
            settle i c Resolved
              \<lparr>resolved_at = now, policy_used = ManualResolve, winning_modality = Some m, resolver = who,
               res_notes = text\<rparr> r)"

definition dismiss_decide ::
  "datetime \<Rightarrow> string \<Rightarrow> string \<Rightarrow> 'f conflict_resolver
     \<Rightarrow> 'f decision \<times> 'f conflict_resolver" where
  "dismiss_decide now i reason r =
     (case find_unsettled i r of
        Inl e \<Rightarrow> (Inl e, r)
      | Inr c \<Rightarrow>
          settle i c Dismissed
            \<lparr>resolved_at = now, policy_used = LastWriterWins, winning_modality = None, resolver = ''system'',
             res_notes = Some (''Dismissed: '' @ reason)\<rparr> r)"

text \<open>\<open>move_to_history\<close>: its two locked sections.\<close>

definition remove_active :: "'f conflict \<Rightarrow> 'f conflict_resolver \<Rightarrow> 'f conflict_resolver" where
  "remove_active c r = r\<lparr>cr_active := filter (\<lambda>a. cf_id a \<noteq> cf_id c) (cr_active r)\<rparr>"

definition push_history :: "'f conflict \<Rightarrow> 'f conflict_resolver \<Rightarrow> 'f conflict_resolver" where
  "push_history c r =
     (let h = cr_history r @ [c];
          limit = max_history_entries (cr_config r)
      in r\<lparr>cr_history := (if limit < length h then drop (length h - limit) h else h)\<rparr>)"

definition move_to_history :: "'f conflict \<Rightarrow> 'f conflict_resolver \<Rightarrow> 'f conflict_resolver" where
  "move_to_history c r = push_history c (remove_active c r)"

section \<open>The operations\<close>

definition finish ::
  "'f decision \<times> 'f conflict_resolver \<Rightarrow> (conflict_error + conflict_resolution) \<times> 'f conflict_resolver" where
  "finish x =
     (case x of
        (Inl e, r) \<Rightarrow> (Inl e, r)
      | (Inr (c, res), r) \<Rightarrow> (Inr res, move_to_history c r))"

definition cr_resolve ::
  "'f conflict_env \<Rightarrow> datetime \<Rightarrow> string \<Rightarrow> conflict_policy option \<Rightarrow> 'f conflict_resolver
     \<Rightarrow> (conflict_error + conflict_resolution) \<times> 'f conflict_resolver" where
  "cr_resolve env now i policy r = finish (resolve_decide env now i policy r)"

definition cr_resolve_manual ::
  "datetime \<Rightarrow> string \<Rightarrow> modality \<Rightarrow> string \<Rightarrow> string option \<Rightarrow> 'f conflict_resolver
     \<Rightarrow> (conflict_error + conflict_resolution) \<times> 'f conflict_resolver" where
  "cr_resolve_manual now i m who text r = finish (manual_decide now i m who text r)"

definition cr_dismiss ::
  "datetime \<Rightarrow> string \<Rightarrow> string \<Rightarrow> 'f conflict_resolver \<Rightarrow> (conflict_error + unit) \<times> 'f conflict_resolver" where
  "cr_dismiss now i reason r =
     (let (ans, r') = finish (dismiss_decide now i reason r) in (map_sum id (\<lambda>_. ()) ans, r'))"

text \<open>The queries.\<close>

definition history_query :: "nat \<Rightarrow> 'f conflict_resolver \<Rightarrow> 'f conflict list" where
  "history_query limit r =
     (let h = cr_history r
      in if limit = 0 \<or> length h \<le> limit then rev h else rev (drop (length h - limit) h))"

definition by_entity :: "string \<Rightarrow> 'f conflict_resolver \<Rightarrow> 'f conflict list" where
  "by_entity e r =
     filter (\<lambda>c. cf_entity_id c = e) (cr_active r) @ rev (filter (\<lambda>c. cf_entity_id c = e) (cr_history r))"

end
