(* ===== verification/Conflict_Props.thy ===== *)
theory Conflict_Props
  imports Conflict "HOL-Library.Multiset"
begin

text \<open>
  What the conflict resolver promises: which modality a policy chooses, and, in every interleaving of
  concurrent calls, that a conflict is settled at most once, that the history is the bounded log of the
  settled ones, and that a high drift score is settled by a human or not at all.
\<close>

section \<open>The winner of a policy\<close>

abbreviation rank_of :: "modality list \<Rightarrow> modality \<Rightarrow> nat option" where
  "rank_of order m \<equiv> position (\<lambda>p. p = m) order"

definition best_so_far :: "modality list \<Rightarrow> modality set \<Rightarrow> (nat \<times> modality) option \<Rightarrow> bool" where
  "best_so_far order M best \<longleftrightarrow>
     (case best of
        None \<Rightarrow> \<forall>m \<in> M. rank_of order m = None
      | Some (i, m) \<Rightarrow> m \<in> M \<and> rank_of order m = Some i
          \<and> (\<forall>m' \<in> M. \<forall>j. rank_of order m' = Some j \<longrightarrow> i \<le> j))"

lemma best_so_far_step:
  assumes "best_so_far order M best"
  shows "best_so_far order (insert m M)
    (case rank_of order m of
       Some idx \<Rightarrow>
         (case best of
            None \<Rightarrow> Some (idx, m)
          | Some (best_idx, _) \<Rightarrow> if idx < best_idx then Some (idx, m) else best)
     | None \<Rightarrow> best)"
proof (cases "rank_of order m")
  case None
  then show ?thesis
    using assms unfolding best_so_far_def by (cases best) (auto simp del: position_eq_None)
next
  case (Some idx)
  then show ?thesis
    using assms unfolding best_so_far_def
    by (cases best) (force simp del: position_eq_None)+
qed

lemma best_ranked_best:
  "best_so_far order M best \<Longrightarrow> best_so_far order (M \<union> set ms) (best_ranked order best ms)"
proof (induction ms arbitrary: M best)
  case (Cons m ms)
  show ?case
    using Cons.IH [OF best_so_far_step [OF Cons.prems, where m = m]] by simp
qed simp

lemma best_ranked_start: "best_so_far order (set ms) (best_ranked order None ms)"
  using best_ranked_best [of order "{}" None ms] by (simp add: best_so_far_def)

lemma winner_priority:
  assumes "winner (ModalityPriority order) ms = Some m"
  shows "m \<in> set ms \<and> (\<forall>m' \<in> set ms. \<forall>j. rank_of order m' = Some j \<longrightarrow> (\<exists>i \<le> j. rank_of order m = Some i))"
proof (cases "best_ranked order None ms")
  case None
  then have "\<forall>m' \<in> set ms. rank_of order m' = None"
    using best_ranked_start [of order ms] by (simp add: best_so_far_def)
  then show ?thesis
    using assms None by (cases ms) (auto simp: winner_def first_of_def simp del: position_eq_None)
next
  case (Some b)
  then show ?thesis
    using assms best_ranked_start [of order ms] by (auto simp: winner_def best_so_far_def)
qed

lemma winner_in_conflict:
  assumes "winner p ms = Some m"
  shows "m \<in> set ms"
proof (cases p)
  case (ModalityPriority order)
  then show ?thesis using assms winner_priority by blast
qed (use assms in \<open>auto simp: winner_def last_of_def split: if_splits\<close>)

lemma winner_priority_total: "ms \<noteq> [] \<Longrightarrow> \<exists>m. winner (ModalityPriority order) ms = Some m"
  by (cases ms) (auto simp: winner_def first_of_def split: option.splits)

lemma winner_priority_unranked:
  "ms \<noteq> [] \<Longrightarrow> \<forall>m \<in> set ms. m \<notin> set order \<Longrightarrow> winner (ModalityPriority order) ms = Some (hd ms)"
  using best_ranked_start [of order ms]
  by (cases ms) (auto simp: winner_def best_so_far_def first_of_def split: option.splits dest!: position_SomeD)

section \<open>Concurrent calls\<close>

text \<open>
  The resolver with the calls in progress: \<open>cs_removing\<close> have decided and not yet taken the active lock
  again, \<open>cs_pushing\<close> have removed their conflict and not yet taken the lock of the history. The record
  of what happened: identifiers drawn, conflicts settled and conflicts pushed, in order.
\<close>

record 'f conflict_state =
  cs_res :: "'f conflict_resolver"
  cs_removing :: "'f conflict list"
  cs_pushing :: "'f conflict list"
  cs_ids :: "string list"
  cs_settled :: "'f conflict list"
  cs_pushed :: "'f conflict list"

definition conflict_start :: "'f conflict_config \<Rightarrow> 'f conflict_state" where
  "conflict_start cfg =
     \<lparr>cs_res = resolver_new cfg, cs_removing = [], cs_pushing = [], cs_ids = [], cs_settled = [],
      cs_pushed = []\<rparr>"

definition decided :: "'f decision \<times> 'f conflict_resolver \<Rightarrow> 'f conflict_state \<Rightarrow> 'f conflict_state" where
  "decided x s =
     (case x of
        (Inl _, r) \<Rightarrow> s\<lparr>cs_res := r\<rparr>
      | (Inr (c, _), r) \<Rightarrow>
          s\<lparr>cs_res := r, cs_removing := c # cs_removing s, cs_settled := cs_settled s @ [c]\<rparr>)"

definition detected :: "string \<Rightarrow> 'f conflict_resolver \<Rightarrow> 'f conflict_state \<Rightarrow> 'f conflict_state" where
  "detected i r s = s\<lparr>cs_res := r, cs_ids := i # cs_ids s\<rparr>"

definition removed :: "'f conflict \<Rightarrow> 'f conflict_state \<Rightarrow> 'f conflict_state" where
  "removed c s = s\<lparr>cs_res := remove_active c (cs_res s), cs_removing := remove1 c (cs_removing s),
     cs_pushing := c # cs_pushing s\<rparr>"

definition pushed :: "'f conflict \<Rightarrow> 'f conflict_state \<Rightarrow> 'f conflict_state" where
  "pushed c s = s\<lparr>cs_res := push_history c (cs_res s), cs_pushing := remove1 c (cs_pushing s),
     cs_pushed := cs_pushed s @ [c]\<rparr>"

inductive conflict_step :: "'f conflict_env \<Rightarrow> 'f conflict_state \<Rightarrow> 'f conflict_state \<Rightarrow> bool"
  for env :: "'f conflict_env" where
  cs_detect: "i \<notin> set (cs_ids s) \<Longrightarrow>
     conflict_step env s (detected i (snd (detect_conflict i now e ms score text (cs_res s))) s)"
| cs_resolve: "conflict_step env s (decided (resolve_decide env now i policy (cs_res s)) s)"
| cs_manual: "conflict_step env s (decided (manual_decide now i m who text' (cs_res s)) s)"
| cs_dismiss: "conflict_step env s (decided (dismiss_decide now i reason (cs_res s)) s)"
| cs_remove: "c \<in> set (cs_removing s) \<Longrightarrow> conflict_step env s (removed c s)"
| cs_push: "c \<in> set (cs_pushing s) \<Longrightarrow> conflict_step env s (pushed c s)"

inductive_cases conflict_stepE: "conflict_step env s s'"

abbreviation conflict_steps :: "'f conflict_env \<Rightarrow> 'f conflict_state \<Rightarrow> 'f conflict_state \<Rightarrow> bool" where
  "conflict_steps env \<equiv> (conflict_step env)\<^sup>*\<^sup>*"

text \<open>A call whose phases follow each other at once is the operation.\<close>

lemma finish_decided:
  assumes "finish x = (Inr res, r')"
  obtains c where "fst x = Inr (c, res)" "cs_res (pushed c (removed c (decided x s))) = r'"
  using assms
  by (cases x; cases "fst x")
    (auto simp: finish_def decided_def removed_def pushed_def move_to_history_def)

lemma call_sequential:
  assumes "conflict_step env s (decided x s)" "finish x = (Inr res, r')"
  shows "\<exists>s'. conflict_steps env s s' \<and> cs_res s' = r'"
proof -
  obtain c where c: "fst x = Inr (c, res)" and r: "cs_res (pushed c (removed c (decided x s))) = r'"
    by (rule finish_decided [OF assms(2)])
  have "c \<in> set (cs_removing (decided x s))"
    using c by (cases x) (auto simp: decided_def)
  then have "conflict_step env (decided x s) (removed c (decided x s))" by (rule cs_remove)
  moreover have "conflict_step env (removed c (decided x s)) (pushed c (removed c (decided x s)))"
    by (rule cs_push) (simp add: removed_def)
  ultimately show ?thesis
    using assms(1) r by (intro exI conjI) (auto intro: converse_rtranclp_into_rtranclp)
qed

section \<open>The invariant\<close>

definition is_settled :: "'f conflict \<Rightarrow> bool" where
  "is_settled c \<longleftrightarrow> cf_status c = Resolved \<or> cf_status c = Dismissed"

text \<open>
  How a conflict may have been settled: dismissed without a winner, or resolved by a policy that can
  resolve, for a winner that takes part in the conflict, and from the threshold on only by hand.
\<close>

definition settlement_ok :: "'f conflict_env \<Rightarrow> 'f conflict_config \<Rightarrow> 'f conflict \<Rightarrow> bool" where
  "settlement_ok env cfg c \<longleftrightarrow>
     (\<exists>res. resolution c = Some res
        \<and> (cf_status c = Dismissed \<and> winning_modality res = None
           \<or> cf_status c = Resolved
             \<and> (\<forall>m. winning_modality res = Some m \<longrightarrow> m \<in> set (conflicting_modalities c))
             \<and> (f_ge (ce_ops env) (cf_drift_score c) (require_manual_above cfg) \<longrightarrow> policy_used res = ManualResolve)
             \<and> (policy_used res = ManualResolve \<longrightarrow> winning_modality res \<noteq> None)
             \<and> (\<forall>name. policy_used res \<noteq> Custom name)))"

text \<open>\<open>last_n n xs\<close>: the last \<open>n\<close> elements.\<close>

definition last_n :: "nat \<Rightarrow> 'a list \<Rightarrow> 'a list" where
  "last_n n xs = drop (length xs - n) xs"

lemma length_last_n: "length (last_n n xs) = min n (length xs)"
  by (simp add: last_n_def)

lemma set_last_n: "set (last_n n xs) \<subseteq> set xs"
  by (simp add: last_n_def set_drop_subset)

lemma last_n_snoc: "last_n n (last_n n xs @ [x]) = last_n n (xs @ [x])"
  by (cases "length xs \<le> n") (auto simp: last_n_def Suc_diff_le)

lemma push_history_last_n:
  "cr_history (push_history c r) = last_n (max_history_entries (cr_config r)) (cr_history r @ [c])"
  by (simp add: push_history_def last_n_def Let_def)


definition parts_inv ::
  "'f conflict_env \<Rightarrow> 'f conflict_config \<Rightarrow> 'f conflict_resolver \<Rightarrow> 'f conflict list \<Rightarrow> 'f conflict list
     \<Rightarrow> string list \<Rightarrow> 'f conflict list \<Rightarrow> 'f conflict list \<Rightarrow> bool" where
  "parts_inv env cfg r removing pushing ids settled hist \<longleftrightarrow>
     cr_config r = cfg
     \<and> distinct (map cf_id (cr_active r))
     \<and> distinct (map cf_id settled)
     \<and> distinct (map cf_id (removing @ pushing @ hist))
     \<and> set settled = set (removing @ pushing @ hist)
     \<and> set removing = {c \<in> set (cr_active r). is_settled c}
     \<and> (\<forall>c \<in> set (cr_active r). \<not> is_settled c \<longrightarrow> cf_id c \<notin> cf_id ` set settled)
     \<and> (\<forall>c \<in> set (cr_active r). is_settled c \<longleftrightarrow> resolution c \<noteq> None)
     \<and> set ids = cf_id ` set (cr_active r) \<union> cf_id ` set settled
     \<and> (\<forall>c \<in> set settled. settlement_ok env cfg c)
     \<and> cr_history r = last_n (max_history_entries cfg) hist"

abbreviation conflict_inv :: "'f conflict_env \<Rightarrow> 'f conflict_config \<Rightarrow> 'f conflict_state \<Rightarrow> bool" where
  "conflict_inv env cfg s \<equiv>
     parts_inv env cfg (cs_res s) (cs_removing s) (cs_pushing s) (cs_ids s) (cs_settled s) (cs_pushed s)"

lemma parts_invD:
  assumes "parts_inv env cfg r removing pushing ids settled hist"
  shows "cr_config r = cfg" "distinct (map cf_id (cr_active r))" "distinct (map cf_id settled)"
    "distinct (map cf_id (removing @ pushing @ hist))" "set settled = set (removing @ pushing @ hist)"
    "set removing = {c \<in> set (cr_active r). is_settled c}"
    "\<forall>c \<in> set (cr_active r). \<not> is_settled c \<longrightarrow> cf_id c \<notin> cf_id ` set settled"
    "\<forall>c \<in> set (cr_active r). is_settled c \<longleftrightarrow> resolution c \<noteq> None"
    "set ids = cf_id ` set (cr_active r) \<union> cf_id ` set settled"
    "\<forall>c \<in> set settled. settlement_ok env cfg c"
    "cr_history r = last_n (max_history_entries cfg) hist"
  using assms unfolding parts_inv_def by - (elim conjE, assumption)+

lemma conflict_inv_start: "conflict_inv env cfg (conflict_start cfg)"
  by (simp add: parts_inv_def conflict_start_def resolver_new_def last_n_def)

lemma update_first_map:
  "distinct (map cf_id xs) \<Longrightarrow>
     update_first (\<lambda>c. cf_id c = i) f xs = map (\<lambda>c. if cf_id c = i then f c else c) xs"
  by (induction xs) (auto simp: rev_image_eqI intro!: map_idI [symmetric])

lemma find_unsettled_Inr:
  "find_unsettled i r = Inr c \<Longrightarrow> c \<in> set (cr_active r) \<and> cf_id c = i \<and> \<not> is_settled c"
  by (auto simp: find_unsettled_def is_settled_def find_Some_iff split: option.splits if_splits)

text \<open>What the first phase of a call may do: nothing, mark the conflict, or settle it.\<close>

inductive decision ::
  "'f conflict_env \<Rightarrow> string \<Rightarrow> 'f conflict_resolver \<Rightarrow> 'f decision \<times> 'f conflict_resolver \<Rightarrow> bool"
  for env :: "'f conflict_env" and i :: string and r :: "'f conflict_resolver" where
  dec_none: "decision env i r (Inl e, r)"
| dec_mark: "find_unsettled i r = Inr c \<Longrightarrow>
     decision env i r (Inl e, set_conflict i (\<lambda>c. c\<lparr>cf_status := InProgress\<rparr>) r)"
| dec_settle: "find_unsettled i r = Inr c \<Longrightarrow>
     settlement_ok env (cr_config r) (c\<lparr>cf_status := st, resolution := Some res\<rparr>) \<Longrightarrow>
     decision env i r (settle i c st res r)"

lemma resolve_decision: "decision env i r (resolve_decide env now i policy r)"
proof (cases "find_unsettled i r")
  case (Inl e)
  then show ?thesis by (simp add: resolve_decide_def dec_none)
next
  case (Inr c)
  have ok: "settlement_ok env (cr_config r) (c\<lparr>cf_status := Resolved, resolution := Some (apply_policy now c p)\<rparr>)"
    if "\<not> f_ge (ce_ops env) (cf_drift_score c) (require_manual_above (cr_config r))"
      and "p \<noteq> ManualResolve" and "\<forall>name. p \<noteq> Custom name" for p
    using that by (auto simp: settlement_ok_def apply_policy_def winner_in_conflict)
  show ?thesis
    unfolding resolve_decide_def Inr sum.case Let_def
    by (auto split: conflict_policy.split intro!: dec_mark [OF Inr] dec_settle [OF Inr] ok)
qed

lemma manual_decision: "decision env i r (manual_decide now i m who text' r)"
proof (cases "find_unsettled i r")
  case (Inl e)
  then show ?thesis by (simp add: manual_decide_def dec_none)
next
  case (Inr c)
  show ?thesis
    unfolding manual_decide_def Inr sum.case
    by (auto simp: settlement_ok_def intro!: dec_none dec_settle [OF Inr])
qed

lemma dismiss_decision: "decision env i r (dismiss_decide now i reason r)"
proof (cases "find_unsettled i r")
  case (Inl e)
  then show ?thesis by (simp add: dismiss_decide_def dec_none)
next
  case (Inr c)
  show ?thesis
    unfolding dismiss_decide_def Inr sum.case
    by (auto simp: settlement_ok_def intro!: dec_settle [OF Inr])
qed

text \<open>Marking and settling change the conflict of one identifier and keep the identifiers.\<close>

lemma set_update_first:
  assumes "distinct (map cf_id xs)" "c \<in> set xs" "cf_id c = i"
  shows "set (update_first (\<lambda>c. cf_id c = i) f xs) = insert (f c) (set xs - {c})"
  using assms by (auto simp: update_first_map inj_on_eq_iff distinct_map)

lemma map_id_update_first:
  assumes "distinct (map cf_id xs)" "\<And>c. cf_id (f c) = cf_id c"
  shows "map cf_id (update_first (\<lambda>c. cf_id c = i) f xs) = map cf_id xs"
  using assms by (simp add: update_first_map comp_def)

lemma set_conflict_unsettled:
  assumes "conflict_inv env cfg s" "find_unsettled i (cs_res s) = Inr c" "\<And>c. cf_id (f c) = cf_id c"
  defines "r' \<equiv> set_conflict i f (cs_res s)"
  shows "distinct (map cf_id (cr_active r'))"
    and "set (cr_active r') = insert (f c) (set (cr_active (cs_res s)) - {c})"
    and "cf_id ` set (cr_active r') = cf_id ` set (cr_active (cs_res s))"
    and "cr_config r' = cfg" "cr_history r' = cr_history (cs_res s)"
proof -
  have ids: "distinct (map cf_id (cr_active (cs_res s)))" and cfg: "cr_config (cs_res s) = cfg"
    using assms(1) by (simp_all add: parts_inv_def)
  note c = find_unsettled_Inr [OF assms(2)]
  have map_eq: "map cf_id (cr_active r') = map cf_id (cr_active (cs_res s))"
    unfolding r'_def by (simp add: map_id_update_first [OF ids assms(3)])
  then show "distinct (map cf_id (cr_active r'))" using ids by simp
  show "set (cr_active r') = insert (f c) (set (cr_active (cs_res s)) - {c})"
    unfolding r'_def using set_update_first [OF ids, of c i f] c by simp
  show "cf_id ` set (cr_active r') = cf_id ` set (cr_active (cs_res s))"
    using map_eq by (metis image_set)
  show "cr_config r' = cfg" "cr_history r' = cr_history (cs_res s)" by (simp_all add: r'_def cfg)
qed

lemma unsettled_fresh:
  assumes "conflict_inv env cfg s" "c \<in> set (cr_active (cs_res s))" "\<not> is_settled c"
  shows "cf_id c \<notin> cf_id ` set (cs_settled s)" "resolution c = None" "c \<notin> set (cs_removing s)"
  using assms by (auto simp: parts_inv_def)

lemma active_ids_eq:
  "conflict_inv env cfg s \<Longrightarrow> a \<in> set (cr_active (cs_res s)) \<Longrightarrow> c \<in> set (cr_active (cs_res s)) \<Longrightarrow>
     cf_id a = cf_id c \<Longrightarrow> a = c"
  by (auto simp: parts_inv_def distinct_map inj_on_def)

text \<open>
  Replacing one unsettled conflict of the active list keeps the invariant; a settled replacement is
  recorded and owes its removal.
\<close>

lemma replace_inv:
  assumes inv: "parts_inv env cfg r removing pushing ids settled hist"
    and c: "c \<in> set (cr_active r)" "\<not> is_settled c" "cf_id c' = cf_id c"
    and r': "cr_config r' = cfg" "cr_history r' = cr_history r" "distinct (map cf_id (cr_active r'))"
      "set (cr_active r') = insert c' (set (cr_active r) - {c})"
  shows "\<not> is_settled c' \<Longrightarrow> resolution c' = None \<Longrightarrow> parts_inv env cfg r' removing pushing ids settled hist"
    and "is_settled c' \<Longrightarrow> resolution c' \<noteq> None \<Longrightarrow> settlement_ok env cfg c' \<Longrightarrow>
      parts_inv env cfg r' (c' # removing) pushing ids (settled @ [c']) hist"
proof -
  let ?A = "set (cr_active r)"
  note old = parts_invD [OF inv]
  have ids: "cf_id ` insert c' (?A - {c}) = cf_id ` ?A" using c(1,3) by force
  have fresh: "cf_id c' \<notin> cf_id ` set settled" using old(7) c by simp
  have other: "cf_id a \<noteq> cf_id c'" if "a \<in> ?A" "a \<noteq> c" for a
    using old(2) that c(1,3) by (auto simp: distinct_map inj_on_def)
  show "parts_inv env cfg r' removing pushing ids settled hist" if "\<not> is_settled c'" "resolution c' = None"
    unfolding parts_inv_def r' ids
  proof (intro conjI)
    show "set removing = {a \<in> insert c' (?A - {c}). is_settled a}" using old(6) c(2) that by auto
    show "\<forall>a \<in> insert c' (?A - {c}). \<not> is_settled a \<longrightarrow> cf_id a \<notin> cf_id ` set settled"
      using old(7) fresh by auto
    show "\<forall>a \<in> insert c' (?A - {c}). is_settled a \<longleftrightarrow> resolution a \<noteq> None" using old(8) that by auto
  qed (rule refl | fact old r')+
  show "parts_inv env cfg r' (c' # removing) pushing ids (settled @ [c']) hist"
    if "is_settled c'" "resolution c' \<noteq> None" "settlement_ok env cfg c'"
  proof -
    have "distinct (map cf_id ((c' # removing) @ pushing @ hist))"
      using old(4) fresh by (simp add: old(5) image_Un)
    moreover have "set (settled @ [c']) = set ((c' # removing) @ pushing @ hist)" using old(5) by simp
    moreover have "set (c' # removing) = {a \<in> insert c' (?A - {c}). is_settled a}"
      using old(6) c(2) that(1) by auto
    moreover have "\<forall>a \<in> insert c' (?A - {c}). \<not> is_settled a \<longrightarrow> cf_id a \<notin> cf_id ` set (settled @ [c'])"
      using old(7) other that(1) by auto
    moreover have "set ids = cf_id ` ?A \<union> cf_id ` set (settled @ [c'])" using old(9) c by auto
    ultimately show ?thesis
      unfolding parts_inv_def r' ids
    proof (intro conjI)
      show "distinct (map cf_id (settled @ [c']))" using old(3) fresh by simp
      show "\<forall>a \<in> insert c' (?A - {c}). is_settled a \<longleftrightarrow> resolution a \<noteq> None" using old(8) that by auto
      show "\<forall>a \<in> set (settled @ [c']). settlement_ok env cfg a" using old(10) that by auto
    qed (rule refl | assumption | rule old | rule r')+
  qed
qed

lemma mark_inv:
  assumes inv: "conflict_inv env cfg s" and find: "find_unsettled i (cs_res s) = Inr c"
  shows "conflict_inv env cfg (s\<lparr>cs_res := set_conflict i (\<lambda>c. c\<lparr>cf_status := InProgress\<rparr>) (cs_res s)\<rparr>)"
proof -
  let ?f = "\<lambda>c. c\<lparr>cf_status := InProgress\<rparr>"
  note c = find_unsettled_Inr [OF find] and new = set_conflict_unsettled [OF inv find, where f = ?f]
  have "resolution c = None" by (rule unsettled_fresh [OF inv]) (use c in auto)
  then show ?thesis
    using replace_inv(1) [OF inv, where c = c and c' = "?f c" and r' = "set_conflict i ?f (cs_res s)"] c new
    by (simp add: is_settled_def)
qed

lemma settle_inv:
  assumes inv: "conflict_inv env cfg s" and find: "find_unsettled i (cs_res s) = Inr c"
    and ok: "settlement_ok env cfg (c\<lparr>cf_status := st, resolution := Some res\<rparr>)"
  shows "conflict_inv env cfg (decided (settle i c st res (cs_res s)) s)"
proof -
  let ?f = "\<lambda>c. c\<lparr>cf_status := st, resolution := Some res\<rparr>"
  note c = find_unsettled_Inr [OF find] and new = set_conflict_unsettled [OF inv find, where f = ?f]
  have "is_settled (?f c)" using ok by (auto simp: is_settled_def settlement_ok_def)
  then show ?thesis
    using replace_inv(2) [OF inv, where c = c and c' = "?f c" and r' = "set_conflict i ?f (cs_res s)"] c new ok
    by (simp add: decided_def settle_def)
qed

lemma decided_inv:
  assumes "decision env i (cs_res s) x" "conflict_inv env cfg s"
  shows "conflict_inv env cfg (decided x s)"
  using assms(1)
proof (cases rule: decision.cases)
  case (dec_none e)
  then show ?thesis using assms(2) by (simp add: decided_def)
next
  case (dec_mark c e)
  then show ?thesis using mark_inv [OF assms(2) dec_mark(2)] by (simp add: decided_def)
next
  case (dec_settle c st res)
  have "cr_config (cs_res s) = cfg" using assms(2) by (simp add: parts_inv_def)
  then show ?thesis using settle_inv [OF assms(2) dec_settle(2)] dec_settle by simp
qed

lemma detected_inv:
  assumes inv: "conflict_inv env cfg s" and fresh: "i \<notin> set (cs_ids s)"
  shows "conflict_inv env cfg (detected i (snd (detect_conflict i now e ms score text' (cs_res s))) s)"
proof -
  note old = parts_invD [OF inv]
  let ?c = "fst (detect_conflict i now e ms score text' (cs_res s))"
  have c: "cf_id ?c = i" "\<not> is_settled ?c" "resolution ?c = None"
    by (simp_all add: detect_conflict_def is_settled_def Let_def)
  define r' where "r' = snd (detect_conflict i now e ms score text' (cs_res s))"
  have r': "cr_active r' = cr_active (cs_res s) @ [?c]" "cr_config r' = cfg" "cr_history r' = cr_history (cs_res s)"
    by (simp_all add: r'_def detect_conflict_def Let_def old(1))
  have i: "i \<notin> cf_id ` set (cr_active (cs_res s))" "i \<notin> cf_id ` set (cs_settled s)"
    using fresh old(9) by auto
  have "set (cs_removing s) = {a \<in> set (cr_active (cs_res s) @ [?c]). is_settled a}"
    using old(6) c(2) by auto
  moreover have "\<forall>a \<in> set (cr_active (cs_res s) @ [?c]). \<not> is_settled a \<longrightarrow> cf_id a \<notin> cf_id ` set (cs_settled s)"
    using old(7) i(2) c(1) by auto
  moreover have "\<forall>a \<in> set (cr_active (cs_res s) @ [?c]). is_settled a \<longleftrightarrow> resolution a \<noteq> None"
    using old(8) c by auto
  moreover have "distinct (map cf_id (cr_active (cs_res s) @ [?c]))" using old(2) i(1) c(1) by simp
  moreover have "set (i # cs_ids s) = cf_id ` set (cr_active (cs_res s) @ [?c]) \<union> cf_id ` set (cs_settled s)"
    using old(9) c(1) by auto
  ultimately have "parts_inv env cfg r' (cs_removing s) (cs_pushing s) (i # cs_ids s) (cs_settled s) (cs_pushed s)"
    unfolding parts_inv_def r' by (intro conjI) (rule refl | assumption | rule old)+
  then show ?thesis by (simp add: detected_def r'_def)
qed

text \<open>The two phases of the move to the history.\<close>

lemma removed_inv:
  assumes inv: "conflict_inv env cfg s" and c: "c \<in> set (cs_removing s)"
  shows "conflict_inv env cfg (removed c s)"
proof -
  note old = parts_invD [OF inv]
  let ?A = "filter (\<lambda>a. cf_id a \<noteq> cf_id c) (cr_active (cs_res s))"
  define r' where "r' = remove_active c (cs_res s)"
  have r': "cr_active r' = ?A" "cr_config r' = cfg" "cr_history r' = cr_history (cs_res s)"
    by (simp_all add: r'_def remove_active_def old(1))
  have active: "c \<in> set (cr_active (cs_res s))" "is_settled c" using old(6) c by auto
  have A: "set ?A = set (cr_active (cs_res s)) - {c}"
    using old(2) active(1) by (auto simp: distinct_map inj_on_def)
  have ids: "mset (remove1 c (cs_removing s) @ (c # cs_pushing s) @ cs_pushed s)
      = mset (cs_removing s @ cs_pushing s @ cs_pushed s)"
    using c by simp
  have "distinct (map cf_id (remove1 c (cs_removing s) @ (c # cs_pushing s) @ cs_pushed s))"
    using old(4) by (metis ids mset_map mset_eq_imp_distinct_iff)
  moreover have "set (cs_settled s) = set (remove1 c (cs_removing s) @ (c # cs_pushing s) @ cs_pushed s)"
    using old(5) by (metis ids mset_eq_setD)
  moreover have "set (remove1 c (cs_removing s)) = {a \<in> set ?A. is_settled a}"
    using old(4,6) unfolding A by (simp add: distinct_map set_diff_eq) auto
  moreover have "distinct (map cf_id ?A)" using old(2) by (simp add: distinct_map_filter)
  moreover have "set (cs_ids s) = cf_id ` set ?A \<union> cf_id ` set (cs_settled s)"
    unfolding A using old(5,9) c by auto
  moreover have "\<forall>a \<in> set ?A. \<not> is_settled a \<longrightarrow> cf_id a \<notin> cf_id ` set (cs_settled s)"
    "\<forall>a \<in> set ?A. is_settled a \<longleftrightarrow> resolution a \<noteq> None"
    using old(7,8) unfolding A by auto
  ultimately have "parts_inv env cfg r' (remove1 c (cs_removing s)) (c # cs_pushing s) (cs_ids s)
      (cs_settled s) (cs_pushed s)"
    unfolding parts_inv_def r' by (intro conjI) (rule refl | assumption | rule old)+
  then show ?thesis by (simp add: removed_def r'_def)
qed

lemma pushed_inv:
  assumes inv: "conflict_inv env cfg s" and c: "c \<in> set (cs_pushing s)"
  shows "conflict_inv env cfg (pushed c s)"
proof -
  note old = parts_invD [OF inv]
  define r' where "r' = push_history c (cs_res s)"
  have r': "cr_active r' = cr_active (cs_res s)" "cr_config r' = cfg"
    "cr_history r' = last_n (max_history_entries cfg) (cs_pushed s @ [c])"
    by (simp_all add: r'_def push_history_last_n old(1,11) last_n_snoc)
      (simp_all add: push_history_def Let_def old(1))
  have ids: "mset (cs_removing s @ remove1 c (cs_pushing s) @ (cs_pushed s @ [c]))
      = mset (cs_removing s @ cs_pushing s @ cs_pushed s)"
    using c by simp
  have "distinct (map cf_id (cs_removing s @ remove1 c (cs_pushing s) @ (cs_pushed s @ [c])))"
    using old(4) by (metis ids mset_map mset_eq_imp_distinct_iff)
  moreover have "set (cs_settled s) = set (cs_removing s @ remove1 c (cs_pushing s) @ (cs_pushed s @ [c]))"
    using old(5) by (metis ids mset_eq_setD)
  ultimately have "parts_inv env cfg r' (cs_removing s) (remove1 c (cs_pushing s)) (cs_ids s)
      (cs_settled s) (cs_pushed s @ [c])"
    unfolding parts_inv_def r' by (intro conjI) (rule refl | assumption | rule old)+
  then show ?thesis by (simp add: pushed_def r'_def)
qed

lemma conflict_step_inv:
  assumes "conflict_step env s s'" "conflict_inv env cfg s"
  shows "conflict_inv env cfg s'"
  using assms(1)
  by (cases rule: conflict_stepE)
    (auto intro: detected_inv decided_inv removed_inv pushed_inv resolve_decision manual_decision
      dismiss_decision assms(2))

lemma conflict_reachable_inv: "conflict_steps env (conflict_start cfg) s \<Longrightarrow> conflict_inv env cfg s"
  by (induction rule: rtranclp_induct) (auto intro: conflict_inv_start conflict_step_inv)

lemma cr_resolve_steps:
  "cr_resolve env now i policy (cs_res s) = (Inr res, r') \<Longrightarrow>
     \<exists>s'. conflict_steps env s s' \<and> cs_res s' = r'"
  unfolding cr_resolve_def by (rule call_sequential [OF cs_resolve])

lemma cr_resolve_manual_steps:
  "cr_resolve_manual now i m who text' (cs_res s) = (Inr res, r') \<Longrightarrow>
     \<exists>s'. conflict_steps env s s' \<and> cs_res s' = r'"
  unfolding cr_resolve_manual_def by (rule call_sequential [OF cs_manual])

section \<open>An example run\<close>

definition ex_conflict_env :: "int conflict_env" where
  "ex_conflict_env = \<lparr>ce_ops = ex_floats, ce_fixed3 = (\<lambda>_. ''n'')\<rparr>"

definition ex_conflict_cfg :: "int conflict_config" where
  "ex_conflict_cfg = (conflict_config_default 3 8)\<lparr>max_history_entries := 1\<rparr>"

definition ex_conflict_detected :: "int \<Rightarrow> int conflict_state" where
  "ex_conflict_detected score =
     (let s = conflict_start ex_conflict_cfg
      in detected ''c1'' (snd (detect_conflict ''c1'' 0 ''e'' [Vector, Document] score ''d'' (cs_res s))) s)"

lemma ex_conflict_detected_steps:
  "conflict_steps ex_conflict_env (conflict_start ex_conflict_cfg) (ex_conflict_detected score)"
  unfolding ex_conflict_detected_def Let_def
  by (rule r_into_rtranclp, rule cs_detect) (simp add: conflict_start_def)

lemma call_steps:
  assumes "conflict_steps env s\<^sub>0 s" "conflict_step env s (decided x s)" "fst x = Inr (c, res)"
  shows "conflict_steps env s\<^sub>0 (removed c (decided x s))"
    and "conflict_steps env s\<^sub>0 (pushed c (removed c (decided x s)))"
proof -
  have "conflict_step env (decided x s) (removed c (decided x s))"
    by (rule cs_remove, use assms(3) in \<open>cases x\<close>) (auto simp: decided_def)
  then show steps: "conflict_steps env s\<^sub>0 (removed c (decided x s))"
    using assms(1,2) by (meson rtranclp.rtrancl_into_rtrancl)
  have "conflict_step env (removed c (decided x s)) (pushed c (removed c (decided x s)))"
    by (rule cs_push) (simp add: removed_def)
  then show "conflict_steps env s\<^sub>0 (pushed c (removed c (decided x s)))"
    using steps by (meson rtranclp.rtrancl_into_rtrancl)
qed

definition ex_conflict_resolved :: "int conflict" where
  "ex_conflict_resolved =
     \<lparr>cf_id = ''c1'', cf_entity_id = ''e'', detected_at = 0, conflicting_modalities = [Vector, Document],
      cf_drift_score = 5, cf_description = ''d'', cf_status = Resolved,
      resolution = Some \<lparr>resolved_at = 1, policy_used = ModalityPriority default_authority_order,
        winning_modality = Some Document, resolver = ''system'', res_notes = None\<rparr>\<rparr>"

definition ex_conflict_call :: "int decision \<times> int conflict_resolver" where
  "ex_conflict_call =
     resolve_decide ex_conflict_env 1 ''c1'' (Some (ModalityPriority default_authority_order))
       (cs_res (ex_conflict_detected 5))"

definition ex_conflict_end :: "int conflict_state" where
  "ex_conflict_end =
     pushed ex_conflict_resolved (removed ex_conflict_resolved (decided ex_conflict_call (ex_conflict_detected 5)))"

lemma ex_conflict_decides: "fst ex_conflict_call = Inr (ex_conflict_resolved, the (resolution ex_conflict_resolved))"
  by code_simp

lemma ex_conflict_steps: "conflict_steps ex_conflict_env (conflict_start ex_conflict_cfg) ex_conflict_end"
  unfolding ex_conflict_end_def ex_conflict_call_def
  by (rule call_steps(2) [OF ex_conflict_detected_steps cs_resolve ex_conflict_decides [unfolded ex_conflict_call_def]])

section \<open>Properties\<close>

text \<open>
  C25: In every interleaving of detections, resolutions by policy or by hand and dismissals, at most one call
  settles a conflict, a conflict that is not settled is active with no resolution, and the history is
  the last \<open>max_history_entries\<close> settled conflicts in the order they were pushed, each once. When no call
  is in progress, the active list holds exactly the conflicts that were detected and not settled.
\<close>

theorem conflicts_settle_once:
  assumes "conflict_steps env (conflict_start cfg) s"
  shows "distinct (map cf_id (cs_settled s))
    \<and> distinct (map cf_id (cs_pushed s)) \<and> set (cs_pushed s) \<subseteq> set (cs_settled s)
    \<and> cr_history (cs_res s) = last_n (max_history_entries cfg) (cs_pushed s)
    \<and> (\<forall>i \<in> set (cs_ids s). i \<notin> cf_id ` set (cs_settled s) \<longrightarrow>
          (\<exists>c \<in> set (cr_active (cs_res s)). cf_id c = i \<and> cf_status c \<in> {Open, InProgress} \<and> resolution c = None))
    \<and> (cs_removing s = [] \<and> cs_pushing s = [] \<longrightarrow>
          set (cs_pushed s) = set (cs_settled s)
          \<and> cf_id ` set (cr_active (cs_res s)) = set (cs_ids s) - cf_id ` set (cs_settled s))"
proof -
  note inv = parts_invD [OF conflict_reachable_inv [OF assms]]
  have status: "cf_status c \<in> {Open, InProgress}" if "\<not> is_settled c" for c :: "'a conflict"
    using that by (cases "cf_status c") (auto simp: is_settled_def)
  have "\<forall>i \<in> set (cs_ids s). i \<notin> cf_id ` set (cs_settled s) \<longrightarrow>
      (\<exists>c \<in> set (cr_active (cs_res s)). cf_id c = i \<and> cf_status c \<in> {Open, InProgress} \<and> resolution c = None)"
  proof (intro ballI impI)
    fix i
    assume i: "i \<in> set (cs_ids s)" "i \<notin> cf_id ` set (cs_settled s)"
    then obtain c where c: "c \<in> set (cr_active (cs_res s))" "cf_id c = i" using inv(9) by auto
    then have c': "\<not> is_settled c" using i(2) inv(5,6) by auto
    then have "resolution c = None" using inv(8) c(1) by simp
    then show "\<exists>c \<in> set (cr_active (cs_res s)). cf_id c = i \<and> cf_status c \<in> {Open, InProgress} \<and> resolution c = None"
      using c status [OF c'] by blast
  qed
  moreover have "cf_id ` set (cr_active (cs_res s)) = set (cs_ids s) - cf_id ` set (cs_settled s)"
    if "cs_removing s = []"
    using inv(6,7,9) that by auto
  ultimately show ?thesis using inv(3,4,5,11) by auto
qed

theorem conflicts_settle_once_witness:
  "cs_settled ex_conflict_end = [ex_conflict_resolved]
     \<and> cr_history (cs_res ex_conflict_end) = last_n 1 (cs_pushed ex_conflict_end)
     \<and> cf_id ` set (cr_active (cs_res ex_conflict_end)) = {}"
proof -
  have "cs_settled ex_conflict_end = [ex_conflict_resolved]" "cs_ids ex_conflict_end = [''c1'']"
    "cs_removing ex_conflict_end = []" "cs_pushing ex_conflict_end = []"
    by code_simp+
  moreover have "max_history_entries ex_conflict_cfg = 1" "cf_id ex_conflict_resolved = ''c1''" by code_simp+
  ultimately show ?thesis using conflicts_settle_once [OF ex_conflict_steps] by simp
qed



text \<open>
  A modality priority chooses, among the modalities in conflict, one that no other of them outranks; when
  none of them is ranked it chooses the first. The choice is made whenever the conflict names a modality.
\<close>

theorem priority_chooses_best:
  assumes "ms \<noteq> []"
  shows "\<exists>m \<in> set ms. winner (ModalityPriority order) ms = Some m
    \<and> (\<forall>m' \<in> set ms. \<forall>j. rank_of order m' = Some j \<longrightarrow> (\<exists>i \<le> j. rank_of order m = Some i))
    \<and> (set ms \<inter> set order = {} \<longrightarrow> m = hd ms)"
proof -
  obtain m where m: "winner (ModalityPriority order) ms = Some m"
    using winner_priority_total [OF assms] by blast
  moreover have "m = hd ms" if "set ms \<inter> set order = {}"
    using m winner_priority_unranked [OF assms, of order] that by auto
  ultimately show ?thesis using winner_priority [OF m] by blast
qed

theorem priority_chooses_best_witness:
  "winner (ModalityPriority default_authority_order) [Vector, Graph, Document] = Some Document
     \<and> (\<exists>m \<in> set [Vector, Graph, Document].
          winner (ModalityPriority default_authority_order) [Vector, Graph, Document] = Some m)"
proof -
  have "winner (ModalityPriority default_authority_order) [Vector, Graph, Document] = Some Document" by code_simp
  then show ?thesis using priority_chooses_best [of "[Vector, Graph, Document]" default_authority_order] by auto
qed

text \<open>
  Between the two locked sections of the move a settled conflict is in neither list: a query by entity
  misses it although the history has room.
\<close>

theorem settled_conflict_unlisted:
  "\<exists>s. conflict_steps ex_conflict_env (conflict_start ex_conflict_cfg) s
     \<and> cs_settled s = [ex_conflict_resolved] \<and> cf_entity_id ex_conflict_resolved = ''e''
     \<and> by_entity ''e'' (cs_res s) = []"
proof (intro exI conjI)
  let ?s = "removed ex_conflict_resolved (decided ex_conflict_call (ex_conflict_detected 5))"
  show "conflict_steps ex_conflict_env (conflict_start ex_conflict_cfg) ?s"
    unfolding ex_conflict_call_def
    by (rule call_steps(1) [OF ex_conflict_detected_steps cs_resolve ex_conflict_decides [unfolded ex_conflict_call_def]])
  show "cs_settled ?s = [ex_conflict_resolved]" "cf_entity_id ex_conflict_resolved = ''e''"
    "by_entity ''e'' (cs_res ?s) = []"
    by code_simp+
qed

end
