(* ===== verification/Regeneration.thy ===== *)
theory Regeneration
  imports Octad Authority
begin

text \<open>
  The regeneration engine (\<open>verisim-normalizer/src/regeneration.rs\<close>): given an entity, the modality that drifted
  and its score, it chooses a strategy, finds the modalities to repair from, calls the regenerator and
  records what happened. The regenerator is the trait \<open>ModalityRegenerator\<close>: a record of functions on a
  state of its own. \<open>'f\<close> stands for \<open>f32\<close>, \<open>'d\<close> for \<open>f64\<close>.
\<close>

section \<open>The modalities of an entity\<close>

fun geometry_display :: "geometry_type \<Rightarrow> string" where
  "geometry_display Point = ''Point''"
| "geometry_display LineString = ''LineString''"
| "geometry_display Polygon = ''Polygon''"
| "geometry_display MultiPoint = ''MultiPoint''"
| "geometry_display MultiPolygon = ''MultiPolygon''"

fun is_present_on :: "modality \<Rightarrow> ('f, 'd) octad \<Rightarrow> bool" where
  "is_present_on Document oc \<longleftrightarrow> oc_document oc \<noteq> None"
| "is_present_on Semantic oc \<longleftrightarrow> oc_semantic oc \<noteq> None"
| "is_present_on Graph oc \<longleftrightarrow> oc_graph_node oc \<noteq> None"
| "is_present_on Vector oc \<longleftrightarrow> oc_embedding oc \<noteq> None"
| "is_present_on Tensor oc \<longleftrightarrow> oc_tensor oc \<noteq> None"
| "is_present_on Temporal oc \<longleftrightarrow> 0 < oc_version_count oc"
| "is_present_on Provenance oc \<longleftrightarrow> 0 < oc_chain_length oc"
| "is_present_on Spatial oc \<longleftrightarrow> oc_spatial oc \<noteq> None"

definition quoted :: "string \<Rightarrow> string" where
  "quoted s = [CHR 0x27] @ s @ [CHR 0x27]"

fun summarize :: "'d float_ops \<Rightarrow> modality \<Rightarrow> ('f, 'd) octad \<Rightarrow> string option" where
  "summarize ops Document oc =
     map_option (\<lambda>d. ''document(title='' @ quoted (doc_title d) @ '', body_len='' @ dec_digits (length (doc_body d)) @ '')'')
       (oc_document oc)"
| "summarize ops Semantic oc =
     map_option (\<lambda>s. ''semantic(types='' @ dec_digits (length (an_types s)) @ '', properties=''
         @ dec_digits (length (an_properties s)) @ '')'') (oc_semantic oc)"
| "summarize ops Graph oc =
     map_option (\<lambda>g. ''graph(iri='' @ quoted (iri g) @ '', local_name='' @ quoted (local_name g) @ '')'')
       (oc_graph_node oc)"
| "summarize ops Vector oc =
     map_option (\<lambda>e. ''vector(dim='' @ dec_digits (length (emb_vector e)) @ '')'') (oc_embedding oc)"
| "summarize ops Tensor oc =
     map_option (\<lambda>t. ''tensor(shape='' @ list_debug (\<lambda>w. dec_digits (unat w)) (t_shape t) @ '', len=''
         @ dec_digits (length (t_data t)) @ '')'') (oc_tensor oc)"
| "summarize ops Temporal oc =
     (if 0 < oc_version_count oc
      then Some (''temporal(versions='' @ dec_digits (unat (oc_version_count oc)) @ '')'') else None)"
| "summarize ops Provenance oc =
     (if 0 < oc_chain_length oc
      then Some (''provenance(chain_length='' @ dec_digits (unat (oc_chain_length oc)) @ '')'') else None)"
| "summarize ops Spatial oc =
     map_option (\<lambda>s. ''spatial(lat='' @ f_display ops (latitude (coordinates s)) @ '', lon=''
         @ f_display ops (longitude (coordinates s)) @ '', type='' @ geometry_display (geometry_type s) @ '')'')
       (oc_spatial oc)"

lemma summarize_present: "summarize ops m oc = None \<longleftrightarrow> \<not> is_present_on m oc"
  by (cases m) auto

section \<open>Errors, events, results\<close>

datatype normalizer_error =
    NormalizationFailed string string
  | StrategyNotFound string
  | OctadError string
  | ChannelError string
  | MissingModality string
  | StorageError string
  | NoViableSource string

fun normalizer_error_display :: "normalizer_error \<Rightarrow> string" where
  "normalizer_error_display (NormalizationFailed e m) = ''Normalization failed for '' @ e @ '': '' @ m"
| "normalizer_error_display (StrategyNotFound s) = ''Strategy not found: '' @ s"
| "normalizer_error_display (OctadError s) = ''Octad error: '' @ s"
| "normalizer_error_display (ChannelError s) = ''Channel error: '' @ s"
| "normalizer_error_display (MissingModality s) = ''Missing modality: '' @ s"
| "normalizer_error_display (StorageError s) = ''Storage error: '' @ s"
| "normalizer_error_display (NoViableSource s) = ''No viable source: '' @ s"

record 'd normalization_event =
  ne_entity_id :: string
  ne_modality :: modality
  strategy_used :: regeneration_strategy
  source_modality :: "modality option"
  pre_drift_score :: 'd
  post_drift_score :: "'d option"
  ne_timestamp :: datetime
  ne_success :: bool

datatype 'd regeneration_result =
    Repaired "'d normalization_event"
  | PendingResolution string string
  | NoActionNeeded
  | Failed string

section \<open>The engine\<close>

record ('f, 'd, 's) regenerator =
  regenerate_from :: "('f, 'd) octad \<Rightarrow> modality \<Rightarrow> modality \<Rightarrow> 's \<Rightarrow> (normalizer_error + string) \<times> 's"
  merge_into :: "('f, 'd) octad \<Rightarrow> (modality \<times> 'd) list \<Rightarrow> modality \<Rightarrow> 's \<Rightarrow> (normalizer_error + string) \<times> 's"
  measure_drift :: "('f, 'd) octad \<Rightarrow> modality \<Rightarrow> 's \<Rightarrow> (normalizer_error + 'd) \<times> 's"

record ('d, 's) regeneration_engine =
  eg_config :: "'d regeneration_config"
  eg_queue :: "'d normalization_queue"
  eg_events :: "'d normalization_event list"
  eg_state :: 's

definition engine_new :: "'d regeneration_config \<Rightarrow> 's \<Rightarrow> ('d, 's) regeneration_engine" where
  "engine_new c s = \<lparr>eg_config = c, eg_queue = [], eg_events = [], eg_state = s\<rparr>"

text \<open>The number formats \<open>{:.2}\<close> and \<open>{:.3}\<close> are parameters.\<close>

record 'd regen_env =
  re_ops :: "'d float_ops"
  re_fixed2 :: "'d \<Rightarrow> string"
  re_fixed3 :: "'d \<Rightarrow> string"

text \<open>The regenerator that only describes what it would do.\<close>

definition summary_or_empty :: "'d float_ops \<Rightarrow> ('f, 'd) octad \<Rightarrow> modality \<Rightarrow> string" where
  "summary_or_empty ops oc m =
     (case summarize ops m oc of Some s \<Rightarrow> s | None \<Rightarrow> modality_display m @ '' (empty)'')"

definition summary_regenerator :: "'d regen_env \<Rightarrow> ('f, 'd, 's) regenerator" where
  "summary_regenerator env =
     \<lparr>regenerate_from = (\<lambda>oc src target s.
        (Inr (''Regenerated '' @ modality_display target @ '' from '' @ modality_display src @ '' [''
           @ summary_or_empty (re_ops env) oc src @ '']''), s)),
      merge_into = (\<lambda>oc sources target s.
        (Inr (''Merged into '' @ modality_display target @ '' from: ''
           @ join '', '' (map (\<lambda>(m, w). modality_display m @ ''(w='' @ re_fixed2 env w @ '') [''
               @ summary_or_empty (re_ops env) oc m @ '']'') sources)), s)),
      measure_drift = (\<lambda>oc m s. (Inr (f_literal (re_ops env) 0), s))\<rparr>"

definition record_event ::
  "'d normalization_event \<Rightarrow> ('d, 's) regeneration_engine \<Rightarrow> ('d, 's) regeneration_engine" where
  "record_event ev g = g\<lparr>eg_events := eg_events g @ [ev]\<rparr>"

text \<open>
  The end of both repairing strategies: on success the drift is measured again and the repair recorded,
  on failure only the failure.
\<close>

definition conclude ::
  "('f, 'd, 's) regenerator \<Rightarrow> ('f, 'd) octad \<Rightarrow> modality \<Rightarrow> 'd normalization_event
     \<Rightarrow> (normalizer_error + string) \<times> 's \<Rightarrow> ('d, 's) regeneration_engine
     \<Rightarrow> 'd regeneration_result \<times> ('d, 's) regeneration_engine" where
  "conclude rg oc m ev outcome g =
     (case outcome of
        (Inr _, s) \<Rightarrow>
          (let (post, s') = measure_drift rg oc m s;
               ev' = ev\<lparr>post_drift_score := (case post of Inr x \<Rightarrow> Some x | Inl _ \<Rightarrow> None), ne_success := True\<rparr>
           in (Repaired ev', record_event ev' (g\<lparr>eg_state := s'\<rparr>)))
      | (Inl e, s) \<Rightarrow> (Failed (normalizer_error_display e), record_event ev (g\<lparr>eg_state := s\<rparr>)))"

definition failed_event ::
  "datetime \<Rightarrow> ('f, 'd) octad \<Rightarrow> modality \<Rightarrow> regeneration_strategy \<Rightarrow> modality option \<Rightarrow> 'd
     \<Rightarrow> 'd normalization_event" where
  "failed_event now oc m s src score =
     \<lparr>ne_entity_id = oc_id oc, ne_modality = m, strategy_used = s, source_modality = src,
      pre_drift_score = score, post_drift_score = None, ne_timestamp = now, ne_success = False\<rparr>"

definition execute_from_authoritative ::
  "('f, 'd, 's) regenerator \<Rightarrow> datetime \<Rightarrow> ('f, 'd) octad \<Rightarrow> modality \<Rightarrow> 'd
     \<Rightarrow> ('d, 's) regeneration_engine \<Rightarrow> 'd regeneration_result \<times> ('d, 's) regeneration_engine" where
  "execute_from_authoritative rg now oc m score g =
     (case List.find (\<lambda>x. x \<noteq> m \<and> is_present_on x oc) (authority_order (eg_config g)) of
        None \<Rightarrow>
          (Failed (''No authoritative source available for '' @ modality_display m @ '' on entity '' @ oc_id oc),
           record_event (failed_event now oc m FromAuthoritative None score) g)
      | Some src \<Rightarrow>
          conclude rg oc m (failed_event now oc m FromAuthoritative (Some src) score)
            (regenerate_from rg oc src m (eg_state g)) g)"

definition merge_sources ::
  "'d float_ops \<Rightarrow> ('f, 'd) octad \<Rightarrow> modality \<Rightarrow> 'd regeneration_config \<Rightarrow> (modality \<times> 'd) list" where
  "merge_sources ops oc m c =
     map (\<lambda>x. (x, authority_weight ops x c))
       (filter (\<lambda>x. x \<noteq> m \<and> is_present_on x oc) (authority_order c))"

definition execute_merge ::
  "'d float_ops \<Rightarrow> ('f, 'd, 's) regenerator \<Rightarrow> datetime \<Rightarrow> ('f, 'd) octad \<Rightarrow> modality \<Rightarrow> 'd
     \<Rightarrow> ('d, 's) regeneration_engine \<Rightarrow> 'd regeneration_result \<times> ('d, 's) regeneration_engine" where
  "execute_merge ops rg now oc m score g =
     (let sources = merge_sources ops oc m (eg_config g)
      in if sources = [] then
           (Failed (''No source modalities available for merge into '' @ modality_display m @ '' on entity '' @ oc_id oc),
            record_event (failed_event now oc m Merge None score) g)
         else
           conclude rg oc m (failed_event now oc m Merge None score) (merge_into rg oc sources m (eg_state g)) g)"

definition execute_user_resolve ::
  "'d regen_env \<Rightarrow> datetime \<Rightarrow> datetime \<Rightarrow> ('f, 'd) octad \<Rightarrow> modality \<Rightarrow> 'd
     \<Rightarrow> ('d, 's) regeneration_engine \<Rightarrow> 'd regeneration_result \<times> ('d, 's) regeneration_engine" where
  "execute_user_resolve env now now' oc m score g =
     (let item = \<lparr>pn_entity_id = oc_id oc, pn_modality = m, pn_score = score, queued_at = now\<rparr>;
          ev = (failed_event now' oc m UserResolve None score)\<lparr>ne_success := True\<rparr>
      in (PendingResolution (oc_id oc)
            (modality_display m @ '' drift (score '' @ re_fixed3 env score
               @ '') requires manual resolution per strategy config''),
          record_event ev (g\<lparr>eg_queue := queue_enqueue item (eg_queue g)\<rparr>)))"

definition regenerate ::
  "'d regen_env \<Rightarrow> ('f, 'd, 's) regenerator \<Rightarrow> datetime \<Rightarrow> datetime \<Rightarrow> ('f, 'd) octad \<Rightarrow> modality \<Rightarrow> 'd
     \<Rightarrow> ('d, 's) regeneration_engine \<Rightarrow> 'd regeneration_result \<times> ('d, 's) regeneration_engine" where
  "regenerate env rg now now' oc m score g =
     (if f_le (re_ops env) score (drift_threshold (eg_config g)) then (NoActionNeeded, g)
      else case strategy_for m (eg_config g) of
             FromAuthoritative \<Rightarrow> execute_from_authoritative rg now oc m score g
           | Merge \<Rightarrow> execute_merge (re_ops env) rg now oc m score g
           | UserResolve \<Rightarrow> execute_user_resolve env now now' oc m score g)"

section \<open>What a call records\<close>

lemma conclude_cases:
  assumes "conclude rg oc m ev outcome g = (result, g')"
  shows "eg_config g' = eg_config g \<and> eg_queue g' = eg_queue g
    \<and> (\<exists>ev'. eg_events g' = eg_events g @ [ev']
          \<and> ne_entity_id ev' = ne_entity_id ev \<and> ne_modality ev' = ne_modality ev
          \<and> strategy_used ev' = strategy_used ev \<and> source_modality ev' = source_modality ev
          \<and> pre_drift_score ev' = pre_drift_score ev
          \<and> (case fst outcome of
                Inr _ \<Rightarrow> result = Repaired ev' \<and> ne_success ev'
              | Inl e \<Rightarrow> result = Failed (normalizer_error_display e) \<and> ev' = ev))"
  using assms
  by (cases outcome; cases "fst outcome")
    (auto simp: conclude_def record_event_def Let_def split: prod.splits)

definition is_failed :: "'d regeneration_result \<Rightarrow> bool" where
  "is_failed result \<longleftrightarrow> (\<exists>msg. result = Failed msg)"

text \<open>The event a call with a score above the threshold records, and what it leaves alone.\<close>

definition audited ::
  "('f, 'd) octad \<Rightarrow> modality \<Rightarrow> 'd \<Rightarrow> regeneration_strategy \<Rightarrow> ('d, 's) regeneration_engine
     \<Rightarrow> 'd regeneration_result \<times> ('d, 's) regeneration_engine \<Rightarrow> bool" where
  "audited oc m score s g x \<longleftrightarrow>
     eg_config (snd x) = eg_config g
     \<and> (\<exists>ev. eg_events (snd x) = eg_events g @ [ev] \<and> ne_entity_id ev = oc_id oc \<and> ne_modality ev = m
          \<and> strategy_used ev = s \<and> pre_drift_score ev = score \<and> (ne_success ev \<longleftrightarrow> \<not> is_failed (fst x)))
     \<and> (if s = UserResolve
        then \<exists>p. eg_queue (snd x) = eg_queue g @ [p] \<and> pn_entity_id p = oc_id oc \<and> pn_modality p = m
               \<and> pn_score p = score
        else eg_queue (snd x) = eg_queue g)"

lemma conclude_audited:
  assumes "ev = failed_event now oc m s src score" "s \<noteq> UserResolve"
  shows "audited oc m score s g (conclude rg oc m ev outcome g)"
proof (cases "conclude rg oc m ev outcome g")
  case (Pair result g')
  then show ?thesis
    using conclude_cases [OF Pair] assms
    by (cases "fst outcome") (auto simp: audited_def failed_event_def is_failed_def)
qed

lemma failed_audited:
  "s \<noteq> UserResolve \<Longrightarrow> audited oc m score s g (Failed msg, record_event (failed_event now oc m s src score) g)"
  by (simp add: audited_def record_event_def failed_event_def is_failed_def)

lemma from_authoritative_audited:
  "audited oc m score FromAuthoritative g (execute_from_authoritative rg now oc m score g)"
  unfolding execute_from_authoritative_def
  by (simp split: option.split add: failed_audited conclude_audited [OF refl])

lemma merge_audited: "audited oc m score Merge g (execute_merge ops rg now oc m score g)"
  unfolding execute_merge_def Let_def
  by (simp add: failed_audited conclude_audited [OF refl])

lemma user_resolve_audited:
  "audited oc m score UserResolve g (execute_user_resolve env now now' oc m score g)"
  by (simp add: audited_def execute_user_resolve_def Let_def record_event_def failed_event_def is_failed_def
      queue_enqueue_def)

lemma regenerate_audited:
  "\<not> f_le (re_ops env) score (drift_threshold (eg_config g)) \<Longrightarrow>
     audited oc m score (strategy_for m (eg_config g)) g (regenerate env rg now now' oc m score g)"
  unfolding regenerate_def
  by (simp add: from_authoritative_audited merge_audited user_resolve_audited split: regeneration_strategy.split)

text \<open>The sources of a merge: every ranked modality that is present, except the target, in the order of the ranking.\<close>

lemma merge_sources_ranked:
  "map fst (merge_sources ops oc m c) = filter (\<lambda>x. x \<noteq> m \<and> is_present_on x oc) (authority_order c)"
  by (simp add: merge_sources_def comp_def)

section \<open>Sequences of calls\<close>

datatype ('f, 'd) engine_op =
    ERegenerate "('f, 'd) octad" modality 'd datetime datetime
  | EResolve string modality
  | EDrain

fun engine_step ::
  "'d regen_env \<Rightarrow> ('f, 'd, 's) regenerator \<Rightarrow> ('d, 's) regeneration_engine \<Rightarrow> ('f, 'd) engine_op
     \<Rightarrow> ('d, 's) regeneration_engine" where
  "engine_step env rg g (ERegenerate oc m score now now') = snd (regenerate env rg now now' oc m score g)"
| "engine_step env rg g (EResolve e m) = g\<lparr>eg_queue := snd (queue_resolve e m (eg_queue g))\<rparr>"
| "engine_step env rg g EDrain = g\<lparr>eg_queue := snd (queue_drain (eg_queue g))\<rparr>"

text \<open>Whatever waits in the queue was put there by a recorded call.\<close>

definition queue_audited :: "('d, 's) regeneration_engine \<Rightarrow> bool" where
  "queue_audited g \<longleftrightarrow>
     (\<forall>p \<in> set (eg_queue g). \<exists>ev \<in> set (eg_events g).
        strategy_used ev = UserResolve \<and> ne_success ev \<and> ne_entity_id ev = pn_entity_id p
        \<and> ne_modality ev = pn_modality p \<and> pre_drift_score ev = pn_score p)"

lemma queue_resolve_subset: "set (snd (queue_resolve e m q)) \<subseteq> set q"
proof (cases "queue_resolve e m q")
  case (Pair x q')
  then show ?thesis
  proof (cases x)
    case None
    then show ?thesis using Pair queue_resolve_None [of e m q q'] by simp
  next
    case (Some item)
    then show ?thesis using Pair queue_resolve_oldest [of e m q item q'] by auto
  qed
qed

lemma audited_queue:
  assumes "audited oc m score s g x" "queue_audited g" "s = UserResolve \<Longrightarrow> \<not> is_failed (fst x)"
  shows "queue_audited (snd x)"
  using assms by (fastforce simp: audited_def queue_audited_def split: if_splits)

lemma engine_step_inv:
  assumes "queue_audited g"
  shows "queue_audited (engine_step env rg g op)"
proof (cases op)
  case (ERegenerate oc m score now now')
  show ?thesis
  proof (cases "f_le (re_ops env) score (drift_threshold (eg_config g))")
    case True
    then show ?thesis using assms ERegenerate by (simp add: regenerate_def)
  next
    case False
    have "\<not> is_failed (fst (regenerate env rg now now' oc m score g))" if "strategy_for m (eg_config g) = UserResolve"
      using False that by (simp add: regenerate_def execute_user_resolve_def Let_def is_failed_def)
    then show ?thesis
      unfolding ERegenerate engine_step.simps
      by (rule audited_queue [OF regenerate_audited [OF False] assms])
  qed
next
  case (EResolve e m)
  then show ?thesis using assms queue_resolve_subset [of e m "eg_queue g"] by (auto simp: queue_audited_def)
next
  case EDrain
  then show ?thesis by (simp add: queue_audited_def queue_drain_def)
qed

interpretation engine_run: step_system "engine_step env rg" "\<lambda>_ _. True" queue_audited
  for env rg
  by unfold_locales (rule engine_step_inv)

section \<open>Properties\<close>

text \<open>
  C32: A call whose score is above the threshold records exactly one event, for this entity, modality, score and
  the configured strategy, marked a success unless the call failed; it queues the entity exactly when
  the strategy leaves the decision to a human. After any sequence of calls, every entry of the queue has
  its event.
\<close>

theorem regeneration_audited:
  assumes "g = run (engine_step env rg) (engine_new c s) ops"
  shows "queue_audited g
    \<and> (\<not> f_le (re_ops env) score (drift_threshold (eg_config g)) \<longrightarrow>
         audited oc m score (strategy_for m (eg_config g)) g (regenerate env rg now now' oc m score g))
    \<and> (f_le (re_ops env) score (drift_threshold (eg_config g)) \<longrightarrow>
         regenerate env rg now now' oc m score g = (NoActionNeeded, g))"
proof -
  have "queue_audited (engine_new c s)" by (simp add: queue_audited_def engine_new_def)
  then have "queue_audited g" unfolding assms by (rule engine_run.run_inv) simp
  moreover have "regenerate env rg now now' oc m score g = (NoActionNeeded, g)"
    if "f_le (re_ops env) score (drift_threshold (eg_config g))"
    using that by (simp add: regenerate_def)
  ultimately show ?thesis using regenerate_audited [of env score g] by blast
qed


text \<open>An entity with a document and a node, on an engine with the default ranking.\<close>

definition ex_regen_env :: "int regen_env" where
  "ex_regen_env = \<lparr>re_ops = ex_floats, re_fixed2 = (\<lambda>_. ''n''), re_fixed3 = (\<lambda>_. ''n'')\<rparr>"

definition ex_drifted :: "(int, int) octad" where
  "ex_drifted =
     \<lparr>oc_id = ''e'',
      oc_status = \<lparr>os_id = ''e'', os_created_at = 0, os_modified_at = 0, os_observed_at = None, os_version = 1,
        os_modalities = modality_status_default\<rparr>,
      oc_graph_node = Some \<lparr>iri = ''i'', local_name = ''e''\<rparr>, oc_embedding = None, oc_tensor = None,
      oc_semantic = None, oc_document = Some (document_new ''e'' ''t'' ''b''), oc_version_count = 1,
      oc_chain_length = 0, oc_spatial = None\<rparr>"

definition ex_engine :: "(int, unit) regeneration_engine" where
  "ex_engine = engine_new (regeneration_config_default 3) ()"

theorem regeneration_audited_witness:
  "queue_audited ex_engine
     \<and> audited ex_drifted Document 5 FromAuthoritative ex_engine
         (regenerate ex_regen_env (summary_regenerator ex_regen_env) 1 2 ex_drifted Document 5 ex_engine)"
proof -
  have "ex_engine = run (engine_step ex_regen_env (summary_regenerator ex_regen_env))
      (engine_new (regeneration_config_default 3) ()) []"
    by (simp add: ex_engine_def)
  note all = regeneration_audited [OF this, where score = 5 and m = Document and oc = ex_drifted and now = 1 and now' = 2]
  have "\<not> f_le (re_ops ex_regen_env) 5 (drift_threshold (eg_config ex_engine))"
    "strategy_for Document (eg_config ex_engine) = FromAuthoritative"
    by code_simp+
  then show ?thesis using all by simp
qed


end
