(* ===== verification/Query_Plan.thy ===== *)
theory Query_Plan
  imports Modality_Store
begin

text \<open>
  The vocabulary of the query planner (\<open>lib.rs\<close>, \<open>plan.rs\<close>, \<open>config.rs\<close>, \<open>stats.rs\<close>, \<open>error.rs\<close> of
  \<open>verisim-planner/src\<close>): modalities with their execution priority, logical and physical plans, the
  configuration and the statistics of past executions. \<open>'f\<close> stands for \<open>f64\<close>; a \<open>string\<close> is its bytes.
\<close>

section \<open>Modalities\<close>

datatype modality = Graph | Vector | Tensor | Semantic | Document | Temporal

definition all_modalities :: "modality list" where
  "all_modalities = [Graph, Vector, Tensor, Semantic, Document, Temporal]"

fun execution_priority :: "modality \<Rightarrow> nat" where
  "execution_priority Temporal = 10"
| "execution_priority Vector = 20"
| "execution_priority Document = 30"
| "execution_priority Graph = 40"
| "execution_priority Tensor = 50"
| "execution_priority Semantic = 90"

fun modality_display :: "modality \<Rightarrow> string" where
  "modality_display Graph = ''graph''"
| "modality_display Vector = ''vector''"
| "modality_display Tensor = ''tensor''"
| "modality_display Semantic = ''semantic''"
| "modality_display Document = ''document''"
| "modality_display Temporal = ''temporal''"

datatype planner_error =
    EmptyPlan
  | UnknownModality string
  | InvalidConfig string
  | CostEstimation string
  | Serialization string

text \<open>\<open>from_str\<close>; \<open>lower\<close> is \<open>str::to_lowercase\<close>.\<close>

definition modality_from_str :: "(string \<Rightarrow> string) \<Rightarrow> string \<Rightarrow> planner_error + modality" where
  "modality_from_str lower s =
     (let t = lower s in
      if t = ''graph'' then Inr Graph
      else if t = ''vector'' then Inr Vector
      else if t = ''tensor'' then Inr Tensor
      else if t = ''semantic'' then Inr Semantic
      else if t = ''document'' then Inr Document
      else if t = ''temporal'' then Inr Temporal
      else Inl (UnknownModality s))"

lemma modality_from_str_display:
  "lower (modality_display m) = modality_display m \<Longrightarrow> modality_from_str lower (modality_display m) = Inr m"
  by (cases m) (simp_all add: modality_from_str_def)

lemma all_modalities_complete: "m \<in> set all_modalities"
  by (cases m) (simp_all add: all_modalities_def)

lemma execution_priority_inject [simp]: "execution_priority a = execution_priority b \<longleftrightarrow> a = b"
  by (cases a; cases b) simp_all

text \<open>The modalities in the order they are executed.\<close>

instantiation modality :: linorder
begin

definition less_eq_modality :: "modality \<Rightarrow> modality \<Rightarrow> bool" where
  "less_eq_modality a b \<longleftrightarrow> execution_priority a \<le> execution_priority b"

definition less_modality :: "modality \<Rightarrow> modality \<Rightarrow> bool" where
  "less_modality a b \<longleftrightarrow> execution_priority a < execution_priority b"

instance
  by standard (auto simp: less_eq_modality_def less_modality_def)

end

lemma priority_le: "execution_priority a \<le> execution_priority b \<longleftrightarrow> a \<le> b"
  by (simp add: less_eq_modality_def)

lemma semantic_last: "m \<le> Semantic"
  by (cases m) (simp_all add: less_eq_modality_def)

lemma temporal_first: "Temporal \<le> m"
  by (cases m) (simp_all add: less_eq_modality_def)

section \<open>Logical plans\<close>

datatype query_source =
    Octad
  | Federation "string list"
  | Store modality

datatype condition_kind =
    Equality string string \<comment> \<open>field, value\<close>
  | Range string string string \<comment> \<open>field, low, high\<close>
  | Fulltext string
  | Similarity nat
  | Traversal string "u32 option"
  | AtTime string
  | ProofVerification string
  | TensorOp string
  | Predicate string

record plan_node =
  pn_modality :: modality
  pn_conditions :: "condition_kind list"
  pn_projections :: "string list"
  early_limit :: "nat option"

datatype post_processing =
    OrderBy "(string \<times> bool) list"
  | Limit nat
  | GroupBy "string list" "string list"
  | Project "string list"

record logical_plan =
  lp_source :: query_source
  lp_nodes :: "plan_node list"
  lp_post :: "post_processing list"

section \<open>Physical plans\<close>

record 'f cost_estimate =
  time_ms :: 'f
  estimated_rows :: u64
  selectivity :: 'f
  io_cost :: 'f
  cpu_cost :: 'f

datatype execution_strategy = Sequential | Parallel

record 'f plan_step =
  ps_step :: nat
  ps_operation :: string
  ps_modality :: modality
  ps_cost :: "'f cost_estimate"
  ps_hint :: "string option"
  pushed_predicates :: "string list"

record 'f physical_plan =
  pp_steps :: "'f plan_step list"
  pp_strategy :: execution_strategy
  pp_total_cost :: "'f cost_estimate"
  pp_notes :: "string list"

section \<open>Configuration\<close>

text \<open>
  What the planner uses of \<open>f64\<close> beyond the comparison and the four operations: decimal literals,
  \<open>f_dec m k\<close> for \<open>m / 10 ^ k\<close>, conversions to and from \<open>u64\<close>, minimum, maximum, the logarithm, infinity,
  the formats \<open>{:.0}\<close>, and the \<open>Debug\<close> of a string.
\<close>

record 'f planner_env =
  pe_ops :: "'f float_ops"
  f_dec :: "int \<Rightarrow> nat \<Rightarrow> 'f"
  f_of_u64 :: "u64 \<Rightarrow> 'f"
  f_of_usize :: "nat \<Rightarrow> 'f"
  f_to_u64 :: "'f \<Rightarrow> u64"
  f_min :: "'f \<Rightarrow> 'f \<Rightarrow> 'f"
  f_max :: "'f \<Rightarrow> 'f \<Rightarrow> 'f"
  f_log2 :: "'f \<Rightarrow> 'f"
  f_infinity :: 'f
  f_fixed0 :: "'f \<Rightarrow> string"
  str_debug :: "string \<Rightarrow> string"
  str_lower :: "string \<Rightarrow> string"

datatype optimization_mode = Conservative | Balanced | Aggressive

fun cost_multiplier :: "'f planner_env \<Rightarrow> optimization_mode \<Rightarrow> 'f" where
  "cost_multiplier env Conservative = f_dec env 15 1"
| "cost_multiplier env Balanced = f_dec env 10 1"
| "cost_multiplier env Aggressive = f_dec env 8 1"

fun selectivity_multiplier :: "'f planner_env \<Rightarrow> optimization_mode \<Rightarrow> 'f" where
  "selectivity_multiplier env Conservative = f_dec env 20 1"
| "selectivity_multiplier env Balanced = f_dec env 10 1"
| "selectivity_multiplier env Aggressive = f_dec env 5 1"

record 'f planner_config =
  global_mode :: optimization_mode
  modality_overrides :: "(modality \<times> optimization_mode) list"
  statistics_weight :: 'f
  enable_adaptive :: bool
  parallel_threshold :: nat

definition mode_for :: "modality \<Rightarrow> 'f planner_config \<Rightarrow> optimization_mode" where
  "mode_for m c = (case map_of (modality_overrides c) m of Some x \<Rightarrow> x | None \<Rightarrow> global_mode c)"

definition planner_config_default :: "'f planner_env \<Rightarrow> 'f planner_config" where
  "planner_config_default env =
     \<lparr>global_mode = Balanced,
      modality_overrides = [(Vector, Aggressive), (Graph, Conservative), (Semantic, Conservative)],
      statistics_weight = f_dec env 7 1, enable_adaptive = True, parallel_threshold = 2\<rparr>"

section \<open>Statistics\<close>

record 'f store_statistics =
  ss_modality :: modality
  total_rows :: u64
  avg_latency_ms :: 'f
  avg_rows_returned :: u64
  query_count :: u64
  last_updated :: datetime

definition store_statistics_new :: "'f planner_env \<Rightarrow> datetime \<Rightarrow> modality \<Rightarrow> 'f store_statistics" where
  "store_statistics_new env now m =
     \<lparr>ss_modality = m, total_rows = 0, avg_latency_ms = f_dec env 0 1, avg_rows_returned = 0, query_count = 0,
      last_updated = now\<rparr>"

type_synonym 'f statistics_collector = "(modality \<times> 'f store_statistics) list"

definition collector_new :: "'f planner_env \<Rightarrow> (modality \<Rightarrow> datetime) \<Rightarrow> 'f statistics_collector" where
  "collector_new env now = map (\<lambda>m. (m, store_statistics_new env (now m) m)) all_modalities"

definition record_execution ::
  "'f planner_env \<Rightarrow> datetime \<Rightarrow> datetime \<Rightarrow> modality \<Rightarrow> 'f \<Rightarrow> u64 \<Rightarrow> 'f statistics_collector
     \<Rightarrow> 'f statistics_collector" where
  "record_execution env now now' m latency rows col =
     hm_entry (store_statistics_new env now m) m
       (\<lambda>entry.
          let ops = pe_ops env; n = query_count entry + 1;
              lat = (if n = 1 then latency
                     else f_add ops (f_mul ops (f_dec env 1 1) latency)
                       (f_mul ops (f_dec env 9 1) (avg_latency_ms entry)));
              avg = (if n = 1 then rows
                     else f_to_u64 env (f_add ops (f_mul ops (f_dec env 1 1) (f_of_u64 env rows))
                       (f_mul ops (f_dec env 9 1) (f_of_u64 env (avg_rows_returned entry)))))
          in entry\<lparr>query_count := n, avg_latency_ms := lat, avg_rows_returned := avg, last_updated := now'\<rparr>) col"

definition update_row_count ::
  "datetime \<Rightarrow> modality \<Rightarrow> u64 \<Rightarrow> 'f statistics_collector \<Rightarrow> 'f statistics_collector" where
  "update_row_count now m n col =
     (case map_of col m of
        None \<Rightarrow> col
      | Some entry \<Rightarrow> AList.update m (entry\<lparr>total_rows := n, last_updated := now\<rparr>) col)"

lemma collector_complete: "map_of (collector_new env now) m \<noteq> None"
  by (cases m) (simp_all add: collector_new_def all_modalities_def)

lemma collector_stays_complete:
  "map_of col m \<noteq> None \<Longrightarrow> map_of (record_execution env now now' k latency rows col) m \<noteq> None"
  "map_of col m \<noteq> None \<Longrightarrow> map_of (update_row_count now k n col) m \<noteq> None"
  by (auto simp: record_execution_def update_row_count_def split: option.splits)

end
