(* ===== verification/Vcl_Ast.thy ===== *)
theory Vcl_Ast
  imports Query_Plan
begin

text \<open>
  The syntax tree of a VCL query and its JSON encoding (\<open>verisim-planner/src/vcl_bridge.rs\<close>, first half): the
  types, and the functions that read them from a \<open>serde_json::Value\<close>. An object is an association list with
  one entry per key, as the text parser of \<open>serde_json\<close>, which is not modelled, delivers it. The derived
  deserializers also accept a struct written as an array; the model has the objects the VCL parser
  emits. The messages \<open>serde\<close> composes itself are a parameter. \<open>'f\<close> stands for \<open>f64\<close>.
\<close>

section \<open>JSON values\<close>

datatype 'f json_number = PosInt u64 | NegInt int | Float 'f

datatype 'f json =
    JNull
  | JBool bool
  | JNumber "'f json_number"
  | JString string
  | JArray "'f json list"
  | JObject "(string \<times> 'f json) list"

definition as_object :: "'f json \<Rightarrow> (string \<times> 'f json) list option" where
  "as_object v = (case v of JObject fs \<Rightarrow> Some fs | _ \<Rightarrow> None)"

definition as_str :: "'f json \<Rightarrow> string option" where
  "as_str v = (case v of JString s \<Rightarrow> Some s | _ \<Rightarrow> None)"

definition as_array :: "'f json \<Rightarrow> 'f json list option" where
  "as_array v = (case v of JArray vs \<Rightarrow> Some vs | _ \<Rightarrow> None)"

record 'f json_env =
  je_of_u64 :: "u64 \<Rightarrow> 'f" \<comment> \<open>\<open>n as f64\<close>\<close>
  je_of_i64 :: "int \<Rightarrow> 'f"
  serde_message :: "'f json \<Rightarrow> string"

definition as_f64 :: "'f json_env \<Rightarrow> 'f json \<Rightarrow> 'f option" where
  "as_f64 env v =
     (case v of
        JNumber (PosInt n) \<Rightarrow> Some (je_of_u64 env n)
      | JNumber (NegInt i) \<Rightarrow> Some (je_of_i64 env i)
      | JNumber (Float x) \<Rightarrow> Some x
      | _ \<Rightarrow> None)"

definition as_u64 :: "'f json \<Rightarrow> u64 option" where
  "as_u64 v = (case v of JNumber (PosInt n) \<Rightarrow> Some n | _ \<Rightarrow> None)"

section \<open>The syntax tree\<close>

datatype vcl_modality = VGraph | VVector | VTensor | VSemantic | VDocument | VTemporal | VAll

datatype vcl_source =
    VOctad "string option"
  | VFederation "string list" "string option"
  | VStore vcl_modality

record vcl_field_ref =
  fr_modality :: "vcl_modality option"
  fr_field :: string

datatype 'f vcl_simple =
    FulltextContains string
  | VectorSimilar "'f list" 'f
  | GraphPattern string "u32 option"
  | FieldCondition vcl_field_ref string "'f json"
  | CrossModalFieldCompare vcl_field_ref string vcl_field_ref
  | ModalityDrift vcl_modality 'f
  | ModalityExists vcl_modality
  | ModalityNotExists vcl_modality
  | ModalityConsistency "vcl_modality list" 'f

datatype 'f vcl_condition =
    VAnd "'f vcl_condition" "'f vcl_condition"
  | VOr "'f vcl_condition" "'f vcl_condition"
  | VNot "'f vcl_condition"
  | VSimple "'f vcl_simple"

record vcl_projection =
  pj_field :: vcl_field_ref
  pj_alias :: "string option"

record vcl_aggregate =
  ag_function :: string
  ag_field :: "vcl_field_ref option"
  ag_alias :: "string option"

datatype vcl_proof_type = VCitation | VZkp | VAttestation | VCustom string

record vcl_proof_spec =
  vp_type :: vcl_proof_type
  contract_name :: string

datatype vcl_direction = VAsc | VDesc

record vcl_order_by =
  ob_field :: vcl_field_ref
  ob_direction :: vcl_direction

record 'f vcl_query =
  vq_modalities :: "vcl_modality list"
  vq_source :: vcl_source
  where_clause :: "'f vcl_condition option"
  projections :: "vcl_projection list option"
  aggregates :: "vcl_aggregate list option"
  group_by :: "vcl_field_ref list option"
  having :: "'f vcl_condition option"
  proof_specs :: "vcl_proof_spec list option"
  order_by :: "vcl_order_by list option"
  vq_limit :: "nat option"
  vq_offset :: "nat option"

section \<open>Reading the leaves\<close>

text \<open>\<open>serde\<close>'s own errors carry its message; \<open>serde_fail\<close> is such an error about a value.\<close>

definition serde_fail :: "'f json_env \<Rightarrow> 'f json \<Rightarrow> string + 'a" where
  "serde_fail env v = Inl (serde_message env v)"

definition ok_or :: "'e \<Rightarrow> 'a option \<Rightarrow> 'e + 'a" where
  "ok_or e x = (case x of None \<Rightarrow> Inl e | Some y \<Rightarrow> Inr y)"

text \<open>\<open>?\<close>: the error, or the rest of the function on the value.\<close>

definition and_then :: "'e + 'a \<Rightarrow> ('a \<Rightarrow> 'e + 'b) \<Rightarrow> 'e + 'b" where
  "and_then x f = (case x of Inl e \<Rightarrow> Inl e | Inr y \<Rightarrow> f y)"

lemma and_then_simps [simp]: "and_then (Inl e) f = Inl e" "and_then (Inr y) f = f y"
  by (simp_all add: and_then_def)

lemma ok_or_simps [simp]: "ok_or e (Some x) = Inr x" "ok_or e None = Inl e"
  by (simp_all add: ok_or_def)

text \<open>The member \<open>TAG\<close> of an object, when it is a string.\<close>

definition tag_of :: "'f json \<Rightarrow> string option" where
  "tag_of v = Option.bind (as_object v) (\<lambda>fs. Option.bind (map_of fs ''TAG'') as_str)"

definition parse_modality :: "'f json_env \<Rightarrow> 'f json \<Rightarrow> string + vcl_modality" where
  "parse_modality env v =
     (case tag_of v of
        None \<Rightarrow> serde_fail env v
      | Some t \<Rightarrow>
          if t = ''Graph'' then Inr VGraph
          else if t = ''Vector'' then Inr VVector
          else if t = ''Tensor'' then Inr VTensor
          else if t = ''Semantic'' then Inr VSemantic
          else if t = ''Document'' then Inr VDocument
          else if t = ''Temporal'' then Inr VTemporal
          else if t = ''All'' then Inr VAll
          else serde_fail env v)"

text \<open>\<open>collect::<Result<Vec<_>, _>>\<close>: the first error, or all the values.\<close>

fun collect_results :: "('a \<Rightarrow> 'e + 'b) \<Rightarrow> 'a list \<Rightarrow> 'e + 'b list" where
  "collect_results f [] = Inr []"
| "collect_results f (x # xs) =
     (case f x of
        Inl e \<Rightarrow> Inl e
      | Inr y \<Rightarrow> (case collect_results f xs of Inl e \<Rightarrow> Inl e | Inr ys \<Rightarrow> Inr (y # ys)))"

lemma collect_results_map: "(\<And>x. x \<in> set xs \<Longrightarrow> f (g x) = Inr x) \<Longrightarrow> collect_results f (map g xs) = Inr xs"
  by (induction xs) simp_all

definition parse_vec :: "'f json_env \<Rightarrow> ('f json \<Rightarrow> string + 'a) \<Rightarrow> 'f json \<Rightarrow> string + 'a list" where
  "parse_vec env f v = (case v of JArray vs \<Rightarrow> collect_results f vs | _ \<Rightarrow> serde_fail env v)"

definition parse_string :: "'f json_env \<Rightarrow> 'f json \<Rightarrow> string + string" where
  "parse_string env v = (case v of JString s \<Rightarrow> Inr s | _ \<Rightarrow> serde_fail env v)"

text \<open>A member of type \<open>Option\<close>: absent and \<open>null\<close> are \<open>None\<close>.\<close>

definition parse_option :: "('f json \<Rightarrow> string + 'a) \<Rightarrow> 'f json option \<Rightarrow> string + 'a option" where
  "parse_option f v =
     (case v of
        None \<Rightarrow> Inr None
      | Some JNull \<Rightarrow> Inr None
      | Some x \<Rightarrow> map_sum id Some (f x))"

lemma parse_option_simps [simp]:
  "parse_option f None = Inr None"
  "parse_option f (Some JNull) = Inr None"
  by (simp_all add: parse_option_def)

lemma parse_option_Some: "f x = Inr y \<Longrightarrow> x \<noteq> JNull \<Longrightarrow> parse_option f (Some x) = Inr (Some y)"
  by (cases x) (simp_all add: parse_option_def)

text \<open>A member every value must have.\<close>

definition required ::
  "'f json_env \<Rightarrow> 'f json \<Rightarrow> (string \<times> 'f json) list \<Rightarrow> string \<Rightarrow> ('f json \<Rightarrow> string + 'a) \<Rightarrow> string + 'a" where
  "required env v fs k f = (case map_of fs k of None \<Rightarrow> serde_fail env v | Some x \<Rightarrow> f x)"

definition parse_field_ref :: "'f json_env \<Rightarrow> 'f json \<Rightarrow> string + vcl_field_ref" where
  "parse_field_ref env v =
     (case as_object v of
        None \<Rightarrow> serde_fail env v
      | Some fs \<Rightarrow>
          and_then (parse_option (parse_modality env) (map_of fs ''modality'')) (\<lambda>m.
          and_then (required env v fs ''field'' (parse_string env)) (\<lambda>name.
          Inr \<lparr>fr_modality = m, fr_field = name\<rparr>)))"

section \<open>Reading conditions\<close>

definition parse_embedding :: "'f json_env \<Rightarrow> 'f json list \<Rightarrow> string + 'f list" where
  "parse_embedding env vs =
     collect_results (\<lambda>v. ok_or ''VectorSimilar _0 contains non-numeric'' (as_f64 env v)) vs"

definition parse_simple_tagged ::
  "'f json_env \<Rightarrow> (string \<times> 'f json) list \<Rightarrow> string \<Rightarrow> string + 'f vcl_simple" where
  "parse_simple_tagged env obj tag =
     (let str = (\<lambda>k. Option.bind (map_of obj k) as_str);
          flt = (\<lambda>k. Option.bind (map_of obj k) (as_f64 env))
      in
      if tag = ''FulltextContains'' then
        and_then (ok_or ''FulltextContains missing _0 (search text)'' (str ''_0'')) (\<lambda>text.
        Inr (FulltextContains text))
      else if tag = ''VectorSimilar'' then
        and_then (ok_or ''VectorSimilar missing _0 (embedding array)'' (Option.bind (map_of obj ''_0'') as_array)) (\<lambda>vs.
        and_then (parse_embedding env vs) (\<lambda>e.
        and_then (ok_or ''VectorSimilar missing _1 (threshold)'' (flt ''_1'')) (\<lambda>threshold.
        Inr (VectorSimilar e threshold))))
      else if tag = ''GraphPattern'' then
        and_then (ok_or ''GraphPattern missing _0 (predicate)'' (str ''_0'')) (\<lambda>p.
        Inr (GraphPattern p (map_option ucast (Option.bind (map_of obj ''_1'') as_u64))))
      else if tag = ''FieldCondition'' then
        and_then (ok_or ''FieldCondition missing _0 (field)'' (map_of obj ''_0'')) (\<lambda>fv.
        and_then (parse_field_ref env fv) (\<lambda>field.
        and_then (ok_or ''FieldCondition missing _1 (operator)'' (str ''_1'')) (\<lambda>op.
        and_then (ok_or ''FieldCondition missing _2 (value)'' (map_of obj ''_2'')) (\<lambda>val.
        Inr (FieldCondition field op val)))))
      else if tag = ''CrossModalFieldCompare'' then
        and_then (ok_or ''CrossModalFieldCompare missing _0 (left)'' (map_of obj ''_0'')) (\<lambda>lv.
        and_then (parse_field_ref env lv) (\<lambda>left.
        and_then (ok_or ''CrossModalFieldCompare missing _1 (operator)'' (str ''_1'')) (\<lambda>op.
        and_then (ok_or ''CrossModalFieldCompare missing _2 (right)'' (map_of obj ''_2'')) (\<lambda>rv.
        and_then (parse_field_ref env rv) (\<lambda>right.
        Inr (CrossModalFieldCompare left op right))))))
      else if tag = ''ModalityDrift'' then
        and_then (ok_or ''ModalityDrift missing _0 (modality)'' (map_of obj ''_0'')) (\<lambda>mv.
        and_then (parse_modality env mv) (\<lambda>m.
        and_then (ok_or ''ModalityDrift missing _1 (threshold)'' (flt ''_1'')) (\<lambda>threshold.
        Inr (ModalityDrift m threshold))))
      else if tag = ''ModalityExists'' then
        and_then (ok_or ''ModalityExists missing _0 (modality)'' (map_of obj ''_0'')) (\<lambda>mv.
        and_then (parse_modality env mv) (\<lambda>m. Inr (ModalityExists m)))
      else if tag = ''ModalityNotExists'' then
        and_then (ok_or ''ModalityNotExists missing _0 (modality)'' (map_of obj ''_0'')) (\<lambda>mv.
        and_then (parse_modality env mv) (\<lambda>m. Inr (ModalityNotExists m)))
      else if tag = ''ModalityConsistency'' then
        and_then (ok_or ''ModalityConsistency missing _0 (modalities)'' (map_of obj ''_0'')) (\<lambda>mv.
        and_then (parse_vec env (parse_modality env) mv) (\<lambda>ms.
        and_then (ok_or ''ModalityConsistency missing _1 (threshold)'' (flt ''_1'')) (\<lambda>threshold.
        Inr (ModalityConsistency ms threshold))))
      else Inl (''unknown simple condition TAG: '' @ tag))"

definition parse_simple_condition :: "'f json_env \<Rightarrow> 'f json \<Rightarrow> string + 'f vcl_simple" where
  "parse_simple_condition env v =
     and_then (ok_or ''simple condition must be a JSON object'' (as_object v)) (\<lambda>obj.
     and_then (ok_or ''simple condition object missing TAG field'' (Option.bind (map_of obj ''TAG'') as_str)) (\<lambda>tag.
     parse_simple_tagged env obj tag))"

lemma map_of_size: "map_of fs k = Some v \<Longrightarrow> size v < size (JObject fs)"
  by (induction fs) (auto split: if_splits)

function (sequential) parse_condition :: "'f json_env \<Rightarrow> 'f json \<Rightarrow> string + 'f vcl_condition" where
  "parse_condition env (JObject obj) =
     (case Option.bind (map_of obj ''TAG'') as_str of
        None \<Rightarrow> Inl ''condition object missing TAG field''
      | Some tag \<Rightarrow>
          if tag = ''And'' then
            (case map_of obj ''_0'' of
               None \<Rightarrow> Inl ''And condition missing _0 (left operand)''
             | Some lhs \<Rightarrow>
                 (case map_of obj ''_1'' of
                    None \<Rightarrow> Inl ''And condition missing _1 (right operand)''
                  | Some rhs \<Rightarrow>
                      and_then (parse_condition env lhs) (\<lambda>l. and_then (parse_condition env rhs) (\<lambda>r. Inr (VAnd l r)))))
          else if tag = ''Or'' then
            (case map_of obj ''_0'' of
               None \<Rightarrow> Inl ''Or condition missing _0 (left operand)''
             | Some lhs \<Rightarrow>
                 (case map_of obj ''_1'' of
                    None \<Rightarrow> Inl ''Or condition missing _1 (right operand)''
                  | Some rhs \<Rightarrow>
                      and_then (parse_condition env lhs) (\<lambda>l. and_then (parse_condition env rhs) (\<lambda>r. Inr (VOr l r)))))
          else if tag = ''Not'' then
            (case map_of obj ''_0'' of
               None \<Rightarrow> Inl ''Not condition missing _0 (operand)''
             | Some inner \<Rightarrow> and_then (parse_condition env inner) (\<lambda>c. Inr (VNot c)))
          else if tag = ''Simple'' then
            (case map_of obj ''_0'' of
               None \<Rightarrow> Inl ''Simple condition missing _0''
             | Some inner \<Rightarrow> and_then (parse_simple_condition env inner) (\<lambda>c. Inr (VSimple c)))
          else Inl (''unknown condition TAG: '' @ tag))"
| "parse_condition env v = Inl ''condition must be a JSON object''"
  by pat_completeness auto
termination
  by (relation "measure (\<lambda>(env, v). size v)") (auto dest: map_of_size)

section \<open>Reading a query\<close>

text \<open>
  Derived deserializers. When several members are wrong the model reports the first one in the order of
  the declaration, \<open>serde\<close> the first one in the object.
\<close>

definition parse_source :: "'f json_env \<Rightarrow> 'f json \<Rightarrow> string + vcl_source" where
  "parse_source env v =
     (case as_object v of
        None \<Rightarrow> serde_fail env v
      | Some fs \<Rightarrow>
          (case tag_of v of
             None \<Rightarrow> serde_fail env v
           | Some t \<Rightarrow>
               if t = ''Octad'' then
                 and_then (parse_option (parse_string env) (map_of fs ''_0'')) (\<lambda>u. Inr (VOctad u))
               else if t = ''Federation'' then
                 and_then (required env v fs ''_0'' (parse_vec env (parse_string env))) (\<lambda>nodes.
                 and_then (parse_option (parse_string env) (map_of fs ''_1'')) (\<lambda>policy.
                 Inr (VFederation nodes policy)))
               else if t = ''Store'' then
                 and_then (required env v fs ''_0'' (parse_modality env)) (\<lambda>m. Inr (VStore m))
               else serde_fail env v))"

definition parse_projection :: "'f json_env \<Rightarrow> 'f json \<Rightarrow> string + vcl_projection" where
  "parse_projection env v =
     (case as_object v of
        None \<Rightarrow> serde_fail env v
      | Some fs \<Rightarrow>
          and_then (required env v fs ''field'' (parse_field_ref env)) (\<lambda>f.
          and_then (parse_option (parse_string env) (map_of fs ''alias'')) (\<lambda>a.
          Inr \<lparr>pj_field = f, pj_alias = a\<rparr>)))"

definition parse_aggregate :: "'f json_env \<Rightarrow> 'f json \<Rightarrow> string + vcl_aggregate" where
  "parse_aggregate env v =
     (case as_object v of
        None \<Rightarrow> serde_fail env v
      | Some fs \<Rightarrow>
          and_then (required env v fs ''function'' (parse_string env)) (\<lambda>f.
          and_then (parse_option (parse_field_ref env) (map_of fs ''field'')) (\<lambda>r.
          and_then (parse_option (parse_string env) (map_of fs ''alias'')) (\<lambda>a.
          Inr \<lparr>ag_function = f, ag_field = r, ag_alias = a\<rparr>))))"

definition parse_proof_type :: "'f json_env \<Rightarrow> 'f json \<Rightarrow> string + vcl_proof_type" where
  "parse_proof_type env v =
     (case tag_of v of
        None \<Rightarrow> serde_fail env v
      | Some t \<Rightarrow>
          if t = ''Citation'' then Inr VCitation
          else if t = ''Zkp'' then Inr VZkp
          else if t = ''Attestation'' then Inr VAttestation
          else Inr (VCustom t))"

definition parse_proof_spec :: "'f json_env \<Rightarrow> 'f json \<Rightarrow> string + vcl_proof_spec" where
  "parse_proof_spec env v =
     (case as_object v of
        None \<Rightarrow> serde_fail env v
      | Some fs \<Rightarrow>
          and_then (required env v fs ''proofType'' (parse_proof_type env)) (\<lambda>t.
          and_then (required env v fs ''contractName'' (parse_string env)) (\<lambda>c.
          Inr \<lparr>vp_type = t, contract_name = c\<rparr>)))"

definition parse_direction :: "'f json_env \<Rightarrow> 'f json \<Rightarrow> string + vcl_direction" where
  "parse_direction env v =
     (case tag_of v of
        None \<Rightarrow> serde_fail env v
      | Some t \<Rightarrow>
          if t = ''Asc'' then Inr VAsc else if t = ''Desc'' then Inr VDesc else serde_fail env v)"

definition parse_order_by :: "'f json_env \<Rightarrow> 'f json \<Rightarrow> string + vcl_order_by" where
  "parse_order_by env v =
     (case as_object v of
        None \<Rightarrow> serde_fail env v
      | Some fs \<Rightarrow>
          and_then (required env v fs ''field'' (parse_field_ref env)) (\<lambda>f.
          and_then (required env v fs ''direction'' (parse_direction env)) (\<lambda>d.
          Inr \<lparr>ob_field = f, ob_direction = d\<rparr>)))"

definition parse_usize :: "'f json_env \<Rightarrow> 'f json \<Rightarrow> string + nat" where
  "parse_usize env v = (case as_u64 v of Some n \<Rightarrow> Inr (unat n) | None \<Rightarrow> serde_fail env v)"

definition parse_query :: "'f json_env \<Rightarrow> 'f json \<Rightarrow> string + 'f vcl_query" where
  "parse_query env v =
     (case as_object v of
        None \<Rightarrow> serde_fail env v
      | Some fs \<Rightarrow>
          and_then (required env v fs ''modalities'' (parse_vec env (parse_modality env))) (\<lambda>ms.
          and_then (required env v fs ''source'' (parse_source env)) (\<lambda>src.
          and_then (parse_option (parse_condition env) (map_of fs ''where'')) (\<lambda>wh.
          and_then (parse_option (parse_vec env (parse_projection env)) (map_of fs ''projections'')) (\<lambda>pj.
          and_then (parse_option (parse_vec env (parse_aggregate env)) (map_of fs ''aggregates'')) (\<lambda>ag.
          and_then (parse_option (parse_vec env (parse_field_ref env)) (map_of fs ''groupBy'')) (\<lambda>gb.
          and_then (parse_option (parse_condition env) (map_of fs ''having'')) (\<lambda>hv.
          and_then (parse_option (parse_vec env (parse_proof_spec env)) (map_of fs ''proof'')) (\<lambda>pf.
          and_then (parse_option (parse_vec env (parse_order_by env)) (map_of fs ''orderBy'')) (\<lambda>ob.
          and_then (parse_option (parse_usize env) (map_of fs ''limit'')) (\<lambda>lm.
          and_then (parse_option (parse_usize env) (map_of fs ''offset'')) (\<lambda>off.
          Inr \<lparr>vq_modalities = ms, vq_source = src, where_clause = wh, projections = pj, aggregates = ag,
            group_by = gb, having = hv, proof_specs = pf, order_by = ob, vq_limit = lm, vq_offset = off\<rparr>))))))))))))"

text \<open>The statement: \<open>{"TAG": "Query", "_0": ...}\<close>.\<close>

definition parse_ast :: "'f json_env \<Rightarrow> 'f json \<Rightarrow> string + 'f vcl_query" where
  "parse_ast env v =
     (case as_object v of
        None \<Rightarrow> serde_fail env v
      | Some fs \<Rightarrow>
          (case tag_of v of
             None \<Rightarrow> serde_fail env v
           | Some t \<Rightarrow>
               if t = ''Query'' then required env v fs ''_0'' (parse_query env) else serde_fail env v))"

section \<open>The encoding of the VCL parser\<close>

text \<open>
  The BuckleScript encoding the bridge is written for: a variant is an object with the constructor in
  \<open>TAG\<close> and its arguments in \<open>_0\<close>, \<open>_1\<close>, \<open>_2\<close>; a record is an object, an absent option \<open>null\<close>. It is the
  specification the readers are checked against.
\<close>

definition variant :: "string \<Rightarrow> 'f json list \<Rightarrow> 'f json" where
  "variant tag args = JObject ((''TAG'', JString tag) # zip [''_0'', ''_1'', ''_2''] args)"

definition enc_option :: "('a \<Rightarrow> 'f json) \<Rightarrow> 'a option \<Rightarrow> 'f json" where
  "enc_option f x = (case x of None \<Rightarrow> JNull | Some y \<Rightarrow> f y)"

fun enc_modality :: "vcl_modality \<Rightarrow> 'f json" where
  "enc_modality VGraph = variant ''Graph'' []"
| "enc_modality VVector = variant ''Vector'' []"
| "enc_modality VTensor = variant ''Tensor'' []"
| "enc_modality VSemantic = variant ''Semantic'' []"
| "enc_modality VDocument = variant ''Document'' []"
| "enc_modality VTemporal = variant ''Temporal'' []"
| "enc_modality VAll = variant ''All'' []"

definition enc_field_ref :: "vcl_field_ref \<Rightarrow> 'f json" where
  "enc_field_ref r = JObject [(''modality'', enc_option enc_modality (fr_modality r)), (''field'', JString (fr_field r))]"

definition enc_f64 :: "'f \<Rightarrow> 'f json" where
  "enc_f64 x = JNumber (Float x)"

definition enc_u64 :: "u64 \<Rightarrow> 'f json" where
  "enc_u64 n = JNumber (PosInt n)"

fun enc_simple :: "'f vcl_simple \<Rightarrow> 'f json" where
  "enc_simple (FulltextContains t) = variant ''FulltextContains'' [JString t]"
| "enc_simple (VectorSimilar e x) = variant ''VectorSimilar'' [JArray (map enc_f64 e), enc_f64 x]"
| "enc_simple (GraphPattern p d) = variant ''GraphPattern'' [JString p, enc_option (\<lambda>n. enc_u64 (ucast n)) d]"
| "enc_simple (FieldCondition f op v) = variant ''FieldCondition'' [enc_field_ref f, JString op, v]"
| "enc_simple (CrossModalFieldCompare l op r) =
     variant ''CrossModalFieldCompare'' [enc_field_ref l, JString op, enc_field_ref r]"
| "enc_simple (ModalityDrift m x) = variant ''ModalityDrift'' [enc_modality m, enc_f64 x]"
| "enc_simple (ModalityExists m) = variant ''ModalityExists'' [enc_modality m]"
| "enc_simple (ModalityNotExists m) = variant ''ModalityNotExists'' [enc_modality m]"
| "enc_simple (ModalityConsistency ms x) = variant ''ModalityConsistency'' [JArray (map enc_modality ms), enc_f64 x]"

fun enc_condition :: "'f vcl_condition \<Rightarrow> 'f json" where
  "enc_condition (VAnd a b) = variant ''And'' [enc_condition a, enc_condition b]"
| "enc_condition (VOr a b) = variant ''Or'' [enc_condition a, enc_condition b]"
| "enc_condition (VNot a) = variant ''Not'' [enc_condition a]"
| "enc_condition (VSimple s) = variant ''Simple'' [enc_simple s]"

fun enc_source :: "vcl_source \<Rightarrow> 'f json" where
  "enc_source (VOctad u) = variant ''Octad'' [enc_option JString u]"
| "enc_source (VFederation nodes p) = variant ''Federation'' [JArray (map JString nodes), enc_option JString p]"
| "enc_source (VStore m) = variant ''Store'' [enc_modality m]"

definition enc_projection :: "vcl_projection \<Rightarrow> 'f json" where
  "enc_projection p = JObject [(''field'', enc_field_ref (pj_field p)), (''alias'', enc_option JString (pj_alias p))]"

definition enc_aggregate :: "vcl_aggregate \<Rightarrow> 'f json" where
  "enc_aggregate a = JObject [(''function'', JString (ag_function a)),
     (''field'', enc_option enc_field_ref (ag_field a)), (''alias'', enc_option JString (ag_alias a))]"

fun enc_proof_type :: "vcl_proof_type \<Rightarrow> 'f json" where
  "enc_proof_type VCitation = variant ''Citation'' []"
| "enc_proof_type VZkp = variant ''Zkp'' []"
| "enc_proof_type VAttestation = variant ''Attestation'' []"
| "enc_proof_type (VCustom t) = variant t []"

definition enc_proof_spec :: "vcl_proof_spec \<Rightarrow> 'f json" where
  "enc_proof_spec p = JObject [(''proofType'', enc_proof_type (vp_type p)), (''contractName'', JString (contract_name p))]"

definition enc_direction :: "vcl_direction \<Rightarrow> 'f json" where
  "enc_direction d = variant (case d of VAsc \<Rightarrow> ''Asc'' | VDesc \<Rightarrow> ''Desc'') []"

definition enc_order_by :: "vcl_order_by \<Rightarrow> 'f json" where
  "enc_order_by p = JObject [(''field'', enc_field_ref (ob_field p)), (''direction'', enc_direction (ob_direction p))]"

definition enc_vec :: "('a \<Rightarrow> 'f json) \<Rightarrow> 'a list \<Rightarrow> 'f json" where
  "enc_vec f xs = JArray (map f xs)"

definition enc_usize :: "nat \<Rightarrow> 'f json" where
  "enc_usize n = enc_u64 (word_of_nat n)"

definition enc_query :: "'f vcl_query \<Rightarrow> 'f json" where
  "enc_query q = JObject
     [(''modalities'', enc_vec enc_modality (vq_modalities q)), (''source'', enc_source (vq_source q)),
      (''where'', enc_option enc_condition (where_clause q)),
      (''projections'', enc_option (enc_vec enc_projection) (projections q)),
      (''aggregates'', enc_option (enc_vec enc_aggregate) (aggregates q)),
      (''groupBy'', enc_option (enc_vec enc_field_ref) (group_by q)),
      (''having'', enc_option enc_condition (having q)),
      (''proof'', enc_option (enc_vec enc_proof_spec) (proof_specs q)),
      (''orderBy'', enc_option (enc_vec enc_order_by) (order_by q)),
      (''limit'', enc_option enc_usize (vq_limit q)), (''offset'', enc_option enc_usize (vq_offset q))]"

definition enc_ast :: "'f vcl_query \<Rightarrow> 'f json" where
  "enc_ast q = variant ''Query'' [enc_query q]"

end
