(* ===== verification/Vcl_Codec.thy ===== *)
theory Vcl_Codec
  imports Vcl_Ast
begin

text \<open>
  The readers of the VCL bridge invert the encoding of the VCL parser, member by member: a contract for a
  pair of an encoder and a reader, kept by options and vectors, and an interpretation for every type of
  the syntax tree.
\<close>

section \<open>Encoders and readers\<close>

locale json_codec =
  fixes env :: "'f json_env"
    and enc :: "'a \<Rightarrow> 'f json"
    and dec :: "'f json \<Rightarrow> string + 'a"
    and ok :: "'a \<Rightarrow> bool"
  assumes dec_enc: "ok x \<Longrightarrow> dec (enc x) = Inr x"
    and enc_not_null: "enc x \<noteq> JNull"
begin

lemma dec_option: "pred_option ok x \<Longrightarrow> parse_option dec (Some (enc_option enc x)) = Inr x"
  using enc_not_null by (cases x) (simp_all add: enc_option_def parse_option_Some dec_enc)

lemma dec_vec: "list_all ok xs \<Longrightarrow> parse_vec env dec (enc_vec enc xs) = Inr xs"
  unfolding parse_vec_def enc_vec_def
  by (simp add: collect_results_map dec_enc list_all_iff)

lemma dec_required: "ok x \<Longrightarrow> map_of fs k = Some (enc x) \<Longrightarrow> required env v fs k dec = Inr x"
  by (simp add: required_def dec_enc)

text \<open>Vectors of what can be read can be read.\<close>

lemma vec_codec: "json_codec (enc_vec enc) (parse_vec env dec) (list_all ok)"
  by unfold_locales (rule dec_vec, assumption, simp add: enc_vec_def)

end

lemmas codec_defs = variant_def tag_of_def as_object_def as_str_def as_array_def required_def

section \<open>The leaves\<close>

lemma map_of_variant [simp]:
  "map_of ((''TAG'', t) # zip [''_0'', ''_1'', ''_2''] args) ''TAG'' = Some t"
  by simp

lemma tag_of_variant [simp]: "tag_of (variant t args) = Some t"
  by (simp add: codec_defs)

interpretation string_codec: json_codec env JString "parse_string env" "\<lambda>_. True" for env
  by unfold_locales (simp_all add: parse_string_def)

interpretation modality_codec: json_codec env enc_modality "parse_modality env" "\<lambda>_. True" for env
proof unfold_locales
  show "parse_modality env (enc_modality m) = Inr m" for m
    by (cases m) (simp_all add: parse_modality_def)
  show "enc_modality m \<noteq> JNull" for m by (cases m) (simp_all add: variant_def)
qed

interpretation field_ref_codec: json_codec env enc_field_ref "parse_field_ref env" "\<lambda>_. True" for env
proof unfold_locales
  show "parse_field_ref env (enc_field_ref r) = Inr r" for r
    using modality_codec.dec_option [of "fr_modality r" env]
    by (cases r) (simp add: parse_field_ref_def enc_field_ref_def codec_defs parse_string_def option.pred_True)
  show "enc_field_ref r \<noteq> JNull" for r by (simp add: enc_field_ref_def)
qed

lemma as_f64_enc [simp]: "as_f64 env (enc_f64 x) = Some x"
  by (simp add: as_f64_def enc_f64_def)

lemma as_u64_enc [simp]: "as_u64 (enc_u64 n) = Some n"
  by (simp add: as_u64_def enc_u64_def)

lemma as_str_JString [simp]: "as_str (JString s) = Some s"
  by (simp add: as_str_def)

lemma as_array_JArray [simp]: "as_array (JArray vs) = Some vs"
  by (simp add: as_array_def)

lemma as_object_JObject [simp]: "as_object (JObject fs) = Some fs"
  by (simp add: as_object_def)

lemma parse_embedding_enc [simp]: "parse_embedding env (map enc_f64 xs) = Inr xs"
  unfolding parse_embedding_def by (rule collect_results_map) simp

lemma depth_enc:
  "map_option ucast (Option.bind (Some (enc_option (\<lambda>n. enc_u64 (ucast (n :: u32))) d)) as_u64) = (d :: u32 option)"
  by (cases d) (simp_all add: enc_option_def as_u64_def enc_u64_def unsigned_ucast_eq take_bit_word_eq_self)

section \<open>Conditions\<close>

lemma parse_simple_enc: "parse_simple_condition env (enc_simple s) = Inr s"
proof (cases s)
  case (GraphPattern p d)
  then show ?thesis
    using depth_enc [of d]
    by (simp add: parse_simple_condition_def parse_simple_tagged_def variant_def Let_def)
next
  case (ModalityConsistency ms x)
  then show ?thesis
    using modality_codec.dec_vec [of ms env]
    by (simp add: parse_simple_condition_def parse_simple_tagged_def variant_def Let_def enc_vec_def list.pred_True)
qed (simp_all add: parse_simple_condition_def parse_simple_tagged_def variant_def Let_def
      modality_codec.dec_enc field_ref_codec.dec_enc)

lemma parse_condition_enc: "parse_condition env (enc_condition c) = Inr c"
  by (induction c) (simp_all add: variant_def parse_simple_enc)

interpretation condition_codec: json_codec env enc_condition "parse_condition env" "\<lambda>_. True" for env
proof unfold_locales
  show "parse_condition env (enc_condition c) = Inr c" for c by (rule parse_condition_enc)
  show "enc_condition c \<noteq> JNull" for c by (cases c) (simp_all add: variant_def)
qed

section \<open>Clauses\<close>

interpretation projection_codec: json_codec env enc_projection "parse_projection env" "\<lambda>_. True" for env
proof unfold_locales
  show "parse_projection env (enc_projection p) = Inr p" for p
    using string_codec.dec_option [of "pj_alias p" env]
    by (cases p) (simp add: parse_projection_def enc_projection_def required_def field_ref_codec.dec_enc
        option.pred_True)
  show "enc_projection p \<noteq> JNull" for p by (simp add: enc_projection_def)
qed

interpretation aggregate_codec: json_codec env enc_aggregate "parse_aggregate env" "\<lambda>_. True" for env
proof unfold_locales
  show "parse_aggregate env (enc_aggregate a) = Inr a" for a
    using string_codec.dec_option [of "ag_alias a" env] field_ref_codec.dec_option [of "ag_field a" env]
    by (cases a) (simp add: parse_aggregate_def enc_aggregate_def required_def parse_string_def option.pred_True)
  show "enc_aggregate a \<noteq> JNull" for a by (simp add: enc_aggregate_def)
qed

text \<open>A custom proof type is read back unless its name is one of the three known ones.\<close>

fun proof_type_ok :: "vcl_proof_type \<Rightarrow> bool" where
  "proof_type_ok (VCustom t) \<longleftrightarrow> t \<noteq> ''Citation'' \<and> t \<noteq> ''Zkp'' \<and> t \<noteq> ''Attestation''"
| "proof_type_ok _ \<longleftrightarrow> True"

lemma parse_proof_type_enc: "proof_type_ok t \<Longrightarrow> parse_proof_type env (enc_proof_type t) = Inr t"
  by (cases t) (simp_all add: parse_proof_type_def)

definition proof_spec_ok :: "vcl_proof_spec \<Rightarrow> bool" where
  "proof_spec_ok p \<longleftrightarrow> proof_type_ok (vp_type p)"

interpretation proof_spec_codec: json_codec env enc_proof_spec "parse_proof_spec env" proof_spec_ok for env
proof unfold_locales
  show "parse_proof_spec env (enc_proof_spec p) = Inr p" if "proof_spec_ok p" for p
    using that
    by (cases p) (simp add: parse_proof_spec_def enc_proof_spec_def required_def parse_string_def
        proof_spec_ok_def parse_proof_type_enc)
  show "enc_proof_spec p \<noteq> JNull" for p by (simp add: enc_proof_spec_def)
qed

interpretation order_by_codec: json_codec env enc_order_by "parse_order_by env" "\<lambda>_. True" for env
proof unfold_locales
  show "parse_order_by env (enc_order_by p) = Inr p" for p
    by (cases p; cases "ob_direction p")
      (simp_all add: parse_order_by_def enc_order_by_def required_def field_ref_codec.dec_enc
        parse_direction_def enc_direction_def)
  show "enc_order_by p \<noteq> JNull" for p by (simp add: enc_order_by_def)
qed

interpretation usize_codec: json_codec env enc_usize "parse_usize env" "\<lambda>n. n < 2 ^ 64" for env
proof unfold_locales
  show "parse_usize env (enc_usize n) = Inr n" if "n < 2 ^ 64" for n
    using that by (simp add: parse_usize_def enc_usize_def unat_of_nat)
  show "enc_usize n \<noteq> JNull" for n by (simp add: enc_usize_def enc_u64_def)
qed

lemma parse_source_enc: "parse_source env (enc_source src) = Inr src"
proof (cases src)
  case (VOctad u)
  then show ?thesis
    using string_codec.dec_option [of u env]
    by (simp add: parse_source_def variant_def tag_of_def option.pred_True)
next
  case (VFederation nodes p)
  then show ?thesis
    using string_codec.dec_option [of p env] string_codec.dec_vec [of nodes env]
    by (simp add: parse_source_def variant_def tag_of_def required_def enc_vec_def option.pred_True list.pred_True)
next
  case (VStore m)
  then show ?thesis
    by (simp add: parse_source_def variant_def tag_of_def required_def modality_codec.dec_enc)
qed

section \<open>The query\<close>

text \<open>What the encoding cannot tell apart or hold: custom proofs with a known name, numbers above \<open>usize\<close>.\<close>

definition query_ok :: "'f vcl_query \<Rightarrow> bool" where
  "query_ok q \<longleftrightarrow>
     pred_option (list_all proof_spec_ok) (proof_specs q)
     \<and> pred_option (\<lambda>n. n < 2 ^ 64) (vq_limit q) \<and> pred_option (\<lambda>n. n < 2 ^ 64) (vq_offset q)"

lemma parse_query_enc:
  assumes "query_ok q"
  shows "parse_query env (enc_query q) = Inr q"
proof -
  have proofs: "parse_option (parse_vec env (parse_proof_spec env))
      (Some (enc_option (enc_vec enc_proof_spec) (proof_specs q))) = Inr (proof_specs q)"
    using assms by (intro json_codec.dec_option [OF proof_spec_codec.vec_codec]) (simp add: query_ok_def)
  have limits: "parse_option (parse_usize env) (Some (enc_option enc_usize (vq_limit q))) = Inr (vq_limit q)"
    "parse_option (parse_usize env) (Some (enc_option enc_usize (vq_offset q))) = Inr (vq_offset q)"
    using assms by (simp_all add: query_ok_def usize_codec.dec_option)
  have conds: "parse_option (parse_condition env) (Some (enc_option enc_condition c)) = Inr c" for c
    by (rule condition_codec.dec_option) (simp add: option.pred_True)
  have vecs: "parse_option (parse_vec env (parse_projection env)) (Some (enc_option (enc_vec enc_projection) a)) = Inr a"
    "parse_option (parse_vec env (parse_aggregate env)) (Some (enc_option (enc_vec enc_aggregate) b)) = Inr b"
    "parse_option (parse_vec env (parse_field_ref env)) (Some (enc_option (enc_vec enc_field_ref) c)) = Inr c"
    "parse_option (parse_vec env (parse_order_by env)) (Some (enc_option (enc_vec enc_order_by) d)) = Inr d"
    for a b c d
    by (rule json_codec.dec_option [OF projection_codec.vec_codec]
        json_codec.dec_option [OF aggregate_codec.vec_codec]
        json_codec.dec_option [OF field_ref_codec.vec_codec]
        json_codec.dec_option [OF order_by_codec.vec_codec];
      simp add: list.pred_True option.pred_True)+
  have ms: "parse_vec env (parse_modality env) (enc_vec enc_modality ms) = Inr ms" for ms
    by (rule modality_codec.dec_vec) (simp add: list.pred_True)
  show ?thesis
    using proofs limits
    by (cases q) (simp add: parse_query_def enc_query_def required_def ms parse_source_enc conds vecs)
qed

section \<open>Properties\<close>


definition ex_json_env :: "int json_env" where
  "ex_json_env = \<lparr>je_of_u64 = uint, je_of_i64 = (\<lambda>i. i), serde_message = (\<lambda>_. ''invalid'')\<rparr>"

definition ex_query :: "'f vcl_query" where
  "ex_query =
     \<lparr>vq_modalities = [VGraph, VDocument], vq_source = VOctad (Some ''u''),
      where_clause = Some (VAnd (VSimple (FulltextContains ''t''))
        (VNot (VSimple (FieldCondition \<lparr>fr_modality = Some VGraph, fr_field = ''f''\<rparr> ''!='' (JString ''v''))))),
      projections = None, aggregates = None, group_by = None, having = None,
      proof_specs = Some [\<lparr>vp_type = VZkp, contract_name = ''c''\<rparr>],
      order_by = Some [\<lparr>ob_field = \<lparr>fr_modality = None, fr_field = ''f''\<rparr>, ob_direction = VDesc\<rparr>],
      vq_limit = Some 10, vq_offset = Some 5\<rparr>"


end
