(* ===== verification/Query_Cost.thy ===== *)
theory Query_Cost
  imports Query_Plan
begin

text \<open>
  The cost model (\<open>verisim-planner/src/cost.rs\<close>) and the tuner that adjusts it (\<open>AdaptiveTuner\<close> of
  \<open>stats.rs\<close>). The arithmetic is that of the source, operation by operation, on an abstract \<open>f64\<close>.
\<close>

section \<open>Base costs\<close>

text \<open>The dash in the hints is three bytes of UTF-8.\<close>

definition em_dash :: string where
  "em_dash = [CHR 0xE2, CHR 0x80, CHR 0x94]"

record 'f base_cost =
  bc_time_ms :: 'f
  bc_selectivity :: 'f
  bc_hint :: string

fun base_cost_for :: "'f planner_env \<Rightarrow> modality \<Rightarrow> 'f base_cost" where
  "base_cost_for env Graph =
     \<lparr>bc_time_ms = f_dec env 1500 1, bc_selectivity = f_dec env 2 1,
      bc_hint = ''Graph traversal '' @ em_dash @ '' O(E) scan''\<rparr>"
| "base_cost_for env Vector =
     \<lparr>bc_time_ms = f_dec env 500 1, bc_selectivity = f_dec env 1 2,
      bc_hint = ''HNSW approximate nearest neighbor''\<rparr>"
| "base_cost_for env Tensor =
     \<lparr>bc_time_ms = f_dec env 2000 1, bc_selectivity = f_dec env 5 1,
      bc_hint = ''Tensor reduction '' @ em_dash @ '' shape dependent''\<rparr>"
| "base_cost_for env Semantic =
     \<lparr>bc_time_ms = f_dec env 3000 1, bc_selectivity = f_dec env 8 1,
      bc_hint = ''ZKP verification '' @ em_dash @ '' expensive''\<rparr>"
| "base_cost_for env Document =
     \<lparr>bc_time_ms = f_dec env 800 1, bc_selectivity = f_dec env 5 2,
      bc_hint = ''Tantivy inverted index lookup''\<rparr>"
| "base_cost_for env Temporal =
     \<lparr>bc_time_ms = f_dec env 300 1, bc_selectivity = f_dec env 1 1,
      bc_hint = ''Version tree lookup '' @ em_dash @ '' cached''\<rparr>"

section \<open>Combination\<close>

definition cost_sequential :: "'f planner_env \<Rightarrow> 'f cost_estimate \<Rightarrow> 'f cost_estimate \<Rightarrow> 'f cost_estimate" where
  "cost_sequential env a b =
     (let ops = pe_ops env in
      \<lparr>time_ms = f_add ops (time_ms a) (time_ms b), estimated_rows = max (estimated_rows a) (estimated_rows b),
       selectivity = f_mul ops (selectivity a) (selectivity b), io_cost = f_add ops (io_cost a) (io_cost b),
       cpu_cost = f_add ops (cpu_cost a) (cpu_cost b)\<rparr>)"

definition cost_parallel :: "'f planner_env \<Rightarrow> 'f cost_estimate \<Rightarrow> 'f cost_estimate \<Rightarrow> 'f cost_estimate" where
  "cost_parallel env a b =
     (let ops = pe_ops env in
      \<lparr>time_ms = f_max env (time_ms a) (time_ms b), estimated_rows = max (estimated_rows a) (estimated_rows b),
       selectivity = f_mul ops (selectivity a) (selectivity b), io_cost = f_add ops (io_cost a) (io_cost b),
       cpu_cost = f_add ops (cpu_cost a) (cpu_cost b)\<rparr>)"

fun cost_combine :: "'f planner_env \<Rightarrow> 'f cost_estimate list \<Rightarrow> bool \<Rightarrow> 'f cost_estimate" where
  "cost_combine env [] parallel =
     \<lparr>time_ms = f_dec env 0 1, estimated_rows = 0, selectivity = f_dec env 10 1, io_cost = f_dec env 0 1,
      cpu_cost = f_dec env 0 1\<rparr>"
| "cost_combine env (e # es) parallel =
     foldl (\<lambda>acc est. if parallel then cost_parallel env acc est else cost_sequential env acc est) e es"

section \<open>Proofs, post-processing, cross-modal conditions\<close>

record 'f proof_cost =
  verify_ms :: 'f
  circuit_ms :: 'f
  parallelizable :: bool

definition proof_cost_for :: "'f planner_env \<Rightarrow> string \<Rightarrow> 'f proof_cost" where
  "proof_cost_for env t =
     (let d = f_dec env; s = str_lower env t in
      if s = ''existence'' then \<lparr>verify_ms = d 10 1, circuit_ms = d 0 1, parallelizable = True\<rparr>
      else if s = ''citation'' then \<lparr>verify_ms = d 50 1, circuit_ms = d 0 1, parallelizable = True\<rparr>
      else if s = ''access'' then \<lparr>verify_ms = d 150 1, circuit_ms = d 0 1, parallelizable = True\<rparr>
      else if s = ''integrity'' then \<lparr>verify_ms = d 500 1, circuit_ms = d 100 1, parallelizable = True\<rparr>
      else if s = ''provenance'' then \<lparr>verify_ms = d 300 1, circuit_ms = d 0 1, parallelizable = False\<rparr>
      else \<lparr>verify_ms = d 2000 1, circuit_ms = d 1000 1, parallelizable = False\<rparr>)"

definition total_ms :: "'f planner_env \<Rightarrow> 'f proof_cost \<Rightarrow> 'f" where
  "total_ms env p = f_add (pe_ops env) (verify_ms p) (circuit_ms p)"

definition post_processing_cost :: "'f planner_env \<Rightarrow> post_processing \<Rightarrow> u64 \<Rightarrow> 'f cost_estimate" where
  "post_processing_cost env pp rows =
     (let ops = pe_ops env; d = f_dec env; mul = f_mul ops; n = f_of_u64 env (max rows 1) in
      case pp of
        OrderBy flds \<Rightarrow>
          (let t = mul (mul (mul n (f_max env (f_log2 env n) (d 10 1))) (d 1 3)) (f_of_usize env (length flds))
           in \<lparr>time_ms = t, estimated_rows = rows, selectivity = d 10 1, io_cost = d 0 1, cpu_cost = t\<rparr>)
      | Limit k \<Rightarrow>
          (let out = min rows (word_of_nat k)
           in \<lparr>time_ms = d 1 1, estimated_rows = out, selectivity = f_div ops (f_of_u64 env out) n,
               io_cost = d 0 1, cpu_cost = d 1 1\<rparr>)
      | GroupBy flds aggregates \<Rightarrow>
          (let group = mul (mul n (d 2 3)) (f_of_usize env (length flds));
               agg = mul (mul n (d 1 3)) (f_of_usize env (max (length aggregates) 1));
               tot = f_add ops group agg;
               groups = f_to_u64 env (f_max env (f_div ops n (d 100 1)) (d 10 1))
           in \<lparr>time_ms = tot, estimated_rows = groups, selectivity = f_div ops (f_of_u64 env groups) n,
               io_cost = d 0 1, cpu_cost = tot\<rparr>)
      | Project columns \<Rightarrow>
          (let t = mul (mul n (d 1 4)) (f_of_usize env (length columns))
           in \<lparr>time_ms = t, estimated_rows = rows, selectivity = d 10 1, io_cost = d 0 1, cpu_cost = t\<rparr>))"

text \<open>\<open>str::contains\<close>.\<close>

fun contains :: "string \<Rightarrow> string \<Rightarrow> bool" where
  "contains [] p \<longleftrightarrow> p = []"
| "contains (c # s) p \<longleftrightarrow> starts_with (c # s) p \<or> contains s p"

definition cross_modal_cost :: "'f planner_env \<Rightarrow> condition_kind \<Rightarrow> u64 \<Rightarrow> 'f cost_estimate" where
  "cross_modal_cost env cond rows =
     (let ops = pe_ops env; d = f_dec env; n = f_of_u64 env (max rows 1);
          (per_row, sel) =
            (case cond of
               Predicate ex \<Rightarrow>
                 if contains ex ''cross_modal'' then (d 1 2, d 3 1)
                 else if contains ex ''drift'' then (d 5 1, d 5 1)
                 else if contains ex ''consistency'' then (d 10 1, d 7 1)
                 else if contains ex ''exists'' \<or> contains ex ''not_exists'' then (d 1 3, d 5 1)
                 else (d 1 2, d 5 1)
             | _ \<Rightarrow> (d 1 2, d 5 1));
          t = f_mul ops n per_row
      in \<lparr>time_ms = t, estimated_rows = f_to_u64 env (f_max env (f_mul ops n sel) (d 10 1)), selectivity = sel,
          io_cost = d 0 1, cpu_cost = t\<rparr>)"

section \<open>The estimate of a node\<close>

definition known_proof_types :: "string list" where
  "known_proof_types = [''existence'', ''citation'', ''access'', ''integrity'', ''provenance'', ''zkp'']"

definition extract_proof_type :: "'f planner_env \<Rightarrow> string \<Rightarrow> string" where
  "extract_proof_type env contract =
     (case List.find (contains (str_lower env contract)) known_proof_types of
        Some t \<Rightarrow> t
      | None \<Rightarrow> ''custom'')"

text \<open>The loop over the conditions, on time, selectivity and the time of proofs.\<close>

fun condition_step :: "'f planner_env \<Rightarrow> condition_kind \<Rightarrow> 'f \<times> 'f \<times> 'f \<Rightarrow> 'f \<times> 'f \<times> 'f" where
  "condition_step env (Equality _ _) (t, sel, pr) =
     (f_mul (pe_ops env) t (f_dec env 7 1), f_mul (pe_ops env) sel (f_dec env 1 1), pr)"
| "condition_step env (Range _ _ _) (t, sel, pr) =
     (f_mul (pe_ops env) t (f_dec env 8 1), f_mul (pe_ops env) sel (f_dec env 3 1), pr)"
| "condition_step env (Similarity k) (t, sel, pr) =
     (t, f_min env (f_div (pe_ops env) (f_of_usize env k) (f_dec env 100000 1)) (f_dec env 10 1), pr)"
| "condition_step env (Fulltext _) (t, sel, pr) = (f_mul (pe_ops env) t (f_dec env 6 1), sel, pr)"
| "condition_step env (ProofVerification contract) (t, sel, pr) =
     (t, sel, f_add (pe_ops env) pr (total_ms env (proof_cost_for env (extract_proof_type env contract))))"
| "condition_step env _ acc = acc"

text \<open>The base cost under the mode of the modality, weighted with the statistics, cut by an early limit.\<close>

definition base_estimate ::
  "'f planner_env \<Rightarrow> plan_node \<Rightarrow> 'f planner_config \<Rightarrow> 'f store_statistics option \<Rightarrow> 'f \<times> 'f" where
  "base_estimate env node c stats =
     (let ops = pe_ops env; d = f_dec env; base = base_cost_for env (pn_modality node);
          mode = mode_for (pn_modality node) c;
          t = f_mul ops (bc_time_ms base) (cost_multiplier env mode);
          sel = f_min env (f_mul ops (bc_selectivity base) (selectivity_multiplier env mode)) (d 10 1);
          w = statistics_weight c; mix = (\<lambda>x y. f_add ops (f_mul ops x (f_sub ops (d 10 1) w)) (f_mul ops y w));
          (t, sel) =
            (case stats of
               Some s \<Rightarrow>
                 if 0 < query_count s then
                   (mix t (avg_latency_ms s),
                    if 0 < total_rows s then
                      mix sel (f_div ops (f_of_u64 env (avg_rows_returned s)) (f_of_u64 env (total_rows s)))
                    else sel)
                 else (t, sel)
             | None \<Rightarrow> (t, sel))
      in case early_limit node of
           None \<Rightarrow> (t, sel)
         | Some limit \<Rightarrow>
             (let factor = f_min env (f_div ops (f_of_usize env limit) (d 10000 1)) (d 10 1)
              in (f_mul ops t (f_add ops (d 5 1) (f_mul ops (d 5 1) factor)), f_mul ops sel factor)))"

definition estimate ::
  "'f planner_env \<Rightarrow> plan_node \<Rightarrow> 'f planner_config \<Rightarrow> 'f store_statistics option \<Rightarrow> 'f cost_estimate" where
  "estimate env node c stats =
     (let ops = pe_ops env; d = f_dec env;
          (t, sel) = base_estimate env node c stats;
          (t, sel, pr) = fold (condition_step env) (pn_conditions node) (t, sel, d 0 1);
          t = f_add ops t pr;
          rows = f_to_u64 env (f_max env
            (case stats of
               Some s \<Rightarrow> f_mul ops (f_of_u64 env (total_rows s)) sel
             | None \<Rightarrow> f_mul ops (d 10000 1) sel) (d 10 1))
      in \<lparr>time_ms = t, estimated_rows = rows, selectivity = sel,
          io_cost = f_mul ops (f_sub ops t pr) (d 6 1),
          cpu_cost = f_add ops (f_mul ops (f_sub ops t pr) (d 4 1)) pr\<rparr>)"

fun post_step :: "'f planner_env \<Rightarrow> post_processing \<Rightarrow> 'f cost_estimate \<times> u64 \<Rightarrow> 'f cost_estimate \<times> u64" where
  "post_step env pp (tot, rows) =
     (let c = post_processing_cost env pp rows; ops = pe_ops env
      in (tot\<lparr>time_ms := f_add ops (time_ms tot) (time_ms c),
            cpu_cost := f_add ops (cpu_cost tot) (cpu_cost c)\<rparr>, estimated_rows c))"

definition estimate_with_post_processing ::
  "'f planner_env \<Rightarrow> 'f cost_estimate \<Rightarrow> post_processing list \<Rightarrow> 'f cost_estimate" where
  "estimate_with_post_processing env c pps =
     (let (tot, rows) = fold (post_step env) pps (c, estimated_rows c) in tot\<lparr>estimated_rows := rows\<rparr>)"

section \<open>Hints\<close>

text \<open>
  \<open>&query[..20]\<close> panics when byte 20 continues a character; a panic is \<open>None\<close>.
\<close>

definition is_char_boundary :: "string \<Rightarrow> nat \<Rightarrow> bool" where
  "is_char_boundary s i \<longleftrightarrow>
     i = 0 \<or> i = length s \<or> i < length s \<and> \<not> (0x80 \<le> (of_char (s ! i) :: nat) \<and> (of_char (s ! i) :: nat) < 0xC0)"

definition fulltext_preview :: "string \<Rightarrow> string option" where
  "fulltext_preview q =
     (if 20 < length q then (if is_char_boundary q 20 then Some (take 20 q @ ''...'') else None) else Some q)"

fun hint_step :: "condition_kind \<Rightarrow> string option \<Rightarrow> string option" where
  "hint_step (Similarity k) h = map_option (\<lambda>_. ''HNSW ANN search (k='' @ dec_digits k @ '')'') h"
| "hint_step (Fulltext q) h =
     (case h of
        None \<Rightarrow> None
      | Some _ \<Rightarrow> map_option (\<lambda>p. ''Tantivy fulltext: '' @ [CHR 0x22] @ p @ [CHR 0x22]) (fulltext_preview q))"
| "hint_step (Traversal p depth) h =
     map_option (\<lambda>_. ''Graph traversal: '' @ p @ '' (depth=''
       @ dec_digits (unat (case depth of Some n \<Rightarrow> n | None \<Rightarrow> 1)) @ '')'') h"
| "hint_step (ProofVerification contract) h = map_option (\<lambda>_. ''ZKP verify: '' @ contract) h"
| "hint_step (Equality field _) h = map_option (\<lambda>_. ''Index lookup on '' @ field) h"
| "hint_step (AtTime t) h = map_option (\<lambda>_. ''Temporal snapshot at '' @ t) h"
| "hint_step _ h = h"

definition optimization_hint :: "'f planner_env \<Rightarrow> plan_node \<Rightarrow> string option" where
  "optimization_hint env node =
     fold hint_step (pn_conditions node) (Some (bc_hint (base_cost_for env (pn_modality node))))"

text \<open>A hint is given exactly when every full-text query can be cut.\<close>

definition previewable :: "plan_node \<Rightarrow> bool" where
  "previewable node \<longleftrightarrow>
     (\<forall>c \<in> set (pn_conditions node). case c of Fulltext q \<Rightarrow> fulltext_preview q \<noteq> None | _ \<Rightarrow> True)"

lemma hint_step_None [simp]: "hint_step c None = None"
  by (cases c) simp_all

lemma fold_hint_None [simp]: "fold hint_step cs None = None"
  by (induction cs) simp_all

lemma fold_hint_Some:
  "(\<exists>h'. fold hint_step cs (Some h) = Some h') \<longleftrightarrow>
     (\<forall>c \<in> set cs. case c of Fulltext q \<Rightarrow> fulltext_preview q \<noteq> None | _ \<Rightarrow> True)"
proof (induction cs arbitrary: h)
  case (Cons c cs)
  show ?case
  proof (cases c)
    case (Fulltext q)
    then show ?thesis using Cons by (cases "fulltext_preview q") simp_all
  qed (use Cons in simp_all)
qed simp

lemma optimization_hint_returns: "(\<exists>h. optimization_hint env node = Some h) \<longleftrightarrow> previewable node"
  unfolding optimization_hint_def previewable_def by (rule fold_hint_Some)

section \<open>Adaptive tuning\<close>

record 'f adaptive_tuner =
  aggressive_threshold :: 'f
  conservative_threshold :: 'f
  min_samples :: u64

definition tuner_new :: "'f planner_env \<Rightarrow> 'f adaptive_tuner" where
  "tuner_new env =
     \<lparr>aggressive_threshold = f_dec env 5 1, conservative_threshold = f_dec env 20 1, min_samples = 10\<rparr>"

definition suggest ::
  "'f planner_env \<Rightarrow> 'f adaptive_tuner \<Rightarrow> 'f statistics_collector \<Rightarrow> 'f planner_config \<Rightarrow> modality
     \<Rightarrow> optimization_mode option" where
  "suggest env tuner col c m =
     (case map_of col m of
        None \<Rightarrow> None
      | Some s \<Rightarrow>
          if query_count s < min_samples tuner then None
          else
            (let ops = pe_ops env; current = mode_for m c;
                 estimated = f_mul ops (bc_time_ms (base_cost_for env m)) (cost_multiplier env current)
             in if f_le ops estimated (f_dec env 0 1) then None
                else
                  (let ratio = f_div ops (avg_latency_ms s) estimated;
                       mode = (if f_less ops ratio (aggressive_threshold tuner) then Aggressive
                         else if partial_cmp ops ratio (conservative_threshold tuner) = Some Greater then Conservative
                         else Balanced)
                   in if mode \<noteq> current then Some mode else None)))"

definition suggest_adjustments ::
  "'f planner_env \<Rightarrow> 'f adaptive_tuner \<Rightarrow> 'f statistics_collector \<Rightarrow> 'f planner_config
     \<Rightarrow> (modality \<times> optimization_mode) list" where
  "suggest_adjustments env tuner col c =
     List.map_filter (\<lambda>m. map_option (\<lambda>x. (m, x)) (suggest env tuner col c m)) all_modalities"

definition tuner_apply ::
  "'f planner_env \<Rightarrow> 'f adaptive_tuner \<Rightarrow> 'f statistics_collector \<Rightarrow> 'f planner_config \<Rightarrow> 'f planner_config" where
  "tuner_apply env tuner col c =
     (if \<not> enable_adaptive c then c
      else
        (let adj = suggest_adjustments env tuner col c
         in if adj = [] then c
            else c\<lparr>modality_overrides := fold (\<lambda>(m, x) ov. AList.update m x ov) adj (modality_overrides c)\<rparr>))"

end
