(* ===== verification/Optimizer.thy ===== *)
theory Optimizer
  imports Complex_Main Query_Cost
begin

text \<open>
  The optimizer (\<open>verisim-planner/src/optimizer.rs\<close>): from a logical plan to a physical one. A panic of the
  hint of a node is \<open>None\<close>.
\<close>

section \<open>The planner\<close>

record 'f planner =
  pl_config :: "'f planner_config"
  pl_stats :: "'f statistics_collector"

definition planner_new :: "'f planner_env \<Rightarrow> (modality \<Rightarrow> datetime) \<Rightarrow> 'f planner_config \<Rightarrow> 'f planner" where
  "planner_new env now c = \<lparr>pl_config = c, pl_stats = collector_new env now\<rparr>"

fun option_u32_debug :: "u32 option \<Rightarrow> string" where
  "option_u32_debug None = ''None''"
| "option_u32_debug (Some n) = ''Some('' @ dec_digits (unat n) @ '')''"

text \<open>The derived \<open>Debug\<close> of a condition.\<close>

fun condition_debug :: "'f planner_env \<Rightarrow> condition_kind \<Rightarrow> string" where
  "condition_debug env (Equality field v) =
     ''Equality { field: '' @ str_debug env field @ '', value: '' @ str_debug env v @ '' }''"
| "condition_debug env (Range field low high) =
     ''Range { field: '' @ str_debug env field @ '', low: '' @ str_debug env low @ '', high: ''
       @ str_debug env high @ '' }''"
| "condition_debug env (Fulltext q) = ''Fulltext { query: '' @ str_debug env q @ '' }''"
| "condition_debug env (Similarity k) = ''Similarity { k: '' @ dec_digits k @ '' }''"
| "condition_debug env (Traversal p depth) =
     ''Traversal { predicate: '' @ str_debug env p @ '', depth: '' @ option_u32_debug depth @ '' }''"
| "condition_debug env (AtTime t) = ''AtTime { timestamp: '' @ str_debug env t @ '' }''"
| "condition_debug env (ProofVerification c) = ''ProofVerification { contract: '' @ str_debug env c @ '' }''"
| "condition_debug env (TensorOp t) = ''TensorOp { operation: '' @ str_debug env t @ '' }''"
| "condition_debug env (Predicate ex) = ''Predicate { expression: '' @ str_debug env ex @ '' }''"

fun operation_name :: "modality \<Rightarrow> string" where
  "operation_name Graph = ''Graph traversal''"
| "operation_name Vector = ''Vector similarity search''"
| "operation_name Tensor = ''Tensor computation''"
| "operation_name Semantic = ''Semantic verification''"
| "operation_name Document = ''Document fulltext search''"
| "operation_name Temporal = ''Temporal version lookup''"

section \<open>Optimization\<close>

text \<open>A node with its estimate and its hint.\<close>

type_synonym 'f costed = "plan_node \<times> 'f cost_estimate \<times> string"

definition cost_node :: "'f planner_env \<Rightarrow> 'f planner \<Rightarrow> plan_node \<Rightarrow> 'f costed option" where
  "cost_node env p node =
     map_option
       (\<lambda>h. (node, estimate env node (pl_config p) (map_of (pl_stats p) (pn_modality node)), h))
       (optimization_hint env node)"

text \<open>Panics of the hints stop the loop that costs the nodes.\<close>

fun cost_nodes :: "'f planner_env \<Rightarrow> 'f planner \<Rightarrow> plan_node list \<Rightarrow> 'f costed list option" where
  "cost_nodes env p [] = Some []"
| "cost_nodes env p (node # nodes) =
     (case cost_node env p node of
        None \<Rightarrow> None
      | Some x \<Rightarrow> map_option ((#) x) (cost_nodes env p nodes))"

definition node_order :: "'f planner_env \<Rightarrow> 'f costed \<Rightarrow> 'f costed \<Rightarrow> ordering" where
  "node_order env a b =
     (let pa = execution_priority (pn_modality (fst a)); pb = execution_priority (pn_modality (fst b))
      in if pa < pb then Less
         else if pb < pa then Greater
         else case partial_cmp (pe_ops env) (time_ms (fst (snd a))) (time_ms (fst (snd b))) of
                Some c \<Rightarrow> c
              | None \<Rightarrow> Equal)"

definition make_step :: "'f planner_env \<Rightarrow> nat \<Rightarrow> 'f costed \<Rightarrow> 'f plan_step" where
  "make_step env i x =
     (let node = fst x; conds = pn_conditions node in
      \<lparr>ps_step = i + 1,
       ps_operation = operation_name (pn_modality node) @ '' '' @
         (if conds = [] then ''(scan)'' else ''('' @ dec_digits (length conds) @ '' conditions)''),
       ps_modality = pn_modality node, ps_cost = fst (snd x), ps_hint = Some (snd (snd x)),
       pushed_predicates = map (condition_debug env) conds\<rparr>)"

definition make_steps :: "'f planner_env \<Rightarrow> 'f costed list \<Rightarrow> 'f plan_step list" where
  "make_steps env xs = map (\<lambda>(i, x). make_step env i x) (enumerate 0 xs)"

definition step_note :: "'f planner_env \<Rightarrow> 'f plan_step \<Rightarrow> string list" where
  "step_note env s =
     (if partial_cmp (pe_ops env) (selectivity (ps_cost s)) (f_dec env 5 1) = Some Greater
         \<and> partial_cmp (pe_ops env) (time_ms (ps_cost s)) (f_dec env 1000 1) = Some Greater
      then [''Step '' @ dec_digits (ps_step s) @ '': '' @ modality_display (ps_modality s) @ '' has high selectivity (''
        @ f_fixed0 env (f_mul (pe_ops env) (selectivity (ps_cost s)) (f_dec env 1000 1)) @ ''%) '' @ em_dash
        @ '' may benefit from additional predicates'']
      else [])"

definition plan_notes ::
  "'f planner_env \<Rightarrow> bool \<Rightarrow> 'f cost_estimate \<Rightarrow> 'f plan_step list \<Rightarrow> string list" where
  "plan_notes env parallel tot steps =
     [if parallel then ''Parallel execution across '' @ dec_digits (length steps) @ '' modalities''
      else ''Sequential execution '' @ em_dash @ '' single modality'']
     @ (if partial_cmp (pe_ops env) (time_ms tot) (f_dec env 5000 1) = Some Greater
        then [''High estimated cost '' @ em_dash @ '' consider adding LIMIT or more selective predicates''] else [])
     @ concat (map (step_note env) steps)"

definition physical_of ::
  "'f planner_env \<Rightarrow> 'f planner \<Rightarrow> logical_plan \<Rightarrow> 'f costed list \<Rightarrow> 'f physical_plan" where
  "physical_of env p lp costed =
     (let sorted = sort_by (node_order env) costed;
          parallel = parallel_threshold (pl_config p) \<le> length (lp_nodes lp);
          steps = make_steps env sorted;
          tot = estimate_with_post_processing env (cost_combine env (map (fst \<circ> snd) sorted) parallel) (lp_post lp)
      in \<lparr>pp_steps = steps, pp_strategy = (if parallel then Parallel else Sequential), pp_total_cost = tot,
          pp_notes = plan_notes env parallel tot steps\<rparr>)"

definition optimize ::
  "'f planner_env \<Rightarrow> 'f planner \<Rightarrow> logical_plan \<Rightarrow> (planner_error + 'f physical_plan) option" where
  "optimize env p lp =
     (if lp_nodes lp = [] then Some (Inl EmptyPlan)
      else map_option (\<lambda>costed. Inr (physical_of env p lp costed)) (cost_nodes env p (lp_nodes lp)))"

section \<open>Sorting by priority\<close>

text \<open>
  An insertion sort leaves the keys in order whenever its comparison key_respecting them; how it breaks ties
  does not matter.
\<close>

definition key_respecting :: "('a \<Rightarrow> 'k::linorder) \<Rightarrow> ('a \<Rightarrow> 'a \<Rightarrow> ordering) \<Rightarrow> bool" where
  "key_respecting key cmp \<longleftrightarrow>
     (\<forall>x y. (key x < key y \<longrightarrow> cmp x y = Less) \<and> (key y < key x \<longrightarrow> cmp x y = Greater))"

lemma sorted_key_insert_by:
  "key_respecting key cmp \<Longrightarrow> sorted (map key ys) \<Longrightarrow> sorted (map key (insert_by cmp x ys))"
proof (induction ys)
  case (Cons y ys)
  have "set (insert_by cmp x ys) = insert x (set ys)"
    by (metis mset_insert_by set_mset_add_mset_insert set_mset_mset)
  moreover have "key y \<le> key x" if "cmp x y = Greater"
    using Cons.prems(1) that by (metis ordering.distinct(3) not_less key_respecting_def)
  moreover have "key x \<le> key y" if "cmp x y \<noteq> Greater"
    using Cons.prems(1) that by (metis not_less key_respecting_def)
  ultimately show ?case using Cons by fastforce
qed simp

lemma sorted_key_sort_by: "key_respecting key cmp \<Longrightarrow> sorted (map key (sort_by cmp xs))"
  by (induction xs) (simp_all add: sort_by_def sorted_key_insert_by)

lemma node_order_respects: "key_respecting (\<lambda>x. pn_modality (fst x)) (node_order env)"
  by (auto simp: key_respecting_def node_order_def Let_def less_modality_def)

lemma cost_node_Some:
  "cost_node env p node = Some x \<Longrightarrow> fst x = node
     \<and> fst (snd x) = estimate env node (pl_config p) (map_of (pl_stats p) (pn_modality node))"
  by (auto simp: cost_node_def)

lemma cost_nodes_map:
  "cost_nodes env p nodes = Some xs \<Longrightarrow> map fst xs = nodes
     \<and> (\<forall>x \<in> set xs. cost_node env p (fst x) = Some x)"
proof (induction nodes arbitrary: xs)
  case (Cons node nodes)
  obtain x zs where x: "cost_node env p node = Some x" and zs: "cost_nodes env p nodes = Some zs"
    and xs: "xs = x # zs"
    using Cons.prems by (auto split: option.splits)
  have "fst x = node" using cost_node_Some [OF x] by simp
  then show ?case using Cons.IH [OF zs] x unfolding xs by simp
qed simp

lemma cost_nodes_returns: "(\<exists>xs. cost_nodes env p nodes = Some xs) \<longleftrightarrow> (\<forall>node \<in> set nodes. previewable node)"
proof (induction nodes)
  case (Cons node nodes)
  then show ?case
    using optimization_hint_returns [of env node] by (auto simp: cost_node_def split: option.splits)
qed simp

lemma make_steps_conv:
  "map ps_step (make_steps env xs) = [1..<Suc (length xs)]"
  "map ps_modality (make_steps env xs) = map (\<lambda>x. pn_modality (fst x)) xs"
  "map (\<lambda>s. (ps_modality s, ps_cost s, pushed_predicates s)) (make_steps env xs)
     = map (\<lambda>x. (pn_modality (fst x), fst (snd x), map (condition_debug env) (pn_conditions (fst x)))) xs"
proof -
  show "map ps_step (make_steps env xs) = [1..<Suc (length xs)]"
    by (rule nth_equalityI) (simp_all add: make_steps_def make_step_def Let_def nth_enumerate_eq del: upt_Suc)
qed (rule nth_equalityI; simp add: make_steps_def make_step_def Let_def nth_enumerate_eq)+

text \<open>What a plan node asks of its store: the modality, the estimated cost and the pushed predicates.\<close>

definition planned ::
  "'f planner_env \<Rightarrow> 'f planner \<Rightarrow> plan_node \<Rightarrow> modality \<times> 'f cost_estimate \<times> string list" where
  "planned env p node =
     (pn_modality node, estimate env node (pl_config p) (map_of (pl_stats p) (pn_modality node)),
      map (condition_debug env) (pn_conditions node))"

lemma optimized_steps:
  assumes "optimize env p lp = Some (Inr plan)"
  shows "mset (map (\<lambda>s. (ps_modality s, ps_cost s, pushed_predicates s)) (pp_steps plan))
       = mset (map (planned env p) (lp_nodes lp))"
    and "sorted (map ps_modality (pp_steps plan))"
    and "map ps_step (pp_steps plan) = [1..<Suc (length (lp_nodes lp))]"
    and "pp_strategy plan = Parallel \<longleftrightarrow> parallel_threshold (pl_config p) \<le> length (lp_nodes lp)"
proof -
  obtain xs where xs: "cost_nodes env p (lp_nodes lp) = Some xs" and plan: "plan = physical_of env p lp xs"
    using assms by (auto simp: optimize_def split: if_splits)
  let ?ys = "sort_by (node_order env) xs"
  have nodes: "map fst xs = lp_nodes lp" and cost: "\<forall>x \<in> set xs. cost_node env p (fst x) = Some x"
    using cost_nodes_map [OF xs] by simp_all
  have steps: "pp_steps plan = make_steps env ?ys" by (simp add: plan physical_of_def Let_def)
  have len: "length ?ys = length (lp_nodes lp)" by (metis length_map length_sort_by nodes)
  have "map (planned env p \<circ> fst) xs
      = map (\<lambda>x. (pn_modality (fst x), fst (snd x), map (condition_debug env) (pn_conditions (fst x)))) xs"
  proof (rule map_cong [OF refl])
    fix x
    assume "x \<in> set xs"
    then have "cost_node env p (fst x) = Some x" using cost by blast
    from cost_node_Some [OF this]
    show "(planned env p \<circ> fst) x
      = (pn_modality (fst x), fst (snd x), map (condition_debug env) (pn_conditions (fst x)))"
      by (simp add: planned_def)
  qed
  then have "map (planned env p) (lp_nodes lp)
      = map (\<lambda>x. (pn_modality (fst x), fst (snd x), map (condition_debug env) (pn_conditions (fst x)))) xs"
    by (simp flip: nodes)
  moreover have "mset (map (\<lambda>x. (pn_modality (fst x), fst (snd x), map (condition_debug env) (pn_conditions (fst x)))) ?ys)
      = mset (map (\<lambda>x. (pn_modality (fst x), fst (snd x), map (condition_debug env) (pn_conditions (fst x)))) xs)"
    by (simp only: mset_map mset_sort_by)
  ultimately show "mset (map (\<lambda>s. (ps_modality s, ps_cost s, pushed_predicates s)) (pp_steps plan))
      = mset (map (planned env p) (lp_nodes lp))"
    unfolding steps make_steps_conv by simp
  show "sorted (map ps_modality (pp_steps plan))" "map ps_step (pp_steps plan) = [1..<Suc (length (lp_nodes lp))]"
    unfolding steps make_steps_conv len by (simp_all add: sorted_key_sort_by [OF node_order_respects])
  show "pp_strategy plan = Parallel \<longleftrightarrow> parallel_threshold (pl_config p) \<le> length (lp_nodes lp)"
    by (simp add: plan physical_of_def Let_def)
qed

section \<open>Properties\<close>

text \<open>
  The steps of a physical plan are the nodes of the logical one, each once with its own estimate and
  predicates, numbered from one, in the order of the execution priorities whatever the costs are; the
  plan is parallel exactly from \<open>parallel_threshold\<close> nodes on.
\<close>

theorem optimize_orders_nodes:
  assumes "optimize env p lp = Some (Inr plan)"
  shows "mset (map (\<lambda>s. (ps_modality s, ps_cost s, pushed_predicates s)) (pp_steps plan))
       = mset (map (planned env p) (lp_nodes lp))
    \<and> map ps_step (pp_steps plan) = [1..<Suc (length (lp_nodes lp))]
    \<and> sorted (map ps_modality (pp_steps plan))
    \<and> (pp_strategy plan = Parallel \<longleftrightarrow> parallel_threshold (pl_config p) \<le> length (lp_nodes lp))"
  using optimized_steps [OF assms] by blast

text \<open>
  The optimizer refuses exactly the plan without nodes, and returns a plan for every other one whose
  full-text queries can be cut at byte 20 to make the hint; it panics on the rest.
\<close>

theorem optimize_returns:
  "(optimize env p lp = Some (Inl err) \<longleftrightarrow> lp_nodes lp = [] \<and> err = EmptyPlan)
     \<and> ((\<exists>plan. optimize env p lp = Some (Inr plan)) \<longleftrightarrow> lp_nodes lp \<noteq> [] \<and> (\<forall>node \<in> set (lp_nodes lp). previewable node))
     \<and> (optimize env p lp = None \<longleftrightarrow> (\<exists>node \<in> set (lp_nodes lp). \<not> previewable node))"
  using cost_nodes_returns [of env p "lp_nodes lp"]
  by (cases "cost_nodes env p (lp_nodes lp)") (auto simp: optimize_def)

section \<open>Examples on exact arithmetic\<close>

text \<open>Rational numbers in place of \<open>f64\<close>; the logarithm, which the examples do not use, is the identity.\<close>

definition rat_ops :: "rat float_ops" where
  "rat_ops = \<lparr>f_add = (+), f_sub = (-), f_mul = (*), f_div = (/), f_powi = (\<lambda>a n. a ^ nat n),
     f_sqrt = (\<lambda>a. a), f_sin = (\<lambda>a. a), f_cos = (\<lambda>a. 1), f_asin = (\<lambda>a. a), f_to_radians = (\<lambda>a. a),
     f_literal = of_int, f_sum_start = 0,
     partial_cmp = (\<lambda>a b. Some (if a < b then Less else if a = b then Equal else Greater)),
     is_nan = (\<lambda>_. False), f_display = (\<lambda>_. ''n'')\<rparr>"

definition rat_env :: "rat planner_env" where
  "rat_env = \<lparr>pe_ops = rat_ops, f_dec = (\<lambda>m k. of_int m / 10 ^ k), f_of_u64 = (\<lambda>w. of_nat (unat w)),
     f_of_usize = of_nat, f_to_u64 = (\<lambda>a. word_of_int \<lfloor>a\<rfloor>), f_min = min, f_max = max, f_log2 = (\<lambda>a. a),
     f_infinity = 0, f_fixed0 = (\<lambda>_. ''n''), str_debug = (\<lambda>s. s), str_lower = (\<lambda>s. s)\<rparr>"

definition ex_logical :: logical_plan where
  "ex_logical =
     \<lparr>lp_source = Octad,
      lp_nodes = [\<lparr>pn_modality = Graph, pn_conditions = [Traversal ''p'' (Some 2)], pn_projections = [], early_limit = None\<rparr>,
        \<lparr>pn_modality = Vector, pn_conditions = [Similarity 10], pn_projections = [], early_limit = None\<rparr>],
      lp_post = [Limit 5]\<rparr>"

definition ex_planner :: "rat planner" where
  "ex_planner = planner_new rat_env (\<lambda>_. 0) (planner_config_default rat_env)"

lemma ex_previewable: "\<forall>node \<in> set (lp_nodes ex_logical). previewable node"
  by (simp add: ex_logical_def previewable_def)

theorem optimize_orders_nodes_witness:
  "\<exists>plan. optimize rat_env ex_planner ex_logical = Some (Inr plan)
     \<and> map ps_step (pp_steps plan) = [1..<3] \<and> sorted (map ps_modality (pp_steps plan))
     \<and> pp_strategy plan = Parallel"
proof -
  have "lp_nodes ex_logical \<noteq> []" "length (lp_nodes ex_logical) = 2" by (simp_all add: ex_logical_def)
  moreover have "parallel_threshold (pl_config ex_planner) = 2"
    by (simp add: ex_planner_def planner_new_def planner_config_default_def)
  moreover obtain plan where plan: "optimize rat_env ex_planner ex_logical = Some (Inr plan)"
    using cost_nodes_returns [of rat_env ex_planner "lp_nodes ex_logical"] ex_previewable calculation(1)
    by (auto simp: optimize_def)
  ultimately show ?thesis using optimize_orders_nodes [OF plan] by (auto simp: numeral_3_eq_3)
qed

theorem optimize_returns_witness:
  "\<exists>plan. optimize rat_env ex_planner ex_logical = Some (Inr plan)"
proof -
  have "lp_nodes ex_logical \<noteq> []" by (simp add: ex_logical_def)
  then show ?thesis using optimize_returns [of rat_env ex_planner ex_logical] ex_previewable by blast
qed

text \<open>
  A store that answers in 420 milliseconds where the balanced estimate is 200 makes the tuner switch back and
  forth: under the conservative mode the estimate is close and the tuner returns to balanced.
\<close>

definition ex_slow_store :: "rat statistics_collector" where
  "ex_slow_store =
     [(Tensor, (store_statistics_new rat_env 0 Tensor)\<lparr>avg_latency_ms := 420, query_count := 10\<rparr>)]"

definition ex_tune :: "rat planner_config \<Rightarrow> rat planner_config" where
  "ex_tune = tuner_apply rat_env (tuner_new rat_env) ex_slow_store"

definition ex_tuned :: "optimization_mode \<Rightarrow> rat planner_config" where
  "ex_tuned mode = (planner_config_default rat_env)
     \<lparr>modality_overrides := [(Vector, Aggressive), (Graph, Conservative), (Semantic, Conservative), (Tensor, mode)]\<rparr>"

lemma ex_tune_cycle:
  "ex_tune (planner_config_default rat_env) = ex_tuned Conservative"
  "ex_tune (ex_tuned Conservative) = ex_tuned Balanced"
  "ex_tune (ex_tuned Balanced) = ex_tuned Conservative"
  by code_simp+

lemma ex_tune_powers: "(ex_tune ^^ Suc n) (planner_config_default rat_env) = ex_tuned (if even n then Conservative else Balanced)"
  by (induction n) (simp_all add: ex_tune_cycle)

theorem tuner_oscillates:
  "mode_for Tensor ((tuner_apply rat_env (tuner_new rat_env) ex_slow_store ^^ n) (planner_config_default rat_env))
     = (if even n then Balanced else Conservative)"
proof (cases n)
  case 0
  have "mode_for Tensor (planner_config_default rat_env) = Balanced" by code_simp
  then show ?thesis using 0 by simp
next
  case (Suc k)
  have "mode_for Tensor (ex_tuned mode) = mode" for mode
    by (simp add: ex_tuned_def mode_for_def)
  then show ?thesis
    unfolding Suc ex_tune_def [symmetric] ex_tune_powers by simp
qed

end
