(* ===== verification/Vcl_Bridge.thy ===== *)
theory Vcl_Bridge
  imports Vcl_Codec Optimizer
begin

text \<open>
  From a VCL query to a logical plan (\<open>verisim-planner/src/vcl_bridge.rs\<close>, second half). The buckets of
  conditions per modality are the \<open>HashMap\<close> of the source, an association list. The derived \<open>Debug\<close> of
  a leaf condition, \<open>Display\<close> of \<open>f64\<close> and \<open>to_string\<close> of a JSON value are parameters.
\<close>

section \<open>Names\<close>

record 'f bridge_env =
  br_planner :: "'f planner_env"
  br_simple_debug :: "'f vcl_simple \<Rightarrow> string"
  br_json_string :: "'f json \<Rightarrow> string"

fun vm_debug :: "vcl_modality \<Rightarrow> string" where
  "vm_debug VGraph = ''Graph''"
| "vm_debug VVector = ''Vector''"
| "vm_debug VTensor = ''Tensor''"
| "vm_debug VSemantic = ''Semantic''"
| "vm_debug VDocument = ''Document''"
| "vm_debug VTemporal = ''Temporal''"
| "vm_debug VAll = ''All''"

definition field_ref_name :: "vcl_field_ref \<Rightarrow> string" where
  "field_ref_name r =
     (case fr_modality r of Some m \<Rightarrow> vm_debug m @ ''.'' @ fr_field r | None \<Rightarrow> fr_field r)"

section \<open>Modalities and source\<close>

fun to_planner :: "vcl_modality \<Rightarrow> planner_error + modality" where
  "to_planner VGraph = Inr Graph"
| "to_planner VVector = Inr Vector"
| "to_planner VTensor = Inr Tensor"
| "to_planner VSemantic = Inr Semantic"
| "to_planner VDocument = Inr Document"
| "to_planner VTemporal = Inr Temporal"
| "to_planner VAll = Inl (InvalidConfig ''All modality should be expanded before individual mapping'')"

text \<open>The first loop expands \<open>All\<close>, the \<open>retain\<close> drops later occurrences.\<close>

fun expand_modalities :: "vcl_modality list \<Rightarrow> planner_error + modality list" where
  "expand_modalities [] = Inr []"
| "expand_modalities (VAll # ms) = map_sum id (\<lambda>r. all_modalities @ r) (expand_modalities ms)"
| "expand_modalities (m # ms) =
     and_then (to_planner m) (\<lambda>x. map_sum id ((#) x) (expand_modalities ms))"

fun retain_first :: "'a list \<Rightarrow> 'a list \<Rightarrow> 'a list" where
  "retain_first seen [] = []"
| "retain_first seen (x # xs) =
     (if x \<in> set seen then retain_first seen xs else x # retain_first (x # seen) xs)"

definition resolve_modalities :: "vcl_modality list \<Rightarrow> planner_error + modality list" where
  "resolve_modalities ms = map_sum id (retain_first []) (expand_modalities ms)"

fun map_source :: "vcl_source \<Rightarrow> planner_error + query_source" where
  "map_source (VOctad _) = Inr Octad"
| "map_source (VFederation nodes _) = Inr (Federation nodes)"
| "map_source (VStore m) = map_sum id Store (to_planner m)"

section \<open>Conditions\<close>

fun describe_condition :: "'f bridge_env \<Rightarrow> 'f vcl_condition \<Rightarrow> string" where
  "describe_condition env (VAnd l r) =
     ''('' @ describe_condition env l @ '' AND '' @ describe_condition env r @ '')''"
| "describe_condition env (VOr l r) =
     ''('' @ describe_condition env l @ '' OR '' @ describe_condition env r @ '')''"
| "describe_condition env (VNot c) = ''NOT('' @ describe_condition env c @ '')''"
| "describe_condition env (VSimple s) = br_simple_debug env s"

definition json_text :: "'f bridge_env \<Rightarrow> 'f json \<Rightarrow> string" where
  "json_text env v = (case v of JString s \<Rightarrow> s | _ \<Rightarrow> br_json_string env v)"

definition ref_debug :: "vcl_field_ref \<Rightarrow> string" where
  "ref_debug r = (case fr_modality r of Some m \<Rightarrow> vm_debug m | None \<Rightarrow> ''?'')"

fun map_simple_condition :: "'f bridge_env \<Rightarrow> 'f vcl_simple \<Rightarrow> planner_error + modality option \<times> condition_kind" where
  "map_simple_condition env (FulltextContains t) = Inr (Some Document, Fulltext t)"
| "map_simple_condition env (VectorSimilar e _) = Inr (Some Vector, Similarity (length e))"
| "map_simple_condition env (GraphPattern p d) = Inr (Some Graph, Traversal p d)"
| "map_simple_condition env (FieldCondition f op v) =
     (let target = (case fr_modality f of
                      None \<Rightarrow> None
                    | Some m \<Rightarrow> (case to_planner m of Inr x \<Rightarrow> Some x | Inl _ \<Rightarrow> None));
          text = json_text env v
      in Inr (target,
           if op \<in> {''='', ''=='', ''!='', ''<>''} then Equality (fr_field f) text
           else if op \<in> {''>'', ''>='', ''<'', ''<='', ''BETWEEN''} then Range (fr_field f) text text
           else Predicate (fr_field f @ '' '' @ op @ '' '' @ text)))"
| "map_simple_condition env (CrossModalFieldCompare l op r) =
     Inr (None, Predicate (''cross_modal: '' @ ref_debug l @ ''.'' @ fr_field l @ '' '' @ op @ '' ''
       @ ref_debug r @ ''.'' @ fr_field r))"
| "map_simple_condition env (ModalityDrift m x) =
     map_sum id (\<lambda>t. (Some t, Predicate (''drift('' @ modality_display t @ '') > ''
       @ f_display (pe_ops (br_planner env)) x))) (to_planner m)"
| "map_simple_condition env (ModalityExists m) =
     map_sum id (\<lambda>t. (Some t, Predicate (''exists('' @ modality_display t @ '')''))) (to_planner m)"
| "map_simple_condition env (ModalityNotExists m) =
     map_sum id (\<lambda>t. (Some t, Predicate (''not_exists('' @ modality_display t @ '')''))) (to_planner m)"
| "map_simple_condition env (ModalityConsistency ms x) =
     (let names = List.map_filter (\<lambda>m. case to_planner m of Inr t \<Rightarrow> Some (modality_display t) | Inl _ \<Rightarrow> None) ms
      in Inr (None, Predicate (''consistency('' @ join '', '' names @ '') > ''
           @ f_display (pe_ops (br_planner env)) x)))"

type_synonym buckets = "(modality \<times> condition_kind list) list"

text \<open>\<open>out.entry(m).or_default().push(k)\<close>, for one modality and for all active ones.\<close>

definition push_condition :: "modality \<Rightarrow> condition_kind \<Rightarrow> buckets \<Rightarrow> buckets" where
  "push_condition m k out = hm_entry [] m (\<lambda>ks. ks @ [k]) out"

definition broadcast :: "modality list \<Rightarrow> condition_kind \<Rightarrow> buckets \<Rightarrow> buckets" where
  "broadcast ms k out = fold (\<lambda>m. push_condition m k) ms out"

definition foreign_predicate :: "'f bridge_env \<Rightarrow> modality \<Rightarrow> condition_kind \<Rightarrow> condition_kind" where
  "foreign_predicate env m k =
     Predicate (''target_modality='' @ modality_display m @ '': '' @ condition_debug (br_planner env) k)"

fun flatten_conditions ::
  "'f bridge_env \<Rightarrow> 'f vcl_condition \<Rightarrow> modality list \<Rightarrow> buckets \<Rightarrow> planner_error + buckets" where
  "flatten_conditions env (VAnd l r) ms out =
     (case flatten_conditions env l ms out of
        Inl e \<Rightarrow> Inl e
      | Inr out' \<Rightarrow> flatten_conditions env r ms out')"
| "flatten_conditions env (VOr l r) ms out =
     Inr (broadcast ms (Predicate (''OR('' @ describe_condition env l @ '', '' @ describe_condition env r @ '')'')) out)"
| "flatten_conditions env (VNot c) ms out =
     Inr (broadcast ms (Predicate (''NOT('' @ describe_condition env c @ '')'')) out)"
| "flatten_conditions env (VSimple s) ms out =
     (case map_simple_condition env s of
        Inl e \<Rightarrow> Inl e
      | Inr (Some m, k) \<Rightarrow>
          Inr (if map_of out m \<noteq> None then push_condition m k out
               else broadcast ms (foreign_predicate env m k) out)
      | Inr (None, k) \<Rightarrow> Inr (broadcast ms k out))"

section \<open>Projections and post-processing\<close>

fun projection_map :: "modality list \<Rightarrow> vcl_projection list \<Rightarrow> (modality \<times> string list) list \<Rightarrow> (modality \<times> string list) list" where
  "projection_map ms [] pm = pm"
| "projection_map ms (p # ps) pm =
     (let name = (case pj_alias p of Some a \<Rightarrow> a | None \<Rightarrow> fr_field (pj_field p));
          add = (\<lambda>m. hm_entry [] m (\<lambda>ns. ns @ [name]))
      in projection_map ms ps
           (case fr_modality (pj_field p) of
              Some vm \<Rightarrow>
                (case to_planner vm of
                   Inr m \<Rightarrow> if m \<in> set ms then add m pm else pm
                 | Inl _ \<Rightarrow> pm)
            | None \<Rightarrow> fold add ms pm))"

definition build_projection_map :: "modality list \<Rightarrow> vcl_projection list option \<Rightarrow> (modality \<times> string list) list" where
  "build_projection_map ms pj = (case pj of None \<Rightarrow> [] | Some ps \<Rightarrow> projection_map ms ps [])"

fun aggregate_text :: "vcl_aggregate \<Rightarrow> string" where
  "aggregate_text a =
     ag_function a @ ''('' @ (case ag_field a of Some f \<Rightarrow> field_ref_name f | None \<Rightarrow> ''*'') @ '')''"

definition usize_max :: nat where
  "usize_max = 2 ^ 64 - 1"

fun is_limit :: "post_processing \<Rightarrow> bool" where
  "is_limit (Limit _) \<longleftrightarrow> True"
| "is_limit _ \<longleftrightarrow> False"

definition offset_steps :: "nat option \<Rightarrow> post_processing list \<Rightarrow> post_processing list" where
  "offset_steps off pps =
     (case off of
        None \<Rightarrow> pps
      | Some skip \<Rightarrow>
          if 0 < skip then
            pps @ (if \<exists>p \<in> set pps. is_limit p then [] else [Limit (usize_max - skip)])
            @ [Project [''__offset='' @ dec_digits skip]]
          else pps)"

definition post_processing_of :: "'f vcl_query \<Rightarrow> post_processing list" where
  "post_processing_of q =
     (let grp = (case group_by q of
                   None \<Rightarrow> []
                 | Some fs \<Rightarrow>
                     [GroupBy (map field_ref_name fs)
                        (case aggregates q of Some ags \<Rightarrow> map aggregate_text ags | None \<Rightarrow> [])]);
          ord = (case order_by q of
                   None \<Rightarrow> []
                 | Some obs \<Rightarrow> [OrderBy (map (\<lambda>b. (field_ref_name (ob_field b), ob_direction b = VAsc)) obs)]);
          lim = (case vq_limit q of None \<Rightarrow> [] | Some n \<Rightarrow> [Limit n]);
          pps = offset_steps (vq_offset q) (grp @ ord @ lim)
      in if group_by q = None then
           (case projections q of
              None \<Rightarrow> pps
            | Some ps \<Rightarrow>
                (let columns = map (\<lambda>p. case pj_alias p of Some a \<Rightarrow> a | None \<Rightarrow> field_ref_name (pj_field p)) ps
                 in if columns = [] then pps else pps @ [Project columns]))
         else pps)"

section \<open>The plan\<close>

definition push_proofs :: "vcl_proof_spec list option \<Rightarrow> buckets \<Rightarrow> buckets" where
  "push_proofs proofs out =
     (case proofs of
        None \<Rightarrow> out
      | Some ps \<Rightarrow> fold (\<lambda>p. push_condition Semantic (ProofVerification (contract_name p))) ps out)"

text \<open>Step 6: one node per modality; \<open>remove\<close> takes its bucket out of the map.\<close>

fun assemble :: "buckets \<Rightarrow> (modality \<times> string list) list \<Rightarrow> modality list \<Rightarrow> plan_node list" where
  "assemble cm pm [] = []"
| "assemble cm pm (m # ms) =
     \<lparr>pn_modality = m, pn_conditions = (case map_of cm m of Some ks \<Rightarrow> ks | None \<Rightarrow> []),
      pn_projections = (case map_of pm m of Some ns \<Rightarrow> ns | None \<Rightarrow> []), early_limit = None\<rparr>
     # assemble (AList.delete m cm) pm ms"

definition start_buckets :: "modality list \<Rightarrow> buckets" where
  "start_buckets ms = fold (\<lambda>m. hm_entry [] m (\<lambda>ks. ks)) ms []"

definition to_logical_plan :: "'f bridge_env \<Rightarrow> 'f vcl_query \<Rightarrow> planner_error + logical_plan" where
  "to_logical_plan env q =
     and_then (resolve_modalities (vq_modalities q)) (\<lambda>ms.
       if ms = [] then Inl EmptyPlan
       else
         and_then (map_source (vq_source q)) (\<lambda>src.
         and_then (case where_clause q of
                     None \<Rightarrow> Inr (start_buckets ms)
                   | Some c \<Rightarrow> flatten_conditions env c ms (start_buckets ms)) (\<lambda>out.
         Inr \<lparr>lp_source = src,
              lp_nodes = sort_key (\<lambda>n. execution_priority (pn_modality n))
                (assemble (push_proofs (proof_specs q) out) (build_projection_map ms (projections q)) ms),
              lp_post = post_processing_of q\<rparr>)))"

end
