(* ===== verification/Vcl_Plan.thy ===== *)
theory Vcl_Plan
  imports Vcl_Bridge
begin

text \<open>
  What the conversion of a VCL query promises: which nodes the plan has, that every conjunct of the WHERE
  clause reaches the nodes it concerns and nothing else does, when the conversion fails, which clauses
  it drops, and what the optimizer makes of the result.
\<close>

section \<open>The reference: what a node has to evaluate\<close>

text \<open>The modalities a query asks for, in the canonical order.\<close>

definition active_of :: "vcl_modality list \<Rightarrow> modality list" where
  "active_of vs = filter (\<lambda>m. VAll \<in> set vs \<or> Inr m \<in> to_planner ` set vs) all_modalities"

fun conjuncts :: "'f vcl_condition \<Rightarrow> 'f vcl_condition list" where
  "conjuncts (VAnd l r) = conjuncts l @ conjuncts r"
| "conjuncts c = [c]"

definition where_conjuncts :: "'f vcl_query \<Rightarrow> 'f vcl_condition list" where
  "where_conjuncts q = (case where_clause q of None \<Rightarrow> [] | Some c \<Rightarrow> conjuncts c)"

text \<open>
  What one conjunct means for the node of one modality: a leaf goes to the modality it is about, or to
  every node, as a predicate, when its modality is not queried; leaves about no modality,
  disjunctions and negations go to every node.
\<close>

fun at_node :: "'f bridge_env \<Rightarrow> modality set \<Rightarrow> modality \<Rightarrow> 'f vcl_condition \<Rightarrow> condition_kind list" where
  "at_node env M m (VAnd _ _) = []"
| "at_node env M m (VOr l r) =
     [Predicate (''OR('' @ describe_condition env l @ '', '' @ describe_condition env r @ '')'')]"
| "at_node env M m (VNot c) = [Predicate (''NOT('' @ describe_condition env c @ '')'')]"
| "at_node env M m (VSimple s) =
     (case map_simple_condition env s of
        Inl _ \<Rightarrow> []
      | Inr (None, k) \<Rightarrow> [k]
      | Inr (Some t, k) \<Rightarrow>
          if t \<in> M then (if t = m then [k] else []) else [foreign_predicate env t k])"

definition node_conditions :: "'f bridge_env \<Rightarrow> modality set \<Rightarrow> modality \<Rightarrow> 'f vcl_condition list \<Rightarrow> condition_kind list" where
  "node_conditions env M m cs = concat (map (at_node env M m) cs)"

definition proof_conditions :: "'f vcl_query \<Rightarrow> modality \<Rightarrow> condition_kind list" where
  "proof_conditions q m =
     (if m = Semantic then map (\<lambda>p. ProofVerification (contract_name p)) (case proof_specs q of Some ps \<Rightarrow> ps | None \<Rightarrow> [])
      else [])"

lemma node_conditions_append [simp]:
  "node_conditions env M m (xs @ ys) = node_conditions env M m xs @ node_conditions env M m ys"
  by (simp add: node_conditions_def)

lemma node_conditions_single [simp]: "node_conditions env M m [c] = at_node env M m c"
  by (simp add: node_conditions_def)

section \<open>Buckets\<close>

definition bucket :: "buckets \<Rightarrow> modality \<Rightarrow> condition_kind list" where
  "bucket out m = (case map_of out m of Some ks \<Rightarrow> ks | None \<Rightarrow> [])"

definition keys :: "buckets \<Rightarrow> modality set" where
  "keys out = dom (map_of out)"

lemma keys_iff: "m \<in> keys out \<longleftrightarrow> map_of out m \<noteq> None"
  by (auto simp: keys_def)

lemma keys_push [simp]: "keys (push_condition m k out) = insert m (keys out)"
  by (auto simp: keys_def push_condition_def dom_def)

lemma bucket_push [simp]:
  "bucket (push_condition m k out) j = (if j = m then bucket out m @ [k] else bucket out j)"
  by (auto simp: bucket_def push_condition_def split: option.splits)

lemma keys_broadcast [simp]: "keys (broadcast ms k out) = set ms \<union> keys out"
  unfolding broadcast_def by (induction ms arbitrary: out) auto

lemma bucket_broadcast:
  "distinct ms \<Longrightarrow> bucket (broadcast ms k out) j = (if j \<in> set ms then bucket out j @ [k] else bucket out j)"
  unfolding broadcast_def by (induction ms arbitrary: out) auto

lemma start_buckets [simp]: "keys (start_buckets ms) = set ms" "bucket (start_buckets ms) m = []"
proof -
  have "keys (fold (\<lambda>m. hm_entry [] m (\<lambda>ks. ks)) ms out) = set ms \<union> keys out
      \<and> (\<forall>m. bucket (fold (\<lambda>m. hm_entry [] m (\<lambda>ks. ks)) ms out) m = bucket out m)" for out
    by (induction ms arbitrary: out) (auto simp: keys_def bucket_def dom_def split: option.splits)
  from this [of "[]"] show "keys (start_buckets ms) = set ms" "bucket (start_buckets ms) m = []"
    by (simp_all add: start_buckets_def keys_def bucket_def)
qed

section \<open>The flattening of conditions\<close>

lemma broadcast_all:
  assumes "distinct ms" "keys out = set ms"
  shows "keys (broadcast ms k out) = set ms" "\<forall>m \<in> set ms. bucket (broadcast ms k out) m = bucket out m @ [k]"
  using assms by (simp_all add: bucket_broadcast)

definition flattened ::
  "'f bridge_env \<Rightarrow> modality list \<Rightarrow> 'f vcl_condition list \<Rightarrow> buckets \<Rightarrow> buckets \<Rightarrow> bool" where
  "flattened env ms cs out out' \<longleftrightarrow>
     keys out' = set ms \<and> (\<forall>m \<in> set ms. bucket out' m = bucket out m @ node_conditions env (set ms) m cs)"

lemma flattened_broadcast:
  assumes "distinct ms" "keys out = set ms" "\<And>m. m \<in> set ms \<Longrightarrow> at_node env (set ms) m c = [k]"
  shows "flattened env ms [c] out (broadcast ms k out)"
  using broadcast_all [OF assms(1,2)] assms(3) by (simp add: flattened_def)

lemma flattened_leaf:
  assumes tk: "map_simple_condition env s = Inr (t, k)"
    and flat: "flatten_conditions env (VSimple s) ms out = Inr out'" and ms: "distinct ms" "keys out = set ms"
  shows "flattened env ms [VSimple s] out out'"
proof (cases t)
  case None
  then have "out' = broadcast ms k out" using flat tk by simp
  then show ?thesis using tk None by (auto intro!: flattened_broadcast [OF ms])
next
  case (Some m)
  show ?thesis
  proof (cases "m \<in> set ms")
    case True
    then have "out' = push_condition m k out" using flat tk Some ms(2) keys_iff [of m out] by simp
    then show ?thesis using True ms(2) tk Some by (simp add: flattened_def insert_absorb)
  next
    case False
    then have "map_of out m = None" using ms(2) keys_iff [of m out] by simp
    then have "out' = broadcast ms (foreign_predicate env m k) out" using flat tk Some by simp
    then show ?thesis using False tk Some by (auto intro!: flattened_broadcast [OF ms])
  qed
qed

lemma flatten_exact:
  assumes "flatten_conditions env c ms out = Inr out'" "distinct ms" "keys out = set ms"
  shows "flattened env ms (conjuncts c) out out'"
  using assms
proof (induction c arbitrary: out out')
  case (VAnd l r)
  obtain mid where mid: "flatten_conditions env l ms out = Inr mid" and rest: "flatten_conditions env r ms mid = Inr out'"
    using VAnd.prems(1) by (auto split: sum.splits)
  show ?case
    using VAnd.IH(1) [OF mid VAnd.prems(2,3)] VAnd.IH(2) [OF rest VAnd.prems(2)] by (simp add: flattened_def)
next
  case (VOr l r)
  then show ?case by (auto intro!: flattened_broadcast)
next
  case (VNot c)
  then show ?case by (auto intro!: flattened_broadcast)
next
  case (VSimple s)
  then obtain t k where tk: "map_simple_condition env s = Inr (t, k)"
    by (cases "map_simple_condition env s") auto
  show ?case using flattened_leaf [OF tk VSimple.prems] by simp
qed

text \<open>It fails exactly on a leaf that names \<open>All\<close> where one modality is needed, whatever the buckets are.\<close>

fun needs_one_modality :: "'f vcl_condition \<Rightarrow> bool" where
  "needs_one_modality (VSimple s) \<longleftrightarrow>
     (case s of
        ModalityDrift m _ \<Rightarrow> m = VAll
      | ModalityExists m \<Rightarrow> m = VAll
      | ModalityNotExists m \<Rightarrow> m = VAll
      | _ \<Rightarrow> False)"
| "needs_one_modality _ \<longleftrightarrow> False"

definition all_error :: planner_error where
  "all_error = InvalidConfig ''All modality should be expanded before individual mapping''"

lemma to_planner_cases: "to_planner v = Inl e \<longleftrightarrow> v = VAll \<and> e = all_error"
  by (cases v) (auto simp: all_error_def)

lemma map_sum_Inl: "map_sum id f x = Inl e \<longleftrightarrow> x = Inl e"
  by (cases x) simp_all

lemma map_simple_error:
  "map_simple_condition env s = Inl e \<longleftrightarrow> needs_one_modality (VSimple s) \<and> e = all_error"
  by (cases s) (simp_all add: Let_def map_sum_Inl to_planner_cases)

lemma flatten_leaf_error:
  "flatten_conditions env (VSimple s) ms out = Inl e \<longleftrightarrow> map_simple_condition env s = Inl e"
  by (simp split: sum.split prod.split option.split)

lemma flatten_fails:
  "(\<exists>e. flatten_conditions env c ms out = Inl e) \<longleftrightarrow> (\<exists>x \<in> set (conjuncts c). needs_one_modality x)"
proof (induction c arbitrary: out)
  case (VAnd l r)
  show ?case
  proof (cases "flatten_conditions env l ms out")
    case (Inl e)
    then show ?thesis using VAnd.IH(1) [of out] by auto
  next
    case (Inr mid)
    then show ?thesis using VAnd.IH(1) [of out] VAnd.IH(2) [of mid] by auto
  qed
next
  case (VSimple s)
  show ?case
    using map_simple_error [of env s] unfolding flatten_leaf_error by (simp del: needs_one_modality.simps)
qed simp_all

lemma flatten_error_all: "flatten_conditions env c ms out = Inl e \<Longrightarrow> e = all_error"
proof (induction c arbitrary: out)
  case (VAnd l r)
  then show ?case by (auto split: sum.splits)
next
  case (VSimple s)
  then show ?case using map_simple_error [of env s e] unfolding flatten_leaf_error by simp
qed simp_all

section \<open>The nodes\<close>

lemma bucket_push_proofs:
  "bucket (push_proofs (proof_specs q) out) m = bucket out m @ proof_conditions q m"
proof -
  have "bucket (fold (\<lambda>p. push_condition Semantic (ProofVerification (contract_name p))) ps out) m
      = bucket out m @ (if m = Semantic then map (\<lambda>p. ProofVerification (contract_name p)) ps else [])" for ps
    by (induction ps arbitrary: out) auto
  note fold = this
  show ?thesis by (cases "proof_specs q") (simp_all add: push_proofs_def proof_conditions_def fold)
qed

definition node_of :: "buckets \<Rightarrow> (modality \<times> string list) list \<Rightarrow> modality \<Rightarrow> plan_node" where
  "node_of cm pm m =
     \<lparr>pn_modality = m, pn_conditions = bucket cm m,
      pn_projections = (case map_of pm m of Some ns \<Rightarrow> ns | None \<Rightarrow> []), early_limit = None\<rparr>"

lemma node_of_simps [simp]: "pn_modality (node_of cm pm m) = m" "pn_conditions (node_of cm pm m) = bucket cm m"
  by (simp_all add: node_of_def)

lemma assemble_map: "distinct ms \<Longrightarrow> assemble cm pm ms = map (node_of cm pm) ms"
proof (induction ms arbitrary: cm)
  case (Cons m ms)
  have "map (node_of (AList.delete m cm) pm) ms = map (node_of cm pm) ms"
    using Cons.prems by (auto simp: node_of_def bucket_def)
  then show ?case using Cons by (simp add: node_of_def bucket_def)
qed simp

lemma retain_first_distinct:
  "distinct (retain_first seen xs) \<and> set (retain_first seen xs) = set xs - set seen"
  by (induction xs arbitrary: seen) auto

lemma active_of_set: "m \<in> set (active_of vs) \<longleftrightarrow> VAll \<in> set vs \<or> Inr m \<in> to_planner ` set vs"
  by (simp add: active_of_def all_modalities_complete)

lemma active_of_empty: "active_of vs = [] \<longleftrightarrow> vs = []"
proof (cases vs)
  case (Cons v ws)
  have "\<exists>m. m \<in> set (active_of vs)"
    unfolding active_of_set Cons by (cases v) auto
  then show ?thesis using Cons by auto
qed (simp add: active_of_def)

lemma expand_set: "\<exists>xs. expand_modalities vs = Inr xs \<and> set xs = set (active_of vs)"
proof (induction vs rule: expand_modalities.induct)
  case 1
  show ?case by (simp add: active_of_def)
next
  case (2 vs)
  then show ?case using all_modalities_complete by (auto simp: set_eq_iff active_of_set)
qed (auto simp: set_eq_iff active_of_set image_iff)

lemma resolve_active:
  obtains ms where "resolve_modalities vs = Inr ms" "distinct ms" "set ms = set (active_of vs)"
proof -
  obtain xs where "expand_modalities vs = Inr xs" "set xs = set (active_of vs)" using expand_set by blast
  then have "resolve_modalities vs = Inr (retain_first [] xs)" "distinct (retain_first [] xs)"
    "set (retain_first [] xs) = set (active_of vs)"
    using retain_first_distinct [of "[]" xs] by (simp_all add: resolve_modalities_def)
  then show thesis by (rule that)
qed

lemma sorted_nodes: "sorted (map pn_modality (sort_key (\<lambda>n. execution_priority (pn_modality n)) ns))"
proof -
  have "sorted (map (\<lambda>n. execution_priority (pn_modality n)) (sort_key (\<lambda>n. execution_priority (pn_modality n)) ns))"
    by (rule sorted_sort_key)
  then show ?thesis by (simp add: sorted_map priority_le)
qed

text \<open>The nodes of a successful conversion, unordered.\<close>

lemma to_logical_plan_Inr:
  assumes "to_logical_plan env q = Inr lp"
  obtains ms out where "distinct ms" "set ms = set (active_of (vq_modalities q))" "ms \<noteq> []"
    "lp_nodes lp = sort_key (\<lambda>n. execution_priority (pn_modality n))
       (map (node_of (push_proofs (proof_specs q) out) (build_projection_map ms (projections q))) ms)"
    "\<And>m. m \<in> set ms \<Longrightarrow> bucket out m = node_conditions env (set ms) m (where_conjuncts q)"
    "\<And>c. c \<in> set (where_conjuncts q) \<Longrightarrow> \<not> needs_one_modality c"
proof -
  obtain ms where ms: "resolve_modalities (vq_modalities q) = Inr ms" "distinct ms"
    "set ms = set (active_of (vq_modalities q))"
    by (rule resolve_active)
  have ne: "ms \<noteq> []" using assms ms(1) by (auto simp: to_logical_plan_def)
  let ?start = "case where_clause q of None \<Rightarrow> Inr (start_buckets ms)
    | Some c \<Rightarrow> flatten_conditions env c ms (start_buckets ms)"
  obtain src where src: "map_source (vq_source q) = Inr src"
    using assms ms(1) ne by (cases "map_source (vq_source q)") (auto simp: to_logical_plan_def)
  obtain out where out: "?start = Inr out"
    using assms ms(1) ne src by (cases ?start) (auto simp: to_logical_plan_def)
  have "bucket out m = node_conditions env (set ms) m (where_conjuncts q)" if "m \<in> set ms" for m
  proof (cases "where_clause q")
    case None
    then show ?thesis using out by (auto simp: where_conjuncts_def node_conditions_def)
  next
    case (Some c)
    then have "flatten_conditions env c ms (start_buckets ms) = Inr out" using out by simp
    from flatten_exact [OF this ms(2)] show ?thesis using Some that by (simp add: flattened_def where_conjuncts_def)
  qed
  moreover have "\<not> needs_one_modality c" if "c \<in> set (where_conjuncts q)" for c
  proof (cases "where_clause q")
    case (Some w)
    then have "\<nexists>e. flatten_conditions env w ms (start_buckets ms) = Inl e" using out by simp
    then show ?thesis using flatten_fails [of env w] Some that by (auto simp: where_conjuncts_def)
  qed (use that in \<open>simp add: where_conjuncts_def\<close>)
  ultimately show thesis
    using that [of ms out] assms ms ne src out by (auto simp: to_logical_plan_def assemble_map)
qed

lemma conjunct_no_and: "c \<in> set (conjuncts w) \<Longrightarrow> c \<noteq> VAnd l r"
  by (induction w) auto

lemma conjunct_reaches:
  assumes "c \<in> set (where_conjuncts q)" "\<not> needs_one_modality c" "M \<noteq> {}"
  shows "\<exists>m \<in> M. at_node env M m c \<noteq> []"
proof -
  have "c \<noteq> VAnd l r" for l r
    using assms(1) conjunct_no_and by (auto simp: where_conjuncts_def split: option.splits)
  moreover have ?thesis if c: "c = VSimple s" for s
  proof -
    obtain t k where tk: "map_simple_condition env s = Inr (t, k)"
      using assms(2) map_simple_error [of env s] unfolding c by (cases "map_simple_condition env s") auto
    show ?thesis
      using assms(3) tk unfolding c by (cases t; cases "the t \<in> M") auto
  qed
  ultimately show ?thesis using assms(3) by (cases c) auto
qed

lemma plan_nodes:
  assumes "to_logical_plan env q = Inr lp"
  defines "M \<equiv> set (active_of (vq_modalities q))"
  shows "map pn_modality (lp_nodes lp) = sorted_list_of_set M"
    and "\<forall>node \<in> set (lp_nodes lp). pn_conditions node =
      node_conditions env M (pn_modality node) (where_conjuncts q) @ proof_conditions q (pn_modality node)"
    and "\<forall>c \<in> set (where_conjuncts q). \<exists>node \<in> set (lp_nodes lp). \<exists>k \<in> set (pn_conditions node).
      k \<in> set (at_node env M (pn_modality node) c)"
proof -
  obtain ms out where ms: "distinct ms" "set ms = set (active_of (vq_modalities q))" "ms \<noteq> []"
    and nodes: "lp_nodes lp = sort_key (\<lambda>n. execution_priority (pn_modality n))
       (map (node_of (push_proofs (proof_specs q) out) (build_projection_map ms (projections q))) ms)"
    and buckets: "\<And>m. m \<in> set ms \<Longrightarrow> bucket out m = node_conditions env (set ms) m (where_conjuncts q)"
    and leaves: "\<And>c. c \<in> set (where_conjuncts q) \<Longrightarrow> \<not> needs_one_modality c"
    by (rule to_logical_plan_Inr [OF assms(1)]) (blast intro: that)
  let ?nodes = "map (node_of (push_proofs (proof_specs q) out) (build_projection_map ms (projections q))) ms"
  have set_nodes: "set (lp_nodes lp) = set ?nodes" unfolding nodes by simp
  have mods: "mset (map pn_modality (lp_nodes lp)) = mset ms"
    unfolding nodes by (simp add: image_mset.compositionality comp_def)
  then have "distinct (map pn_modality (lp_nodes lp))" using ms(1) mset_eq_imp_distinct_iff by blast
  moreover have "set (map pn_modality (lp_nodes lp)) = set ms" using mods by (rule mset_eq_setD)
  moreover have "sorted (map pn_modality (lp_nodes lp))" unfolding nodes by (rule sorted_nodes)
  ultimately have order: "map pn_modality (lp_nodes lp) = sorted_list_of_set (set ms)"
    by (metis sorted_list_of_set_sort_remdups distinct_remdups_id sorted_sort_id)
  have conds: "pn_conditions node = node_conditions env (set ms) (pn_modality node) (where_conjuncts q)
      @ proof_conditions q (pn_modality node) \<and> pn_modality node \<in> set ms"
    if "node \<in> set (lp_nodes lp)" for node
    using that buckets unfolding set_nodes by (auto simp: bucket_push_proofs)
  have "\<exists>node \<in> set (lp_nodes lp). \<exists>k \<in> set (pn_conditions node). k \<in> set (at_node env (set ms) (pn_modality node) c)"
    if c: "c \<in> set (where_conjuncts q)" for c
  proof -
    obtain m k where m: "m \<in> set ms" "k \<in> set (at_node env (set ms) m c)"
      using conjunct_reaches [OF c leaves [OF c], of "set ms" env] ms(3) by (fastforce simp: neq_Nil_conv)
    have "node_of (push_proofs (proof_specs q) out) (build_projection_map ms (projections q)) m \<in> set (lp_nodes lp)"
      unfolding set_nodes using m(1) by simp
    then obtain node where node: "node \<in> set (lp_nodes lp)" "pn_modality node = m" by force
    then have "k \<in> set (pn_conditions node)" using conds m(2) c by (auto simp: node_conditions_def)
    then show ?thesis using node m(2) by blast
  qed
  then show "\<forall>c \<in> set (where_conjuncts q). \<exists>node \<in> set (lp_nodes lp). \<exists>k \<in> set (pn_conditions node).
      k \<in> set (at_node env M (pn_modality node) c)"
    unfolding M_def ms(2) by blast
  show "map pn_modality (lp_nodes lp) = sorted_list_of_set M" using order unfolding M_def ms(2) .
  show "\<forall>node \<in> set (lp_nodes lp). pn_conditions node =
      node_conditions env M (pn_modality node) (where_conjuncts q) @ proof_conditions q (pn_modality node)"
    using conds unfolding M_def ms(2) by blast
qed

section \<open>Properties\<close>

text \<open>
  A converted query has one node for each modality it asks for, \<open>All\<close> standing for the six, in the order
  of execution. The conditions of a node are exactly what the conjuncts of the WHERE clause mean for its
  modality, in order, and behind them, on the semantic node, the proof obligations; every conjunct
  reaches some node.
\<close>

theorem plan_nodes_exact:
  assumes "to_logical_plan env q = Inr lp"
  shows "map pn_modality (lp_nodes lp) = sorted_list_of_set (set (active_of (vq_modalities q)))
    \<and> (\<forall>node \<in> set (lp_nodes lp). pn_conditions node =
          node_conditions env (set (active_of (vq_modalities q))) (pn_modality node) (where_conjuncts q)
          @ proof_conditions q (pn_modality node))
    \<and> (\<forall>c \<in> set (where_conjuncts q). \<exists>node \<in> set (lp_nodes lp). \<exists>k \<in> set (pn_conditions node).
          k \<in> set (at_node env (set (active_of (vq_modalities q))) (pn_modality node) c))"
  using plan_nodes [OF assms] by blast

text \<open>
  C34: The conversion fails exactly when the query asks for no modality, reads a store for \<open>All\<close>, or has a
  conjunct about the drift or the presence of \<open>All\<close>; an empty list of modalities is reported first.
\<close>

theorem conversion_fails_exactly:
  "to_logical_plan env q = Inl e \<longleftrightarrow>
     vq_modalities q = [] \<and> e = EmptyPlan
     \<or> vq_modalities q \<noteq> [] \<and> e = all_error
       \<and> (vq_source q = VStore VAll \<or> (\<exists>c \<in> set (where_conjuncts q). needs_one_modality c))"
proof -
  obtain ms where ms: "resolve_modalities (vq_modalities q) = Inr ms" "distinct ms"
    "set ms = set (active_of (vq_modalities q))"
    by (rule resolve_active)
  have empty: "ms = [] \<longleftrightarrow> vq_modalities q = []"
    using ms(3) active_of_empty [of "vq_modalities q"] by (metis set_empty)
  have source: "map_source (vq_source q) = Inl e' \<longleftrightarrow> vq_source q = VStore VAll \<and> e' = all_error" for e'
    by (cases "vq_source q") (auto simp: map_sum_Inl to_planner_cases)
  let ?start = "case where_clause q of None \<Rightarrow> Inr (start_buckets ms)
    | Some c \<Rightarrow> flatten_conditions env c ms (start_buckets ms)"
  have wh: "?start = Inl e' \<longleftrightarrow> (\<exists>c \<in> set (where_conjuncts q). needs_one_modality c) \<and> e' = all_error" for e'
  proof (cases "where_clause q")
    case (Some c)
    then show ?thesis
      using flatten_fails [of env c ms "start_buckets ms"] flatten_error_all [of env c ms "start_buckets ms"]
      by (auto simp: where_conjuncts_def)
  qed (simp add: where_conjuncts_def)
  show ?thesis
  proof (cases "ms = []")
    case True
    then show ?thesis using ms(1) empty by (auto simp: to_logical_plan_def)
  next
    case False
    have conv: "to_logical_plan env q = and_then (map_source (vq_source q)) (\<lambda>src. and_then ?start (\<lambda>out.
        Inr \<lparr>lp_source = src,
          lp_nodes = sort_key (\<lambda>n. execution_priority (pn_modality n))
            (assemble (push_proofs (proof_specs q) out) (build_projection_map ms (projections q)) ms),
          lp_post = post_processing_of q\<rparr>))"
      using False ms(1) by (simp add: to_logical_plan_def)
    show ?thesis
    proof (cases "map_source (vq_source q)")
      case (Inl e')
      then show ?thesis unfolding conv using source [of e'] False empty by auto
    next
      case (Inr src)
      then have src: "vq_source q \<noteq> VStore VAll" using source [of all_error] by auto
      show ?thesis
        unfolding conv Inr and_then_simps
        using wh [of e] src False empty by (cases ?start) auto
    qed
  qed
qed

lemma field_operators_confused:
  "map_simple_condition env (FieldCondition f ''!='' v) = map_simple_condition env (FieldCondition f ''='' v)"
  "map_simple_condition env (FieldCondition f ''<'' v) = map_simple_condition env (FieldCondition f ''>'' v)"
  by (simp_all only: map_simple_condition.simps Let_def) simp_all

lemma having_selectors:
  "vq_modalities (q\<lparr>having := h\<rparr>) = vq_modalities q" "vq_source (q\<lparr>having := h\<rparr>) = vq_source q"
  "where_clause (q\<lparr>having := h\<rparr>) = where_clause q" "projections (q\<lparr>having := h\<rparr>) = projections q"
  "aggregates (q\<lparr>having := h\<rparr>) = aggregates q" "group_by (q\<lparr>having := h\<rparr>) = group_by q"
  "proof_specs (q\<lparr>having := h\<rparr>) = proof_specs q" "order_by (q\<lparr>having := h\<rparr>) = order_by q"
  "vq_limit (q\<lparr>having := h\<rparr>) = vq_limit q" "vq_offset (q\<lparr>having := h\<rparr>) = vq_offset q"
  by simp_all

lemma proof_selectors:
  "vq_modalities (q\<lparr>proof_specs := ps\<rparr>) = vq_modalities q" "vq_source (q\<lparr>proof_specs := ps\<rparr>) = vq_source q"
  "where_clause (q\<lparr>proof_specs := ps\<rparr>) = where_clause q" "projections (q\<lparr>proof_specs := ps\<rparr>) = projections q"
  "aggregates (q\<lparr>proof_specs := ps\<rparr>) = aggregates q" "group_by (q\<lparr>proof_specs := ps\<rparr>) = group_by q"
  "proof_specs (q\<lparr>proof_specs := ps\<rparr>) = ps" "order_by (q\<lparr>proof_specs := ps\<rparr>) = order_by q"
  "vq_limit (q\<lparr>proof_specs := ps\<rparr>) = vq_limit q" "vq_offset (q\<lparr>proof_specs := ps\<rparr>) = vq_offset q"
  by simp_all

lemma having_dropped: "to_logical_plan env (q\<lparr>having := h\<rparr>) = to_logical_plan env q"
  unfolding to_logical_plan_def post_processing_of_def having_selectors ..

lemma proof_nodes_unchanged:
  assumes "Semantic \<notin> set ms" "distinct ms"
  shows "assemble (push_proofs ps out) pm ms = assemble out pm ms"
proof -
  have "bucket (push_proofs ps out) m = bucket out m" if "m \<in> set ms" for m
  proof -
    have "m \<noteq> Semantic" using assms(1) that by auto
    then show ?thesis
      using bucket_push_proofs [where q = "undefined\<lparr>proof_specs := ps\<rparr>" and out = out and m = m]
      by (simp add: proof_conditions_def)
  qed
  then show ?thesis using assms(2) by (simp add: assemble_map node_of_def)
qed

lemma proofs_dropped:
  assumes "Semantic \<notin> set (active_of (vq_modalities q))"
  shows "to_logical_plan env (q\<lparr>proof_specs := ps\<rparr>) = to_logical_plan env (q\<lparr>proof_specs := None\<rparr>)"
proof -
  obtain ms where ms: "resolve_modalities (vq_modalities q) = Inr ms" "distinct ms"
    "set ms = set (active_of (vq_modalities q))"
    by (rule resolve_active)
  have "assemble (push_proofs x out) pm ms = assemble out pm ms" for x out pm
    using proof_nodes_unchanged assms ms(2,3) by simp
  then show ?thesis
    unfolding to_logical_plan_def post_processing_of_def proof_selectors ms(1) and_then_simps by presburger
qed

text \<open>
  Clauses that change nothing: HAVING; the proofs of a query that does not ask for the semantic modality;
  the difference between \<open>=\<close> and \<open>!=\<close> and between \<open><\<close> and \<open>>\<close> on a field.
\<close>

theorem clauses_dropped:
  "to_logical_plan env (q\<lparr>having := h\<rparr>) = to_logical_plan env q
    \<and> (Semantic \<notin> set (active_of (vq_modalities q)) \<longrightarrow>
         to_logical_plan env (q\<lparr>proof_specs := ps\<rparr>) = to_logical_plan env (q\<lparr>proof_specs := None\<rparr>))
    \<and> map_simple_condition env (FieldCondition f ''!='' v) = map_simple_condition env (FieldCondition f ''='' v)
    \<and> map_simple_condition env (FieldCondition f ''<'' v) = map_simple_condition env (FieldCondition f ''>'' v)"
  by (intro conjI impI having_dropped proofs_dropped field_operators_confused)


section \<open>An example\<close>

definition ex_bridge_env :: "rat bridge_env" where
  "ex_bridge_env = \<lparr>br_planner = rat_env, br_simple_debug = (\<lambda>_. ''s''), br_json_string = (\<lambda>_. ''j'')\<rparr>"

definition ex_vcl_query :: "rat vcl_query" where
  "ex_vcl_query = ex_query"

definition ex_vcl_plan :: logical_plan where
  "ex_vcl_plan = projr (to_logical_plan ex_bridge_env ex_vcl_query)"

lemma ex_converted: "to_logical_plan ex_bridge_env ex_vcl_query = Inr ex_vcl_plan"
proof -
  have "\<not> isl (to_logical_plan ex_bridge_env ex_vcl_query)" by code_simp
  then show ?thesis by (simp add: ex_vcl_plan_def)
qed

theorem plan_nodes_exact_witness:
  "map pn_modality (lp_nodes ex_vcl_plan) = [Document, Graph]
     \<and> (\<exists>node \<in> set (lp_nodes ex_vcl_plan). Fulltext ''t'' \<in> set (pn_conditions node))"
proof -
  have mods: "active_of (vq_modalities ex_vcl_query) = [Graph, Document]" by code_simp
  have "sorted_list_of_set {Graph, Document} = [Document, Graph]" by code_simp
  then have "map pn_modality (lp_nodes ex_vcl_plan) = [Document, Graph]"
    using plan_nodes_exact [OF ex_converted] by (simp add: mods)
  moreover have "VSimple (FulltextContains ''t'') \<in> set (where_conjuncts ex_vcl_query)"
    by (simp add: where_conjuncts_def ex_vcl_query_def ex_query_def)
  then have "\<exists>node \<in> set (lp_nodes ex_vcl_plan). \<exists>k \<in> set (pn_conditions node).
      k \<in> set (at_node ex_bridge_env (set (active_of (vq_modalities ex_vcl_query))) (pn_modality node)
        (VSimple (FulltextContains ''t'')))"
    using plan_nodes_exact [OF ex_converted] by blast
  then have "\<exists>node \<in> set (lp_nodes ex_vcl_plan). Fulltext ''t'' \<in> set (pn_conditions node)"
    by (auto simp: mods split: if_splits)
  ultimately show ?thesis by blast
qed

theorem clauses_dropped_witness:
  "to_logical_plan ex_bridge_env (ex_vcl_query\<lparr>proof_specs := None\<rparr>) = to_logical_plan ex_bridge_env ex_vcl_query"
proof -
  have "Semantic \<notin> set (active_of (vq_modalities ex_vcl_query))" by code_simp
  then have "to_logical_plan ex_bridge_env (ex_vcl_query\<lparr>proof_specs := proof_specs ex_vcl_query\<rparr>)
      = to_logical_plan ex_bridge_env (ex_vcl_query\<lparr>proof_specs := None\<rparr>)"
    using clauses_dropped [where env = ex_bridge_env and q = ex_vcl_query and ps = "proof_specs ex_vcl_query"] by blast
  moreover have "ex_vcl_query\<lparr>proof_specs := proof_specs ex_vcl_query\<rparr> = ex_vcl_query" by (cases ex_vcl_query) simp
  ultimately show ?thesis by simp
qed


end
