(* ===== verification/Spec2Isabelle.thy ===== *)
theory Spec2Isabelle
  imports Wal_Props Txn_Props Api_Txn Auth Provenance Temporal Storage Plan_Cache Graph_Store
    Octad_Recovery Zkp_Bridge Circuit_Props Verification_Keys Ram_Promotion Conflict_Props Regeneration
    Vcl_Plan
begin

text \<open>
  \<^bold>\<open>VeriSimDB, the Rust core\<close>

  The repository holds several databases; its Rust program is VeriSimDB under
  \<open>src/verisimdb/rust-core\<close>, a store of entities (octads) with eight representations each. This
  library models the parts of it that carry its own logic and proves what makes them correct. All
  paths below are relative to \<open>src/verisimdb/rust-core\<close>.

  \<^bold>\<open>The parts and how they interact\<close>

  \<^item> Every write of an entity is logged (\<open>verisim-wal\<close>), made under locks and versions
    (\<open>verisim-octad/src/transaction.rs\<close>) and recorded as a version (\<open>verisim-temporal\<close>) and a link of
    a hash chain (\<open>verisim-provenance\<close>).
  \<^item> When the representations of an entity drift apart, one is repaired from another
    (\<open>verisim-normalizer/src/regeneration.rs\<close>), or a conflict is opened and settled by a policy or a
    person (\<open>conflict.rs\<close>).
  \<^item> A query arrives as the JSON of a syntax tree, becomes a logical plan of one node per modality
    (\<open>verisim-planner/src/vcl_bridge.rs\<close>) and a physical plan of ordered steps with their costs
    (\<open>optimizer.rs\<close>, \<open>cost.rs\<close>, \<open>stats.rs\<close>); statements are planned once and cached (\<open>prepared.rs\<close>).
  \<^item> Persistent stores sit on a key-value interface (\<open>verisim-storage\<close>).
  \<^item> The HTTP interface puts authentication, rate limiting and access control in front of all this
    (\<open>verisim-api/src/auth.rs\<close>, \<open>rbac.rs\<close>) and buffers operations in transactions of its own
    (\<open>verisim-api/src/transaction.rs\<close>).

  \<^bold>\<open>Theories\<close>

  \<^item> \<open>Prelude\<close>: machine integers, bytes, \<open>HashMap\<close> and \<open>BTreeMap\<close> as association lists, strings, and the
    contracts several components share, \<open>keyed_store\<close> and \<open>step_system\<close>. \<open>Utf8\<close>: the conversions from
    bytes to strings. \<open>Text\<close>: strings as sequences of characters.
  \<^item> \<open>Wal_Entry\<close>, \<open>Wal_Segment\<close>, \<open>Wal_Reader\<close>, \<open>Wal_Writer\<close>: the files \<open>entry.rs\<close>, \<open>segment.rs\<close>,
    \<open>reader.rs\<close>, \<open>writer.rs\<close> of \<open>verisim-wal/src\<close>, one definition per function; \<open>Wal_Log\<close> relates a
    directory to the log it holds, under every operation and every crash; \<open>Wal_Props\<close> states the
    properties of the log.
  \<^item> \<open>Lock_Table\<close>, \<open>Txn_Manager\<close>, \<open>Txn_Concurrent\<close>, \<open>Txn_Props\<close>: \<open>verisim-octad/src/transaction.rs\<close>. The
    operations are functions on \<open>txn_manager\<close>; \<open>conc_step\<close> interleaves the phases of the calls that
    take one lock after another.
  \<^item> \<open>Api_Txn\<close>, \<open>Rbac\<close>, \<open>Auth\<close>: the files \<open>transaction.rs\<close>, \<open>rbac.rs\<close>, \<open>auth.rs\<close> of \<open>verisim-api/src\<close>.
  \<^item> \<open>Provenance\<close>, \<open>Temporal\<close>: \<open>lib.rs\<close> of the two crates and \<open>diff.rs\<close>.
  \<^item> \<open>Storage\<close>: \<open>error.rs\<close>, \<open>backend.rs\<close>, \<open>memory.rs\<close>, \<open>typed.rs\<close> of \<open>verisim-storage/src\<close>.
  \<^item> \<open>Plan_Cache\<close>: \<open>verisim-planner/src/prepared.rs\<close>.
  \<^item> \<open>Modality_Store\<close>: the contract \<open>entity_store\<close> of a store with one value per entity, floating-point
    operations as a record of functions, ranked results. On it \<open>Graph_Store\<close>, \<open>Vector_Store\<close>,
    \<open>Tensor_Store\<close>, \<open>Spatial_Store\<close>, \<open>Document_Store\<close>, \<open>Semantic_Store\<close> and \<open>Zkp\<close>: the in-memory stores of
    \<open>lib.rs\<close> of the crates of the modalities, and \<open>zkp.rs\<close>.
  \<^item> \<open>Octad\<close>, \<open>Octad_Store\<close>: \<open>lib.rs\<close> and \<open>store.rs\<close> of \<open>verisim-octad/src\<close>, the store of entities over the
    modality stores, the transaction manager and the log. \<open>Write_Txn\<close>: the contract \<open>write_transactions\<close>
    of the transaction manager towards a write that runs alone. \<open>Octad_Spec\<close>: the abstract entity
    (\<open>entity_view\<close>) and the writes as functions on it; \<open>Octad_Write\<close>: that the writes implement them and
    what a failure leaves; \<open>Octad_Inv\<close>, \<open>Octad_Ops\<close>: the invariant, kept by every operation;
    \<open>Octad_Props\<close>: the properties; \<open>Octad_Recovery\<close>: the replay of the log and what it restores.
  \<^item> \<open>Authority\<close>, \<open>Regeneration\<close>: \<open>verisim-normalizer/src/regeneration.rs\<close>, the order of authority and
    the queue, and the engine over a record of functions that regenerates. \<open>Conflict\<close>,
    \<open>Conflict_Props\<close>: \<open>conflict.rs\<close>, each call as a decision under the first lock and two further
    steps; \<open>conflict_step\<close> interleaves them.
  \<^item> \<open>Query_Plan\<close>, \<open>Query_Cost\<close>, \<open>Optimizer\<close>: \<open>lib.rs\<close>, \<open>plan.rs\<close>, \<open>config.rs\<close>, \<open>stats.rs\<close>, \<open>cost.rs\<close>,
    \<open>optimizer.rs\<close> of \<open>verisim-planner/src\<close>. \<open>Vcl_Ast\<close>, \<open>Vcl_Codec\<close>: the syntax tree of queries, its
    decoding from JSON values, and the contract \<open>json_codec\<close> of a type that is decoded as it is
    encoded, interpreted for every type of the tree. \<open>Vcl_Bridge\<close>, \<open>Vcl_Plan\<close>: the conversion to a
    logical plan, and what the plan holds compared with a reference reading of the query.
  \<^item> \<open>Circuit\<close>, \<open>Circuit_Props\<close>: \<open>circuit_compiler.rs\<close> and \<open>circuit_registry.rs\<close> of
    \<open>verisim-semantic/src\<close>, and what a compiled circuit accepts. \<open>Zkp_Bridge\<close>, \<open>Verification_Keys\<close>:
    \<open>zkp_bridge.rs\<close> and \<open>verification_keys.rs\<close> there.
  \<^item> \<open>Ram_Promotion\<close>: \<open>verisim-octad/src/ram_promotion.rs\<close>.

  \<^bold>\<open>How the code is read\<close>

  A struct is a record, an enum a datatype, \<open>Result\<close> a sum with \<open>Inl\<close> for \<open>Err\<close>, a panic \<open>None\<close> of an
  option around the result. \<open>u8\<close>, \<open>u32\<close>, \<open>u64\<close> are words and wrap around; lengths and indices of vectors
  in memory are natural numbers. Reads of a clock, random identifiers, the environment and the
  functions of third-party crates (SHA-256, CRC-32, JSON, the range of dates) are arguments. A lock
  of the code makes the operation that holds it one step; an operation that takes several locks one
  after another is split into as many steps where its interleavings are studied. Loops are
  recursions on lists or carry a measure; no fuel is used.

  \<^bold>\<open>What the lemmas show\<close>

  Each component has an invariant that every operation keeps (through \<open>step_system\<close>) and a
  description of its results in terms of the calls made: the log refines a list of entries, the
  version store a list of versions per entity, the provenance store a list of events, typed stores
  one map from namespace and key to value, the octad store one view per entity, and the replay of
  the log the registry of the store that wrote it, a conflict resolver a set of conflicts that are
  each settled once, a key store a list of keys per circuit, the query bridge a reading of the WHERE clause as a list of conjuncts. Where the code does not do what it means to, the theorem
  states what it does, from the smallest assumptions under which it happens.

  \<^bold>\<open>Not modelled\<close>

  Query octads, the bridges to external provers, the approximate vector index, drift scores and the service that dispatches them, the regenerator that writes
  through the octad store, I/O errors of the file system, floating-point rounding (the operations
  on floats are arguments), the reports of plans and slow queries, the metrics and log messages, the
  text of JSON and the wording of its errors, the backends over third-party databases, the interactive
  shell, generated code, and the glue of HTTP, gRPC and GraphQL.
\<close>

end
